(* ===== verification/Aegir_Prelude.thy ===== *)
theory Aegir_Prelude
  imports Main "HOL-Library.Word"
begin

text \<open>
  Shared vocabulary of the development: the machine integer types of the C sources, the C
  conversions between them, the collections of simplification rules the component theories
  extend, generic lemmas on lists, maps and words, and the interface of a pair of mutually inverse
  conversions, which several components share.
\<close>

unbundle bit_operations_syntax

section \<open>Machine integers\<close>

type_synonym u8 = "8 word"
type_synonym u16 = "16 word"
type_synonym u32 = "32 word"
type_synonym u64 = "64 word"
type_synonym bytes = "u8 list"

named_theorems gsock_defs \<open>definitions of the socket layer, unfolded by its case analyses\<close>
named_theorems glue_defs \<open>definitions of the lwIP adapter, unfolded by its case analyses\<close>

text \<open>
  The C conversions the sources write as casts: \<open>u64_of_int\<close> is \<open>(unsigned long long) i\<close> of an
  \<open>int\<close> (sign extension, then wrap-around), \<open>int_of_u64\<close> is \<open>(int) w\<close> of a 64-bit value
  (truncation to 32 bits, read as two's complement).
\<close>

definition u64_of_int :: "int \<Rightarrow> u64" where
  "u64_of_int i = word_of_int i"

definition int_of_u64 :: "u64 \<Rightarrow> int" where
  "int_of_u64 w = sint (ucast w :: u32)"

lemma int_of_u64_small:
  assumes "w < 2 ^ 31"
  shows "int_of_u64 w = uint w"
proof -
  have "uint w < 2 ^ 31"
    using assms by (simp add: word_less_alt)
  then have "signed_take_bit 31 (uint w) = uint w"
    by (intro signed_take_bit_int_eq_self) (auto intro: order_trans [OF _ uint_ge_0])
  then show ?thesis
    by (simp add: int_of_u64_def signed_ucast_eq)
qed

lemma unat_u8: "unat (x :: u8) < 256"
  using unsigned_less [of x, where ?'a = nat] by simp

lemma uint_u32_u64: "uint (ucast (w :: u32) :: u64) = uint w"
  by (rule uint_up_ucast) (simp add: is_up)

lemma unat_u32_u64: "unat (ucast (w :: u32) :: u64) = unat w"
  by (simp only: unat_eq_nat_uint uint_u32_u64)

lemma sint_u32_small:
  assumes "(w :: u32) \<le> 0x7FFFFFFF"
  shows "sint w = uint w" and "uint w \<le> 0x7FFFFFFF"
proof -
  show hi: "uint w \<le> 0x7FFFFFFF" using assms by (simp add: word_le_def)
  have "signed_take_bit 31 (uint w) = uint w"
    using hi by (intro signed_take_bit_int_eq_self) (auto intro: order_trans [OF _ uint_ge_0])
  then show "sint w = uint w" by (simp add: sint_uint)
qed

section \<open>Search loops\<close>

text \<open>A \<open>for\<close> loop that returns the first index of a range that passes a test.\<close>

lemma find_upt_Some:
  "find P [a..<b] = Some i \<Longrightarrow> a \<le> i \<and> i < b \<and> P i \<and> (\<forall>j. a \<le> j \<and> j < i \<longrightarrow> \<not> P j)"
proof (induction "b - a" arbitrary: a)
  case 0
  then show ?case by simp
next
  case (Suc n)
  then have "a < b" by simp
  with Suc.prems have *: "(if P a then Some a else find P [Suc a..<b]) = Some i"
    by (simp add: upt_conv_Cons)
  show ?case
  proof (cases "P a")
    case True
    with * \<open>a < b\<close> show ?thesis by auto
  next
    case False
    then have "Suc a \<le> i \<and> i < b \<and> P i \<and> (\<forall>j. Suc a \<le> j \<and> j < i \<longrightarrow> \<not> P j)"
      using Suc * by (intro Suc.hyps(1)) auto
    with False show ?thesis by (metis Suc_leD le_antisym not_less_eq_eq)
  qed
qed

lemma find_upt_None: "find P [a..<b] = None \<longleftrightarrow> (\<forall>i. a \<le> i \<and> i < b \<longrightarrow> \<not> P i)"
  by (auto simp: find_None_iff)

section \<open>Injective maps\<close>

lemma inj_map_upd:
  assumes "inj_on m (dom m)" "m k = None" "v \<notin> ran m"
  shows "inj_on (m(k \<mapsto> v)) (dom (m(k \<mapsto> v)))"
proof (rule inj_onI)
  fix x y
  assume xy: "x \<in> dom (m(k \<mapsto> v))" "y \<in> dom (m(k \<mapsto> v))" "(m(k \<mapsto> v)) x = (m(k \<mapsto> v)) y"
  have nv: "m z \<noteq> Some v" for z using assms(3) by (auto simp: ran_def)
  have mono: "x \<in> dom m \<Longrightarrow> y \<in> dom m \<Longrightarrow> m x = m y \<Longrightarrow> x = y"
    using assms(1) by (rule inj_onD)
  show "x = y"
  proof (cases "x = k \<or> y = k")
    case True
    with xy(3) nv [of x] nv [of y] show ?thesis by (simp split: if_splits)
  next
    case False
    with xy have "x \<in> dom m" "y \<in> dom m" "m x = m y" by auto
    then show ?thesis by (rule mono)
  qed
qed

lemma inj_map_del:
  assumes "inj_on m (dom m)"
  shows "inj_on (m(k := None)) (dom (m(k := None)))"
proof (rule inj_onI)
  fix x y
  assume xy: "x \<in> dom (m(k := None))" "y \<in> dom (m(k := None))" "(m(k := None)) x = (m(k := None)) y"
  then have "x \<noteq> k" "y \<noteq> k" by (auto split: if_splits)
  with xy have "x \<in> dom m" "y \<in> dom m" "m x = m y" by auto
  then show "x = y" using inj_onD [OF assms] by blast
qed

lemma ran_map_del:
  assumes inj: "inj_on m (dom m)" and k: "m k = Some v"
  shows "ran (m(k := None)) = ran m - {v}"
proof -
  have other: "m a \<noteq> Some v" if "a \<noteq> k" for a
    using inj_onD [OF inj, of a k] that k by (metis domI)
  show ?thesis
  proof (intro set_eqI iffI)
    fix w assume "w \<in> ran (m(k := None))"
    then obtain a where a: "(m(k := None)) a = Some w" by (auto simp: ran_def)
    then have "a \<noteq> k" "m a = Some w" by (auto split: if_splits)
    with other show "w \<in> ran m - {v}" by (metis DiffI ranI singletonD)
  next
    fix w assume "w \<in> ran m - {v}"
    then obtain a where "m a = Some w" "w \<noteq> v" by (auto simp: ran_def)
    with k have "(m(k := None)) a = Some w" by (cases "a = k") simp_all
    then show "w \<in> ran (m(k := None))" by (rule ranI)
  qed
qed

section \<open>Mutually inverse conversions\<close>

text \<open>
  The interface of a conversion and its inverse: \<open>dec\<close> undoes \<open>enc\<close>, and \<open>enc\<close> undoes
  \<open>dec\<close> on the well-formed codes. Byte swapping, address packing and address printing are all
  instances.
\<close>

locale codec =
  fixes enc :: "'a \<Rightarrow> 'b"
    and dec :: "'b \<Rightarrow> 'a"
    and wf_code :: "'b \<Rightarrow> bool"
  assumes dec_enc: "dec (enc x) = x"
    and wf_enc: "wf_code (enc x)"
    and enc_dec: "wf_code y \<Longrightarrow> enc (dec y) = y"
begin

lemma enc_inject: "enc x = enc y \<longleftrightarrow> x = y"
  by (metis dec_enc)

lemma enc_eq_iff: "wf_code y \<Longrightarrow> enc x = y \<longleftrightarrow> x = dec y"
  by (metis dec_enc enc_dec)

lemma dec_inject: "wf_code x \<Longrightarrow> wf_code y \<Longrightarrow> dec x = dec y \<longleftrightarrow> x = y"
  by (metis enc_dec)

lemma enc_image: "range enc = Collect wf_code"
  by (auto simp: wf_enc) (metis enc_dec rangeI)

end

end
