(* ===== verification/Net_Bytes.thy ===== *)
theory Net_Bytes
  imports Aegir_Prelude
begin

text \<open>
  Byte order helpers of \<^verbatim>\<open>aegir_gsocket.c\<close>: \<open>ak_sw16\<close> swaps the two bytes of a port, and
  \<open>ak_addr_to_u32\<close>/\<open>ak_u32_to_addr\<close> convert between the four network order bytes of
  \<open>sin_addr\<close> and the host order packed address the bridge takes. Each pair is shown to be an
  instance of the \<open>codec\<close> interface.
\<close>

definition ak_sw16 :: "u16 \<Rightarrow> u16" where
  "ak_sw16 v = (drop_bit 8 v OR push_bit 8 v)"

definition ak_addr_to_u32 :: "bytes \<Rightarrow> u32" where
  "ak_addr_to_u32 b =
     push_bit 24 (ucast (b ! 0)) OR push_bit 16 (ucast (b ! 1))
     OR push_bit 8 (ucast (b ! 2)) OR ucast (b ! 3)"

definition ak_u32_to_addr :: "u32 \<Rightarrow> bytes" where
  "ak_u32_to_addr ip =
     [ucast (drop_bit 24 ip), ucast (drop_bit 16 ip), ucast (drop_bit 8 ip), ucast ip]"

text \<open>\<open>struct ak_sockaddr_in\<close>: the port and the address are kept in network order.\<close>

record ak_sockaddr_in =
  sin_family :: u16
  sin_port :: u16
  sin_addr :: bytes
  sin_zero :: bytes

text \<open>The bit algebra the conversions share: where a shifted byte lands.\<close>

lemmas byte_bits = bit_or_iff bit_push_bit_iff bit_drop_bit_eq bit_ucast_iff

lemma shift_back: "k \<le> n \<Longrightarrow> k + (n - k) = (n::nat)"
  by simp

lemma ak_sw16_sw16 [simp]: "ak_sw16 (ak_sw16 v) = v"
proof (rule bit_word_eqI)
  fix n assume "n < LENGTH(16)"
  then show "bit (ak_sw16 (ak_sw16 v)) n = bit v n"
    by (cases "n < 8") (auto simp: ak_sw16_def byte_bits shift_back)
qed

lemma length_ak_u32_to_addr [simp]: "length (ak_u32_to_addr ip) = 4"
  by (simp add: ak_u32_to_addr_def)

lemma ak_addr_to_u32_to_addr [simp]: "ak_addr_to_u32 (ak_u32_to_addr ip) = ip"
proof (rule bit_word_eqI)
  fix n assume "n < LENGTH(32)"
  then show "bit (ak_addr_to_u32 (ak_u32_to_addr ip)) n = bit ip n"
    by (cases "n < 8"; cases "n < 16"; cases "n < 24")
      (auto simp: ak_addr_to_u32_def ak_u32_to_addr_def byte_bits shift_back)
qed

lemma list_of_length_4:
  assumes "length xs = 4"
  shows "xs = [xs ! 0, xs ! 1, xs ! 2, xs ! 3]"
  using assms by (auto simp: numeral_eq_Suc length_Suc_conv)

lemma ak_addr_to_u32_bits:
  assumes "n < 8"
  shows "bit (ak_addr_to_u32 b) (n + 24) = bit (b ! 0) n"
    and "bit (ak_addr_to_u32 b) (n + 16) = bit (b ! 1) n"
    and "bit (ak_addr_to_u32 b) (n + 8) = bit (b ! 2) n"
    and "bit (ak_addr_to_u32 b) n = bit (b ! 3) n"
  using assms by (auto simp: ak_addr_to_u32_def byte_bits dest: bit_imp_le_length)

lemma ak_u32_to_addr_to_u32:
  assumes "length b = 4"
  shows "ak_u32_to_addr (ak_addr_to_u32 b) = b"
proof -
  have "ucast (drop_bit 24 (ak_addr_to_u32 b)) = b ! 0"
    "ucast (drop_bit 16 (ak_addr_to_u32 b)) = b ! 1"
    "ucast (drop_bit 8 (ak_addr_to_u32 b)) = b ! 2"
    "ucast (ak_addr_to_u32 b) = b ! 3"
    by (auto intro!: bit_word_eqI simp: bit_ucast_iff bit_drop_bit_eq add.commute
        ak_addr_to_u32_bits)
  then have "ak_u32_to_addr (ak_addr_to_u32 b) = [b ! 0, b ! 1, b ! 2, b ! 3]"
    by (simp add: ak_u32_to_addr_def)
  then show ?thesis
    using list_of_length_4 [OF assms] by simp
qed

interpretation sw16: codec ak_sw16 ak_sw16 "\<lambda>_. True"
  by unfold_locales simp_all

interpretation addr: codec ak_u32_to_addr ak_addr_to_u32 "\<lambda>b. length b = 4"
  by unfold_locales (simp_all add: ak_u32_to_addr_to_u32)

end
