(* ===== verification/Sock_Table.thy ===== *)
theory Sock_Table
  imports Net_Bytes
begin

text \<open>
  The data of \<^verbatim>\<open>aegir_gsocket.c\<close>: the socket record and the table of 256 descriptors, the
  interface to the netserv bridge (\<open>aknet_sock_*\<close>, the clock and the sleep system call), the
  global state the C file keeps, and the table operations \<open>ak_get\<close> and \<open>ak_alloc\<close>. The table is
  shown to implement the interface \<open>slot_table\<close>, on which the allocating calls rest.
\<close>

section \<open>Constants\<close>

definition AK_FD_FIRST :: int where "AK_FD_FIRST = 3"
definition AK_FD_MAX :: int where "AK_FD_MAX = 256"
definition AK_NOPT :: nat where "AK_NOPT = 8"
definition AK_MAX_PAYLOAD :: int where "AK_MAX_PAYLOAD = 996"
definition AK_TICK_HZ :: u64 where "AK_TICK_HZ = 10000000"
definition AK_SLICE :: u64 where "AK_SLICE = 50000"

abbreviation (input) AK_AF_INET :: int where "AK_AF_INET \<equiv> 2"
abbreviation (input) AK_SOCK_STREAM :: int where "AK_SOCK_STREAM \<equiv> 1"
abbreviation (input) AK_SOCK_DGRAM :: int where "AK_SOCK_DGRAM \<equiv> 2"
abbreviation (input) AK_IPPROTO_ICMP :: "'a::len word" where "AK_IPPROTO_ICMP \<equiv> 1"
abbreviation (input) AK_IPPROTO_TCP :: "'a::len word" where "AK_IPPROTO_TCP \<equiv> 6"
abbreviation (input) AK_IPPROTO_UDP :: "'a::len word" where "AK_IPPROTO_UDP \<equiv> 17"
abbreviation (input) AK_SOL_SOCKET :: int where "AK_SOL_SOCKET \<equiv> 1"
abbreviation (input) AK_SO_ERROR :: int where "AK_SO_ERROR \<equiv> 4"
abbreviation (input) AK_MSG_PEEK :: int where "AK_MSG_PEEK \<equiv> 2"
abbreviation (input) AK_FIONBIO :: int where "AK_FIONBIO \<equiv> 0x5421"
abbreviation (input) AK_FIONREAD :: int where "AK_FIONREAD \<equiv> 0x541B"
abbreviation (input) AK_ST_OK :: u64 where "AK_ST_OK \<equiv> 0"
abbreviation (input) AK_ST_TIMEOUT :: u64 where "AK_ST_TIMEOUT \<equiv> 1"
abbreviation (input) AK_ST_NOT_READY :: u64 where "AK_ST_NOT_READY \<equiv> 2"
abbreviation (input) AK_ST_BAD_ARGS :: u64 where "AK_ST_BAD_ARGS \<equiv> 3"

text \<open>
  The newlib error numbers the file stores into \<open>errno\<close>, and the two the library functions it
  calls store (\<open>strtol\<close> out of range, \<open>snprintf\<close> with an oversized buffer length).
\<close>

datatype errno_t =
  ENOERROR | EIO | EBADF | EWOULDBLOCK | EINVAL | EMFILE | ENOSPC | EPIPE | ENOSYS
| EOPNOTSUPP | ECONNRESET | ENOBUFS | EAFNOSUPPORT | ECONNREFUSED | EADDRINUSE | ENETDOWN
| ETIMEDOUT | EHOSTUNREACH | EDESTADDRREQ | EMSGSIZE | EADDRNOTAVAIL | ENOTCONN
| ERANGE | EOVERFLOW

text \<open>The sticky error words of \<open>Op_Poll\<close> (1 hairpin, 2 ARP, 4 refused, 5 timeout, 6 reset).\<close>

definition ak_sticky_errno :: "u64 \<Rightarrow> errno_t" where
  "ak_sticky_errno err =
     (if err = 0 then ENOERROR
      else if err = 1 then ECONNREFUSED
      else if err = 2 then EHOSTUNREACH
      else if err = 4 then ECONNREFUSED
      else if err = 5 then ETIMEDOUT
      else if err = 6 then ECONNRESET
      else EIO)"

section \<open>The bridge\<close>

text \<open>
  The functions the file imports: the \<open>aknet_sock_*\<close> exports of the client library, the raw
  sleep system call and the time register. They act on the rest of the system, whose state is
  the type parameter \<open>'w\<close>; every function that takes out-pointers returns what it stores
  through them after its status. \<open>br_recvfrom\<close> returns the bytes it stored into the buffer.
\<close>

record 'w bridge =
  br_endpoint :: "'w \<Rightarrow> u64"
  br_attach :: "u64 \<Rightarrow> 'w \<Rightarrow> 'w"
  br_socket :: "u64 \<Rightarrow> 'w \<Rightarrow> u64 \<times> u64 \<times> 'w"
  br_bind :: "u64 \<Rightarrow> u64 \<Rightarrow> 'w \<Rightarrow> u64 \<times> u64 \<times> 'w"
  br_connect :: "u64 \<Rightarrow> u32 \<Rightarrow> u64 \<Rightarrow> 'w \<Rightarrow> u64 \<times> 'w"
  br_listen :: "u64 \<Rightarrow> u64 \<Rightarrow> 'w \<Rightarrow> u64 \<times> 'w"
  br_accept :: "u64 \<Rightarrow> 'w \<Rightarrow> u64 \<times> u64 \<times> u32 \<times> u64 \<times> 'w"
  br_sendto :: "u64 \<Rightarrow> bytes \<Rightarrow> u64 \<Rightarrow> u32 \<Rightarrow> u64 \<Rightarrow> 'w \<Rightarrow> u64 \<times> 'w"
  br_recvfrom :: "u64 \<Rightarrow> u64 \<Rightarrow> u64 \<Rightarrow> 'w \<Rightarrow> u64 \<times> bytes \<times> u32 \<times> u64 \<times> u64 \<times> 'w"
  br_poll :: "u64 \<Rightarrow> 'w \<Rightarrow> u64 \<times> u64 \<times> u64 \<times> u64 \<times> 'w"
  br_close :: "u64 \<Rightarrow> 'w \<Rightarrow> u64 \<times> 'w"
  br_resolve :: "string \<Rightarrow> u64 \<Rightarrow> 'w \<Rightarrow> u64 \<times> u32 \<times> 'w"
  br_sleep_until :: "u64 \<Rightarrow> 'w \<Rightarrow> 'w"
  br_rdtime :: "'w \<Rightarrow> u64 \<times> 'w"

section \<open>Sockets and the table\<close>

text \<open>\<open>KIND_NONE\<close> is the zero the \<open>memset\<close> of a fresh slot leaves in \<open>kind\<close>.\<close>

datatype ak_kind = KIND_NONE | KIND_SOCK | KIND_SIGR | KIND_SIGW

text \<open>
  \<open>struct ak_sock\<close>. The one-byte flags are booleans; \<open>opts\<close> holds the first \<open>nopts\<close> entries of
  the option array as (level, name, value), so \<open>nopts\<close> is its length.
\<close>

record ak_sock =
  used :: bool
  kind :: ak_kind
  proto :: u8
  nonblock :: bool
  listening :: bool
  connected :: bool
  handle :: u64
  local_ip :: u32
  local_port :: u16
  peer_ip :: u32
  peer_port :: u16
  last_so_err :: u64
  partner :: int
  sig_count :: u32
  opts :: "(int \<times> int \<times> int) list"

definition ak_sock_zero :: ak_sock where
  "ak_sock_zero = \<lparr>used = False, kind = KIND_NONE, proto = 0, nonblock = False,
     listening = False, connected = False, handle = 0, local_ip = 0, local_port = 0,
     peer_ip = 0, peer_port = 0, last_so_err = 0, partner = 0, sig_count = 0, opts = []\<rparr>"

text \<open>\<open>struct hostent\<close> and \<open>struct servent\<close>, with the strings they point at.\<close>

record ak_hostent =
  h_name :: string
  h_aliases :: "string option list"
  h_addrtype :: int
  h_length :: int
  h_addr_list :: "bytes option list"

record ak_servent =
  s_name :: string
  s_aliases :: "string option list"
  s_port :: int
  s_proto :: string

text \<open>
  The file's static data, \<open>errno\<close>, and the system behind the bridge.
\<close>

record 'w gstate =
  ak_fds :: "ak_sock list"
  errno :: errno_t
  ak_h_errno :: int
  ak_he :: ak_hostent
  ak_se :: ak_servent
  world :: 'w

definition fail :: "errno_t \<Rightarrow> 'w gstate \<Rightarrow> int \<times> 'w gstate" where
  "fail e st = (-1, st\<lparr>errno := e\<rparr>)"

definition ak_get :: "'w gstate \<Rightarrow> int \<Rightarrow> ak_sock option" where
  "ak_get st fd =
     (if fd < AK_FD_FIRST \<or> fd \<ge> AK_FD_MAX \<or> \<not> used (ak_fds st ! nat fd) then None
      else Some (ak_fds st ! nat fd))"

text \<open>Stores through the pointer \<open>ak_get\<close> returned.\<close>

definition ak_put :: "'w gstate \<Rightarrow> int \<Rightarrow> ak_sock \<Rightarrow> 'w gstate" where
  "ak_put st fd s = st\<lparr>ak_fds := (ak_fds st)[nat fd := s]\<rparr>"

text \<open>The lowest free descriptor, in the order of the \<open>for\<close> loop.\<close>

definition ak_free_fd :: "ak_sock list \<Rightarrow> nat option" where
  "ak_free_fd fds = find (\<lambda>fd. \<not> used (fds ! fd)) [nat AK_FD_FIRST ..< nat AK_FD_MAX]"

definition ak_alloc :: "'w gstate \<Rightarrow> int \<times> 'w gstate" where
  "ak_alloc st =
     (case ak_free_fd (ak_fds st) of
        Some fd \<Rightarrow> (int fd, ak_put st (int fd) (ak_sock_zero\<lparr>used := True, partner := -1\<rparr>))
      | None \<Rightarrow> fail EMFILE st)"

definition ak_now :: "'w bridge \<Rightarrow> 'w gstate \<Rightarrow> u64 \<times> 'w gstate" where
  "ak_now br st = (let (t, w) = br_rdtime br (world st) in (t, st\<lparr>world := w\<rparr>))"

definition ak_sleep_slice :: "'w bridge \<Rightarrow> 'w gstate \<Rightarrow> 'w gstate" where
  "ak_sleep_slice br st =
     (let (t, st) = ak_now br st in st\<lparr>world := br_sleep_until br (t + AK_SLICE) (world st)\<rparr>)"

definition ak_ensure_net :: "'w bridge \<Rightarrow> 'w gstate \<Rightarrow> int \<times> 'w gstate" where
  "ak_ensure_net br st =
     (let st = (if br_endpoint br (world st) = 0
                then st\<lparr>world := br_attach br 6 (world st)\<rparr> else st)
      in (if br_endpoint br (world st) \<noteq> 0 then 0 else -1, st))"

text \<open>One call of \<open>aknet_sock_poll\<close>: status, receive level, free transmit slots, error word.\<close>

definition ak_poll :: "'w bridge \<Rightarrow> u64 \<Rightarrow> 'w gstate \<Rightarrow> u64 \<times> u64 \<times> u64 \<times> u64 \<times> 'w gstate" where
  "ak_poll br h st =
     (let (s, rx, tx, err, w) = br_poll br h (world st) in (s, rx, tx, err, st\<lparr>world := w\<rparr>))"

section \<open>The slot table interface\<close>

text \<open>
  A table of slots: \<open>get\<close> sees the live slots, \<open>put\<close> overwrites a live slot, \<open>alloc\<close> turns a
  free slot live with fresh contents, or fails (a negative index) when every slot is live.
\<close>

locale slot_table =
  fixes get :: "'t \<Rightarrow> int \<Rightarrow> 'e option"
    and put :: "'t \<Rightarrow> int \<Rightarrow> 'e \<Rightarrow> 't"
    and alloc :: "'t \<Rightarrow> int \<times> 't"
    and fresh :: 'e
    and is_live :: "'e \<Rightarrow> bool"
    and wf :: "'t \<Rightarrow> bool"
    and range :: "int set"
  assumes get_range: "wf t \<Longrightarrow> get t i = Some e \<Longrightarrow> i \<in> range"
    and get_live: "wf t \<Longrightarrow> get t i = Some e \<Longrightarrow> is_live e"
    and get_put: "wf t \<Longrightarrow> i \<in> range \<Longrightarrow>
          get (put t i e) j = (if j = i then (if is_live e then Some e else None) else get t j)"
    and wf_put: "wf t \<Longrightarrow> wf (put t i e)"
    and fresh_live: "is_live fresh"
    and alloc_ok: "wf t \<Longrightarrow> alloc t = (i, t') \<Longrightarrow> i \<ge> 0 \<Longrightarrow>
          i \<in> range \<and> get t i = None \<and> t' = put t i fresh"
    and alloc_full: "wf t \<Longrightarrow> alloc t = (i, t') \<Longrightarrow> i < 0 \<Longrightarrow>
          i = -1 \<and> (\<forall>j \<in> range. get t j \<noteq> None) \<and> (\<forall>j. get t' j = get t j) \<and> wf t'"
    and range_nonneg: "i \<in> range \<Longrightarrow> 0 \<le> i"
begin

lemma alloc_wf: "wf t \<Longrightarrow> alloc t = (i, t') \<Longrightarrow> wf t'"
  by (metis alloc_full alloc_ok not_le wf_put)

lemma alloc_get:
  assumes "wf t" "alloc t = (i, t')" "i \<ge> 0"
  shows "get t' j = (if j = i then Some fresh else get t j)"
  using alloc_ok [OF assms] assms(1) by (auto simp: get_put fresh_live)

lemma alloc_succeeds_iff:
  assumes "wf t" "alloc t = (i, t')"
  shows "i \<ge> 0 \<longleftrightarrow> (\<exists>j \<in> range. get t j = None)"
  using assms alloc_ok [OF assms] alloc_full [OF assms] by (cases "i \<ge> 0") auto

text \<open>Two allocations in a row never hand out the same slot.\<close>

lemma alloc_twice_distinct:
  assumes "wf t" "alloc t = (i, t')" "i \<ge> 0" "alloc t' = (j, t'')" "j \<ge> 0"
  shows "i \<noteq> j"
proof -
  have "get t' i = Some fresh" using alloc_get [OF assms(1-3)] by simp
  moreover have "get t' j = None"
    using alloc_ok [OF alloc_wf [OF assms(1,2)] assms(4,5)] by simp
  ultimately show ?thesis by auto
qed

text \<open>Allocating and releasing leaves every lookup as it was.\<close>

lemma alloc_release:
  assumes "wf t" "alloc t = (i, t')" "i \<ge> 0" "\<not> is_live e"
  shows "get (put t' i e) j = get t j"
proof -
  note a = alloc_ok [OF assms(1-3)]
  have "get (put t' i e) j = (if j = i then None else get t' j)"
    using get_put [of t' i e j] alloc_wf [OF assms(1,2)] a assms(4) by auto
  then show ?thesis
    using alloc_get [OF assms(1-3)] a by auto
qed

end

section \<open>The descriptor table implements the interface\<close>

definition gs_wf :: "'w gstate \<Rightarrow> bool" where
  "gs_wf st \<longleftrightarrow> length (ak_fds st) = nat AK_FD_MAX"

abbreviation ak_fresh :: ak_sock where
  "ak_fresh \<equiv> ak_sock_zero\<lparr>used := True, partner := -1\<rparr>"

lemmas fd_bounds = AK_FD_FIRST_def AK_FD_MAX_def

lemma ak_get_Some_iff:
  "ak_get st fd = Some s \<longleftrightarrow>
     3 \<le> fd \<and> fd < 256 \<and> s = ak_fds st ! nat fd \<and> used s"
  by (auto simp: ak_get_def fd_bounds)

lemma ak_get_put:
  assumes wf: "gs_wf st" and i: "3 \<le> i" "i < 256"
  shows "ak_get (ak_put st i s) j =
           (if j = i then (if used s then Some s else None) else ak_get st j)"
proof (cases "j = i")
  case True
  with assms show ?thesis
    by (simp add: ak_get_def ak_put_def gs_wf_def fd_bounds)
next
  case False
  then have "j < 3 \<or> nat i \<noteq> nat j" using i by arith
  with False show ?thesis
    by (auto simp: ak_get_def ak_put_def fd_bounds)
qed

lemma ak_free_fd_Some:
  "ak_free_fd fds = Some fd \<Longrightarrow> 3 \<le> fd \<and> fd < 256 \<and> \<not> used (fds ! fd)"
  unfolding ak_free_fd_def by (drule find_upt_Some) (simp add: fd_bounds)

lemma ak_free_fd_None:
  "ak_free_fd fds = None \<longleftrightarrow> (\<forall>fd. 3 \<le> fd \<and> fd < 256 \<longrightarrow> used (fds ! fd))"
  unfolding ak_free_fd_def find_upt_None by (simp add: fd_bounds)

lemma gs_wf_put [simp]: "gs_wf (ak_put st fd s) = gs_wf st"
  by (simp add: gs_wf_def ak_put_def)

lemma gs_wf_fields [simp]:
  "gs_wf (st\<lparr>errno := e\<rparr>) = gs_wf st" "gs_wf (st\<lparr>world := w\<rparr>) = gs_wf st"
  "gs_wf (st\<lparr>ak_h_errno := h\<rparr>) = gs_wf st" "gs_wf (st\<lparr>ak_he := he\<rparr>) = gs_wf st"
  "gs_wf (st\<lparr>ak_se := se\<rparr>) = gs_wf st"
  by (simp_all add: gs_wf_def)

lemma ak_get_fields [simp]:
  "ak_get (st\<lparr>errno := e\<rparr>) fd = ak_get st fd" "ak_get (st\<lparr>world := w\<rparr>) fd = ak_get st fd"
  "ak_get (st\<lparr>ak_h_errno := h\<rparr>) fd = ak_get st fd" "ak_get (st\<lparr>ak_he := he\<rparr>) fd = ak_get st fd"
  "ak_get (st\<lparr>ak_se := se\<rparr>) fd = ak_get st fd"
  by (simp_all add: ak_get_def)

interpretation tab: slot_table ak_get ak_put ak_alloc ak_fresh used gs_wf "{3..<256}"
proof (unfold_locales, goal_cases)
  case (6 t i t')
  then obtain fd where fd: "ak_free_fd (ak_fds t) = Some fd"
    by (auto simp: ak_alloc_def fail_def split: option.splits)
  from ak_free_fd_Some [OF fd] 6 fd show ?case
    by (auto simp: ak_alloc_def ak_get_def)
next
  case (7 t i t')
  then have "ak_free_fd (ak_fds t) = None"
    by (auto simp: ak_alloc_def split: option.splits)
  with 7 show ?case
    by (auto simp: ak_alloc_def fail_def ak_free_fd_None ak_get_def fd_bounds
        nat_less_iff le_nat_iff)
qed (auto simp: ak_get_Some_iff ak_get_put)

end
