(* ===== verification/Net_Sim.thy ===== *)
theory Net_Sim
  imports Sock_Table
begin

text \<open>
  A small simulated netserv: a concrete bridge on which the properties of the socket layer are
  instantiated. It hands out increasing handles, records the bytes sent, and reports every handle
  readable from a given clock value on. Sleeping advances its clock to the deadline.
\<close>

record sim =
  sim_clock :: u64
  sim_next :: u64
  sim_opens :: "u64 list"
  sim_sent :: bytes
  sim_ready_at :: u64

definition sim_open :: "sim \<Rightarrow> u64 \<times> u64 \<times> sim" where
  "sim_open w =
     (if sim_next w \<in> set (sim_opens w) then (2, 0, w)
      else (0, sim_next w,
            w\<lparr>sim_opens := sim_next w # sim_opens w, sim_next := sim_next w + 1\<rparr>))"

definition sim_bridge :: "sim bridge" where
  "sim_bridge = \<lparr>
     br_endpoint = (\<lambda>w. 6),
     br_attach = (\<lambda>c w. w),
     br_socket = (\<lambda>p w. sim_open w),
     br_bind = (\<lambda>h p w. (0, if p = 0 then 49152 else p, w)),
     br_connect = (\<lambda>h ip p w. (0, w)),
     br_listen = (\<lambda>h b w. (0, w)),
     br_accept = (\<lambda>h w. if sim_clock w < sim_ready_at w then (2, 0, 0, 0, w)
                        else let (s, nh, w) = sim_open w in (s, nh, 0x0A000202, 40000, w)),
     br_sendto = (\<lambda>h buf len ip p w. (0, w\<lparr>sim_sent := sim_sent w @ take (unat len) buf\<rparr>)),
     br_recvfrom = (\<lambda>h mx tmo w. if sim_clock w < sim_ready_at w then (1, [], 0, 0, 0, w)
                        else (0, take (unat mx) [104, 105], 0x0A000202, 53, min 2 mx, w)),
     br_poll = (\<lambda>h w. (0, if sim_clock w < sim_ready_at w then 0 else 1, 4, 0, w)),
     br_close = (\<lambda>h w. (0, w\<lparr>sim_opens := removeAll h (sim_opens w)\<rparr>)),
     br_resolve = (\<lambda>n len w. (0, 0x0A000203, w)),
     br_sleep_until = (\<lambda>d w. w\<lparr>sim_clock := max (sim_clock w) d\<rparr>),
     br_rdtime = (\<lambda>w. (sim_clock w, w))\<rparr>"

definition sim_world :: sim where
  "sim_world = \<lparr>sim_clock = 0, sim_next = 100, sim_opens = [], sim_sent = [],
     sim_ready_at = 60000\<rparr>"

definition gstate_init :: "'w \<Rightarrow> 'w gstate" where
  "gstate_init w = \<lparr>ak_fds = replicate 256 ak_sock_zero, errno = ENOERROR, ak_h_errno = 0,
     ak_he = \<lparr>h_name = [], h_aliases = [], h_addrtype = 0, h_length = 0, h_addr_list = []\<rparr>,
     ak_se = \<lparr>s_name = [], s_aliases = [], s_port = 0, s_proto = []\<rparr>, world = w\<rparr>"

text \<open>The initial state with one UDP socket at descriptor 3.\<close>

definition sim_udp :: ak_sock where
  "sim_udp = ak_fresh\<lparr>kind := KIND_SOCK, proto := 17, handle := 99\<rparr>"

definition sim_tcp :: ak_sock where
  "sim_tcp = ak_fresh\<lparr>kind := KIND_SOCK, proto := 6, handle := 99\<rparr>"

definition sim_state :: "ak_sock \<Rightarrow> sim gstate" where
  "sim_state s = ak_put (gstate_init sim_world) 3 s"

lemma gs_wf_init [simp]: "gs_wf (gstate_init w)"
  by (simp add: gs_wf_def gstate_init_def AK_FD_MAX_def)

lemma gs_wf_sim [simp]: "gs_wf (sim_state s)"
  by (simp add: sim_state_def)

end
