(* ===== verification/Sock_Calls.thy ===== *)
theory Sock_Calls
  imports Net_Sim
begin

text \<open>
  The BSD calls of \<^verbatim>\<open>aegir_gsocket.c\<close> that open, name, connect and close sockets: \<open>socket\<close>,
  \<open>__gnat_socket_close\<close>, \<open>bind\<close>, \<open>ak_auto_bind\<close>, \<open>connect\<close>, \<open>listen\<close>, \<open>accept\<close>, \<open>getsockname\<close>,
  \<open>getpeername\<close>, the option calls, \<open>ioctl\<close> and the calls that are refused outright. A pointer
  argument that may be NULL is an option or a flag; what a call stores through an out-pointer is
  returned beside its result. The wait loop of \<open>accept\<close> may not end, so it returns an option.
\<close>

section \<open>Opening and closing\<close>

definition sock_proto :: "int \<Rightarrow> int \<Rightarrow> u64 option" where
  "sock_proto type protocol =
     (if type = AK_SOCK_STREAM then Some AK_IPPROTO_TCP
      else if type = AK_SOCK_DGRAM
      then Some (if protocol = 1 then AK_IPPROTO_ICMP else AK_IPPROTO_UDP)
      else None)"

definition socket :: "'w bridge \<Rightarrow> int \<Rightarrow> int \<Rightarrow> int \<Rightarrow> 'w gstate \<Rightarrow> int \<times> 'w gstate" where
  "socket br domain type protocol st =
     (let (r, st) = ak_ensure_net br st in
      if r \<noteq> 0 then fail ENETDOWN st
      else if domain \<noteq> AK_AF_INET then fail EAFNOSUPPORT st
      else case sock_proto type protocol of
        None \<Rightarrow> fail EOPNOTSUPP st
      | Some pr \<Rightarrow>
          let (s, h, w) = br_socket br pr (world st);
              st = st\<lparr>world := w\<rparr>
          in if s \<noteq> AK_ST_OK then fail ENOBUFS st
             else let (fd, st) = ak_alloc st in
               if fd < 0 then (-1, st\<lparr>world := snd (br_close br h (world st))\<rparr>)
               else (fd, ak_put st fd ((ak_fds st ! nat fd)
                       \<lparr>kind := KIND_SOCK, proto := ucast pr, handle := h\<rparr>)))"

text \<open>The guard \<open>s == NULL || s->kind != AK_KIND_SOCK\<close> that opens most calls.\<close>

definition ak_get_sock :: "'w gstate \<Rightarrow> int \<Rightarrow> ak_sock option" where
  "ak_get_sock st fd =
     (case ak_get st fd of None \<Rightarrow> None | Some s \<Rightarrow> if kind s \<noteq> KIND_SOCK then None else Some s)"

definition gnat_socket_close :: "'w bridge \<Rightarrow> int \<Rightarrow> 'w gstate \<Rightarrow> int \<times> 'w gstate" where
  "gnat_socket_close br fd st =
     (case ak_get_sock st fd of
        None \<Rightarrow> fail EBADF st
      | Some s \<Rightarrow>
          (0, ak_put (st\<lparr>world := snd (br_close br (handle s) (world st))\<rparr>) fd (s\<lparr>used := False\<rparr>)))"

section \<open>Naming and connecting\<close>

definition bind :: "'w bridge \<Rightarrow> int \<Rightarrow> ak_sockaddr_in \<Rightarrow> 'w gstate \<Rightarrow> int \<times> 'w gstate" where
  "bind br fd sin st =
     (case ak_get_sock st fd of
        None \<Rightarrow> fail EBADF st
      | Some s \<Rightarrow>
          if uint (sin_family sin) \<noteq> AK_AF_INET then fail EAFNOSUPPORT st
          else let (r, assigned, w) = br_bind br (handle s) (ucast (ak_sw16 (sin_port sin))) (world st);
                   st = st\<lparr>world := w\<rparr>
               in if r \<noteq> AK_ST_OK
                  then fail (if r = AK_ST_BAD_ARGS then EINVAL else EADDRINUSE) st
                  else (0, ak_put st fd (s\<lparr>local_port := ucast assigned,
                                          local_ip := ak_addr_to_u32 (sin_addr sin)\<rparr>)))"

definition ak_auto_bind :: "'w bridge \<Rightarrow> int \<Rightarrow> ak_sock \<Rightarrow> 'w gstate \<Rightarrow> int \<times> 'w gstate" where
  "ak_auto_bind br fd s st =
     (if local_port s \<noteq> 0 then (0, st)
      else let (r, assigned, w) = br_bind br (handle s) 0 (world st);
               st = st\<lparr>world := w\<rparr>
           in if r \<noteq> AK_ST_OK then fail EADDRNOTAVAIL st
              else (0, ak_put st fd (s\<lparr>local_port := ucast assigned\<rparr>)))"

text \<open>After \<open>ak_auto_bind\<close> the fields of \<open>s\<close> are read again from the table.\<close>

definition connect :: "'w bridge \<Rightarrow> int \<Rightarrow> ak_sockaddr_in \<Rightarrow> 'w gstate \<Rightarrow> int \<times> 'w gstate" where
  "connect br fd sin st =
     (case ak_get_sock st fd of
        None \<Rightarrow> fail EBADF st
      | Some s \<Rightarrow>
          if uint (sin_family sin) \<noteq> AK_AF_INET then fail EAFNOSUPPORT st
          else let (r, st) = ak_auto_bind br fd s st in
            if r \<noteq> 0 then (-1, st)
            else let s = ak_fds st ! nat fd;
                     (c, w) = br_connect br (handle s) (ak_addr_to_u32 (sin_addr sin))
                                (ucast (ak_sw16 (sin_port sin))) (world st);
                     st = st\<lparr>world := w\<rparr>
                 in if c \<noteq> AK_ST_OK
                    then fail (if c = 4 then ECONNREFUSED else if c = 5 then ETIMEDOUT else EIO) st
                    else (0, ak_put st fd (s\<lparr>peer_ip := ak_addr_to_u32 (sin_addr sin),
                               peer_port := ak_sw16 (sin_port sin), connected := True\<rparr>)))"

definition listen :: "'w bridge \<Rightarrow> int \<Rightarrow> int \<Rightarrow> 'w gstate \<Rightarrow> int \<times> 'w gstate" where
  "listen br fd backlog st =
     (case ak_get_sock st fd of
        None \<Rightarrow> fail EOPNOTSUPP st
      | Some s \<Rightarrow>
          if proto s \<noteq> AK_IPPROTO_TCP then fail EOPNOTSUPP st
          else let (r, w) = br_listen br (handle s) (u64_of_int backlog) (world st);
                   st = st\<lparr>world := w\<rparr>
               in if r \<noteq> AK_ST_OK then fail EIO st
                  else (0, ak_put st fd (s\<lparr>listening := True\<rparr>)))"

text \<open>A zeroed \<open>struct ak_sockaddr_in\<close> filled with a port and an address in host order.\<close>

definition mk_sockaddr :: "u16 \<Rightarrow> u32 \<Rightarrow> ak_sockaddr_in" where
  "mk_sockaddr port ip = \<lparr>sin_family = 2, sin_port = ak_sw16 port,
     sin_addr = ak_u32_to_addr ip, sin_zero = replicate 8 0\<rparr>"

text \<open>The \<open>for (;;)\<close> of \<open>accept\<close>: the error to report, or handle, peer address and peer port.\<close>

partial_function (option) accept_wait ::
  "'w bridge \<Rightarrow> ak_sock \<Rightarrow> 'w gstate \<Rightarrow> ((errno_t + u64 \<times> u32 \<times> u64) \<times> 'w gstate) option" where
  "accept_wait br s st =
     (let (r, nh, pip, pport, w) = br_accept br (handle s) (world st);
          st = st\<lparr>world := w\<rparr>
      in if r = AK_ST_OK then Some (Inr (nh, pip, pport), st)
         else if r \<noteq> AK_ST_NOT_READY then Some (Inl EIO, st)
         else if nonblock s then Some (Inl EWOULDBLOCK, st)
         else accept_wait br s (ak_sleep_slice br st))"

declare accept_wait.simps [code]

text \<open>The new descriptor for an accepted connection, once its handle is known.\<close>

definition accept_install ::
  "'w bridge \<Rightarrow> int \<Rightarrow> bool \<Rightarrow> u64 \<times> u32 \<times> u64 \<Rightarrow> 'w gstate
     \<Rightarrow> int \<times> ak_sockaddr_in option \<times> 'w gstate" where
  "accept_install br fd want_addr = (\<lambda>(nh, pip, pport) st.
     let (nfd, st) = ak_alloc st in
     if nfd < 0 then (-1, None, st\<lparr>world := snd (br_close br nh (world st))\<rparr>)
     else let s = ak_fds st ! nat fd;
              ns = (ak_fds st ! nat nfd)\<lparr>kind := KIND_SOCK, proto := AK_IPPROTO_TCP, handle := nh,
                     connected := True, peer_ip := pip, peer_port := ucast pport,
                     local_ip := local_ip s, local_port := local_port s\<rparr>
          in (nfd, if want_addr then Some (mk_sockaddr (ucast pport) pip) else None,
              ak_put st nfd ns))"

definition accept ::
  "'w bridge \<Rightarrow> int \<Rightarrow> bool \<Rightarrow> 'w gstate
     \<Rightarrow> (int \<times> ak_sockaddr_in option \<times> 'w gstate) option" where
  "accept br fd want_addr st =
     (case ak_get_sock st fd of
        None \<Rightarrow> Some (-1, None, st\<lparr>errno := EINVAL\<rparr>)
      | Some s \<Rightarrow>
          if \<not> listening s then Some (-1, None, st\<lparr>errno := EINVAL\<rparr>)
          else case accept_wait br s st of
            None \<Rightarrow> None
          | Some (Inl e, st) \<Rightarrow> Some (-1, None, st\<lparr>errno := e\<rparr>)
          | Some (Inr c, st) \<Rightarrow> Some (accept_install br fd want_addr c st))"

definition getsockname :: "int \<Rightarrow> 'w gstate \<Rightarrow> int \<times> ak_sockaddr_in option \<times> 'w gstate" where
  "getsockname fd st =
     (case ak_get_sock st fd of
        None \<Rightarrow> (-1, None, st\<lparr>errno := EBADF\<rparr>)
      | Some s \<Rightarrow> (0, Some (mk_sockaddr (local_port s) (local_ip s)), st))"

definition getpeername :: "int \<Rightarrow> 'w gstate \<Rightarrow> int \<times> ak_sockaddr_in option \<times> 'w gstate" where
  "getpeername fd st =
     (case ak_get_sock st fd of
        None \<Rightarrow> (-1, None, st\<lparr>errno := EBADF\<rparr>)
      | Some s \<Rightarrow>
          if \<not> connected s then (-1, None, st\<lparr>errno := ENOTCONN\<rparr>)
          else (0, Some (mk_sockaddr (peer_port s) (peer_ip s)), st))"

section \<open>Options\<close>

text \<open>The search loops over the stored options, first match in index order.\<close>

fun opt_find :: "int \<Rightarrow> int \<Rightarrow> (int \<times> int \<times> int) list \<Rightarrow> int option" where
  "opt_find l n [] = None"
| "opt_find l n ((l', n', v) # os) = (if l' = l \<and> n' = n then Some v else opt_find l n os)"

fun opt_store :: "int \<Rightarrow> int \<Rightarrow> int \<Rightarrow> (int \<times> int \<times> int) list \<Rightarrow> (int \<times> int \<times> int) list" where
  "opt_store l n v [] = []"
| "opt_store l n v ((l', n', v') # os) =
     (if l' = l \<and> n' = n then (l', n', v) # os else (l', n', v') # opt_store l n v os)"

text \<open>The result, the value stored through \<open>optval\<close>, and the state.\<close>

definition getsockopt ::
  "'w bridge \<Rightarrow> int \<Rightarrow> int \<Rightarrow> int \<Rightarrow> 'w gstate \<Rightarrow> int \<times> (errno_t + int) option \<times> 'w gstate" where
  "getsockopt br fd level optname st =
     (case ak_get_sock st fd of
        None \<Rightarrow> (-1, None, st\<lparr>errno := EBADF\<rparr>)
      | Some s \<Rightarrow>
          if level = AK_SOL_SOCKET \<and> optname = AK_SO_ERROR
          then let (r, rx, tx, err, st) = ak_poll br (handle s) st;
                   val = (if r = AK_ST_OK \<and> err \<noteq> 0 \<and> err \<noteq> last_so_err s
                          then ak_sticky_errno err else ENOERROR)
               in (0, Some (Inl val), ak_put st fd (s\<lparr>last_so_err := err\<rparr>))
          else case opt_find level optname (opts s) of
            Some v \<Rightarrow> (0, Some (Inr v), st)
          | None \<Rightarrow> (0, Some (Inr 0), st))"

definition setsockopt :: "int \<Rightarrow> int \<Rightarrow> int \<Rightarrow> int \<Rightarrow> 'w gstate \<Rightarrow> int \<times> 'w gstate" where
  "setsockopt fd level optname optval st =
     (case ak_get_sock st fd of
        None \<Rightarrow> fail EBADF st
      | Some s \<Rightarrow>
          if level = AK_SOL_SOCKET \<and> optname = AK_SO_ERROR then fail EINVAL st
          else if opt_find level optname (opts s) \<noteq> None
          then (0, ak_put st fd (s\<lparr>opts := opt_store level optname optval (opts s)\<rparr>))
          else if length (opts s) = AK_NOPT then fail ENOBUFS st
          else (0, ak_put st fd (s\<lparr>opts := opts s @ [(level, optname, optval)]\<rparr>)))"

definition gnat_socket_ioctl ::
  "'w bridge \<Rightarrow> int \<Rightarrow> int \<Rightarrow> int \<Rightarrow> 'w gstate \<Rightarrow> int \<times> int \<times> 'w gstate" where
  "gnat_socket_ioctl br fd req arg st =
     (case ak_get_sock st fd of
        None \<Rightarrow> (-1, arg, st\<lparr>errno := EBADF\<rparr>)
      | Some s \<Rightarrow>
          if req = AK_FIONBIO then (0, arg, ak_put st fd (s\<lparr>nonblock := (arg \<noteq> 0)\<rparr>))
          else if req = AK_FIONREAD
          then let (r, rx, tx, err, st) = ak_poll br (handle s) st in
               if r \<noteq> AK_ST_OK then (-1, arg, st\<lparr>errno := EIO\<rparr>)
               else (0, int_of_u64 (rx * u64_of_int AK_MAX_PAYLOAD), st)
          else (-1, arg, st\<lparr>errno := EINVAL\<rparr>))"

section \<open>Calls without an effect on the bridge\<close>

definition shutdown :: "int \<Rightarrow> 'w gstate \<Rightarrow> int \<times> 'w gstate" where
  "shutdown fd st = (if ak_get st fd \<noteq> None then 0 else -1, st)"

definition socketpair :: "'w gstate \<Rightarrow> int \<times> 'w gstate" where
  "socketpair st = fail EOPNOTSUPP st"

text \<open>\<open>sizeof me\<close> is 6: the five characters and the terminating NUL.\<close>

definition gethostname :: "nat \<Rightarrow> 'w gstate \<Rightarrow> int \<times> string option \<times> 'w gstate" where
  "gethostname namelen st =
     (if namelen < 6 then (-1, None, st\<lparr>errno := EINVAL\<rparr>)
      else (0, Some ''aegir'', st))"

definition recvmsg :: "'w gstate \<Rightarrow> int \<times> 'w gstate" where
  "recvmsg st = fail ENOSYS st"

definition sendmsg :: "'w gstate \<Rightarrow> int \<times> 'w gstate" where
  "sendmsg st = fail ENOSYS st"

definition aknet_get_errno :: "'w gstate \<Rightarrow> errno_t" where
  "aknet_get_errno st = errno st"

definition gnat_get_h_errno :: "'w gstate \<Rightarrow> int" where
  "gnat_get_h_errno st = ak_h_errno st"

section \<open>What the calls do to the table\<close>

text \<open>Calls that only touch \<open>errno\<close> and the world leave the table alone.\<close>

lemma ak_get_cong: "ak_fds st = ak_fds st' \<Longrightarrow> ak_get st = ak_get st'"
  by (simp add: ak_get_def fun_eq_iff)

lemma gs_wf_cong: "ak_fds st = ak_fds st' \<Longrightarrow> gs_wf st = gs_wf st'"
  by (simp add: gs_wf_def)

lemma ak_poll_fds: "ak_poll br h st = (a, b, c, d, st') \<Longrightarrow> ak_fds st' = ak_fds st"
  by (auto simp: ak_poll_def split: prod.splits)

lemma ak_now_fds: "ak_now br st = (t, st') \<Longrightarrow> ak_fds st' = ak_fds st"
  by (auto simp: ak_now_def split: prod.splits)

lemma ak_sleep_slice_fds [simp]: "ak_fds (ak_sleep_slice br st) = ak_fds st"
  by (auto simp: ak_sleep_slice_def dest: ak_now_fds split: prod.splits)

lemma ak_ensure_net_fds: "ak_ensure_net br st = (r, st') \<Longrightarrow> ak_fds st' = ak_fds st"
  by (auto simp: ak_ensure_net_def Let_def split: if_splits)

lemma ak_get_sock_Some:
  "ak_get_sock st fd = Some s \<longleftrightarrow> ak_get st fd = Some s \<and> kind s = KIND_SOCK"
  by (auto simp: ak_get_sock_def split: option.splits)

lemma ak_get_sock_cong: "ak_fds st = ak_fds st' \<Longrightarrow> ak_get_sock st = ak_get_sock st'"
  by (simp add: ak_get_sock_def fun_eq_iff ak_get_cong [of st st'])

text \<open>A live slot read through the table is the entry itself.\<close>

lemma ak_get_nth: "ak_get st fd = Some s \<Longrightarrow> ak_fds st ! nat fd = s"
  by (simp add: ak_get_Some_iff)

text \<open>
  \<open>socket\<close> returns a nonnegative descriptor exactly when the bridge opened a handle and the table
  had a free slot; on any other path no slot changes, and a handle that found no slot is closed.
\<close>

lemma socket_cases:
  assumes wf: "gs_wf st" and call: "socket br d ty p st = (fd, st')"
  obtains
    (refused) r st0 e where "fd = -1" "ak_ensure_net br st = (r, st0)" "st' = st0\<lparr>errno := e\<rparr>"
  | (no_handle) st0 pr s h w where "fd = -1" "ak_ensure_net br st = (0, st0)"
      "br_socket br pr (world st0) = (s, h, w)" "s \<noteq> 0" "st' = st0\<lparr>world := w, errno := ENOBUFS\<rparr>"
  | (full) st0 pr h w where "fd = -1" "ak_ensure_net br st = (0, st0)"
      "br_socket br pr (world st0) = (0, h, w)" "\<forall>j \<in> {3..<256}. ak_get st j \<noteq> None"
      "st' = st0\<lparr>world := snd (br_close br h w), errno := EMFILE\<rparr>"
  | (opened) st0 pr h w where "fd \<ge> 0" "fd \<in> {3..<256}" "ak_ensure_net br st = (0, st0)"
      "sock_proto ty p = Some pr" "d = 2" "br_socket br pr (world st0) = (0, h, w)"
      "ak_get st fd = None"
      "st' = ak_put (st0\<lparr>world := w\<rparr>) fd (ak_fresh\<lparr>kind := KIND_SOCK, proto := ucast pr, handle := h\<rparr>)"
proof -
  obtain r st0 where net: "ak_ensure_net br st = (r, st0)" by fastforce
  have fds0: "ak_fds st0 = ak_fds st" by (rule ak_ensure_net_fds [OF net])
  show thesis
  proof (cases "r = 0 \<and> d = 2 \<and> sock_proto ty p \<noteq> None")
    case False
    then show thesis
      using call net refused
      by (auto simp: socket_def fail_def Let_def split: if_splits option.splits)
  next
    case True
    then obtain pr where pr: "sock_proto ty p = Some pr" by blast
    obtain s h w where bs: "br_socket br pr (world st0) = (s, h, w)" by (metis prod_cases3)
    let ?st1 = "st0\<lparr>world := w\<rparr>"
    have wf1: "gs_wf ?st1" using wf fds0 by (simp add: gs_wf_def)
    obtain nfd st2 where al: "ak_alloc ?st1 = (nfd, st2)" by fastforce
    have get1: "ak_get ?st1 j = ak_get st j" for j using fds0 by (simp add: ak_get_def)
    consider "s \<noteq> 0" | "s = 0" "nfd < 0" | "s = 0" "nfd \<ge> 0" by linarith
    then show thesis
    proof cases
      case 1
      then show thesis using call True net pr bs by (auto simp: socket_def fail_def intro: no_handle)
    next
      case 2
      then have "st2 = ?st1\<lparr>errno := EMFILE\<rparr>" "nfd = -1"
        using al by (auto simp: ak_alloc_def fail_def split: option.splits)
      moreover have "\<forall>j \<in> {3..<256}. ak_get st j \<noteq> None"
        using tab.alloc_full [OF wf1 al 2(2)] get1 by simp
      ultimately show thesis
        using 2 call True net pr bs al by (intro full [of st0 pr h w]) (auto simp: socket_def)
    next
      case 3
      note ok = tab.alloc_ok [OF wf1 al 3(2)]
      then have "ak_fds st2 ! nat nfd = ak_fresh"
        using wf1 by (auto simp: ak_put_def gs_wf_def AK_FD_MAX_def)
      then show thesis
        using 3 ok call True net pr bs al get1
        by (intro opened [of st0 pr h w]) (auto simp: socket_def ak_put_def)
    qed
  qed
qed

end
