(* ===== verification/Sock_IO.thy ===== *)
theory Sock_IO
  imports Sock_Calls
begin

text \<open>
  The data transfer calls of \<^verbatim>\<open>aegir_gsocket.c\<close>: \<open>ak_recv\<close>, \<open>recv\<close>, \<open>recvfrom\<close>, \<open>ak_send\<close> and
  \<open>sendto\<close>. The receive and send workers poll until the bridge makes progress; each loop is a
  partial function whose value \<open>None\<close> means that the call never returns.
\<close>

section \<open>Receiving\<close>

text \<open>The result, the bytes stored, the source address and port, and the state.\<close>

type_synonym 'w recv_result = "int \<times> bytes \<times> u32 \<times> u64 \<times> 'w gstate"

partial_function (option) ak_recv_loop ::
  "'w bridge \<Rightarrow> ak_sock \<Rightarrow> int \<Rightarrow> 'w gstate \<Rightarrow> 'w recv_result option" where
  "ak_recv_loop br s len st =
     (let (r, dat, sip, sport, count, w) =
            br_recvfrom br (handle s) (u64_of_int len) 0 (world st);
          st = st\<lparr>world := w\<rparr>
      in if r = AK_ST_OK
         then if count > 0 then Some (int_of_u64 count, dat, sip, sport, st)
              else if proto s = AK_IPPROTO_TCP
              then let (p, rx, tx, err, st) = ak_poll br (handle s) st in
                   if p = AK_ST_OK \<and> err \<noteq> 0
                   then Some (-1, dat, sip, sport, st\<lparr>errno := ak_sticky_errno err\<rparr>)
                   else Some (0, dat, sip, sport, st)
              else ak_recv_loop br s len st
         else if r = AK_ST_TIMEOUT \<or> r = AK_ST_NOT_READY
         then if nonblock s then Some (-1, dat, sip, sport, st\<lparr>errno := EWOULDBLOCK\<rparr>)
              else ak_recv_loop br s len (ak_sleep_slice br st)
         else Some (-1, dat, sip, sport,
                    st\<lparr>errno := (if r = AK_ST_BAD_ARGS then EBADF else EIO)\<rparr>))"

declare ak_recv_loop.simps [code]

definition ak_recv ::
  "'w bridge \<Rightarrow> ak_sock \<Rightarrow> int \<Rightarrow> int \<Rightarrow> 'w gstate \<Rightarrow> 'w recv_result option" where
  "ak_recv br s len flags st =
     (if flags AND AK_MSG_PEEK \<noteq> 0 then Some (-1, [], 0, 0, st\<lparr>errno := EOPNOTSUPP\<rparr>)
      else ak_recv_loop br s len st)"

definition recv ::
  "'w bridge \<Rightarrow> int \<Rightarrow> int \<Rightarrow> int \<Rightarrow> 'w gstate \<Rightarrow> (int \<times> bytes \<times> 'w gstate) option" where
  "recv br fd len flags st =
     (case ak_get_sock st fd of
        None \<Rightarrow> Some (-1, [], st\<lparr>errno := EBADF\<rparr>)
      | Some s \<Rightarrow> map_option (\<lambda>(n, dat, sip, sport, st). (n, dat, st)) (ak_recv br s len flags st))"

definition recvfrom ::
  "'w bridge \<Rightarrow> int \<Rightarrow> int \<Rightarrow> int \<Rightarrow> bool \<Rightarrow> 'w gstate
     \<Rightarrow> (int \<times> bytes \<times> ak_sockaddr_in option \<times> 'w gstate) option" where
  "recvfrom br fd len flags want_from st =
     (case ak_get_sock st fd of
        None \<Rightarrow> Some (-1, [], None, st\<lparr>errno := EBADF\<rparr>)
      | Some s \<Rightarrow>
          map_option (\<lambda>(n, dat, sip, sport, st).
            (n, dat, if n > 0 \<and> want_from then Some (mk_sockaddr (ucast sport) sip) else None, st))
            (ak_recv br s len flags st))"

section \<open>Sending\<close>

partial_function (option) ak_send_dgram ::
  "'w bridge \<Rightarrow> ak_sock \<Rightarrow> bytes \<Rightarrow> int \<Rightarrow> u32 \<Rightarrow> u64 \<Rightarrow> 'w gstate \<Rightarrow> (int \<times> 'w gstate) option" where
  "ak_send_dgram br s buf len dst_ip dst_port st =
     (let (r, w) = br_sendto br (handle s) buf (u64_of_int len) dst_ip dst_port (world st);
          st = st\<lparr>world := w\<rparr>
      in if r = AK_ST_OK then Some (len, st)
         else if r = AK_ST_NOT_READY \<or> r = AK_ST_TIMEOUT
         then if nonblock s then Some (fail EWOULDBLOCK st)
              else ak_send_dgram br s buf len dst_ip dst_port (ak_sleep_slice br st)
         else Some (fail (if len = 0 \<or> r = AK_ST_BAD_ARGS then EINVAL else EIO) st))"

declare ak_send_dgram.simps [code]

definition send_chunk :: "int \<Rightarrow> int" where
  "send_chunk rest = (if rest > AK_MAX_PAYLOAD then AK_MAX_PAYLOAD else rest)"

partial_function (option) ak_send_stream ::
  "'w bridge \<Rightarrow> ak_sock \<Rightarrow> bytes \<Rightarrow> int \<Rightarrow> int \<Rightarrow> 'w gstate \<Rightarrow> (int \<times> 'w gstate) option" where
  "ak_send_stream br s buf len sent st =
     (if \<not> sent < len then Some (sent, st)
      else let chunk = send_chunk (len - sent);
               (p, rx, tx, err, st) = ak_poll br (handle s) st
           in if p = AK_ST_OK \<and> err \<noteq> 0 then Some (fail (ak_sticky_errno err) st)
              else let (r, w) = br_sendto br (handle s) (drop (nat sent) buf) (u64_of_int chunk) 0 0
                                  (world st);
                       st = st\<lparr>world := w\<rparr>
                   in if r = AK_ST_OK then ak_send_stream br s buf len (sent + chunk) st
                      else if r = AK_ST_NOT_READY \<or> r = AK_ST_TIMEOUT
                      then if nonblock s
                           then Some (if sent > 0 then sent else -1, st\<lparr>errno := EWOULDBLOCK\<rparr>)
                           else ak_send_stream br s buf len sent (ak_sleep_slice br st)
                      else Some (fail EIO st))"

declare ak_send_stream.simps [code]

definition ak_send ::
  "'w bridge \<Rightarrow> ak_sock \<Rightarrow> bytes \<Rightarrow> int \<Rightarrow> u32 \<Rightarrow> u64 \<Rightarrow> 'w gstate \<Rightarrow> (int \<times> 'w gstate) option" where
  "ak_send br s buf len dst_ip dst_port st =
     (if proto s \<noteq> AK_IPPROTO_TCP
      then if len > AK_MAX_PAYLOAD then Some (fail EMSGSIZE st)
           else ak_send_dgram br s buf len dst_ip dst_port st
      else ak_send_stream br s buf len 0 st)"

text \<open>
  \<open>sendto\<close>: \<open>dst\<close> is the destination when \<open>to != NULL && tolen > 0\<close>. After the automatic bind
  the socket is read again from the table.
\<close>

definition sendto ::
  "'w bridge \<Rightarrow> int \<Rightarrow> bytes \<Rightarrow> int \<Rightarrow> ak_sockaddr_in option \<Rightarrow> 'w gstate
     \<Rightarrow> (int \<times> 'w gstate) option" where
  "sendto br fd msg len dst st =
     (case ak_get_sock st fd of
        None \<Rightarrow> Some (fail EBADF st)
      | Some s \<Rightarrow>
          let go = (\<lambda>ip port.
                let (r, st) = (if \<not> connected s then ak_auto_bind br fd s st else (0, st))
                in if r \<noteq> 0 then Some (-1, st)
                   else ak_send br (ak_fds st ! nat fd) msg len ip port st)
          in case dst of
            Some sin \<Rightarrow>
              if uint (sin_family sin) \<noteq> AK_AF_INET then Some (fail EAFNOSUPPORT st)
              else go (ak_addr_to_u32 (sin_addr sin)) (ucast (ak_sw16 (sin_port sin)))
          | None \<Rightarrow> if \<not> connected s then Some (fail EDESTADDRREQ st) else go 0 0)"

section \<open>A stream is sent in order\<close>

text \<open>
  What the client library documents about transmission: a successful \<open>aknet_sock_sendto\<close> appends
  the first \<open>len\<close> bytes of its buffer to what has been sent, and no other call changes that.
\<close>

definition send_log :: "'w bridge \<Rightarrow> ('w \<Rightarrow> bytes) \<Rightarrow> bool" where
  "send_log br log \<longleftrightarrow>
     (\<forall>h buf len ip port w r w'. br_sendto br h buf len ip port w = (r, w') \<longrightarrow>
        log w' = (if r = AK_ST_OK then log w @ take (unat len) buf else log w))
   \<and> (\<forall>h w s rx tx err w'. br_poll br h w = (s, rx, tx, err, w') \<longrightarrow> log w' = log w)
   \<and> (\<forall>w t w'. br_rdtime br w = (t, w') \<longrightarrow> log w' = log w)
   \<and> (\<forall>d w. log (br_sleep_until br d w) = log w)"

lemma send_log_sendto:
  "send_log br log \<Longrightarrow> br_sendto br h buf len ip port w = (r, w') \<Longrightarrow>
     log w' = (if r = AK_ST_OK then log w @ take (unat len) buf else log w)"
  unfolding send_log_def by blast

lemma send_log_poll:
  "send_log br log \<Longrightarrow> ak_poll br h st = (s, rx, tx, err, st') \<Longrightarrow> log (world st') = log (world st)"
  unfolding send_log_def ak_poll_def by (auto split: prod.splits)

lemma send_log_sleep: "send_log br log \<Longrightarrow> log (world (ak_sleep_slice br st)) = log (world st)"
  unfolding send_log_def ak_sleep_slice_def ak_now_def by (auto split: prod.splits)

lemma send_chunk_bounds:
  "0 < rest \<Longrightarrow> 0 < send_chunk rest \<and> send_chunk rest \<le> 996 \<and> send_chunk rest \<le> rest"
  by (simp add: send_chunk_def AK_MAX_PAYLOAD_def)

lemma take_chunk:
  assumes "0 \<le> sent" "0 < c" "sent + c \<le> int (length buf)" "c \<le> 996"
  shows "take (nat sent) buf @ take (unat (u64_of_int c)) (drop (nat sent) buf) =
    take (nat (sent + c)) buf"
proof -
  have "unat (u64_of_int c) = nat c"
    using assms by (simp add: u64_of_int_def unat_eq_nat_uint uint_word_of_int)
  then show ?thesis using assms by (simp add: take_add nat_add_distrib)
qed

lemma send_round_log:
  assumes "send_log br log" and "0 \<le> sent" and "sent < len" and "len = int (length buf)"
    and "log (world st) = pre @ take (nat sent) buf" and "ak_poll br h st = (p, rx, tx, err, st1)"
    and "br_sendto br h (drop (nat sent) buf) (u64_of_int (send_chunk (len - sent))) 0 0 (world st1) = (q, w)"
  shows "log (world st1) = pre @ take (nat sent) buf"
    and "log w = pre @ take (nat (if q = AK_ST_OK then sent + send_chunk (len - sent) else sent)) buf"
    and "log (world (ak_sleep_slice br (st1\<lparr>world := w\<rparr>))) = log w"
proof -
  let ?c = "send_chunk (len - sent)"
  have c: "0 < ?c" "?c \<le> 996" "?c \<le> len - sent" using assms(3) send_chunk_bounds [of "len - sent"] by auto
  show l1: "log (world st1) = pre @ take (nat sent) buf" using send_log_poll [OF assms(1,6)] assms(5) by simp
  show "log w = pre @ take (nat (if q = AK_ST_OK then sent + ?c else sent)) buf"
    using send_log_sendto [OF assms(1,7)] l1 take_chunk [of sent ?c buf] c assms(2,4) by simp
  show "log (world (ak_sleep_slice br (st1\<lparr>world := w\<rparr>))) = log w" using send_log_sleep [OF assms(1)] by simp
qed

lemma ak_send_stream_log:
  assumes lg: "send_log br log" and ret: "ak_send_stream br s buf len sent st = Some (n, st')"
    and "0 \<le> sent" "sent \<le> len" "len = int (length buf)"
    and "log (world st) = pre @ take (nat sent) buf"
  shows "-1 \<le> n \<and> n \<le> len \<and> (\<exists>k \<le> length buf. log (world st') = pre @ take k buf
      \<and> (n \<noteq> -1 \<longrightarrow> int k = n)) \<and> (n \<noteq> -1 \<longrightarrow> n < len \<longrightarrow> nonblock s)"
proof -
  let ?P = "\<lambda>br s buf len sent st r. send_log br log \<longrightarrow> 0 \<le> sent \<longrightarrow> sent \<le> len \<longrightarrow>
     len = int (length buf) \<longrightarrow> log (world st) = pre @ take (nat sent) buf \<longrightarrow>
     -1 \<le> fst r \<and> fst r \<le> len \<and> (\<exists>k \<le> length buf. log (world (snd r)) = pre @ take k buf
      \<and> (fst r \<noteq> -1 \<longrightarrow> int k = fst r)) \<and> (fst r \<noteq> -1 \<longrightarrow> fst r < len \<longrightarrow> nonblock s)"
  have "?P br s buf len sent st (n, st')"
  proof (rule ak_send_stream.raw_induct [where P = ?P, OF _ ret], intro impI, goal_cases)
    case (1 f br s buf len sent st r)
    note hyps = 1(3-7)
    show ?case
    proof (cases "sent < len")
      case False
      with 1(2) hyps show ?thesis by (auto intro!: exI [of _ "length buf"])
    next
      case True
      let ?c = "send_chunk (len - sent)"
      have c: "0 < ?c" "?c \<le> 996" "?c \<le> len - sent" using True send_chunk_bounds [of "len - sent"] by auto
      obtain p rx tx err st1 where po: "ak_poll br (handle s) st = (p, rx, tx, err, st1)"
        by (metis prod_cases5)
      obtain q w where se: "br_sendto br (handle s) (drop (nat sent) buf) (u64_of_int ?c) 0 0
          (world st1) = (q, w)" by fastforce
      note l = send_round_log [OF hyps(1,2) True hyps(4,5) po se]
      have k: "nat sent \<le> length buf" "int (nat sent) = sent" using hyps True by auto
      from 1(2) True po se consider
          (err) "fst r = -1" "world (snd r) = world st1"
        | (again) "q = AK_ST_OK" "f br s buf len (sent + ?c) (st1\<lparr>world := w\<rparr>) = Some r"
        | (part) "q \<noteq> AK_ST_OK" "fst r = (if sent > 0 then sent else -1)" "world (snd r) = w" "nonblock s"
        | (wait) "q \<noteq> AK_ST_OK" "f br s buf len sent (ak_sleep_slice br (st1\<lparr>world := w\<rparr>)) = Some r"
        | (eio) "q \<noteq> AK_ST_OK" "fst r = -1" "world (snd r) = w"
        by (auto simp: Let_def fail_def split: if_splits)
      then show ?thesis
      proof cases
        case again
        with 1(1) [OF again(2)] l(2) hyps c show ?thesis by auto
      next
        case wait
        with 1(1) [OF wait(2)] l(2,3) hyps show ?thesis by auto
      qed (use l(1,2) k hyps True in \<open>auto intro!: exI [of _ "nat sent"]\<close>)
    qed
  qed
  then show ?thesis using assms by simp
qed

text \<open>
  Property C2: \<open>ak_send\<close> on a TCP socket hands the bytes of the caller's buffer to the bridge in
  order, in chunks, without losing or repeating any. A nonnegative result is the number of bytes
  sent, and is short of the request only on a non-blocking socket; a result of -1 leaves some
  prefix of the buffer sent.
\<close>

theorem ak_send_stream_in_order:
  assumes "send_log br log" and "proto s = 6"
    and "ak_send br s buf (int (length buf)) ip port st = Some (n, st')"
  shows "-1 \<le> n \<and> n \<le> int (length buf)
    \<and> (\<exists>k \<le> length buf. log (world st') = log (world st) @ take k buf \<and> (n \<noteq> -1 \<longrightarrow> int k = n))
    \<and> (n \<noteq> -1 \<longrightarrow> n < int (length buf) \<longrightarrow> nonblock s)"
  using assms ak_send_stream_log [of br log s buf "int (length buf)" 0 st n st' "log (world st)"]
  by (simp add: ak_send_def)

lemma sim_send_log: "send_log sim_bridge sim_sent"
  by (simp add: send_log_def sim_bridge_def)

theorem ak_send_stream_in_order_witness:
  "\<exists>st. ak_send sim_bridge sim_tcp (replicate 1000 7) (int (length (replicate 1000 (7::u8)))) 0 0
          (sim_state sim_tcp) = Some (1000, st)
      \<and> sim_sent (world st) = sim_sent (world (sim_state sim_tcp)) @ replicate 1000 7"
proof -
  let ?B = "replicate 1000 (7::u8)"
  have "map_option fst (ak_send sim_bridge sim_tcp ?B 1000 0 0 (sim_state sim_tcp)) = Some 1000"
    by code_simp
  then obtain st where r: "ak_send sim_bridge sim_tcp ?B (int (length ?B)) 0 0 (sim_state sim_tcp) =
      Some (1000, st)" by auto
  have "proto sim_tcp = 6" by (simp add: sim_tcp_def)
  from ak_send_stream_in_order [OF sim_send_log this r] obtain k where
    "sim_sent (world st) = sim_sent (world (sim_state sim_tcp)) @ take k ?B" "int k = 1000" by auto
  with r show ?thesis by auto
qed

section \<open>A blocking receive returns\<close>

text \<open>The state in which the receive loop makes its \<open>i\<close>-th retry, and the status it gets there.\<close>

definition recv_retry :: "'w bridge \<Rightarrow> ak_sock \<Rightarrow> int \<Rightarrow> 'w gstate \<Rightarrow> 'w gstate" where
  "recv_retry br s len st = ak_sleep_slice br
     (st\<lparr>world := snd (snd (snd (snd (snd
        (br_recvfrom br (handle s) (u64_of_int len) 0 (world st))))))\<rparr>)"

definition recv_status :: "'w bridge \<Rightarrow> ak_sock \<Rightarrow> int \<Rightarrow> 'w gstate \<Rightarrow> u64" where
  "recv_status br s len st = fst (br_recvfrom br (handle s) (u64_of_int len) 0 (world st))"

lemma ak_recv_loop_retry:
  assumes "recv_status br s len st \<in> {1, 2}" "\<not> nonblock s"
  shows "ak_recv_loop br s len st = ak_recv_loop br s len (recv_retry br s len st)"
  using assms
  by (subst ak_recv_loop.simps) (auto simp: recv_status_def recv_retry_def split: prod.splits)

lemma ak_recv_loop_retries:
  assumes "\<forall>i < k. recv_status br s len ((recv_retry br s len ^^ i) st) \<in> {1, 2}" "\<not> nonblock s"
  shows "ak_recv_loop br s len st = ak_recv_loop br s len ((recv_retry br s len ^^ k) st)"
  using assms(1)
proof (induction k)
  case 0
  then show ?case by simp
next
  case (Suc k)
  then show ?case
    using ak_recv_loop_retry [OF _ assms(2), of br len "(recv_retry br s len ^^ k) st"]
    by (simp add: less_Suc_eq)
qed

text \<open>
  Property C34: a blocking receive returns as soon as data is there. If the bridge reports
  \<open>Timeout\<close> or \<open>Not_Ready\<close> for \<open>k\<close> polls and then delivers \<open>c > 0\<close> bytes, \<open>ak_recv\<close> returns
  exactly \<open>c\<close> with those bytes and their source address.
\<close>

theorem ak_recv_returns_data:
  assumes "\<not> nonblock s" and "flags AND 2 = 0"
    and "\<forall>i < k. recv_status br s len ((recv_retry br s len ^^ i) st) \<in> {1, 2}"
    and "br_recvfrom br (handle s) (u64_of_int len) 0 (world ((recv_retry br s len ^^ k) st)) =
           (0, dat, sip, sport, c, w)"
    and "0 < c" and "c < 2 ^ 31"
  shows "ak_recv br s len flags st =
    Some (uint c, dat, sip, sport, ((recv_retry br s len ^^ k) st)\<lparr>world := w\<rparr>)"
proof -
  have "ak_recv br s len flags st = ak_recv_loop br s len ((recv_retry br s len ^^ k) st)"
    using assms(2) ak_recv_loop_retries [OF assms(3,1)] by (simp add: ak_recv_def)
  also have "\<dots> = Some (uint c, dat, sip, sport, ((recv_retry br s len ^^ k) st)\<lparr>world := w\<rparr>)"
    using assms(4-6) by (subst ak_recv_loop.simps) (simp add: int_of_u64_small)
  finally show ?thesis .
qed

theorem ak_recv_returns_data_witness:
  "\<exists>st. ak_recv sim_bridge sim_udp 64 0 (sim_state sim_udp) = Some (2, [104, 105], 0x0A000202, 53, st)"
proof -
  let ?R = "recv_retry sim_bridge sim_udp 64" and ?S = "sim_state sim_udp"
  have st: "recv_status sim_bridge sim_udp 64 ?S = 1"
    "recv_status sim_bridge sim_udp 64 (?R ?S) = 1" by code_simp+
  have pre: "\<forall>i < 2. recv_status sim_bridge sim_udp 64 ((?R ^^ i) ?S) \<in> {1, 2}"
    using st by (auto simp: less_2_cases_iff)
  have "(case br_recvfrom sim_bridge (handle sim_udp) (u64_of_int 64) 0 (world ((?R ^^ 2) ?S)) of
      (r, dat, sip, sport, c, w) \<Rightarrow> r = 0 \<and> dat = [104, 105] \<and> sip = 0x0A000202 \<and> sport = 53 \<and> c = 2)"
    by code_simp
  then obtain w where fin: "br_recvfrom sim_bridge (handle sim_udp) (u64_of_int 64) 0
      (world ((?R ^^ 2) ?S)) = (0, [104, 105], 0x0A000202, 53, 2, w)"
    by (auto split: prod.splits)
  have nb: "\<not> nonblock sim_udp" by (simp add: sim_udp_def ak_sock_zero_def)
  from ak_recv_returns_data [OF nb _ pre fin, of 0] show ?thesis by simp
qed

section \<open>Receiving zero bytes from a datagram socket\<close>

text \<open>The documented truncation of \<open>Recv_From\<close>: the count never exceeds the room given.\<close>

definition recv_truncates :: "'w bridge \<Rightarrow> bool" where
  "recv_truncates br \<longleftrightarrow>
     (\<forall>h mx tmo w r dat ip port c w'. br_recvfrom br h mx tmo w = (r, dat, ip, port, c, w') \<longrightarrow> c \<le> mx)"

text \<open>
  Defect: on a UDP or ICMP socket a receive with a length of 0 never returns a
  result other than -1, and on a blocking socket it discards one queued datagram per iteration
  and goes on waiting. The bridge truncates the byte count to the length asked for, and the
  worker takes a count of 0 for a datagram that is to be skipped.
\<close>

theorem ak_recv_zero_length_never_succeeds:
  assumes "recv_truncates br" and "proto s \<noteq> 6" and "ak_recv br s 0 flags st = Some (n, rest)"
  shows "n = -1"
proof (cases "flags AND 2 = 0")
  case False
  with assms(3) show ?thesis by (simp add: ak_recv_def)
next
  case True
  with assms(3) have ret: "ak_recv_loop br s 0 st = Some (n, rest)" by (simp add: ak_recv_def)
  have "recv_truncates br \<longrightarrow> proto s \<noteq> 6 \<longrightarrow> (0::int) = 0 \<longrightarrow> fst (n, rest) = -1"
  proof (rule ak_recv_loop.raw_induct [where P = "\<lambda>br s len st r. recv_truncates br \<longrightarrow> proto s \<noteq> 6 \<longrightarrow>
      len = 0 \<longrightarrow> fst r = -1", OF _ ret], intro impI, goal_cases)
    case (1 f br s len st r)
    obtain q dat sip sport c w where rf: "br_recvfrom br (handle s) (u64_of_int len) 0 (world st) =
        (q, dat, sip, sport, c, w)" by (metis prod_cases6)
    have "c = 0"
      using 1(3) rf 1(5) unfolding recv_truncates_def u64_of_int_def by fastforce
    with 1(2) rf 1(4) consider "fst r = -1" | st2 where "f br s len st2 = Some r"
      by (auto simp: Let_def split: if_splits)
    then show ?case using 1(1) [of br s len _ r] 1(3-5) by cases blast+
  qed
  then show ?thesis using assms(1,2) by simp
qed

theorem ak_recv_zero_length_never_succeeds_witness:
  "\<exists>rest. ak_recv sim_bridge (sim_udp\<lparr>nonblock := True\<rparr>) 0 0 (sim_state sim_udp) = Some (-1, rest)"
proof -
  have law: "recv_truncates sim_bridge"
    by (simp add: recv_truncates_def sim_bridge_def)
  have "ak_recv sim_bridge (sim_udp\<lparr>nonblock := True\<rparr>) 0 0 (sim_state sim_udp) \<noteq> None"
    by code_simp
  then obtain n rest where
    r: "ak_recv sim_bridge (sim_udp\<lparr>nonblock := True\<rparr>) 0 0 (sim_state sim_udp) = Some (n, rest)"
    by auto
  have "n = -1"
    by (rule ak_recv_zero_length_never_succeeds [OF law _ r]) (simp add: sim_udp_def)
  with r show ?thesis by blast
qed

end
