(* ===== verification/Fd_Set.thy ===== *)
theory Fd_Set
  imports Aegir_Prelude
begin

text \<open>
  The \<open>fd_set\<close> bit array of \<^verbatim>\<open>aegir_gsocket.c\<close> (32 bytes, one bit per descriptor 0..255) and the
  fs iteration helpers GNAT.Sockets imports. The array is refined to a fs of descriptors; the
  interface \<open>bit_set\<close> carries the laws the readiness scan of \<open>select\<close> needs. Descriptors are
  natural numbers: the C code indexes the array with the descriptor itself, so a descriptor
  outside 0..255 is outside the array and no statement below speaks about one.
\<close>

section \<open>Operations\<close>

definition AK_FDSET_BYTES :: nat where
  "AK_FDSET_BYTES = 32"

definition ak_isset :: "bytes \<Rightarrow> nat \<Rightarrow> int" where
  "ak_isset fs fd = uint (drop_bit (fd AND 7) (fs ! drop_bit 3 fd) AND 1)"

definition ak_setbit :: "bytes \<Rightarrow> nat \<Rightarrow> bytes" where
  "ak_setbit fs fd = fs[drop_bit 3 fd := fs ! drop_bit 3 fd OR push_bit (fd AND 7) 1]"

definition ak_clrbit :: "bytes \<Rightarrow> nat \<Rightarrow> bytes" where
  "ak_clrbit fs fd = fs[drop_bit 3 fd := fs ! drop_bit 3 fd AND NOT (push_bit (fd AND 7) 1)]"

text \<open>The \<open>for (s = *last; s >= 0; s--)\<close> loop; the counter is one above \<open>s\<close>.\<close>

fun last_socket_loop :: "bytes \<Rightarrow> nat \<Rightarrow> int" where
  "last_socket_loop fs 0 = -1"
| "last_socket_loop fs (Suc s) =
     (if ak_isset fs s \<noteq> 0 then int s else last_socket_loop fs s)"

definition gnat_last_socket_in_set :: "bytes \<Rightarrow> int \<Rightarrow> int" where
  "gnat_last_socket_in_set fs l = last_socket_loop fs (nat (l + 1))"

text \<open>Returns the new set, the new \<open>*last\<close> and \<open>*sk\<close>.\<close>

definition gnat_get_socket_from_set :: "bytes \<Rightarrow> int \<Rightarrow> bytes \<times> int \<times> int" where
  "gnat_get_socket_from_set fs l =
     (let sk = l;
          fs' = ak_clrbit fs (nat sk)
      in (fs', gnat_last_socket_in_set fs' l, sk))"

definition gnat_insert_socket_in_set :: "bytes \<Rightarrow> nat \<Rightarrow> bytes" where
  "gnat_insert_socket_in_set fs sk = ak_setbit fs sk"

definition gnat_is_socket_in_set :: "bytes \<Rightarrow> nat \<Rightarrow> int" where
  "gnat_is_socket_in_set fs sk = ak_isset fs sk"

definition gnat_remove_socket_from_set :: "bytes \<Rightarrow> nat \<Rightarrow> bytes" where
  "gnat_remove_socket_from_set fs sk = ak_clrbit fs sk"

text \<open>\<open>memset (set, 0, AK_FDSET_BYTES)\<close>: the first 32 bytes become zero.\<close>

definition gnat_reset_socket_set :: "bytes \<Rightarrow> bytes" where
  "gnat_reset_socket_set fs = replicate AK_FDSET_BYTES 0 @ drop AK_FDSET_BYTES fs"

section \<open>The set interface\<close>

text \<open>
  What a client of the array may rely on: membership, insertion, removal and reset act on the
  abstract set of descriptors below a bound. The lemma proved once for every implementation is
  the effect of a scan that clears every member that fails a test.
\<close>

locale bit_set =
  fixes isset :: "'s \<Rightarrow> nat \<Rightarrow> bool"
    and ins :: "'s \<Rightarrow> nat \<Rightarrow> 's"
    and rem :: "'s \<Rightarrow> nat \<Rightarrow> 's"
    and reset :: "'s \<Rightarrow> 's"
    and elems :: "'s \<Rightarrow> nat set"
    and wf :: "'s \<Rightarrow> bool"
    and bound :: nat
  assumes isset_elems: "wf s \<Longrightarrow> fd < bound \<Longrightarrow> isset s fd \<longleftrightarrow> fd \<in> elems s"
    and elems_ins: "wf s \<Longrightarrow> fd < bound \<Longrightarrow> elems (ins s fd) = insert fd (elems s)"
    and elems_rem: "wf s \<Longrightarrow> fd < bound \<Longrightarrow> elems (rem s fd) = elems s - {fd}"
    and elems_reset: "wf s \<Longrightarrow> elems (reset s) = {}"
    and wf_ins: "wf s \<Longrightarrow> wf (ins s fd)"
    and wf_rem: "wf s \<Longrightarrow> wf (rem s fd)"
    and wf_reset: "wf s \<Longrightarrow> wf (reset s)"
    and elems_bound: "wf s \<Longrightarrow> elems s \<subseteq> {..<bound}"
begin

lemma finite_elems: "wf s \<Longrightarrow> finite (elems s)"
  using elems_bound finite_subset by blast

lemma rem_ins_commute:
  assumes "wf s" "a < bound" "b < bound" "a \<noteq> b"
  shows "elems (rem (ins s a) b) = elems (ins (rem s b) a)"
  using assms by (auto simp: elems_ins elems_rem wf_ins wf_rem)

lemma wf_fold_rem: "wf s \<Longrightarrow> wf (fold (\<lambda>fd s. if P fd then s else rem s fd) fds s)"
  by (induction fds arbitrary: s) (auto simp: wf_rem)

lemma elems_fold_rem:
  assumes "wf s" "\<forall>fd \<in> set fds. fd < bound"
  shows "elems (fold (\<lambda>fd s. if P fd then s else rem s fd) fds s) =
           elems s - {fd \<in> set fds. \<not> P fd}"
  using assms
proof (induction fds arbitrary: s)
  case Nil
  then show ?case by simp
next
  case (Cons fd fds)
  then show ?case
    by (cases "P fd") (auto simp: Cons.IH elems_rem wf_rem)
qed

end

section \<open>The bit array implements the interface\<close>

definition fdset_elems :: "bytes \<Rightarrow> nat set" where
  "fdset_elems fs = {fd. fd < 8 * length fs \<and> bit (fs ! (fd div 8)) (fd mod 8)}"

definition fdset_wf :: "bytes \<Rightarrow> bool" where
  "fdset_wf fs \<longleftrightarrow> length fs = AK_FDSET_BYTES"

lemma drop_bit_3_nat [simp]: "drop_bit 3 (fd::nat) = fd div 8"
  by (simp add: drop_bit_eq_div)

lemma and_7_nat [simp]: "(fd::nat) AND 7 = fd mod 8"
proof -
  have "fd AND mask 3 = fd mod 2 ^ 3"
    by (simp add: take_bit_eq_mask [symmetric] take_bit_eq_mod)
  then show ?thesis by (simp add: mask_eq_exp_minus_1)
qed

lemma ak_isset_bit: "ak_isset fs fd = of_bool (bit (fs ! (fd div 8)) (fd mod 8))"
  by (simp add: ak_isset_def and_one_eq mod2_eq_if bit_iff_odd_drop_bit)

lemma ak_isset_nonzero [simp]: "ak_isset fs fd \<noteq> 0 \<longleftrightarrow> bit (fs ! (fd div 8)) (fd mod 8)"
  by (simp add: ak_isset_bit)

lemma ak_isset_elems:
  "fdset_wf fs \<Longrightarrow> fd < 256 \<Longrightarrow> ak_isset fs fd \<noteq> 0 \<longleftrightarrow> fd \<in> fdset_elems fs"
  by (simp add: fdset_elems_def fdset_wf_def AK_FDSET_BYTES_def)

lemma length_ak_setbit [simp]: "length (ak_setbit fs fd) = length fs"
  by (simp add: ak_setbit_def)

lemma length_ak_clrbit [simp]: "length (ak_clrbit fs fd) = length fs"
  by (simp add: ak_clrbit_def)

lemma div_mod_8_eq: "n div 8 = m div 8 \<Longrightarrow> n mod 8 = m mod 8 \<Longrightarrow> n = (m::nat)"
  by (metis div_mult_mod_eq)

lemma elems_ak_setbit:
  assumes "fd < 8 * length fs"
  shows "fdset_elems (ak_setbit fs fd) = insert fd (fdset_elems fs)"
proof -
  have *: "fd div 8 < length fs" using assms by (simp add: less_mult_imp_div_less mult.commute)
  have "bit (ak_setbit fs fd ! (n div 8)) (n mod 8)
      \<longleftrightarrow> n = fd \<or> bit (fs ! (n div 8)) (n mod 8)" if "n < 8 * length fs" for n
    using * by (auto simp: ak_setbit_def nth_list_update bit_or_iff bit_exp_iff
        dest: div_mod_8_eq)
  then show ?thesis
    using assms by (auto simp: fdset_elems_def)
qed

lemma elems_ak_clrbit:
  assumes "fd < 8 * length fs"
  shows "fdset_elems (ak_clrbit fs fd) = fdset_elems fs - {fd}"
proof -
  have *: "fd div 8 < length fs" using assms by (simp add: less_mult_imp_div_less mult.commute)
  have "bit (ak_clrbit fs fd ! (n div 8)) (n mod 8)
      \<longleftrightarrow> n \<noteq> fd \<and> bit (fs ! (n div 8)) (n mod 8)" if "n < 8 * length fs" for n
    using * by (auto simp: ak_clrbit_def nth_list_update bit_and_iff bit_not_iff
        bit_exp_iff dest: div_mod_8_eq)
  then show ?thesis
    by (auto simp: fdset_elems_def)
qed

lemma elems_reset_set:
  "fdset_wf fs \<Longrightarrow> fdset_elems (gnat_reset_socket_set fs) = {}"
  by (auto simp: fdset_elems_def gnat_reset_socket_set_def fdset_wf_def AK_FDSET_BYTES_def)

interpretation fds: bit_set "\<lambda>s fd. ak_isset s fd \<noteq> 0" ak_setbit ak_clrbit
  gnat_reset_socket_set fdset_elems fdset_wf 256
proof (unfold_locales, goal_cases)
  case (1 s fd) then show ?case by (rule ak_isset_elems)
next
  case (2 s fd) then show ?case
    by (intro elems_ak_setbit) (simp add: fdset_wf_def AK_FDSET_BYTES_def)
next
  case (3 s fd) then show ?case
    by (intro elems_ak_clrbit) (simp add: fdset_wf_def AK_FDSET_BYTES_def)
next
  case (4 s) then show ?case by (rule elems_reset_set)
next
  case (7 s) then show ?case
    by (simp add: fdset_wf_def gnat_reset_socket_set_def AK_FDSET_BYTES_def)
next
  case (8 s) then show ?case
    by (auto simp: fdset_elems_def fdset_wf_def AK_FDSET_BYTES_def)
qed (simp_all add: fdset_wf_def)

section \<open>Iteration\<close>

text \<open>The greatest member below a bound, or -1.\<close>

definition max_below :: "nat set \<Rightarrow> nat \<Rightarrow> int" where
  "max_below A n = (if A \<inter> {..<n} = {} then -1 else int (Max (A \<inter> {..<n})))"

lemma max_below_Suc:
  "max_below A (Suc n) = (if n \<in> A then int n else max_below A n)"
proof (cases "n \<in> A")
  case True
  then have "Max (A \<inter> {..<Suc n}) = n"
    by (intro Max_eqI) auto
  with True show ?thesis by (auto simp: max_below_def)
next
  case False
  then have "A \<inter> {..<Suc n} = A \<inter> {..<n}"
    by (auto simp: less_Suc_eq)
  with False show ?thesis by (simp add: max_below_def)
qed

lemma last_socket_loop_max:
  "fdset_wf fs \<Longrightarrow> n \<le> 256 \<Longrightarrow> last_socket_loop fs n = max_below (fdset_elems fs) n"
proof (induction n)
  case 0
  then show ?case by (simp add: max_below_def)
next
  case (Suc n)
  then show ?case
    using ak_isset_elems [of fs n] by (simp add: max_below_Suc)
qed

lemma gnat_last_socket_in_set_max:
  "fdset_wf fs \<Longrightarrow> l < 256 \<Longrightarrow>
     gnat_last_socket_in_set fs l = max_below (fdset_elems fs) (nat (l + 1))"
  by (simp add: gnat_last_socket_in_set_def last_socket_loop_max)

lemma max_below_all:
  "A \<subseteq> {..<n} \<Longrightarrow> max_below A n = (if A = {} then -1 else int (Max A))"
  by (simp add: max_below_def Int_absorb2)

lemma max_below_remove_Max:
  assumes "finite A" "A \<noteq> {}" "A \<subseteq> {..<n}"
  shows "max_below (A - {Max A}) (Suc (Max A)) = max_below (A - {Max A}) n"
proof -
  have "A - {Max A} \<subseteq> {..<Suc (Max A)}"
    using assms by (auto simp: less_Suc_eq_le)
  moreover have "A - {Max A} \<subseteq> {..<n}"
    using assms by auto
  ultimately show ?thesis by (simp add: max_below_all)
qed

text \<open>
  Started at the greatest member, \<open>__gnat_get_socket_from_set\<close> hands out that
  member, removes exactly it from the set, and leaves \<open>*last\<close> at the greatest remaining member
  (-1 when the set is exhausted). Repeating the call therefore enumerates every descriptor of
  the set once, in descending order.
\<close>

theorem get_socket_from_set_enumerates:
  assumes "fdset_wf fs" and "fdset_elems fs \<noteq> {}"
    and "gnat_get_socket_from_set fs (gnat_last_socket_in_set fs 255) = (fs', l', sk)"
  shows "sk = int (Max (fdset_elems fs))
    \<and> fdset_elems fs' = fdset_elems fs - {Max (fdset_elems fs)}
    \<and> l' = gnat_last_socket_in_set fs' 255
    \<and> l' = (if fdset_elems fs' = {} then -1 else int (Max (fdset_elems fs')))"
proof -
  let ?A = "fdset_elems fs" let ?m = "Max ?A"
  have bound: "?A \<subseteq> {..<256}" and fin: "finite ?A"
    using assms(1) by (rule fds.elems_bound, rule fds.finite_elems)
  have m: "?m \<in> ?A" using fin assms(2) by (rule Max_in)
  with bound have m256: "?m < 256" by auto
  have last: "gnat_last_socket_in_set fs 255 = int ?m"
    using assms(1,2) bound by (simp add: gnat_last_socket_in_set_max max_below_all)
  with assms(3) have sk: "sk = int ?m" and fs': "fs' = ak_clrbit fs ?m"
    and l': "l' = gnat_last_socket_in_set fs' (int ?m)"
    by (auto simp: gnat_get_socket_from_set_def Let_def)
  have wf': "fdset_wf fs'" and el': "fdset_elems fs' = ?A - {?m}"
    using assms(1) m256 fs' by (auto simp: fds.wf_rem fds.elems_rem)
  have "l' = max_below (?A - {?m}) 256"
    using l' wf' el' m256 max_below_remove_Max [OF fin assms(2) bound]
    by (simp add: gnat_last_socket_in_set_max nat_add_distrib)
  moreover have "?A - {?m} \<subseteq> {..<256}" using bound by auto
  ultimately show ?thesis
    using wf' el' sk by (simp add: gnat_last_socket_in_set_max max_below_all)
qed

theorem get_socket_from_set_enumerates_witness:
  "fdset_wf (40 # replicate 31 0) \<and> fdset_elems (40 # replicate 31 0) \<noteq> {} \<and>
   gnat_last_socket_in_set (40 # replicate 31 0) 255 = 5 \<and>
   snd (snd (gnat_get_socket_from_set (40 # replicate 31 0) 5)) =
     int (Max (fdset_elems (40 # replicate 31 0)))"
proof -
  let ?W = "40 # replicate 31 0 :: bytes"
  have wf: "fdset_wf ?W" by (simp add: fdset_wf_def AK_FDSET_BYTES_def)
  have "5 \<in> fdset_elems ?W" by (simp add: fdset_elems_def)
  then have ne: "fdset_elems ?W \<noteq> {}" by blast
  have last: "gnat_last_socket_in_set ?W 255 = 5" by code_simp
  obtain fs' l' sk where r: "gnat_get_socket_from_set ?W 5 = (fs', l', sk)"
    by (cases "gnat_get_socket_from_set ?W 5")
  from get_socket_from_set_enumerates [OF wf ne, unfolded last, OF r] wf ne last r
  show ?thesis by simp
qed

end
