(* ===== verification/Sock_Wait.thy ===== *)
theory Sock_Wait
  imports Sock_Calls Fd_Set
begin

text \<open>
  Readiness in \<^verbatim>\<open>aegir_gsocket.c\<close>: \<open>ak_ready\<close>, \<open>select\<close> and \<open>poll\<close>. A descriptor set that may be
  NULL is an option; the three sets are updated in place, as in the C code, so each
  iteration of the wait loop sees what the previous one left.
\<close>

section \<open>Readiness\<close>

text \<open>The bit mask 1 readable, 2 writable, 4 exceptional.\<close>

definition ak_ready :: "'w bridge \<Rightarrow> int \<Rightarrow> 'w gstate \<Rightarrow> int \<times> 'w gstate" where
  "ak_ready br fd st =
     (case ak_get st fd of
        None \<Rightarrow> (0, st)
      | Some s \<Rightarrow>
          if kind s = KIND_SIGR then (if sig_count s > 0 then 1 else 0, st)
          else if kind s = KIND_SIGW then (2, st)
          else if kind s \<noteq> KIND_SOCK then (0, st)
          else let (r, rx, tx, err, st) = ak_poll br (handle s) st in
               if r \<noteq> AK_ST_OK then (4, st)
               else if err \<noteq> 0 then (1 OR 2 OR 4, st)
               else let m = (if rx > 0 then 0 OR 1 else 0);
                        m = (if tx > 0 \<and> \<not> listening s then m OR 2 else m)
                    in (m, st))"

section \<open>select\<close>

text \<open>Membership in a set that may be NULL.\<close>

definition in_set :: "bytes option \<Rightarrow> nat \<Rightarrow> bool" where
  "in_set fs fd = (case fs of None \<Rightarrow> False | Some s \<Rightarrow> ak_isset s fd \<noteq> 0)"

text \<open>One set's part of the body of the scan: count a ready descriptor, clear any other.\<close>

definition scan_one :: "bytes option \<Rightarrow> nat \<Rightarrow> bool \<Rightarrow> int \<Rightarrow> bytes option \<times> int" where
  "scan_one fs fd ready nready =
     (if in_set fs fd
      then if ready then (fs, nready + 1) else (map_option (\<lambda>s. ak_clrbit s fd) fs, nready)
      else (fs, nready))"

type_synonym fd_sets = "bytes option \<times> bytes option \<times> bytes option"

text \<open>The inner \<open>for (fd = 0; fd < nfds; fd++)\<close>, over the descriptors still to scan.\<close>

fun select_scan ::
  "'w bridge \<Rightarrow> nat list \<Rightarrow> fd_sets \<Rightarrow> int \<Rightarrow> 'w gstate \<Rightarrow> int \<times> fd_sets \<times> 'w gstate" where
  "select_scan br [] sets nready st = (nready, sets, st)"
| "select_scan br (fd # fds) (rd, wr, ex) nready st =
     (let (m, st) = (if in_set rd fd \<or> in_set wr fd \<or> in_set ex fd
                     then ak_ready br (int fd) st else (0, st));
          (rd, nready) = scan_one rd fd (m AND 1 \<noteq> 0) nready;
          (wr, nready) = scan_one wr fd (m AND 2 \<noteq> 0) nready;
          (ex, nready) = scan_one ex fd (m AND 4 \<noteq> 0) nready
      in select_scan br fds (rd, wr, ex) nready st)"

text \<open>The \<open>for (;;)\<close>: \<open>None\<close> as the deadline is an infinite wait.\<close>

partial_function (option) select_loop ::
  "'w bridge \<Rightarrow> nat \<Rightarrow> u64 option \<Rightarrow> fd_sets \<Rightarrow> 'w gstate
     \<Rightarrow> (int \<times> fd_sets \<times> 'w gstate) option" where
  "select_loop br nfds deadline sets st =
     (let (nready, sets, st) = select_scan br [0..<nfds] sets 0 st in
      if nready > 0 then Some (nready, sets, st)
      else case deadline of
        None \<Rightarrow> select_loop br nfds deadline sets (ak_sleep_slice br st)
      | Some d \<Rightarrow>
          let (t, st) = ak_now br st in
          if t \<ge> d then Some (0, sets, st)
          else select_loop br nfds deadline sets (ak_sleep_slice br st))"

declare select_loop.simps [code]

text \<open>
  \<open>timeout\<close> is \<open>(tv_sec, tv_usec)\<close> when the pointer is not NULL. A negative \<open>nfds\<close> scans nothing.
\<close>

definition select ::
  "'w bridge \<Rightarrow> int \<Rightarrow> fd_sets \<Rightarrow> (int \<times> int) option \<Rightarrow> 'w gstate
     \<Rightarrow> (int \<times> fd_sets \<times> 'w gstate) option" where
  "select br nfds sets timeout st =
     (let (deadline, st) =
            (case timeout of
               None \<Rightarrow> (None, st)
             | Some (sec, usec) \<Rightarrow>
                 let (t, st) = ak_now br st in
                 (Some (t + word_of_int sec * AK_TICK_HZ + word_of_int usec * (AK_TICK_HZ div 1000000)),
                  st));
          nfds = (if nfds > AK_FD_MAX then AK_FD_MAX else nfds)
      in select_loop br (nat nfds) deadline sets st)"

section \<open>poll\<close>

record ak_pollfd =
  p_fd :: int
  p_events :: int
  p_revents :: int

text \<open>POLLIN is 1, POLLOUT 4, POLLERR 8, POLLNVAL 32.\<close>

definition poll_one :: "'w bridge \<Rightarrow> ak_pollfd \<Rightarrow> 'w gstate \<Rightarrow> ak_pollfd \<times> bool \<times> 'w gstate" where
  "poll_one br p st =
     (let (m, st) = ak_ready br (p_fd p) st in
      if ak_get st (p_fd p) = None then (p\<lparr>p_revents := 32\<rparr>, True, st)
      else let r = 0;
               r = (if p_events p AND 1 \<noteq> 0 \<and> m AND 1 \<noteq> 0 then r OR 1 else r);
               r = (if p_events p AND 4 \<noteq> 0 \<and> m AND 2 \<noteq> 0 then r OR 4 else r);
               r = (if m AND 4 \<noteq> 0 then r OR 8 else r)
           in (p\<lparr>p_revents := r\<rparr>, r \<noteq> 0, st))"

fun poll_scan ::
  "'w bridge \<Rightarrow> ak_pollfd list \<Rightarrow> 'w gstate \<Rightarrow> ak_pollfd list \<times> int \<times> 'w gstate" where
  "poll_scan br [] st = ([], 0, st)"
| "poll_scan br (p # ps) st =
     (let (p, hit, st) = poll_one br p st;
          (ps, n, st) = poll_scan br ps st
      in (p # ps, (if hit then 1 else 0) + n, st))"

partial_function (option) poll_loop ::
  "'w bridge \<Rightarrow> u64 option \<Rightarrow> ak_pollfd list \<Rightarrow> 'w gstate
     \<Rightarrow> (int \<times> ak_pollfd list \<times> 'w gstate) option" where
  "poll_loop br deadline ps st =
     (let (ps, nready, st) = poll_scan br ps st in
      if nready > 0 then Some (nready, ps, st)
      else case deadline of
        None \<Rightarrow> poll_loop br deadline ps (ak_sleep_slice br st)
      | Some d \<Rightarrow>
          let (t, st) = ak_now br st in
          if t \<ge> d then Some (0, ps, st)
          else poll_loop br deadline ps (ak_sleep_slice br st))"

declare poll_loop.simps [code]

definition poll ::
  "'w bridge \<Rightarrow> ak_pollfd list \<Rightarrow> int \<Rightarrow> 'w gstate \<Rightarrow> (int \<times> ak_pollfd list \<times> 'w gstate) option" where
  "poll br ps timeout_ms st =
     (let (t, st) = ak_now br st;
          d = t + u64_of_int timeout_ms * (AK_TICK_HZ div 1000)
      in poll_loop br (if timeout_ms < 0 then None else Some d) ps st)"

section \<open>What a scan leaves\<close>

text \<open>
  The three sets together as one set of pairs (kind, descriptor) with kind 0 for reading, 1 for
  writing and 2 for exceptions: the requests a scan has to answer.
\<close>

definition opt_elems :: "bytes option \<Rightarrow> nat set" where
  "opt_elems fs = (case fs of None \<Rightarrow> {} | Some s \<Rightarrow> fdset_elems s)"

definition watched :: "fd_sets \<Rightarrow> (nat \<times> nat) set" where
  "watched = (\<lambda>(rd, wr, ex).
     {0} \<times> opt_elems rd \<union> {1} \<times> opt_elems wr \<union> {2} \<times> opt_elems ex)"

definition sets_wf :: "fd_sets \<Rightarrow> bool" where
  "sets_wf = (\<lambda>(rd, wr, ex). \<forall>s. rd = Some s \<or> wr = Some s \<or> ex = Some s \<longrightarrow> fdset_wf s)"

abbreviation on_fds :: "nat set \<Rightarrow> (nat \<times> nat) set" where
  "on_fds A \<equiv> UNIV \<times> A"

text \<open>The bit of a readiness mask that answers a request of a kind.\<close>

definition mask_bit :: "int \<Rightarrow> nat \<Rightarrow> bool" where
  "mask_bit m k \<longleftrightarrow> m AND 2 ^ k \<noteq> 0"

lemma in_set_elems:
  "(\<And>s. fs = Some s \<Longrightarrow> fdset_wf s) \<Longrightarrow> fd < 256 \<Longrightarrow> in_set fs fd \<longleftrightarrow> fd \<in> opt_elems fs"
  by (auto simp: in_set_def opt_elems_def ak_isset_elems split: option.splits
      simp del: ak_isset_nonzero)

lemma scan_one_elems:
  assumes "\<And>s. fs = Some s \<Longrightarrow> fdset_wf s" "fd < 256"
    and "scan_one fs fd ready n = (fs', n')"
  shows "(\<forall>s. fs' = Some s \<longrightarrow> fdset_wf s)
    \<and> opt_elems fs' = opt_elems fs - (if ready then {} else {fd})
    \<and> n' = n + (if fd \<in> opt_elems fs \<and> ready then 1 else 0)"
  using assms in_set_elems [OF assms(1,2)]
  by (auto simp: scan_one_def opt_elems_def fds.elems_rem fds.wf_rem
      split: if_splits option.splits)

lemma finite_watched: "sets_wf sets \<Longrightarrow> finite (watched sets)"
  by (auto simp: watched_def sets_wf_def opt_elems_def split: option.splits
      intro!: finite_cartesian_product fds.finite_elems)

lemma watched_iff:
  "(k, x) \<in> watched (rd, wr, ex) \<longleftrightarrow>
     k = 0 \<and> x \<in> opt_elems rd \<or> k = 1 \<and> x \<in> opt_elems wr \<or> k = 2 \<and> x \<in> opt_elems ex"
  by (auto simp: watched_def)

text \<open>The body of the scan at one descriptor, as a filter on the requests.\<close>

lemma scan_step:
  assumes "sets_wf (rd, wr, ex)" "fd < 256"
    and "scan_one rd fd (m AND 1 \<noteq> 0) n = (rd', n1)"
    and "scan_one wr fd (m AND 2 \<noteq> 0) n1 = (wr', n2)"
    and "scan_one ex fd (m AND 4 \<noteq> 0) n2 = (ex', n3)"
  shows "sets_wf (rd', wr', ex')
    \<and> watched (rd', wr', ex') = watched (rd, wr, ex) - {(k, fd) | k. \<not> mask_bit m k}
    \<and> n3 = n + int (card (watched (rd', wr', ex') \<inter> on_fds {fd}))"
proof -
  have r: "(\<forall>s. rd' = Some s \<longrightarrow> fdset_wf s)
      \<and> opt_elems rd' = opt_elems rd - (if m AND 1 \<noteq> 0 then {} else {fd})
      \<and> n1 = n + (if fd \<in> opt_elems rd \<and> m AND 1 \<noteq> 0 then 1 else 0)"
    using assms(1) by (intro scan_one_elems [OF _ assms(2,3)]) (simp add: sets_wf_def)
  have w: "(\<forall>s. wr' = Some s \<longrightarrow> fdset_wf s)
      \<and> opt_elems wr' = opt_elems wr - (if m AND 2 \<noteq> 0 then {} else {fd})
      \<and> n2 = n1 + (if fd \<in> opt_elems wr \<and> m AND 2 \<noteq> 0 then 1 else 0)"
    using assms(1) by (intro scan_one_elems [OF _ assms(2,4)]) (simp add: sets_wf_def)
  have x: "(\<forall>s. ex' = Some s \<longrightarrow> fdset_wf s)
      \<and> opt_elems ex' = opt_elems ex - (if m AND 4 \<noteq> 0 then {} else {fd})
      \<and> n3 = n2 + (if fd \<in> opt_elems ex \<and> m AND 4 \<noteq> 0 then 1 else 0)"
    using assms(1) by (intro scan_one_elems [OF _ assms(2,5)]) (simp add: sets_wf_def)
  let ?c = "\<lambda>A. if fd \<in> A then 1 else (0::int)"
  have "watched (rd', wr', ex') \<inter> on_fds {fd} =
      (if fd \<in> opt_elems rd' then {(0, fd)} else {}) \<union> (if fd \<in> opt_elems wr' then {(1, fd)} else {})
      \<union> (if fd \<in> opt_elems ex' then {(2, fd)} else {})"
    by (auto simp: watched_def)
  then have "int (card (watched (rd', wr', ex') \<inter> on_fds {fd})) =
      ?c (opt_elems rd') + ?c (opt_elems wr') + ?c (opt_elems ex')"
    by (simp add: card_insert_if)
  moreover have "n3 = n + ?c (opt_elems rd') + ?c (opt_elems wr') + ?c (opt_elems ex')"
    using r w x by simp
  moreover have "watched (rd', wr', ex') = watched (rd, wr, ex) - {(k, fd) | k. \<not> mask_bit m k}"
  proof (rule set_eqI, clarify)
    fix k y
    have "y \<in> opt_elems rd' \<longleftrightarrow> y \<in> opt_elems rd \<and> (y = fd \<longrightarrow> mask_bit m 0)"
      "y \<in> opt_elems wr' \<longleftrightarrow> y \<in> opt_elems wr \<and> (y = fd \<longrightarrow> mask_bit m 1)"
      "y \<in> opt_elems ex' \<longleftrightarrow> y \<in> opt_elems ex \<and> (y = fd \<longrightarrow> mask_bit m 2)"
      using r w x by (simp_all add: mask_bit_def)
    then show "(k, y) \<in> watched (rd', wr', ex') \<longleftrightarrow>
        (k, y) \<in> watched (rd, wr, ex) - {(k, fd) | k. \<not> mask_bit m k}"
      unfolding watched_iff Diff_iff mem_Collect_eq by blast
  qed
  moreover have "sets_wf (rd', wr', ex')"
    using r w x by (simp add: sets_wf_def)
  ultimately show ?thesis by simp
qed

lemma card_watched_split:
  assumes "finite W" "fd \<notin> A"
  shows "card (W \<inter> on_fds (insert fd A)) = card (W \<inter> on_fds {fd}) + card (W \<inter> on_fds A)"
proof -
  have "W \<inter> on_fds (insert fd A) = (W \<inter> on_fds {fd}) \<union> (W \<inter> on_fds A)" by auto
  moreover have "(W \<inter> on_fds {fd}) \<inter> (W \<inter> on_fds A) = {}" using assms(2) by auto
  ultimately show ?thesis using assms(1) by (simp add: card_Un_disjoint)
qed

text \<open>
  A scan removes requests only, only at the descriptors scanned, and counts exactly the requests
  it leaves there.
\<close>

lemma select_scan_spec:
  assumes "select_scan br fds sets n st = (n', sets', st')"
    and "sets_wf sets" "distinct fds" "set fds \<subseteq> {..<256}"
  shows "sets_wf sets' \<and> watched sets' \<subseteq> watched sets
    \<and> watched sets' - on_fds (set fds) = watched sets - on_fds (set fds)
    \<and> n' = n + int (card (watched sets' \<inter> on_fds (set fds)))"
  using assms
proof (induction br fds sets n st rule: select_scan.induct)
  case (1 br sets nready st)
  then show ?case by simp
next
  case (2 br fd fds rd wr ex n st)
  obtain m st1 where m: "(if in_set rd fd \<or> in_set wr fd \<or> in_set ex fd
      then ak_ready br (int fd) st else (0, st)) = (m, st1)" by fastforce
  obtain rd1 n1 where 3: "scan_one rd fd (m AND 1 \<noteq> 0) n = (rd1, n1)" by fastforce
  obtain wr1 n2 where 4: "scan_one wr fd (m AND 2 \<noteq> 0) n1 = (wr1, n2)" by fastforce
  obtain ex1 n3 where 5: "scan_one ex fd (m AND 4 \<noteq> 0) n2 = (ex1, n3)" by fastforce
  have fd: "fd < 256" "fd \<notin> set fds" using "2.prems" by auto
  note st = scan_step [OF "2.prems"(2) fd(1) 3 4 5]
  have rest: "select_scan br fds (rd1, wr1, ex1) n3 st1 = (n', sets', st')"
    using "2.prems"(1) m 3 4 5 by simp
  have IH: "sets_wf sets' \<and> watched sets' \<subseteq> watched (rd1, wr1, ex1)
    \<and> watched sets' - on_fds (set fds) = watched (rd1, wr1, ex1) - on_fds (set fds)
    \<and> n' = n3 + int (card (watched sets' \<inter> on_fds (set fds)))"
    using "2.IH" [OF m [symmetric] refl 3 [symmetric] refl 4 [symmetric] refl 5 [symmetric] refl rest]
      "2.prems"(3,4) st by simp
  have keep: "watched sets' \<inter> on_fds {fd} = watched (rd1, wr1, ex1) \<inter> on_fds {fd}"
    using IH fd(2) by blast
  have "n' = n + int (card (watched sets' \<inter> on_fds (insert fd (set fds))))"
    using IH st keep card_watched_split [OF finite_watched fd(2), of sets'] by simp
  moreover have "watched sets' - on_fds (set (fd # fds)) = watched (rd, wr, ex) - on_fds (set (fd # fds))"
    using IH st by auto
  moreover have "watched sets' \<subseteq> watched (rd, wr, ex)" using IH st by auto
  ultimately show ?case using IH by simp
qed

text \<open>With no request left at the scanned descriptors, a scan does nothing at all.\<close>

lemma select_scan_idle:
  assumes "sets_wf sets" "set fds \<subseteq> {..<256}" "watched sets \<inter> on_fds (set fds) = {}"
  shows "select_scan br fds sets n st = (n, sets, st)"
  using assms
proof (induction fds)
  case Nil
  then show ?case by simp
next
  case (Cons fd fds)
  obtain rd wr ex where sets: "sets = (rd, wr, ex)" by (cases sets)
  have "fd < 256" using Cons.prems by simp
  moreover have "fd \<notin> opt_elems rd" "fd \<notin> opt_elems wr" "fd \<notin> opt_elems ex"
    using Cons.prems(3) by (auto simp: sets watched_def)
  ultimately have "\<not> in_set rd fd" "\<not> in_set wr fd" "\<not> in_set ex fd"
    using Cons.prems(1) by (auto simp: sets sets_wf_def in_set_elems)
  then have "select_scan br (fd # fds) sets n st = select_scan br fds sets n st"
    by (simp add: sets scan_one_def)
  also have "\<dots> = (n, sets, st)"
    using Cons by (intro Cons.IH) auto
  finally show ?case .
qed

section \<open>The wait loop of select\<close>

lemma scan_range: "n \<le> 256 \<Longrightarrow> distinct [0..<n] \<and> set [0..<n] \<subseteq> {..<256}"
  by auto

text \<open>Once nothing is watched below \<open>nfds\<close>, no result but a timeout can come back.\<close>

lemma select_loop_idle:
  assumes ret: "select_loop br n dl sets st = Some r"
    and "sets_wf sets" "n \<le> 256" "watched sets \<inter> on_fds (set [0..<n]) = {}"
  shows "fst r = 0 \<and> dl \<noteq> None"
proof -
  have "sets_wf sets \<longrightarrow> n \<le> 256 \<longrightarrow> watched sets \<inter> on_fds (set [0..<n]) = {} \<longrightarrow>
      fst r = 0 \<and> dl \<noteq> None"
  proof (rule select_loop.raw_induct [where P = "\<lambda>br n dl sets st r. sets_wf sets \<longrightarrow> n \<le> 256 \<longrightarrow>
        watched sets \<inter> on_fds (set [0..<n]) = {} \<longrightarrow> fst r = 0 \<and> dl \<noteq> None", OF _ ret],
      intro impI, goal_cases)
    case (1 f br n dl sets st r)
    have scan: "select_scan br [0..<n] sets 0 st = (0, sets, st)"
      using 1(3-5) by (intro select_scan_idle) auto
    show ?case
    proof (cases dl)
      case None
      with 1(2) scan have "f br n dl sets (ak_sleep_slice br st) = Some r" by simp
      from 1(1) [OF this] 1(3-5) show ?thesis by simp
    next
      case (Some d)
      obtain t st1 where now: "ak_now br st = (t, st1)" by fastforce
      show ?thesis
      proof (cases "t \<ge> d")
        case True
        with 1(2) scan now Some show ?thesis by auto
      next
        case False
        with 1(2) scan now Some have "f br n dl sets (ak_sleep_slice br st1) = Some r"
          by (simp add: Let_def)
        from 1(1) [OF this] 1(3-5) show ?thesis by simp
      qed
    qed
  qed
  with assms show ?thesis by blast
qed

lemma scan_zero_unwatched:
  assumes "select_scan br [0..<n] sets 0 st = (0, sets', st')" "sets_wf sets" "n \<le> 256"
  shows "sets_wf sets' \<and> watched sets' \<inter> on_fds (set [0..<n]) = {}"
proof -
  note spec = select_scan_spec [OF assms(1,2)] scan_range [OF assms(3)]
  have "finite (watched sets' \<inter> on_fds (set [0..<n]))"
    using spec finite_watched by blast
  then show ?thesis using spec by simp
qed

lemma select_loop_blind:
  assumes "select_scan br [0..<n] sets 0 st = (0, sets', st')" "sets_wf sets" "n \<le> 256"
    and ret: "select_loop br n dl sets st = Some r"
  shows "fst r = 0 \<and> dl \<noteq> None"
proof -
  note dead = scan_zero_unwatched [OF assms(1-3)]
  from ret consider "fst r = 0 \<and> dl \<noteq> None"
    | st'' where "select_loop br n dl sets' st'' = Some r"
    unfolding select_loop.simps [of br n dl sets st] assms(1)
    by (auto split: option.splits prod.splits if_splits)
  then show ?thesis
    using dead assms(3) by cases (blast dest: select_loop_idle)+
qed

abbreviation nfds_clamp :: "int \<Rightarrow> nat" where
  "nfds_clamp nfds \<equiv> nat (if nfds > AK_FD_MAX then AK_FD_MAX else nfds)"

lemma nfds_clamp_le: "nfds_clamp nfds \<le> 256"
  by (auto simp: AK_FD_MAX_def)

text \<open>
  Property C4 (defect): \<open>select\<close> with a NULL timeout never returns when its first scan finds no
  descriptor ready, whatever becomes ready later. The first scan clears every requested bit in
  the caller's sets, and the later iterations of the wait loop scan those emptied sets.
\<close>

theorem select_infinite_never_returns:
  assumes "sets_wf sets"
    and "select_scan br [0..<nfds_clamp nfds] sets 0 st = (0, sets', st')"
  shows "select br nfds sets None st = None"
proof (cases "select br nfds sets None st")
  case (Some r)
  then have "select_loop br (nfds_clamp nfds) None sets st = Some r"
    by (simp add: select_def)
  from select_loop_blind [OF assms(2,1) nfds_clamp_le this] show ?thesis by simp
qed

theorem select_infinite_never_returns_witness:
  "select sim_bridge 4 (Some (8 # replicate 31 0), None, None) None (sim_state sim_udp) = None \<and>
   fst (ak_ready sim_bridge 3 (ak_sleep_slice sim_bridge
         (ak_sleep_slice sim_bridge (sim_state sim_udp)))) AND 1 = 1"
proof -
  let ?S = "(Some (8 # replicate 31 0), None, None) :: fd_sets"
  have wf: "sets_wf ?S" by (simp add: sets_wf_def fdset_wf_def AK_FDSET_BYTES_def)
  have scan: "select_scan sim_bridge [0..<nfds_clamp 4] ?S 0 (sim_state sim_udp) =
      (0, (Some (replicate 32 0), None, None), sim_state sim_udp)"
    by code_simp
  have "fst (ak_ready sim_bridge 3 (ak_sleep_slice sim_bridge
         (ak_sleep_slice sim_bridge (sim_state sim_udp)))) AND 1 = 1"
    by code_simp
  with select_infinite_never_returns [OF wf scan] show ?thesis by simp
qed

text \<open>
  \<open>select\<close> with a timeout reports 0 ready descriptors when its first scan
  finds none, even if a descriptor it was asked to watch becomes ready before the deadline.
\<close>

theorem select_timeout_reports_none:
  assumes "sets_wf sets" and "ak_now br st = (t, st1)"
    and "select_scan br [0..<nfds_clamp nfds] sets 0 st1 = (0, sets', st')"
    and "select br nfds sets (Some tv) st = Some (n, sets'', st'')"
  shows "n = 0"
proof -
  obtain sec usec where tv: "tv = (sec, usec)" by fastforce
  from assms(2,4) obtain d where
    "select_loop br (nfds_clamp nfds) (Some d) sets st1 = Some (n, sets'', st'')"
    by (simp add: select_def tv Let_def)
  from select_loop_blind [OF assms(3,1) nfds_clamp_le this] show ?thesis by simp
qed

theorem select_timeout_reports_none_witness:
  "\<exists>sets st. select sim_bridge 4 (Some (8 # replicate 31 0), None, None) (Some (0, 20000))
     (sim_state sim_udp) = Some (0, sets, st)"
proof -
  let ?S = "(Some (8 # replicate 31 0), None, None) :: fd_sets"
  have wf: "sets_wf ?S" by (simp add: sets_wf_def fdset_wf_def AK_FDSET_BYTES_def)
  have now: "ak_now sim_bridge (sim_state sim_udp) = (0, sim_state sim_udp)"
    by code_simp
  have scan: "select_scan sim_bridge [0..<nfds_clamp 4] ?S 0 (sim_state sim_udp) =
      (0, (Some (replicate 32 0), None, None), sim_state sim_udp)"
    by code_simp
  have "select sim_bridge 4 ?S (Some (0, 20000)) (sim_state sim_udp) \<noteq> None"
    by code_simp
  then obtain n sets st where
    r: "select sim_bridge 4 ?S (Some (0, 20000)) (sim_state sim_udp) = Some (n, sets, st)"
    by (metis option.exhaust prod_cases3)
  with select_timeout_reports_none [OF wf now scan r] show ?thesis by blast
qed

text \<open>
  Property C3: whatever \<open>select\<close> returns, the returned sets only contain descriptors that were
  requested, membership of descriptors at or above \<open>nfds\<close> is unchanged, and the result is the
  number of requests left below \<open>nfds\<close> in the three sets together.
\<close>

theorem select_result_sound:
  assumes "sets_wf sets" and "select br nfds sets timeout st = Some (n, sets', st')"
  shows "sets_wf sets' \<and> watched sets' \<subseteq> watched sets
    \<and> watched sets' - on_fds {..<nfds_clamp nfds} = watched sets - on_fds {..<nfds_clamp nfds}
    \<and> n = int (card (watched sets' \<inter> on_fds {..<nfds_clamp nfds}))"
proof -
  let ?N = "nfds_clamp nfds"
  let ?P = "\<lambda>N sets r. sets_wf sets \<longrightarrow> N \<le> 256 \<longrightarrow> (sets_wf (fst (snd r))
      \<and> watched (fst (snd r)) \<subseteq> watched sets
      \<and> watched (fst (snd r)) - on_fds {..<N} = watched sets - on_fds {..<N}
      \<and> fst r = int (card (watched (fst (snd r)) \<inter> on_fds {..<N})))"
  obtain dl st0 where ret: "select_loop br ?N dl sets st0 = Some (n, sets', st')"
    using assms(2) by (auto simp: select_def Let_def split: option.splits prod.splits)
  have "?P ?N sets (n, sets', st')"
  proof (rule select_loop.raw_induct [where P = "\<lambda>br N dl sets st r. ?P N sets r", OF _ ret],
      intro impI, goal_cases)
    case (1 f br N dl sets st r)
    obtain n1 sets1 st1 where scan: "select_scan br [0..<N] sets 0 st = (n1, sets1, st1)"
      by (metis prod_cases3)
    note spec = select_scan_spec [OF scan 1(3)] scan_range [OF 1(4)]
    have lt: "set [0..<N] = {..<N}" by auto
    from 1(2) consider "fst r = n1" "fst (snd r) = sets1" | "fst r = 0" "fst (snd r) = sets1" "\<not> n1 > 0"
      | st2 where "f br N dl sets1 st2 = Some r"
      by (auto simp: scan Let_def split: option.splits prod.splits if_splits)
    then show ?case
    proof cases
      case 3
      from 1(1) [OF this] 1(4) spec lt show ?thesis by auto
    qed (use spec lt in auto)
  qed
  then show ?thesis using assms(1) nfds_clamp_le by simp
qed

theorem select_result_sound_witness:
  "\<exists>sets st. select sim_bridge 4 (None, Some (8 # replicate 31 0), None) None (sim_state sim_udp) =
       Some (1, sets, st) \<and> watched sets \<subseteq> watched (None, Some (8 # replicate 31 0), None)"
proof -
  let ?S = "(None, Some (8 # replicate 31 0), None) :: fd_sets"
  have wf: "sets_wf ?S" by (simp add: sets_wf_def fdset_wf_def AK_FDSET_BYTES_def)
  have "map_option fst (select sim_bridge 4 ?S None (sim_state sim_udp)) = Some 1"
    by code_simp
  then obtain sets st where r: "select sim_bridge 4 ?S None (sim_state sim_udp) = Some (1, sets, st)"
    by auto
  from select_result_sound [OF wf r] r show ?thesis by blast
qed

section \<open>The wait loop of poll\<close>

text \<open>Readiness queries and waiting leave the descriptor table alone.\<close>

lemma ak_ready_fds: "ak_ready br fd st = (m, st') \<Longrightarrow> ak_fds st' = ak_fds st"
  by (auto simp: ak_ready_def Let_def dest: ak_poll_fds split: option.splits if_splits prod.splits)

text \<open>What one poll entry may report, given whether its descriptor is live.\<close>

definition poll_entry_ok :: "'w gstate \<Rightarrow> ak_pollfd \<Rightarrow> bool" where
  "poll_entry_ok st p \<longleftrightarrow>
     (if ak_get st (p_fd p) = None then p_revents p = 32
      else p_revents p \<in> {0, 1, 4, 5, 8, 9, 12, 13}
        \<and> (p_revents p AND 1 \<noteq> 0 \<longrightarrow> p_events p AND 1 \<noteq> 0)
        \<and> (p_revents p AND 4 \<noteq> 0 \<longrightarrow> p_events p AND 4 \<noteq> 0))"

lemma poll_one_spec:
  assumes "poll_one br p st = (p', hit, st')"
  shows "p_fd p' = p_fd p \<and> p_events p' = p_events p \<and> hit = (p_revents p' \<noteq> 0)
    \<and> ak_fds st' = ak_fds st \<and> poll_entry_ok st p'"
proof -
  obtain m st1 where m: "ak_ready br (p_fd p) st = (m, st1)" by fastforce
  have fds: "ak_fds st1 = ak_fds st" by (rule ak_ready_fds [OF m])
  from ak_get_cong [OF fds] assms fds show ?thesis
    by (simp add: poll_one_def m Let_def split: if_splits) (auto simp: poll_entry_ok_def)
qed

lemma poll_scan_spec:
  assumes "poll_scan br ps st = (ps', n, st')"
  shows "map p_fd ps' = map p_fd ps \<and> map p_events ps' = map p_events ps
    \<and> n = int (length (filter (\<lambda>p. p_revents p \<noteq> 0) ps')) \<and> ak_fds st' = ak_fds st
    \<and> list_all (poll_entry_ok st) ps'"
  using assms
proof (induction ps arbitrary: st ps' n st')
  case Nil
  then show ?case by simp
next
  case (Cons p ps)
  obtain p1 hit st1 where one: "poll_one br p st = (p1, hit, st1)" by (metis prod_cases3)
  obtain ps2 k st2 where rest: "poll_scan br ps st1 = (ps2, k, st2)" by (metis prod_cases3)
  note 1 = poll_one_spec [OF one] and 2 = Cons.IH [OF rest]
  have "poll_entry_ok st1 = poll_entry_ok st"
    using 1 ak_get_cong [of st1 st] by (auto simp: poll_entry_ok_def fun_eq_iff)
  with 1 2 Cons.prems show ?case by (auto simp: one rest)
qed

text \<open>
  Property C35: when \<open>poll\<close> returns, the descriptors and requested events of the array are
  untouched, every entry reports POLLNVAL exactly when its descriptor is not open, reports
  POLLIN and POLLOUT only when asked for, and the result is the number of entries with a
  nonzero \<open>revents\<close>. The descriptor table is unchanged.
\<close>

theorem poll_result_sound:
  assumes "poll br ps tmo st = Some (n, ps', st')"
  shows "map p_fd ps' = map p_fd ps \<and> map p_events ps' = map p_events ps
    \<and> n = int (length (filter (\<lambda>p. p_revents p \<noteq> 0) ps'))
    \<and> list_all (poll_entry_ok st) ps' \<and> ak_fds st' = ak_fds st"
proof -
  let ?Q = "\<lambda>ps st r. map p_fd (fst (snd r)) = map p_fd ps
    \<and> map p_events (fst (snd r)) = map p_events ps
    \<and> fst r = int (length (filter (\<lambda>p. p_revents p \<noteq> 0) (fst (snd r))))
    \<and> list_all (poll_entry_ok st) (fst (snd r)) \<and> ak_fds (snd (snd r)) = ak_fds st"
  obtain t st0 where now: "ak_now br st = (t, st0)" by fastforce
  then obtain dl where ret: "poll_loop br dl ps st0 = Some (n, ps', st')"
    using assms by (auto simp: poll_def)
  have ok_cong: "poll_entry_ok st1 = poll_entry_ok st2" if "ak_fds st1 = ak_fds st2"
    for st1 st2 :: "'a gstate"
    using ak_get_cong [OF that] by (auto simp: poll_entry_ok_def fun_eq_iff)
  have "?Q ps st0 (n, ps', st')"
  proof (rule poll_loop.raw_induct [where P = "\<lambda>br dl ps st r. ?Q ps st r", OF _ ret], goal_cases)
    case (1 f br dl ps st r)
    obtain ps1 n1 st1 where scan: "poll_scan br ps st = (ps1, n1, st1)" by (metis prod_cases3)
    note spec = poll_scan_spec [OF scan]
    have "n1 \<ge> 0" using spec by simp
    with 1(2) consider st2 where "r = (n1, ps1, st2)" "ak_fds st2 = ak_fds st1"
      | st2 where "f br dl ps1 st2 = Some r" "ak_fds st2 = ak_fds st1"
      by (auto simp: scan Let_def dest: ak_now_fds split: option.splits prod.splits if_splits)
    then show ?case
    proof cases
      case 1
      with spec show ?thesis by simp
    next
      case (2 st2)
      with "1"(1) [OF 2(1)] spec ok_cong [of st2 st] show ?thesis by simp
    qed
  qed
  moreover have "ak_fds st0 = ak_fds st" using now by (rule ak_now_fds)
  ultimately show ?thesis using ok_cong [of st0 st] by simp
qed

theorem poll_result_sound_witness:
  "\<exists>ps st. poll sim_bridge [\<lparr>p_fd = 3, p_events = 1, p_revents = 0\<rparr>] 1000 (sim_state sim_udp) =
       Some (1, ps, st) \<and> map p_fd ps = [3]"
proof -
  let ?P = "[\<lparr>p_fd = 3, p_events = 1, p_revents = 0\<rparr>]"
  have "map_option fst (poll sim_bridge ?P 1000 (sim_state sim_udp)) = Some 1"
    by code_simp
  then obtain ps st where r: "poll sim_bridge ?P 1000 (sim_state sim_udp) = Some (1, ps, st)"
    by auto
  from poll_result_sound [OF r] r show ?thesis by simp
qed

section \<open>A finite wait ends\<close>

text \<open>
  What the wait loops rely on: the time register reads the clock of the world, sleeping until a
  deadline ends at or after it, and no call turns the clock back. Any call may take any time. The
  clock is the number of ticks since boot; that the register reads it as it is says that the 64-bit
  counter does not wrap, which at 10 MHz takes 58000 years.
\<close>

definition clock_ok :: "'w bridge \<Rightarrow> ('w \<Rightarrow> nat) \<Rightarrow> bool" where
  "clock_ok br clk \<longleftrightarrow>
     (\<forall>w. unat (fst (br_rdtime br w)) = clk (snd (br_rdtime br w))
        \<and> clk w \<le> clk (snd (br_rdtime br w)))
   \<and> (\<forall>d w. unat d \<le> clk (br_sleep_until br d w) \<and> clk w \<le> clk (br_sleep_until br d w))
   \<and> (\<forall>h w s rx tx err w'. br_poll br h w = (s, rx, tx, err, w') \<longrightarrow> clk w \<le> clk w')"

lemma clock_ok_sleep:
  "clock_ok br clk \<Longrightarrow> unat d \<le> clk (br_sleep_until br d w) \<and> clk w \<le> clk (br_sleep_until br d w)"
  by (simp add: clock_ok_def)

lemma ak_now_clock:
  assumes "clock_ok br clk" "ak_now br st = (t, st')"
  shows "unat t = clk (world st') \<and> clk (world st) \<le> clk (world st')"
proof -
  have "t = fst (br_rdtime br (world st))" "world st' = snd (br_rdtime br (world st))"
    using assms(2) by (auto simp: ak_now_def split: prod.splits)
  then show ?thesis using assms(1) unfolding clock_ok_def by simp
qed

text \<open>
  A slice of sleep brings the clock past any time \<open>d\<close> at least a slice before the end of the
  counter's range, or advances it by a slice: when the deadline of the sleep wraps, the clock is
  already past \<open>d\<close>.
\<close>

lemma ak_sleep_slice_clock:
  assumes ck: "clock_ok br clk" and d: "d + 50000 \<le> 2 ^ 64"
  shows "d \<le> clk (world (ak_sleep_slice br st))
    \<or> clk (world st) + 50000 \<le> clk (world (ak_sleep_slice br st))"
proof -
  obtain t st1 where now: "ak_now br st = (t, st1)" by fastforce
  note c1 = ak_now_clock [OF ck now]
  note c2 = clock_ok_sleep [OF ck, of "t + AK_SLICE" "world st1"]
  have "unat (t + AK_SLICE) = unat t + 50000" if "unat t < d"
    using d that by (simp add: AK_SLICE_def unat_word_ariths)
  with c1 c2 show ?thesis by (cases "unat t < d") (auto simp: ak_sleep_slice_def now)
qed

lemma ak_poll_clock:
  assumes "clock_ok br clk" "ak_poll br h st = (s, rx, tx, err, st')"
  shows "clk (world st) \<le> clk (world st')"
proof -
  have "br_poll br h (world st) = (s, rx, tx, err, world st')"
    using assms(2) by (auto simp: ak_poll_def split: prod.splits)
  then show ?thesis using assms(1) unfolding clock_ok_def by blast
qed

lemma ak_ready_clock:
  assumes ck: "clock_ok br clk" and "ak_ready br fd st = (m, st')"
  shows "clk (world st) \<le> clk (world st')"
proof -
  have "snd (ak_ready br fd st) = st
      \<or> (\<exists>h. snd (ak_ready br fd st) = snd (snd (snd (snd (ak_poll br h st)))))"
    by (auto simp: ak_ready_def Let_def split_beta split: option.split)
  then show ?thesis using ak_poll_clock [OF ck] assms(2) by (metis order_refl prod.collapse snd_conv)
qed

lemma poll_scan_clock:
  "clock_ok br clk \<Longrightarrow> poll_scan br ps st = (ps', n, st') \<Longrightarrow> clk (world st) \<le> clk (world st')"
proof (induction ps arbitrary: st ps' n st')
  case Nil
  then show ?case by simp
next
  case (Cons p ps)
  obtain p1 hit st1 where one: "poll_one br p st = (p1, hit, st1)" by (metis prod_cases3)
  obtain ps2 k st2 where rest: "poll_scan br ps st1 = (ps2, k, st2)" by (metis prod_cases3)
  obtain m st0 where m: "ak_ready br (p_fd p) st = (m, st0)" by fastforce
  have "st1 = st0" using one by (auto simp: poll_one_def m Let_def split: if_splits)
  then have "clk (world st) \<le> clk (world st1)" using ak_ready_clock [OF Cons.prems(1) m] by simp
  also have "\<dots> \<le> clk (world st2)" by (rule Cons.IH [OF Cons.prems(1) rest])
  finally show ?case using Cons.prems(2) by (simp add: one rest)
qed

lemma poll_loop_returns:
  assumes ck: "clock_ok br clk" and d: "d + 50000 \<le> 2 ^ 64"
  shows "\<exists>n ps' st'. poll_loop br (Some (of_nat d)) ps st = Some (n, ps', st')
    \<and> (n > 0 \<or> n = 0 \<and> d \<le> clk (world st'))"
proof (induction "d - clk (world st)" arbitrary: ps st rule: less_induct)
  case less
  have ud: "unat (of_nat d :: u64) = d"
    using d by (simp add: unat_of_nat take_bit_nat_eq_self)
  obtain ps1 n1 st1 where scan: "poll_scan br ps st = (ps1, n1, st1)" by (metis prod_cases3)
  obtain t st2 where now: "ak_now br st1 = (t, st2)" by fastforce
  note c = poll_scan_clock [OF ck scan] ak_now_clock [OF ck now]
  have n1: "n1 \<ge> 0" using poll_scan_spec [OF scan] by simp
  show ?case
  proof (cases "n1 > 0 \<or> t \<ge> of_nat d")
    case True
    then show ?thesis using n1 c ud
      by (subst poll_loop.simps) (auto simp: scan now word_le_nat_alt)
  next
    case False
    then have "unat t < d" using ud by (simp add: not_le word_less_nat_alt)
    then have "d - clk (world (ak_sleep_slice br st2)) < d - clk (world st)"
      using ak_sleep_slice_clock [OF ck d, of st2] c by (elim conjE) arith
    from less [OF this, of ps1] False show ?thesis
      by (subst poll_loop.simps) (simp add: scan now)
  qed
qed

text \<open>
  Property C5: \<open>poll\<close> with a nonnegative timeout always returns, either a positive count or 0, and 0
  only once the clock has reached the deadline. The hypotheses: the register reads a clock that
  never turns back and a sleep ends at or after its deadline (\<open>clock_ok\<close>), and the deadline is
  at least one slice (5 ms) before the end of the 64-bit tick counter. No call is assumed to be quick.
\<close>

theorem poll_finite_timeout_returns:
  assumes "clock_ok br clk" and "tmo \<ge> 0"
    and "ak_now br st = (t, st1)" and "unat t + nat tmo * 10000 + 50000 \<le> 2 ^ 64"
  shows "\<exists>n ps' st'. poll br ps tmo st = Some (n, ps', st')
    \<and> (n > 0 \<or> n = 0 \<and> unat t + nat tmo * 10000 \<le> clk (world st'))"
proof -
  let ?d = "unat t + nat tmo * 10000"
  have "of_nat ?d = t + u64_of_int tmo * (AK_TICK_HZ div 1000)"
  proof -
    have "AK_TICK_HZ div 1000 = 10000" by (simp add: AK_TICK_HZ_def)
    moreover have "u64_of_int tmo = of_nat (nat tmo)"
      using assms(2) by (simp add: u64_of_int_def)
    ultimately show ?thesis by simp
  qed
  then show ?thesis
    using poll_loop_returns [OF assms(1,4), of ps st1] assms(2,3)
    by (simp add: poll_def Let_def)
qed

lemma sim_clock_ok: "clock_ok sim_bridge (\<lambda>w. unat (sim_clock w))"
  by (simp add: clock_ok_def sim_bridge_def word_le_nat_alt max_def)

theorem poll_finite_timeout_returns_witness:
  "\<exists>n ps st. poll sim_bridge [\<lparr>p_fd = 3, p_events = 0, p_revents = 0\<rparr>] 50 (sim_state sim_udp) =
     Some (n, ps, st) \<and> (n > 0 \<or> n = 0 \<and> unat (0 :: u64) + nat 50 * 10000 \<le> unat (sim_clock (world st)))"
proof (rule poll_finite_timeout_returns [OF sim_clock_ok])
  show "ak_now sim_bridge (sim_state sim_udp) = (0, sim_state sim_udp)"
    by (simp add: ak_now_def sim_bridge_def sim_state_def gstate_init_def sim_world_def ak_put_def)
qed (auto simp: ak_now_def sim_bridge_def)

end
