(* ===== verification/Sock_Signal.thy ===== *)
theory Sock_Signal
  imports Sock_Wait
begin

text \<open>
  The in-process signalling descriptors of \<^verbatim>\<open>aegir_gsocket.c\<close>, which GNAT.Sockets uses to abort
  a selector: a pair of table entries, the read end counting the bytes the write end has sent.
  The pair is shown to be a counter; closing the read end and reusing its slot is shown to break
  the pair without the error the code means to report.
\<close>

section \<open>Signalling descriptors\<close>

text \<open>The result, the pair \<open>fds[0], fds[1]\<close> on success, and the state.\<close>

definition gnat_create_signalling_fds :: "'w gstate \<Rightarrow> int \<times> (int \<times> int) option \<times> 'w gstate" where
  "gnat_create_signalling_fds st =
     (let (r, st) = ak_alloc st in
      if r < 0 then (-1, None, st)
      else let (w, st) = ak_alloc st in
        if w < 0 then (-1, None, ak_put st r ((ak_fds st ! nat r)\<lparr>used := False\<rparr>))
        else let st = ak_put st r ((ak_fds st ! nat r)\<lparr>kind := KIND_SIGR, partner := w\<rparr>);
                 st = ak_put st w ((ak_fds st ! nat w)\<lparr>kind := KIND_SIGW, partner := r\<rparr>)
             in (0, Some (r, w), st))"

definition gnat_read_signalling_fd :: "int \<Rightarrow> 'w gstate \<Rightarrow> int \<times> 'w gstate" where
  "gnat_read_signalling_fd rsig st =
     (case ak_get st rsig of
        None \<Rightarrow> fail EBADF st
      | Some s \<Rightarrow>
          if kind s \<noteq> KIND_SIGR then fail EBADF st
          else if sig_count s = 0 then fail EWOULDBLOCK st
          else (1, ak_put st rsig (s\<lparr>sig_count := sig_count s - 1\<rparr>)))"

definition gnat_write_signalling_fd :: "int \<Rightarrow> 'w gstate \<Rightarrow> int \<times> 'w gstate" where
  "gnat_write_signalling_fd wsig st =
     (case ak_get st wsig of
        None \<Rightarrow> fail EBADF st
      | Some s \<Rightarrow>
          if kind s \<noteq> KIND_SIGW then fail EBADF st
          else case ak_get st (partner s) of
            None \<Rightarrow> fail EPIPE st
          | Some r \<Rightarrow> (1, ak_put st (partner s) (r\<lparr>sig_count := sig_count r + 1\<rparr>)))"

definition gnat_close_signalling_fd :: "int \<Rightarrow> 'w gstate \<Rightarrow> 'w gstate" where
  "gnat_close_signalling_fd sig st =
     (case ak_get st sig of None \<Rightarrow> st | Some s \<Rightarrow> ak_put st sig (s\<lparr>used := False\<rparr>))"

definition gnat_disable_sigpipe :: "int \<Rightarrow> 'w gstate \<Rightarrow> 'w gstate" where
  "gnat_disable_sigpipe fd st = st"

definition gnat_disable_all_sigpipes :: "'w gstate \<Rightarrow> 'w gstate" where
  "gnat_disable_all_sigpipes st = st"

section \<open>A pair is a counter\<close>

definition sig_pair :: "'w gstate \<Rightarrow> int \<Rightarrow> int \<Rightarrow> u32 \<Rightarrow> bool" where
  "sig_pair st r w n \<longleftrightarrow> r \<noteq> w \<and>
     (\<exists>sr sw. ak_get st r = Some sr \<and> kind sr = KIND_SIGR \<and> sig_count sr = n
        \<and> ak_get st w = Some sw \<and> kind sw = KIND_SIGW \<and> partner sw = r)"

lemma sig_pairE:
  assumes "sig_pair st r w n" "gs_wf st"
  obtains sr sw where "r \<noteq> w" "3 \<le> r" "r < 256" "ak_get st r = Some sr" "kind sr = KIND_SIGR"
    "sig_count sr = n" "used sr" "ak_get st w = Some sw" "kind sw = KIND_SIGW" "partner sw = r"
proof -
  from assms(1) obtain sr sw where "r \<noteq> w" "ak_get st r = Some sr" "kind sr = KIND_SIGR"
    "sig_count sr = n" "ak_get st w = Some sw" "kind sw = KIND_SIGW" "partner sw = r"
    by (auto simp: sig_pair_def)
  then show thesis
    using tab.get_range [OF assms(2), of r sr] tab.get_live [OF assms(2), of r sr]
    by (intro that [of sr sw]) auto
qed

text \<open>Writing increments the counter, reading decrements it or reports that it is zero.\<close>

lemma write_signalling_pair:
  assumes "gs_wf st" "sig_pair st r w n"
  shows "\<exists>st'. gnat_write_signalling_fd w st = (1, st') \<and> gs_wf st' \<and> sig_pair st' r w (n + 1)"
  using assms(2,1)
  by (rule sig_pairE) (use assms(1) in
      \<open>auto simp: sig_pair_def gnat_write_signalling_fd_def ak_get_put\<close>)

lemma read_signalling_pair:
  assumes "gs_wf st" "sig_pair st r w n"
  shows "if n = 0 then gnat_read_signalling_fd r st = (-1, st\<lparr>errno := EWOULDBLOCK\<rparr>)
    else \<exists>st'. gnat_read_signalling_fd r st = (1, st') \<and> gs_wf st' \<and> sig_pair st' r w (n - 1)"
  using assms(2,1)
  by (rule sig_pairE) (use assms(1) in
      \<open>auto simp: sig_pair_def gnat_read_signalling_fd_def fail_def ak_get_put\<close>)

text \<open>A sequence of writes, then a sequence of reads with their results.\<close>

fun sig_writes :: "int \<Rightarrow> nat \<Rightarrow> 'w gstate \<Rightarrow> 'w gstate" where
  "sig_writes w 0 st = st"
| "sig_writes w (Suc k) st = sig_writes w k (snd (gnat_write_signalling_fd w st))"

fun sig_reads :: "int \<Rightarrow> nat \<Rightarrow> 'w gstate \<Rightarrow> int list" where
  "sig_reads r 0 st = []"
| "sig_reads r (Suc k) st =
     (let (x, st) = gnat_read_signalling_fd r st in x # sig_reads r k st)"

lemma sig_writes_pair:
  "gs_wf st \<Longrightarrow> sig_pair st r w n \<Longrightarrow>
     gs_wf (sig_writes w k st) \<and> sig_pair (sig_writes w k st) r w (n + of_nat k)"
proof (induction k arbitrary: st n)
  case 0
  then show ?case by simp
next
  case (Suc k)
  obtain st' where "gnat_write_signalling_fd w st = (1, st')" "gs_wf st'" "sig_pair st' r w (n + 1)"
    using write_signalling_pair [OF Suc.prems] by blast
  with Suc.IH [of st' "n + 1"] show ?case by (simp add: add.commute add.left_commute)
qed

lemma sig_pair_errno [simp]: "sig_pair (st\<lparr>errno := e\<rparr>) r w n = sig_pair st r w n"
  by (simp add: sig_pair_def)

lemma sig_reads_pair:
  "gs_wf st \<Longrightarrow> sig_pair st r w n \<Longrightarrow>
     sig_reads r k st = replicate (min k (unat n)) 1 @ replicate (k - unat n) (-1)"
proof (induction k arbitrary: st n)
  case 0
  then show ?case by simp
next
  case (Suc k)
  show ?case
  proof (cases "n = 0")
    case True
    then have "gnat_read_signalling_fd r st = (-1, st\<lparr>errno := EWOULDBLOCK\<rparr>)"
      using read_signalling_pair [OF Suc.prems] by simp
    with Suc.IH [of "st\<lparr>errno := EWOULDBLOCK\<rparr>" 0] Suc.prems True show ?thesis by simp
  next
    case False
    then obtain st' where rd: "gnat_read_signalling_fd r st = (1, st')" "gs_wf st'"
      "sig_pair st' r w (n - 1)"
      using read_signalling_pair [OF Suc.prems] by auto
    have m: "unat n = Suc (unat (n - 1))"
      using False by (simp add: unat_minus_one unat_gt_0)
    show ?thesis unfolding m using Suc.IH [OF rd(2,3)] rd(1) by simp
  qed
qed

text \<open>
  Property C36: a fresh pair of signalling descriptors is a counter. After \<open>k\<close> writes (fewer than
  \<open>2 ^ 32\<close>, the width of the counter) exactly the next \<open>k\<close> reads succeed, each later read returns
  -1, and the read end polls readable exactly while the count is positive.
\<close>

theorem signalling_pair_counts:
  assumes "gs_wf st" and "gnat_create_signalling_fds st = (0, Some (r, w), st')" and "k < 2 ^ 32"
  shows "r \<noteq> w
    \<and> sig_reads r m (sig_writes w k st') = replicate (min m k) 1 @ replicate (m - k) (-1)
    \<and> ak_ready br r (sig_writes w k st') = (if k > 0 then 1 else 0, sig_writes w k st')"
proof -
  obtain st1 where al: "ak_alloc st = (r, st1)" and r0: "r \<ge> 0"
    using assms(2) by (auto simp: gnat_create_signalling_fds_def Let_def split: prod.splits if_splits)
  obtain st2 where al2: "ak_alloc st1 = (w, st2)" and w0: "w \<ge> 0"
    using assms(2) al by (auto simp: gnat_create_signalling_fds_def Let_def split: prod.splits if_splits)
  have ne: "r \<noteq> w" by (rule tab.alloc_twice_distinct [OF assms(1) al r0 al2 w0])
  have wf1: "gs_wf st1" and wf2: "gs_wf st2"
    using tab.alloc_wf assms(1) al al2 by blast+
  have rng: "r \<in> {3..<256}" "w \<in> {3..<256}"
    using tab.alloc_ok [OF assms(1) al r0] tab.alloc_ok [OF wf1 al2 w0] by blast+
  have g: "ak_get st2 r = Some ak_fresh" "ak_get st2 w = Some ak_fresh"
    using tab.alloc_get [OF wf1 al2 w0] tab.alloc_get [OF assms(1) al r0] ne by simp_all
  have st': "st' = ak_put (ak_put st2 r (ak_fresh\<lparr>kind := KIND_SIGR, partner := w\<rparr>)) w
      (ak_fresh\<lparr>kind := KIND_SIGW, partner := r\<rparr>)"
    using assms(2) al al2 r0 w0 g ne rng
    by (auto simp: gnat_create_signalling_fds_def Let_def ak_get_Some_iff ak_put_def nth_list_update)
  have wf': "gs_wf st'" using wf2 by (simp add: st')
  have "sig_pair st' r w 0"
    using ne rng wf2 by (simp add: st' sig_pair_def ak_get_put ak_sock_zero_def)
  then have "gs_wf (sig_writes w k st') \<and> sig_pair (sig_writes w k st') r w (of_nat k)"
    using sig_writes_pair [OF wf', of r w 0 k] by simp
  moreover have "unat (of_nat k :: u32) = k"
    using assms(3) by (simp add: unat_of_nat take_bit_nat_eq_self)
  moreover from this have "(0::u32) < of_nat k \<longleftrightarrow> 0 < k"
    by (simp add: word_less_nat_alt)
  ultimately show ?thesis
    using ne sig_reads_pair [of "sig_writes w k st'" r w "of_nat k" m]
    by (auto simp: sig_pair_def ak_ready_def)
qed

theorem signalling_pair_counts_witness:
  "\<exists>st. gnat_create_signalling_fds (gstate_init sim_world) = (0, Some (3, 4), st) \<and>
        sig_reads 3 3 (sig_writes 4 2 st) = [1, 1, -1]"
proof -
  have "fst (gnat_create_signalling_fds (gstate_init sim_world)) = 0 \<and>
    fst (snd (gnat_create_signalling_fds (gstate_init sim_world))) = Some (3, 4)"
    by code_simp
  then obtain st where st: "gnat_create_signalling_fds (gstate_init sim_world) = (0, Some (3, 4), st)"
    by (cases "gnat_create_signalling_fds (gstate_init sim_world)") auto
  have "sig_reads 3 3 (sig_writes 4 2 st) = replicate (min 3 2) 1 @ replicate (3 - 2) (-1)"
    using signalling_pair_counts [OF gs_wf_init st, of 2 3 sim_bridge] by simp
  also have "\<dots> = [1, 1, -1]" by (simp add: numeral_eq_Suc)
  finally show ?thesis using st by blast
qed

section \<open>A reused read end\<close>

text \<open>
  Defect: when the read end has been closed and its slot handed to a new socket,
  \<open>__gnat_write_signalling_fd\<close> reports success and increments the signal count of that socket,
  although it reports EPIPE while the slot is free. The write end keeps the number of the old
  read end and only checks that the slot is in use.
\<close>

theorem signalling_write_hits_reused_slot:
  assumes "gs_wf st" and "sig_pair st r w n"
    and "socket br 2 type protocol (gnat_close_signalling_fd r st) = (r, st')"
  shows "(\<exists>st1. gnat_write_signalling_fd w (gnat_close_signalling_fd r st) = (-1, st1)
          \<and> errno st1 = EPIPE)
    \<and> (\<exists>s st2. ak_get st' r = Some s \<and> kind s = KIND_SOCK
          \<and> gnat_write_signalling_fd w st' = (1, st2)
          \<and> ak_get st2 r = Some (s\<lparr>sig_count := sig_count s + 1\<rparr>))"
proof -
  let ?st0 = "gnat_close_signalling_fd r st"
  obtain sr sw where p: "r \<noteq> w" "3 \<le> r" "r < 256" "ak_get st r = Some sr"
    "ak_get st w = Some sw" "kind sw = KIND_SIGW" "partner sw = r"
    using assms(1,2) by (auto elim: sig_pairE)
  have st0: "?st0 = ak_put st r (sr\<lparr>used := False\<rparr>)"
    using p by (simp add: gnat_close_signalling_fd_def)
  have wf0: "gs_wf ?st0" using assms(1) by (simp add: st0)
  have g0: "ak_get ?st0 r = None" "ak_get ?st0 w = Some sw"
    using assms(1) p by (simp_all add: st0 ak_get_put)
  have "\<exists>st1. gnat_write_signalling_fd w ?st0 = (-1, st1) \<and> errno st1 = EPIPE"
    using g0 p by (simp add: gnat_write_signalling_fd_def fail_def)
  moreover from wf0 assms(3) have "\<exists>s st2. ak_get st' r = Some s \<and> kind s = KIND_SOCK
      \<and> gnat_write_signalling_fd w st' = (1, st2)
      \<and> ak_get st2 r = Some (s\<lparr>sig_count := sig_count s + 1\<rparr>)"
  proof (cases rule: socket_cases)
    case (opened stn pr h wn)
    let ?s = "ak_fresh\<lparr>kind := KIND_SOCK, proto := ucast pr, handle := h\<rparr>"
    have fds: "ak_fds stn = ak_fds ?st0" by (rule ak_ensure_net_fds [OF opened(3)])
    have wfn: "gs_wf (stn\<lparr>world := wn\<rparr>)" using wf0 fds by (simp add: gs_wf_def)
    have "ak_get (stn\<lparr>world := wn\<rparr>) w = Some sw"
      using ak_get_cong [OF fds] g0 by simp
    then have g': "ak_get st' r = Some ?s" "ak_get st' w = Some sw" and wf': "gs_wf st'"
      using wfn p opened(8) by (simp_all add: ak_get_put)
    then have "gnat_write_signalling_fd w st' = (1, ak_put st' r (?s\<lparr>sig_count := sig_count ?s + 1\<rparr>))"
      using p by (simp add: gnat_write_signalling_fd_def)
    moreover have "ak_get (ak_put st' r (?s\<lparr>sig_count := sig_count ?s + 1\<rparr>)) r =
        Some (?s\<lparr>sig_count := sig_count ?s + 1\<rparr>)"
      using p wf' by (simp add: ak_get_put)
    ultimately show ?thesis using g' by (intro exI [of _ ?s] exI) auto
  qed (use p in auto)
  ultimately show ?thesis by blast
qed

theorem signalling_write_hits_reused_slot_witness:
  "\<exists>st st'. sig_pair st 3 4 0 \<and>
     socket sim_bridge 2 2 0 (gnat_close_signalling_fd 3 st) = (3, st') \<and>
     (\<exists>s st2. ak_get st' 3 = Some s \<and> kind s = KIND_SOCK \<and>
        gnat_write_signalling_fd 4 st' = (1, st2))"
proof -
  let ?st = "snd (snd (gnat_create_signalling_fds (gstate_init sim_world)))"
  have pair: "sig_pair ?st 3 4 0"
  proof -
    have "(case (ak_get ?st 3, ak_get ?st 4) of (Some sr, Some sw) \<Rightarrow>
       kind sr = KIND_SIGR \<and> sig_count sr = 0 \<and> kind sw = KIND_SIGW \<and> partner sw = 3 | _ \<Rightarrow> False)"
      by code_simp
    then show ?thesis by (auto simp: sig_pair_def split: option.splits prod.splits)
  qed
  have wf: "gs_wf ?st" by code_simp
  have "fst (socket sim_bridge 2 2 0 (gnat_close_signalling_fd 3 ?st)) = 3"
    by code_simp
  then obtain st' where so: "socket sim_bridge 2 2 0 (gnat_close_signalling_fd 3 ?st) = (3, st')"
    by (cases "socket sim_bridge 2 2 0 (gnat_close_signalling_fd 3 ?st)") simp
  from signalling_write_hits_reused_slot [OF wf pair so] pair so show ?thesis by blast
qed

end
