(* ===== verification/Sock_Opts.thy ===== *)
theory Sock_Opts
  imports Sock_Calls
begin

text \<open>
  Socket options of \<^verbatim>\<open>aegir_gsocket.c\<close>: the eight-entry option array behind \<open>setsockopt\<close> and
  \<open>getsockopt\<close> is a bounded map from (level, name) to values, and SO_ERROR reports each sticky
  error of the bridge once.
\<close>

section \<open>A bounded map\<close>

locale bounded_map =
  fixes find :: "'m \<Rightarrow> 'k \<Rightarrow> 'v option"
    and put :: "'k \<Rightarrow> 'v \<Rightarrow> 'm \<Rightarrow> 'm option"
    and count :: "'m \<Rightarrow> nat"
    and cap :: nat
    and wf :: "'m \<Rightarrow> bool"
  assumes put_find: "wf m \<Longrightarrow> put k v m = Some m' \<Longrightarrow> find m' = (find m)(k \<mapsto> v)"
    and put_wf: "wf m \<Longrightarrow> put k v m = Some m' \<Longrightarrow> wf m'"
    and put_full: "wf m \<Longrightarrow> put k v m = None \<longleftrightarrow> find m k = None \<and> count m = cap"
    and count_dom: "wf m \<Longrightarrow> count m = card (dom (find m))"
    and wf_dom: "wf m \<Longrightarrow> finite (dom (find m)) \<and> card (dom (find m)) \<le> cap"
begin

lemma put_other: "wf m \<Longrightarrow> put k v m = Some m' \<Longrightarrow> k' \<noteq> k \<Longrightarrow> find m' k' = find m k'"
  by (simp add: put_find)

lemma put_same: "wf m \<Longrightarrow> put k v m = Some m' \<Longrightarrow> find m' k = Some v"
  by (simp add: put_find)

lemma count_le_cap: "wf m \<Longrightarrow> count m \<le> cap"
  by (simp add: count_dom wf_dom)

text \<open>A key that is already present can always be written again.\<close>

lemma put_present: "wf m \<Longrightarrow> find m k \<noteq> None \<Longrightarrow> \<exists>m'. put k v m = Some m'"
  using put_full [of m k v] by (cases "put k v m") auto

end

section \<open>The option array\<close>

type_synonym sockopts = "(int \<times> int \<times> int) list"

definition opt_lookup :: "sockopts \<Rightarrow> int \<times> int \<Rightarrow> int option" where
  "opt_lookup os = (\<lambda>(l, n). opt_find l n os)"

text \<open>What \<open>setsockopt\<close> makes of the array: \<open>None\<close> when it is full.\<close>

definition opt_put :: "int \<times> int \<Rightarrow> int \<Rightarrow> sockopts \<Rightarrow> sockopts option" where
  "opt_put = (\<lambda>(l, n) v os.
     if opt_find l n os \<noteq> None then Some (opt_store l n v os)
     else if length os = AK_NOPT then None else Some (os @ [(l, n, v)]))"

definition opt_keys :: "sockopts \<Rightarrow> (int \<times> int) list" where
  "opt_keys os = map (\<lambda>(l, n, v). (l, n)) os"

definition opts_wf :: "sockopts \<Rightarrow> bool" where
  "opts_wf os \<longleftrightarrow> distinct (opt_keys os) \<and> length os \<le> AK_NOPT"

lemma opt_find_None: "opt_find l n os = None \<longleftrightarrow> (l, n) \<notin> set (opt_keys os)"
  by (induction l n os rule: opt_find.induct) (auto simp: opt_keys_def)

lemma opt_find_append:
  "opt_find l n (os @ [(l', n', v)]) =
     (case opt_find l n os of Some x \<Rightarrow> Some x | None \<Rightarrow> if l' = l \<and> n' = n then Some v else None)"
  by (induction l n os rule: opt_find.induct) auto

lemma opt_find_store:
  "opt_find l n os \<noteq> None \<Longrightarrow>
     opt_find l' n' (opt_store l n v os) = (if l' = l \<and> n' = n then Some v else opt_find l' n' os)"
  by (induction l n v os rule: opt_store.induct) auto

lemma opt_keys_store [simp]: "opt_keys (opt_store l n v os) = opt_keys os"
  by (induction l n v os rule: opt_store.induct) (auto simp: opt_keys_def)

lemma opt_keys_append: "opt_keys (os @ [(l, n, v)]) = opt_keys os @ [(l, n)]"
  by (simp add: opt_keys_def)

lemma dom_opt_lookup: "dom (opt_lookup os) = set (opt_keys os)"
proof (rule set_eqI)
  fix k show "k \<in> dom (opt_lookup os) \<longleftrightarrow> k \<in> set (opt_keys os)"
    using opt_find_None [of "fst k" "snd k" os]
    by (cases k) (simp add: opt_lookup_def domIff)
qed

lemma length_opt_keys [simp]: "length (opt_keys os) = length os"
  by (simp add: opt_keys_def)

lemma length_opt_store [simp]: "length (opt_store l n v os) = length os"
  by (metis length_opt_keys opt_keys_store)

lemma card_opt_lookup: "opts_wf os \<Longrightarrow> card (dom (opt_lookup os)) = length os"
  by (simp add: dom_opt_lookup opts_wf_def distinct_card)

interpretation so: bounded_map opt_lookup opt_put length AK_NOPT opts_wf
proof (unfold_locales, goal_cases)
  case (1 m k v m')
  then show ?case
    by (cases k) (auto simp: opt_put_def opt_lookup_def fun_eq_iff opt_find_store opt_find_append
        split: if_splits option.splits)
next
  case (2 m k v m')
  then show ?case
    by (cases k) (auto simp: opt_put_def opts_wf_def opt_find_None opt_keys_append split: if_splits)
next
  case (3 m k v)
  then show ?case by (cases k) (simp add: opt_put_def opt_lookup_def)
next
  case (4 m)
  then show ?case by (simp add: card_opt_lookup)
next
  case (5 m)
  then show ?case by (simp add: dom_opt_lookup opts_wf_def distinct_card)
qed

section \<open>setsockopt and getsockopt\<close>

lemma setsockopt_put:
  assumes "ak_get_sock st fd = Some s" "(l, n) \<noteq> (1, 4)"
  shows "setsockopt fd l n v st =
    (case opt_put (l, n) v (opts s) of
       None \<Rightarrow> fail ENOBUFS st | Some os \<Rightarrow> (0, ak_put st fd (s\<lparr>opts := os\<rparr>)))"
  using assms by (auto simp: setsockopt_def opt_put_def)

lemma getsockopt_lookup:
  assumes "ak_get_sock st fd = Some s" "(l, n) \<noteq> (1, 4)"
  shows "getsockopt br fd l n st = (0, Some (Inr (case opt_lookup (opts s) (l, n) of
    Some v \<Rightarrow> v | None \<Rightarrow> 0)), st)"
  using assms by (auto simp: getsockopt_def opt_lookup_def split: option.split)

text \<open>
  Property C40: on an open socket whose option array is well formed, \<open>setsockopt\<close> of an option
  other than SO_ERROR fails (with ENOBUFS, changing nothing else) exactly when eight other options are stored; when it
  succeeds, \<open>getsockopt\<close> returns the new value for that option, the previous value for every
  other option, and the array stays well formed.
\<close>

theorem setsockopt_getsockopt:
  assumes "gs_wf st" and "ak_get_sock st fd = Some s" and "opts_wf (opts s)"
    and "(l, n) \<noteq> (1, 4)" and "(l', n') \<noteq> (1, 4)"
    and "setsockopt fd l n v st = (r, st')"
  shows "(r = -1 \<longleftrightarrow> opt_lookup (opts s) (l, n) = None \<and> card (dom (opt_lookup (opts s))) = 8)
    \<and> (r = -1 \<longrightarrow> st' = st\<lparr>errno := ENOBUFS\<rparr>)
    \<and> (r \<noteq> -1 \<longrightarrow> r = 0
        \<and> fst (snd (getsockopt br fd l' n' st')) =
            (if (l', n') = (l, n) then Some (Inr v) else fst (snd (getsockopt br fd l' n' st)))
        \<and> (\<exists>s'. ak_get_sock st' fd = Some s' \<and> opts_wf (opts s')))"
proof (cases "opt_put (l, n) v (opts s)")
  case None
  then have "opt_lookup (opts s) (l, n) = None \<and> card (dom (opt_lookup (opts s))) = 8"
    using so.put_full [OF assms(3)] so.count_dom [OF assms(3)] by (simp add: AK_NOPT_def)
  with None show ?thesis
    using setsockopt_put [OF assms(2,4), of v] assms(6) by (auto simp: fail_def)
next
  case (Some os)
  let ?s = "s\<lparr>opts := os\<rparr>"
  have r: "r = 0" "st' = ak_put st fd ?s"
    using Some setsockopt_put [OF assms(2,4), of v] assms(6) by auto
  have fd: "3 \<le> fd" "fd < 256" "used s" "kind s = KIND_SOCK"
    using assms(2) by (auto simp: ak_get_sock_Some ak_get_Some_iff)
  then have g: "ak_get_sock st' fd = Some ?s"
    using assms(1) by (simp add: r ak_get_sock_Some ak_get_put)
  have "\<not> (opt_lookup (opts s) (l, n) = None \<and> card (dom (opt_lookup (opts s))) = 8)"
    using Some so.put_full [OF assms(3), of "(l, n)" v] so.count_dom [OF assms(3)]
    by (auto simp: AK_NOPT_def)
  then show ?thesis
    using r g so.put_find [OF assms(3) Some] so.put_wf [OF assms(3) Some]
      getsockopt_lookup [OF g assms(5)] getsockopt_lookup [OF assms(2,5)] by auto
qed

theorem setsockopt_getsockopt_witness:
  "\<exists>st'. setsockopt 3 1 7 4096 (sim_state sim_udp) = (0, st') \<and>
     fst (snd (getsockopt sim_bridge 3 1 7 st')) = Some (Inr 4096)"
proof -
  have g: "ak_get_sock (sim_state sim_udp) 3 = Some sim_udp" by code_simp
  have wf: "opts_wf (opts sim_udp)"
    by (simp add: sim_udp_def ak_sock_zero_def opts_wf_def opt_keys_def)
  have "fst (setsockopt 3 1 7 4096 (sim_state sim_udp)) = 0" by code_simp
  then obtain st' where s: "setsockopt 3 1 7 4096 (sim_state sim_udp) = (0, st')"
    by (cases "setsockopt 3 1 7 4096 (sim_state sim_udp)") simp
  from setsockopt_getsockopt [OF gs_wf_sim g wf _ _ s, of 1 7 sim_bridge] s show ?thesis by simp
qed

text \<open>
  SO_ERROR reports a sticky error once. If the bridge reports the same nonzero error
  word in two successive queries, the first \<open>getsockopt\<close> returns its errno (unless that error had
  already been reported) and the second returns 0.
\<close>

theorem so_error_reported_once:
  assumes "gs_wf st" and "ak_get_sock st fd = Some s"
    and "br_poll br (handle s) (world st) = (0, rx, tx, err, w)"
    and "br_poll br (handle s) w = (0, rx', tx', err, w')" and "err \<noteq> 0"
    and "getsockopt br fd 1 4 st = (r1, v1, st1)" and "getsockopt br fd 1 4 st1 = (r2, v2, st2)"
  shows "r1 = 0 \<and> r2 = 0 \<and> v2 = Some (Inl ENOERROR)
    \<and> v1 = Some (Inl (if err = last_so_err s then ENOERROR else ak_sticky_errno err))"
proof -
  have fd: "3 \<le> fd" "fd < 256" "used s" "kind s = KIND_SOCK"
    using assms(2) by (auto simp: ak_get_sock_Some ak_get_Some_iff)
  have 1: "r1 = 0" "v1 = Some (Inl (if err = last_so_err s then ENOERROR else ak_sticky_errno err))"
    "st1 = ak_put (st\<lparr>world := w\<rparr>) fd (s\<lparr>last_so_err := err\<rparr>)"
    using assms(2,3,5,6) by (auto simp: getsockopt_def ak_poll_def)
  have g: "ak_get_sock st1 fd = Some (s\<lparr>last_so_err := err\<rparr>)"
    using assms(1) fd by (simp add: 1 ak_get_sock_Some ak_get_put)
  have "world st1 = w" by (simp add: 1 ak_put_def)
  with g assms(4,7) have "r2 = 0" "v2 = Some (Inl ENOERROR)"
    by (auto simp: getsockopt_def ak_poll_def)
  with 1 show ?thesis by simp
qed

text \<open>A bridge whose socket 99 has been reset by its peer.\<close>

definition sim_reset :: "sim bridge" where
  "sim_reset = sim_bridge\<lparr>br_poll := (\<lambda>h w. (0, 0, 4, 6, w))\<rparr>"

theorem so_error_reported_once_witness:
  "\<exists>st1 st2. getsockopt sim_reset 3 1 4 (sim_state sim_tcp) = (0, Some (Inl ECONNRESET), st1) \<and>
     getsockopt sim_reset 3 1 4 st1 = (0, Some (Inl ENOERROR), st2)"
proof -
  have g: "ak_get_sock (sim_state sim_tcp) 3 = Some sim_tcp" by code_simp
  obtain r1 v1 st1 where c1: "getsockopt sim_reset 3 1 4 (sim_state sim_tcp) = (r1, v1, st1)"
    by (metis prod_cases3)
  obtain r2 v2 st2 where c2: "getsockopt sim_reset 3 1 4 st1 = (r2, v2, st2)" by (metis prod_cases3)
  have "last_so_err sim_tcp = 0" by (simp add: sim_tcp_def ak_sock_zero_def)
  with so_error_reported_once [OF gs_wf_sim g _ _ _ c1 c2, of 0 4 6 "world (sim_state sim_tcp)" 0 4
      "world (sim_state sim_tcp)"] c1 c2
  show ?thesis by (simp add: sim_reset_def ak_sticky_errno_def)
qed

end
