(* ===== verification/Inet_Text.thy ===== *)
theory Inet_Text
  imports Net_Sim
begin

text \<open>
  Dotted decimal text in \<^verbatim>\<open>aegir_gsocket.c\<close>: \<open>ak_parse_dotted\<close>, \<open>__gnat_inet_pton\<close> and
  \<open>__gnat_inet_ntop\<close>, with the part of \<open>snprintf\<close> they use. The parser is shown to accept exactly
  a grammar, the printer never to fail with a 16 byte buffer, and the two to be inverse.
  A C string is a list of characters; the end of the list is the terminating NUL.
\<close>

section \<open>The parser\<close>

definition is_digit :: "char \<Rightarrow> bool" where
  "is_digit c \<longleftrightarrow> (of_char CHR ''0'' :: nat) \<le> of_char c \<and> of_char c \<le> (of_char CHR ''9'' :: nat)"

definition digit_val :: "char \<Rightarrow> int" where
  "digit_val c = of_char c - of_char CHR ''0''"

definition is_blank :: "char \<Rightarrow> bool" where
  "is_blank c \<longleftrightarrow> c = CHR 0x00 \<or> c = CHR '' '' \<or> c = CHR 0x0A \<or> c = CHR 0x0D \<or> c = CHR 0x09"

text \<open>
  The locals \<open>part\<close>, \<open>val\<close>, \<open>digits\<close> and the memory from the destination pointer on, of any length: a
  store behind the four bytes of the destination changes the bytes that follow it. One character
  either decides the result or moves on with new locals.
\<close>

type_synonym pd_state = "nat \<times> int \<times> nat \<times> bytes"

definition pd_char :: "char \<Rightarrow> pd_state \<Rightarrow> (int \<times> bytes) + pd_state" where
  "pd_char c = (\<lambda>(part, val, digits, dst).
     if is_digit c
     then let val = val * 10 + digit_val c in
          if val > 255 then Inl (0, dst) else Inr (part, val, digits + 1, dst)
     else if (c = CHR ''.'' \<or> is_blank c) \<and> digits > 0
     then let dst = dst[part := word_of_int val]; part = part + 1 in
          if c \<noteq> CHR ''.'' then Inl (if part = 4 then 1 else 0, dst)
          else if part = 4 then Inl (0, dst)
          else Inr (part, 0, 0, dst)
     else Inl (0, dst))"

text \<open>The end of the list is the NUL, on which \<open>pd_char\<close> always decides.\<close>

fun pd_loop :: "string \<Rightarrow> pd_state \<Rightarrow> int \<times> bytes" where
  "pd_loop [] q = (case pd_char CHR 0x00 q of Inl r \<Rightarrow> r | Inr q \<Rightarrow> (0, snd (snd (snd q))))"
| "pd_loop (c # cs) q = (case pd_char c q of Inl r \<Rightarrow> r | Inr q \<Rightarrow> pd_loop cs q)"

definition ak_parse_dotted :: "string \<Rightarrow> bytes \<Rightarrow> int \<times> bytes" where
  "ak_parse_dotted src dst = pd_loop src (0, 0, 0, dst)"

definition gnat_inet_pton :: "int \<Rightarrow> string \<Rightarrow> bytes \<Rightarrow> 'w gstate \<Rightarrow> int \<times> bytes \<times> 'w gstate" where
  "gnat_inet_pton af src dst st =
     (if af \<noteq> AK_AF_INET then (-1, dst, st\<lparr>errno := EAFNOSUPPORT\<rparr>)
      else let (r, dst) = ak_parse_dotted src dst in (r, dst, st))"

section \<open>The printer\<close>

text \<open>The conversion \<open>%u\<close>.\<close>

definition digit_chr :: "nat \<Rightarrow> char" where
  "digit_chr d = char_of (48 + d)"

fun dec_nat :: "nat \<Rightarrow> string" where
  "dec_nat n = (if n < 10 then [digit_chr n] else dec_nat (n div 10) @ [digit_chr (n mod 10)])"

declare dec_nat.simps [simp del]

text \<open>
  \<open>snprintf (dst, size, ...)\<close> of a conversion whose complete output is \<open>text\<close>: the value returned
  and the C string \<open>dst\<close> holds afterwards (\<open>None\<close> when nothing is stored). A size above \<open>INT_MAX\<close>
  is refused with \<open>EOVERFLOW\<close>.
\<close>

definition c_snprintf :: "u64 \<Rightarrow> string \<Rightarrow> 'w gstate \<Rightarrow> int \<times> string option \<times> 'w gstate" where
  "c_snprintf sz text st =
     (if sz > 0x7FFFFFFF then (-1, None, st\<lparr>errno := EOVERFLOW\<rparr>)
      else (int (length text), if sz = 0 then None else Some (take (unat sz - 1) text), st))"

definition dotted_text :: "bytes \<Rightarrow> string" where
  "dotted_text b = dec_nat (unat (b ! 0)) @ ''.'' @ dec_nat (unat (b ! 1)) @ ''.''
     @ dec_nat (unat (b ! 2)) @ ''.'' @ dec_nat (unat (b ! 3))"

text \<open>
  The first component is \<open>False\<close> for a NULL result; the second is what \<open>dst\<close> holds, when something
  was stored there. \<open>(int) size\<close> is \<open>sint\<close>.
\<close>

definition gnat_inet_ntop ::
  "int \<Rightarrow> bytes \<Rightarrow> u32 \<Rightarrow> 'w gstate \<Rightarrow> bool \<times> string option \<times> 'w gstate" where
  "gnat_inet_ntop af b sz st =
     (if af \<noteq> AK_AF_INET then (False, None, st\<lparr>errno := EAFNOSUPPORT\<rparr>)
      else let (n, dst, st) = c_snprintf (ucast sz) (dotted_text b) st in
           if n \<ge> sint sz then (False, dst, st\<lparr>errno := ENOSPC\<rparr>)
           else (True, dst, st))"

section \<open>Digits\<close>

lemma of_digit_chr: "d < 10 \<Longrightarrow> of_char (digit_chr d) = (48 + d :: nat)"
  unfolding digit_chr_def by (simp only: of_char_of) simp

lemma digit_chars: "of_char CHR ''0'' = (48 :: nat)" "of_char CHR ''9'' = (57 :: nat)"
  "of_char CHR ''0'' = (48 :: int)"
  by simp_all

lemma is_digit_iff: "is_digit c \<longleftrightarrow> (\<exists>d < 10. c = digit_chr d)"
proof
  assume "is_digit c"
  then have c: "48 \<le> (of_char c :: nat)" "(of_char c :: nat) \<le> 57"
    unfolding is_digit_def digit_chars by blast+
  define d where "d = (of_char c :: nat) - 48"
  have d: "d < 10" "of_char c = 48 + d" unfolding d_def using c by linarith+
  have "c = char_of (of_char c :: nat)" by (rule char_of_char [symmetric])
  also have "\<dots> = digit_chr d" unfolding digit_chr_def d(2) ..
  finally show "\<exists>d < 10. c = digit_chr d" using d(1) by blast
next
  assume "\<exists>d < 10. c = digit_chr d"
  then obtain d where d: "d < 10" "c = digit_chr d" by blast
  then have "of_char c = 48 + d" by (simp only: of_digit_chr)
  with d(1) show "is_digit c" unfolding is_digit_def digit_chars by linarith
qed

lemma digit_chr_val [simp]:
  assumes "d < 10"
  shows "digit_val (digit_chr d) = int d"
proof -
  have "(of_char (digit_chr d) :: int) = int (of_char (digit_chr d))"
    by (rule of_nat_of_char [symmetric])
  then have "(of_char (digit_chr d) :: int) = 48 + int d"
    by (simp add: of_digit_chr [OF assms])
  then show ?thesis unfolding digit_val_def digit_chars by linarith
qed

lemma digit_chr_is_digit [simp]: "d < 10 \<Longrightarrow> is_digit (digit_chr d)"
  using is_digit_iff by blast

lemma digit_val_nonneg: "is_digit c \<Longrightarrow> 0 \<le> digit_val c"
  by (auto simp: is_digit_iff)

lemma not_digit [simp]:
  "\<not> is_digit CHR ''.''" "\<not> is_digit CHR 0x00" "is_blank c \<Longrightarrow> \<not> is_digit c"
  by (auto simp: is_digit_def is_blank_def)

lemma blank_facts [simp]: "is_blank CHR 0x00" "\<not> is_blank CHR ''.''"
  by (simp_all add: is_blank_def)

text \<open>The value of a run of digits, read after a prefix of value \<open>v\<close>.\<close>

definition run_val :: "int \<Rightarrow> string \<Rightarrow> int" where
  "run_val v ds = fold (\<lambda>c v. v * 10 + digit_val c) ds v"

lemma run_val_simps [simp]:
  "run_val v [] = v" "run_val v (c # cs) = run_val (v * 10 + digit_val c) cs"
  "run_val v (xs @ ys) = run_val (run_val v xs) ys"
  by (simp_all add: run_val_def)

lemma run_val_mono: "list_all is_digit ds \<Longrightarrow> 0 \<le> v \<Longrightarrow> v \<le> run_val v ds"
proof (induction ds arbitrary: v)
  case (Cons c ds)
  then have "0 \<le> digit_val c" by (simp add: digit_val_nonneg)
  with Cons.prems have "v \<le> v * 10 + digit_val c" by simp
  also have "\<dots> \<le> run_val (v * 10 + digit_val c) ds"
    using Cons \<open>0 \<le> digit_val c\<close> by simp
  finally show ?case by simp
qed simp

text \<open>A run of digits is consumed whole, or rejected when its value exceeds 255.\<close>

lemma pd_loop_digits:
  assumes "list_all is_digit ds" "0 \<le> v" "v \<le> 255"
  shows "pd_loop (ds @ rest) (part, v, n, dst) =
    (if run_val v ds > 255 then (0, dst) else pd_loop rest (part, run_val v ds, n + length ds, dst))"
  using assms
proof (induction ds arbitrary: v n)
  case (Cons c ds)
  let ?v = "v * 10 + digit_val c"
  have c: "is_digit c" "0 \<le> ?v" using Cons.prems digit_val_nonneg [of c] by auto
  show ?case
  proof (cases "?v > 255")
    case True
    moreover have "run_val ?v ds > 255"
      using run_val_mono [of ds ?v] Cons.prems c True by simp
    ultimately show ?thesis using c by (simp add: pd_char_def Let_def)
  next
    case False
    then show ?thesis using Cons c by (simp add: pd_char_def Let_def)
  qed
qed simp

text \<open>One part of the address: what the loop does from the start of a part.\<close>

definition pd_part :: "nat \<Rightarrow> string \<Rightarrow> string \<Rightarrow> bytes \<Rightarrow> int \<times> bytes" where
  "pd_part part ds rest dst =
     (if ds = [] \<or> run_val 0 ds > 255 then (0, dst)
      else let dst' = dst[part := word_of_int (run_val 0 ds)] in
        case rest of
          [] \<Rightarrow> (if part + 1 = 4 then 1 else 0, dst')
        | c # cs \<Rightarrow>
            if c = CHR ''.'' then if part + 1 = 4 then (0, dst') else pd_loop cs (part + 1, 0, 0, dst')
            else if is_blank c then (if part + 1 = 4 then 1 else 0, dst')
            else (0, dst))"

lemma pd_loop_run:
  assumes "list_all is_digit ds" and rest: "rest = [] \<or> \<not> is_digit (hd rest)"
  shows "pd_loop (ds @ rest) (part, 0, 0, dst) = pd_part part ds rest dst"
proof -
  have "pd_loop (ds @ rest) (part, 0, 0, dst) = (if run_val 0 ds > 255 then (0, dst)
      else pd_loop rest (part, run_val 0 ds, length ds, dst))"
    using pd_loop_digits [OF assms(1), of 0 rest part 0 dst] by simp
  also have "\<dots> = pd_part part ds rest dst"
    using rest by (cases rest) (auto simp: pd_part_def pd_char_def Let_def)
  finally show ?thesis .
qed

lemma pd_loop_part:
  "pd_loop s (part, 0, 0, dst) = pd_part part (takeWhile is_digit s) (dropWhile is_digit s) dst"
proof -
  have "list_all is_digit (takeWhile is_digit s)" by (simp add: list_all_iff) (meson set_takeWhileD)
  moreover have "dropWhile is_digit s = [] \<or> \<not> is_digit (hd (dropWhile is_digit s))"
    by (metis hd_dropWhile)
  ultimately show ?thesis
    using pd_loop_run [of "takeWhile is_digit s" "dropWhile is_digit s" part dst] by simp
qed

section \<open>The printed form\<close>

lemma dec_nat_digits: "list_all is_digit (dec_nat n) \<and> dec_nat n \<noteq> [] \<and> run_val 0 (dec_nat n) = int n"
proof (induction n rule: dec_nat.induct)
  case (1 n)
  show ?case
  proof (cases "n < 10")
    case True
    then show ?thesis by (simp add: dec_nat.simps [of n])
  next
    case False
    then have "run_val 0 (dec_nat n) = int (n div 10) * 10 + int (n mod 10)"
      using 1 by (simp add: dec_nat.simps [of n])
    also have "\<dots> = int n" by (simp add: zdiv_int zmod_int)
    finally show ?thesis using False 1 by (simp add: dec_nat.simps [of n])
  qed
qed

lemma dec_nat_length: "n < 256 \<Longrightarrow> length (dec_nat n) \<le> 3"
  by (subst dec_nat.simps, cases "n < 10", simp,
      subst dec_nat.simps, cases "n div 10 < 10", simp, subst dec_nat.simps) auto

text \<open>The grammar of a part: a nonempty run of digits of value at most 255.\<close>

definition octet_text :: "string \<Rightarrow> u8 \<Rightarrow> bool" where
  "octet_text ds b \<longleftrightarrow> ds \<noteq> [] \<and> list_all is_digit ds \<and> run_val 0 ds = uint b"

lemma dec_nat_octet: "octet_text (dec_nat (unat b)) b"
  using dec_nat_digits [of "unat b"] by (simp add: octet_text_def)

text \<open>An address is four such parts separated by dots and ended by a blank or the NUL.\<close>

definition dotted_syntax :: "string \<Rightarrow> bytes \<Rightarrow> bool" where
  "dotted_syntax s b \<longleftrightarrow> (\<exists>d0 d1 d2 d3 b0 b1 b2 b3 rest. b = [b0, b1, b2, b3]
     \<and> s = d0 @ ''.'' @ d1 @ ''.'' @ d2 @ ''.'' @ d3 @ rest
     \<and> octet_text d0 b0 \<and> octet_text d1 b1 \<and> octet_text d2 b2 \<and> octet_text d3 b3
     \<and> (rest = [] \<or> is_blank (hd rest)))"

lemma octet_run: "octet_text ds b \<Longrightarrow> run_val 0 ds \<le> 255 \<and> word_of_int (run_val 0 ds) = b"
  using uint_lt2p [of b] by (auto simp: octet_text_def)

lemma run_octet:
  assumes "ds \<noteq> []" "list_all is_digit ds" "\<not> run_val 0 ds > 255"
  shows "octet_text ds (word_of_int (run_val 0 ds))"
proof -
  have "0 \<le> run_val 0 ds" using run_val_mono [OF assms(2), of 0] by simp
  with assms show ?thesis by (simp add: octet_text_def uint_word_of_int)
qed

lemma pd_octet_dot:
  assumes "octet_text ds b" "part < 3"
  shows "pd_loop (ds @ CHR ''.'' # cs) (part, 0, 0, dst) = pd_loop cs (part + 1, 0, 0, dst[part := b])"
  using assms pd_loop_run [of ds "CHR ''.'' # cs" part dst] octet_run [OF assms(1)]
  by (simp add: octet_text_def pd_part_def Let_def)

lemma pd_octet_last:
  assumes "octet_text ds b" "rest = [] \<or> is_blank (hd rest)"
  shows "pd_loop (ds @ rest) (3, 0, 0, dst) = (1, dst[3 := b])"
proof -
  have "rest = [] \<or> \<not> is_digit (hd rest)" using assms(2) by auto
  then have "pd_loop (ds @ rest) (3, 0, 0, dst) = pd_part 3 ds rest dst"
    using assms(1) by (intro pd_loop_run) (auto simp: octet_text_def)
  then show ?thesis
    using assms octet_run [OF assms(1)]
    by (cases rest) (auto simp: octet_text_def pd_part_def Let_def)
qed

text \<open>Completeness: every text of the grammar is accepted with its value.\<close>

lemma parse_complete:
  assumes "dotted_syntax s b" "length dst = 4"
  shows "ak_parse_dotted s dst = (1, b)"
proof -
  from assms(1) obtain d0 d1 d2 d3 b0 b1 b2 b3 rest where
    b: "b = [b0, b1, b2, b3]" and s: "s = d0 @ ''.'' @ d1 @ ''.'' @ d2 @ ''.'' @ d3 @ rest"
    and o: "octet_text d0 b0" "octet_text d1 b1" "octet_text d2 b2" "octet_text d3 b3"
    and rest: "rest = [] \<or> is_blank (hd rest)"
    unfolding dotted_syntax_def by blast
  obtain x0 x1 x2 x3 where dst: "dst = [x0, x1, x2, x3]"
    using assms(2) by (auto simp: numeral_eq_Suc length_Suc_conv)
  show ?thesis
    using pd_octet_dot [OF o(1), of 0] pd_octet_dot [OF o(2), of 1] pd_octet_dot [OF o(3), of 2]
      pd_octet_last [OF o(4) rest]
    by (simp add: ak_parse_dotted_def s b dst numeral_eq_Suc)
qed

text \<open>Soundness: an accepted text belongs to the grammar.\<close>

lemma pd_loop_accepts_dot:
  assumes "pd_loop s (part, 0, 0, dst) = (1, b)" "part < 3"
  obtains ds v cs where "s = ds @ CHR ''.'' # cs" "octet_text ds v"
    "pd_loop cs (part + 1, 0, 0, dst[part := v]) = (1, b)"
proof -
  let ?ds = "takeWhile is_digit s"
  have all: "list_all is_digit ?ds" by (simp add: list_all_iff) (meson set_takeWhileD)
  from assms obtain cs where rest: "dropWhile is_digit s = CHR ''.'' # cs"
    and ds: "?ds \<noteq> []" "\<not> run_val 0 ?ds > 255"
    and go: "pd_loop cs (part + 1, 0, 0, dst[part := word_of_int (run_val 0 ?ds)]) = (1, b)"
    unfolding pd_loop_part [of s] by (auto simp: pd_part_def Let_def split: if_splits list.splits)
  have "s = ?ds @ CHR ''.'' # cs" using takeWhile_dropWhile_id [of is_digit s] rest by simp
  from this run_octet [OF ds(1) all ds(2)] go show thesis by (rule that)
qed

lemma pd_loop_accepts_last:
  assumes "pd_loop s (3, 0, 0, dst) = (1, b)"
  obtains ds v rest where "s = ds @ rest" "octet_text ds v" "rest = [] \<or> is_blank (hd rest)"
    "b = dst[3 := v]"
proof -
  let ?ds = "takeWhile is_digit s" and ?rest = "dropWhile is_digit s"
  have all: "list_all is_digit ?ds" by (simp add: list_all_iff) (meson set_takeWhileD)
  from assms have ds: "?ds \<noteq> []" "\<not> run_val 0 ?ds > 255"
    and rest: "?rest = [] \<or> is_blank (hd ?rest)"
    and b: "b = dst[3 := word_of_int (run_val 0 ?ds)]"
    unfolding pd_loop_part [of s] by (auto simp: pd_part_def Let_def split: if_splits list.splits)
  from run_octet [OF ds(1) all ds(2)] rest b show thesis
    by (intro that [of ?ds ?rest]) simp_all
qed

lemma parse_sound:
  assumes "ak_parse_dotted s dst = (1, b)" "length dst = 4"
  shows "dotted_syntax s b"
proof -
  obtain x0 x1 x2 x3 where dst: "dst = [x0, x1, x2, x3]"
    using assms(2) by (auto simp: numeral_eq_Suc length_Suc_conv)
  from assms(1) obtain d0 b0 s1 where 0: "s = d0 @ CHR ''.'' # s1" "octet_text d0 b0"
      "pd_loop s1 (1, 0, 0, dst[0 := b0]) = (1, b)"
    unfolding ak_parse_dotted_def by (rule pd_loop_accepts_dot) auto
  from 0(3) obtain d1 b1 s2 where 1: "s1 = d1 @ CHR ''.'' # s2" "octet_text d1 b1"
      "pd_loop s2 (2, 0, 0, dst[0 := b0, 1 := b1]) = (1, b)"
    by (rule pd_loop_accepts_dot) (auto simp: numeral_eq_Suc)
  from 1(3) obtain d2 b2 s3 where 2: "s2 = d2 @ CHR ''.'' # s3" "octet_text d2 b2"
      "pd_loop s3 (3, 0, 0, dst[0 := b0, 1 := b1, 2 := b2]) = (1, b)"
    by (rule pd_loop_accepts_dot) (auto simp: numeral_eq_Suc)
  from 2(3) obtain d3 b3 rest where 3: "s3 = d3 @ rest" "octet_text d3 b3"
      "rest = [] \<or> is_blank (hd rest)" "b = dst[0 := b0, 1 := b1, 2 := b2, 3 := b3]"
    by (rule pd_loop_accepts_last)
  have "b = [b0, b1, b2, b3]" using 3(4) dst by (simp add: numeral_eq_Suc)
  moreover have "s = d0 @ ''.'' @ d1 @ ''.'' @ d2 @ ''.'' @ d3 @ rest"
    using 0(1) 1(1) 2(1) 3(1) by simp
  ultimately show ?thesis using 0(2) 1(2) 2(2) 3(2,3) unfolding dotted_syntax_def by blast
qed

lemma pd_loop_result: "fst (pd_loop s q) \<in> {0, 1}"
proof (induction s q rule: pd_loop.induct)
  case (1 q)
  then show ?case by (cases q) (auto simp: pd_char_def Let_def)
next
  case (2 c cs q)
  then show ?case
    by (cases q) (auto simp: pd_char_def Let_def split: if_splits sum.splits)
qed

section \<open>Properties\<close>

lemma dotted_text_syntax:
  assumes "length b = 4"
  shows "dotted_syntax (dotted_text b) b"
proof -
  obtain b0 b1 b2 b3 where b: "b = [b0, b1, b2, b3]"
    using assms by (auto simp: numeral_eq_Suc length_Suc_conv)
  have "dotted_text b = dec_nat (unat b0) @ ''.'' @ dec_nat (unat b1) @ ''.'' @ dec_nat (unat b2)
      @ ''.'' @ dec_nat (unat b3) @ []"
    by (simp add: dotted_text_def b)
  then show ?thesis
    unfolding dotted_syntax_def using b dec_nat_octet by blast
qed

lemma dotted_text_length: "length (dotted_text b) \<le> 15"
proof -
  have "length (dec_nat (unat (x :: u8))) \<le> 3" for x
    by (rule dec_nat_length [OF unat_u8])
  from this [of "b ! 0"] this [of "b ! 1"] this [of "b ! 2"] this [of "b ! 3"]
  show ?thesis unfolding dotted_text_def length_append by simp
qed

text \<open>The parser neither reads nor writes behind the first four bytes.\<close>

lemma pd_char_append:
  assumes "length dst = 4" and "part < 4"
  shows "pd_char c (part, v, n, dst @ behind) =
    (case pd_char c (part, v, n, dst) of Inl (r, d) \<Rightarrow> Inl (r, d @ behind) | Inr (p, v, n, d) \<Rightarrow> Inr (p, v, n, d @ behind))"
  using assms by (auto simp: pd_char_def Let_def list_update_append)

lemma pd_char_next:
  assumes "length dst = 4" and "part < 4"
  shows "pd_char c (part, v, n, dst) = Inr (p, v', n', d) \<Longrightarrow> length d = 4 \<and> p < 4"
    and "pd_char c (part, v, n, dst) = Inl (r, d) \<Longrightarrow> length d = 4"
  using assms by (auto simp: pd_char_def Let_def split: if_splits)

lemma pd_loop_append:
  assumes "length dst = 4" and "part < 4" and "pd_loop s (part, v, n, dst) = (r, d)"
  shows "pd_loop s (part, v, n, dst @ behind) = (r, d @ behind) \<and> length d = 4"
  using assms
proof (induction s arbitrary: part v n dst)
  case Nil
  then show ?case using pd_char_next [OF Nil.prems(1,2)]
    by (auto simp: pd_char_append split: sum.splits prod.splits)
next
  case (Cons c s)
  show ?case
  proof (cases "pd_char c (part, v, n, dst)")
    case (Inl q)
    then show ?thesis using Cons.prems pd_char_next(2) [OF Cons.prems(1,2)] by (cases q) (simp add: pd_char_append)
  next
    case (Inr q)
    obtain p v' n' d' where q: "q = (p, v', n', d')" by (metis prod_cases4)
    have "length d' = 4" "p < 4" using pd_char_next(1) [OF Cons.prems(1,2)] Inr q by auto
    from Cons.IH [OF this] Cons.prems Inr q show ?thesis by (simp add: pd_char_append)
  qed
qed

text \<open>
  Property C33: on memory that starts with the four bytes of the destination, \<open>ak_parse_dotted\<close> returns
  0 or 1 and leaves every byte behind the four unchanged, whatever the text. It returns 1 exactly on
  the texts of the grammar (four runs of digits of value at most 255 separated by dots, ended by the
  NUL or a blank), and then the four bytes are the four values.
\<close>

theorem parse_dotted_grammar:
  assumes "length dst = 4"
  shows "\<exists>r d. ak_parse_dotted s (dst @ behind) = (r, d @ behind) \<and> length d = 4 \<and> (r = 0 \<or> r = 1)
    \<and> (\<forall>b. r = 1 \<and> d = b \<longleftrightarrow> dotted_syntax s b)"
proof -
  obtain r d where p: "ak_parse_dotted s dst = (r, d)" by (cases "ak_parse_dotted s dst") (rule that)
  from p have run: "pd_loop s (0, 0, 0, dst) = (r, d)" by (simp only: ak_parse_dotted_def)
  have 1: "ak_parse_dotted s (dst @ behind) = (r, d @ behind) \<and> length d = 4"
    unfolding ak_parse_dotted_def by (rule pd_loop_append [OF assms _ run]) simp
  have 2: "r = 0 \<or> r = 1" using pd_loop_result [of s "(0, 0, 0, dst)"] unfolding run by simp
  have 3: "r = 1 \<and> d = b \<longleftrightarrow> dotted_syntax s b" for b
  proof
    assume "r = 1 \<and> d = b"
    with p have "ak_parse_dotted s dst = (1, b)" by simp
    then show "dotted_syntax s b" by (rule parse_sound [OF _ assms])
  next
    assume "dotted_syntax s b"
    then have "ak_parse_dotted s dst = (1, b)" by (rule parse_complete [OF _ assms])
    with p show "r = 1 \<and> d = b" by simp
  qed
  show ?thesis using 1 2 3 by (intro exI conjI allI) (assumption | simp)+
qed

theorem parse_dotted_grammar_witness:
  "(\<exists>d. ak_parse_dotted ''1.2.3.4.5'' [0, 0, 0, 0, 7, 8] = (0, d @ [7, 8]) \<and> length d = 4) \<and> \<not> dotted_syntax ''1.2.3.4.5'' [1, 2, 3, 4]"
proof -
  have "ak_parse_dotted ''1.2.3.4.5'' [0, 0, 0, 0, 7, 8] = (0, [1, 2, 3, 4, 7, 8])" by code_simp
  moreover obtain r d where "ak_parse_dotted ''1.2.3.4.5'' ([0, 0, 0, 0] @ [7, 8]) = (r, d @ [7, 8])"
      "length d = 4" "\<forall>b. r = 1 \<and> d = b \<longleftrightarrow> dotted_syntax ''1.2.3.4.5'' b"
    using parse_dotted_grammar [of "[0, 0, 0, 0]" "''1.2.3.4.5''" "[7, 8]"] by auto
  ultimately show ?thesis by auto
qed

text \<open>
  With a buffer of at least 16 bytes \<open>__gnat_inet_ntop\<close> never fails, stores at most
  15 characters before the NUL, and \<open>__gnat_inet_pton\<close> reads the text back to the same address.
\<close>

theorem inet_ntop_pton_roundtrip:
  assumes "length b = 4" and "length dst = 4" and "16 \<le> sz" and "sz \<le> 0x7FFFFFFF"
  shows "\<exists>txt. gnat_inet_ntop 2 b sz st = (True, Some txt, st) \<and> length txt \<le> 15
    \<and> gnat_inet_pton 2 txt dst st = (1, b, st)"
proof -
  have lo: "16 \<le> uint sz" using assms(3) by (simp add: word_le_def)
  note hi = sint_u32_small [OF assms(4)]
  have "\<not> (ucast sz :: u64) > 0x7FFFFFFF"
    using hi(2) by (simp add: word_less_def uint_u32_u64)
  moreover have "(ucast sz :: u64) \<noteq> 0"
    using lo uint_u32_u64 [of sz] by auto
  ultimately have small: "\<not> (ucast sz :: u64) > 0x7FFFFFFF" "(ucast sz :: u64) \<noteq> 0" by auto
  have "unat sz \<ge> 16" using lo by (simp only: unat_eq_nat_uint)
  then have "take (unat sz - 1) (dotted_text b) = dotted_text b"
    using dotted_text_length [of b] by simp
  then have "gnat_inet_ntop 2 b sz st = (True, Some (dotted_text b), st)"
    using small dotted_text_length [of b] lo hi(1)
    by (simp add: gnat_inet_ntop_def c_snprintf_def unat_u32_u64)
  moreover have "gnat_inet_pton 2 (dotted_text b) dst st = (1, b, st)"
    using parse_complete [OF dotted_text_syntax [OF assms(1)] assms(2)]
    by (simp add: gnat_inet_pton_def)
  ultimately show ?thesis using dotted_text_length [of b] by blast
qed

theorem inet_ntop_pton_roundtrip_witness:
  "16 \<le> (16 :: u32) \<and> (\<exists>txt. gnat_inet_ntop 2 [10, 0, 2, 15] 16 (gstate_init ()) =
       (True, Some txt, gstate_init ()) \<and> length txt \<le> 15
     \<and> gnat_inet_pton 2 txt [0, 0, 0, 0] (gstate_init ()) = (1, [10, 0, 2, 15], gstate_init ()))"
  using inet_ntop_pton_roundtrip [of "[10, 0, 2, 15]" "[0, 0, 0, 0]" 16 "gstate_init ()"] by simp

end
