(* ===== verification/Netdb.thy ===== *)
theory Netdb
  imports Sock_Calls Inet_Text
begin

text \<open>
  The lookup calls of \<^verbatim>\<open>aegir_gsocket.c\<close>: hosts, services and the \<open>getaddrinfo\<close> family. Host
  names go to the resolver behind the bridge. The lists \<open>getaddrinfo\<close> builds live in an explicit
  heap of blocks, in which an invalid \<open>free\<close> or a read through a dangling pointer has no result,
  so that the absence of leaks and of double frees is part of what is proved. A C string is a
  list of nonzero characters.
\<close>

section \<open>Host entries\<close>

abbreviation (input) AK_HOST_NOT_FOUND :: int where "AK_HOST_NOT_FOUND \<equiv> 1"
abbreviation (input) AK_TRY_AGAIN :: int where "AK_TRY_AGAIN \<equiv> 2"
abbreviation (input) AK_NO_DATA :: int where "AK_NO_DATA \<equiv> 4"

definition ak_services :: "(string \<times> u16) list" where
  "ak_services = [(''echo'', 7), (''discard'', 9), (''daytime'', 13), (''ftp'', 21), (''ssh'', 22),
     (''telnet'', 23), (''domain'', 53), (''http'', 80), (''ntp'', 123)]"

text \<open>The static entry: the name cut to 255 characters, no alias, one address.\<close>

definition ak_fill_hostent :: "string \<Rightarrow> bytes \<Rightarrow> 'w gstate \<Rightarrow> 'w gstate" where
  "ak_fill_hostent name ip st =
     (let n = length name;
          n = (if n \<ge> 256 then 256 - 1 else n)
      in st\<lparr>ak_he := \<lparr>h_name = take n name, h_aliases = [None], h_addrtype = AK_AF_INET,
               h_length = 4, h_addr_list = [Some (take 4 ip), None]\<rparr>\<rparr>)"

definition ak_fill_servent :: "string \<Rightarrow> u16 \<Rightarrow> string \<Rightarrow> 'w gstate \<Rightarrow> 'w gstate" where
  "ak_fill_servent name port prot st =
     st\<lparr>ak_se := \<lparr>s_name = name, s_aliases = [None], s_port = uint (ak_sw16 port), s_proto = prot\<rparr>\<rparr>"

text \<open>The result, the four bytes of \<open>ip\<close> afterwards, and the state.\<close>

definition ak_dns_query :: "'w bridge \<Rightarrow> string \<Rightarrow> bytes \<Rightarrow> 'w gstate \<Rightarrow> int \<times> bytes \<times> 'w gstate" where
  "ak_dns_query br name ip st =
     (let (r, st) = ak_ensure_net br st in
      if r \<noteq> 0 then (0, ip, st)
      else let (s, out_ip, w) = br_resolve br name (word_of_nat (length name)) (world st);
               st = st\<lparr>world := w\<rparr>
           in if s = AK_ST_OK then (1, ak_u32_to_addr out_ip, st)
              else (0, ip, st\<lparr>ak_h_errno := (if s = AK_ST_NOT_READY then AK_TRY_AGAIN
                                             else AK_HOST_NOT_FOUND)\<rparr>))"

text \<open>
  The result, \<open>*ret\<close> when it is stored, \<open>*h_errnop\<close>, and the state. The local \<open>ip\<close> is
  uninitialised in the source; every byte of it is stored before it is read.
\<close>

definition gnat_gethostbyname ::
  "'w bridge \<Rightarrow> string \<Rightarrow> 'w gstate \<Rightarrow> int \<times> ak_hostent option \<times> int \<times> 'w gstate" where
  "gnat_gethostbyname br name st =
     (let (r, ip) = ak_parse_dotted name (replicate 4 0) in
      if r \<noteq> 0 then let st = ak_fill_hostent name ip st in (0, Some (ak_he st), 0, st)
      else let (q, ip, st) = ak_dns_query br name ip st in
           if q \<noteq> 0 then let st = ak_fill_hostent name ip st in (0, Some (ak_he st), 0, st)
           else (-1, None, if ak_h_errno st \<noteq> 0 then ak_h_errno st else AK_HOST_NOT_FOUND, st))"

text \<open>What the local \<open>dotted[16]\<close> holds after \<open>__gnat_inet_ntop\<close>.\<close>

definition dotted16 :: "bytes \<Rightarrow> 'w gstate \<Rightarrow> string \<times> 'w gstate" where
  "dotted16 addr st =
     (let (ok, dst, st) = gnat_inet_ntop AK_AF_INET addr 16 st
      in (case dst of None \<Rightarrow> [] | Some d \<Rightarrow> d, st))"

definition gnat_gethostbyaddr ::
  "bytes \<Rightarrow> int \<Rightarrow> 'w gstate \<Rightarrow> int \<times> ak_hostent option \<times> int \<times> 'w gstate" where
  "gnat_gethostbyaddr addr type st =
     (if type \<noteq> AK_AF_INET then (-1, None, AK_NO_DATA, st)
      else let (dotted, st) = dotted16 addr st;
               st = ak_fill_hostent dotted addr st
           in (0, Some (ak_he st), 0, st))"

text \<open>The plain call returns a pointer to the static entry, or NULL.\<close>

definition gethostbyaddr :: "bytes \<Rightarrow> int \<Rightarrow> 'w gstate \<Rightarrow> ak_hostent option \<times> 'w gstate" where
  "gethostbyaddr addr type st =
     (if type \<noteq> AK_AF_INET then (None, st\<lparr>ak_h_errno := AK_NO_DATA\<rparr>)
      else let (dotted, st) = dotted16 addr st;
               st = ak_fill_hostent dotted addr st
           in (Some (ak_he st), st))"

section \<open>Services\<close>

definition gnat_getservbyname ::
  "string \<Rightarrow> string \<Rightarrow> 'w gstate \<Rightarrow> int \<times> ak_servent option \<times> 'w gstate" where
  "gnat_getservbyname name prot st =
     (case find (\<lambda>(n, p). name = n) ak_services of
        Some (n, p) \<Rightarrow> let st = ak_fill_servent n p prot st in (0, Some (ak_se st), st)
      | None \<Rightarrow> (-1, None, st))"

definition gnat_getservbyport ::
  "int \<Rightarrow> string \<Rightarrow> 'w gstate \<Rightarrow> int \<times> ak_servent option \<times> 'w gstate" where
  "gnat_getservbyport port prot st =
     (case find (\<lambda>(n, p). uint p = uint (ak_sw16 (word_of_int port)) \<or> uint p = port) ak_services of
        Some (n, p) \<Rightarrow> let st = ak_fill_servent n p prot st in (0, Some (ak_se st), st)
      | None \<Rightarrow> (-1, None, st))"

section \<open>Accessors\<close>

definition gnat_hostent_h_name :: "ak_hostent \<Rightarrow> string" where
  "gnat_hostent_h_name h = h_name h"

definition gnat_hostent_h_alias :: "ak_hostent \<Rightarrow> nat \<Rightarrow> string option" where
  "gnat_hostent_h_alias h index = h_aliases h ! index"

definition gnat_hostent_h_addrtype :: "ak_hostent \<Rightarrow> int" where
  "gnat_hostent_h_addrtype h = h_addrtype h"

definition gnat_hostent_h_length :: "ak_hostent \<Rightarrow> int" where
  "gnat_hostent_h_length h = h_length h"

definition gnat_hostent_h_addr :: "ak_hostent \<Rightarrow> nat \<Rightarrow> bytes option" where
  "gnat_hostent_h_addr h index = h_addr_list h ! index"

definition gnat_servent_s_name :: "ak_servent \<Rightarrow> string" where
  "gnat_servent_s_name s = s_name s"

definition gnat_servent_s_alias :: "ak_servent \<Rightarrow> nat \<Rightarrow> string option" where
  "gnat_servent_s_alias s index = s_aliases s ! index"

definition gnat_servent_s_port :: "ak_servent \<Rightarrow> u16" where
  "gnat_servent_s_port s = word_of_int (s_port s)"

definition gnat_servent_s_proto :: "ak_servent \<Rightarrow> string" where
  "gnat_servent_s_proto s = s_proto s"

section \<open>Address lists on the heap\<close>

type_synonym ptr = "nat option"

record ak_addrinfo =
  ai_flags :: int
  ai_family :: int
  ai_socktype :: int
  ai_protocol :: int
  ai_addrlen :: int
  ai_addr :: ptr
  ai_canonname :: ptr
  ai_next :: ptr

text \<open>A block holds nothing yet, an \<open>ak_addrinfo\<close>, or an \<open>ak_sockaddr_in\<close>.\<close>

datatype block = Raw nat | Ai ak_addrinfo | Sa ak_sockaddr_in

type_synonym heap = "nat \<rightharpoonup> block"

text \<open>
  \<open>malloc\<close> asks the allocator \<open>mal\<close> for an address; \<open>free\<close> of NULL does nothing, and of an address
  that is not allocated has no result.
\<close>

definition c_malloc :: "(nat \<Rightarrow> heap \<Rightarrow> ptr) \<Rightarrow> nat \<Rightarrow> heap \<Rightarrow> ptr \<times> heap" where
  "c_malloc mal n hp =
     (case mal n hp of None \<Rightarrow> (None, hp) | Some a \<Rightarrow> (Some a, hp(a \<mapsto> Raw n)))"

definition c_free :: "ptr \<Rightarrow> heap \<Rightarrow> heap option" where
  "c_free p hp =
     (case p of None \<Rightarrow> Some hp | Some a \<Rightarrow> if hp a = None then None else Some (hp(a := None)))"

definition heap_ai :: "heap \<Rightarrow> ptr \<Rightarrow> ak_addrinfo option" where
  "heap_ai hp p = (case p of None \<Rightarrow> None
     | Some a \<Rightarrow> (case hp a of Some (Ai ai) \<Rightarrow> Some ai | _ \<Rightarrow> None))"

text \<open>The blocks are 48 and 16 bytes.\<close>

definition ak_mk_addrinfo ::
  "(nat \<Rightarrow> heap \<Rightarrow> ptr) \<Rightarrow> u32 \<Rightarrow> u16 \<Rightarrow> int \<Rightarrow> int \<Rightarrow> int \<Rightarrow> heap \<Rightarrow> (ptr \<times> heap) option" where
  "ak_mk_addrinfo mal ip_host port socktype protocol flags hp =
     (let (ai, hp) = c_malloc mal 48 hp;
          (sa, hp) = c_malloc mal 16 hp
      in case (ai, sa) of
           (Some a, Some b) \<Rightarrow>
             Some (ai, hp(b \<mapsto> Sa (mk_sockaddr port ip_host),
               a \<mapsto> Ai \<lparr>ai_flags = flags, ai_family = AK_AF_INET, ai_socktype = socktype,
                 ai_protocol = protocol, ai_addrlen = 16, ai_addr = sa, ai_canonname = None,
                 ai_next = None\<rparr>))
         | _ \<Rightarrow> (case c_free ai hp of None \<Rightarrow> None
                | Some hp \<Rightarrow> (case c_free sa hp of None \<Rightarrow> None | Some hp \<Rightarrow> Some (None, hp))))"

text \<open>The loop at the label \<open>enomem\<close>, and the loop of \<open>__gnat_freeaddrinfo\<close>.\<close>

partial_function (option) enomem_loop :: "ptr \<Rightarrow> heap \<Rightarrow> heap option" where
  "enomem_loop head hp =
     (if head = None then Some hp
      else case heap_ai hp head of None \<Rightarrow> None
        | Some ai \<Rightarrow>
            (case c_free (ai_addr ai) hp of None \<Rightarrow> None
             | Some hp \<Rightarrow> (case c_free head hp of None \<Rightarrow> None
                | Some hp \<Rightarrow> enomem_loop (ai_next ai) hp)))"

declare enomem_loop.simps [code]

partial_function (option) gnat_freeaddrinfo :: "ptr \<Rightarrow> heap \<Rightarrow> heap option" where
  "gnat_freeaddrinfo res hp =
     (if res = None then Some hp
      else case heap_ai hp res of None \<Rightarrow> None
        | Some ai \<Rightarrow>
            (case c_free (ai_addr ai) hp of None \<Rightarrow> None
             | Some hp \<Rightarrow> (case c_free (ai_canonname ai) hp of None \<Rightarrow> None
                | Some hp \<Rightarrow> (case c_free res hp of None \<Rightarrow> None
                   | Some hp \<Rightarrow> gnat_freeaddrinfo (ai_next ai) hp))))"

declare gnat_freeaddrinfo.simps [code]

section \<open>getaddrinfo\<close>

abbreviation (input) AK_EAI_NONAME :: int where "AK_EAI_NONAME \<equiv> -2"
abbreviation (input) AK_EAI_AGAIN :: int where "AK_EAI_AGAIN \<equiv> -3"
abbreviation (input) AK_EAI_FAIL :: int where "AK_EAI_FAIL \<equiv> -4"
abbreviation (input) AK_EAI_FAMILY :: int where "AK_EAI_FAMILY \<equiv> -6"
abbreviation (input) AK_EAI_SOCKTYPE :: int where "AK_EAI_SOCKTYPE \<equiv> -7"
abbreviation (input) AK_EAI_SERVICE :: int where "AK_EAI_SERVICE \<equiv> -8"
abbreviation (input) AK_EAI_MEMORY :: int where "AK_EAI_MEMORY \<equiv> -10"
abbreviation (input) AK_EAI_SYSTEM :: int where "AK_EAI_SYSTEM \<equiv> -11"

text \<open>
  The address of this machine: the first 63 bytes of the file \<^verbatim>\<open>Net:address\<close>, when \<open>fopen\<close>
  succeeds and they parse, else 10.0.2.15. \<open>file\<close> gives the contents of a file in the system's
  current state.
\<close>

definition ak_own_address :: "(string \<Rightarrow> 'w \<Rightarrow> string option) \<Rightarrow> 'w gstate \<Rightarrow> u32" where
  "ak_own_address file st =
     (case file ''Net:address'' (world st) of
        None \<Rightarrow> 0x0A00020F
      | Some content \<Rightarrow>
          let (r, b) = ak_parse_dotted (take 63 content) (replicate 4 0)
          in if r \<noteq> 0 then ak_addr_to_u32 b else 0x0A00020F)"

text \<open>
  \<open>strtol (s, &end, 10)\<close>: white space, an optional sign and a run of digits, clamped to 64 bits
  with \<open>ERANGE\<close>; without digits the result is 0 and \<open>end\<close> is the start of the text.
\<close>

definition c_isspace :: "char \<Rightarrow> bool" where
  "c_isspace c \<longleftrightarrow> c = CHR '' '' \<or> c = CHR 0x09 \<or> c = CHR 0x0A \<or> c = CHR 0x0B \<or> c = CHR 0x0C
     \<or> c = CHR 0x0D"

definition c_strtol10 :: "string \<Rightarrow> int \<times> string \<times> bool" where
  "c_strtol10 s =
     (let t = dropWhile c_isspace s;
          neg = (t \<noteq> [] \<and> hd t = CHR ''-'');
          t = (if t \<noteq> [] \<and> (hd t = CHR ''-'' \<or> hd t = CHR ''+'') then tl t else t);
          ds = takeWhile is_digit t;
          v = (if neg then - run_val 0 ds else run_val 0 ds)
      in if ds = [] then (0, s, False)
         else if v > 2 ^ 63 - 1 then (2 ^ 63 - 1, dropWhile is_digit t, True)
         else if v < - (2 ^ 63) then (- (2 ^ 63), dropWhile is_digit t, True)
         else (v, dropWhile is_digit t, False))"

text \<open>The host part: an error code, or the address in host order.\<close>

definition gai_host ::
  "(string \<Rightarrow> 'w \<Rightarrow> string option) \<Rightarrow> 'w bridge \<Rightarrow> string option \<Rightarrow> int \<Rightarrow> 'w gstate
     \<Rightarrow> (int + u32) \<times> 'w gstate" where
  "gai_host file br node flags st =
     (case node of
        None \<Rightarrow> (Inr (if flags AND 1 \<noteq> 0 then 0 else ak_own_address file st), st)
      | Some n \<Rightarrow>
          if n = [] then (Inr (if flags AND 1 \<noteq> 0 then 0 else ak_own_address file st), st)
          else let (r, b) = ak_parse_dotted n (replicate 4 0) in
            if r \<noteq> 0 then (Inr (ak_addr_to_u32 b), st)
            else if flags AND 4 \<noteq> 0 then (Inl AK_EAI_NONAME, st)
            else let (q, b, st) = ak_dns_query br n b st in
              if q \<noteq> 0 then (Inr (ak_addr_to_u32 b), st) else (Inl AK_EAI_NONAME, st))"

text \<open>The service part: an error code, or the port.\<close>

definition gai_port :: "string option \<Rightarrow> 'w gstate \<Rightarrow> (int + u16) \<times> 'w gstate" where
  "gai_port service st =
     (case service of
        None \<Rightarrow> (Inr 0, st)
      | Some s \<Rightarrow>
          if s = [] then (Inr 0, st)
          else let (v, rest, range) = c_strtol10 s;
                   st = (if range then st\<lparr>errno := ERANGE\<rparr> else st)
               in if rest = [] \<and> v \<ge> 0 \<and> v \<le> 65535 then (Inr (word_of_int v), st)
                  else let port = (case find (\<lambda>(n, p). s = n) ak_services of
                                     None \<Rightarrow> 0 | Some (n, p) \<Rightarrow> p)
                       in if port = 0 then (Inl AK_EAI_SERVICE, st) else (Inr port, st))"

text \<open>
  The list: a stream entry, then a datagram entry linked behind it, each when \<open>socktype\<close> asks for
  it. The outer option is \<open>None\<close> on an invalid memory operation.
\<close>

definition gai_build ::
  "(nat \<Rightarrow> heap \<Rightarrow> ptr) \<Rightarrow> u32 \<Rightarrow> u16 \<Rightarrow> int \<Rightarrow> int \<Rightarrow> heap \<Rightarrow> (int \<times> ptr \<times> heap) option" where
  "gai_build mal ip port socktype flags hp =
     (let enomem = (\<lambda>head hp. case enomem_loop head hp of None \<Rightarrow> None
                      | Some hp \<Rightarrow> Some (AK_EAI_MEMORY, None, hp));
          stream = (\<lambda>next.
            if socktype = 0 \<or> socktype = AK_SOCK_STREAM
            then case ak_mk_addrinfo mal ip port AK_SOCK_STREAM 6 flags hp of
                   None \<Rightarrow> None
                 | Some (None, hp) \<Rightarrow> enomem None hp
                 | Some (Some a, hp) \<Rightarrow> next (Some a) hp
            else next None hp)
      in stream (\<lambda>head hp.
           if socktype = 0 \<or> socktype = AK_SOCK_DGRAM
           then case ak_mk_addrinfo mal ip port AK_SOCK_DGRAM 17 flags hp of
                  None \<Rightarrow> None
                | Some (None, hp) \<Rightarrow> enomem head hp
                | Some (Some a, hp) \<Rightarrow>
                    (case head of
                       None \<Rightarrow> Some (0, Some a, hp)
                     | Some h \<Rightarrow>
                         (case heap_ai hp head of None \<Rightarrow> None
                          | Some ai \<Rightarrow> Some (0, head, hp(h \<mapsto> Ai (ai\<lparr>ai_next := Some a\<rparr>)))))
           else Some (0, head, hp)))"

text \<open>
  \<open>hints\<close> is (family, socktype, flags). The result code, \<open>*res\<close> (stored on success only), the
  state and the heap.
\<close>

definition gnat_getaddrinfo ::
  "(nat \<Rightarrow> heap \<Rightarrow> ptr) \<Rightarrow> (string \<Rightarrow> 'w \<Rightarrow> string option) \<Rightarrow> 'w bridge
     \<Rightarrow> string option \<Rightarrow> string option \<Rightarrow> (int \<times> int \<times> int) option \<Rightarrow> 'w gstate \<Rightarrow> heap
     \<Rightarrow> (int \<times> ptr \<times> 'w gstate \<times> heap) option" where
  "gnat_getaddrinfo mal file br node service hints st hp =
     (let (family, socktype, flags) = (case hints of None \<Rightarrow> (0, 0, 0) | Some h \<Rightarrow> h) in
      if family \<noteq> 0 \<and> family \<noteq> AK_AF_INET then Some (AK_EAI_FAMILY, None, st, hp)
      else if socktype \<noteq> 0 \<and> socktype \<noteq> AK_SOCK_STREAM \<and> socktype \<noteq> AK_SOCK_DGRAM
      then Some (AK_EAI_SOCKTYPE, None, st, hp)
      else case gai_host file br node flags st of
        (Inl e, st) \<Rightarrow> Some (e, None, st, hp)
      | (Inr ip, st) \<Rightarrow>
          (case gai_port service st of
             (Inl e, st) \<Rightarrow> Some (e, None, st, hp)
           | (Inr port, st) \<Rightarrow>
               map_option (\<lambda>(r, res, hp). (r, res, st, hp))
                 (gai_build mal ip port socktype flags hp)))"

section \<open>getnameinfo and the rest\<close>

text \<open>
  \<open>host\<close> and \<open>serv\<close> are the buffer lengths when the pointers are not NULL. Beside the result, what
  the two buffers hold when something was stored there.
\<close>

definition gnat_getnameinfo ::
  "ak_sockaddr_in \<Rightarrow> u64 option \<Rightarrow> u64 option \<Rightarrow> 'w gstate
     \<Rightarrow> int \<times> string option \<times> string option \<times> 'w gstate" where
  "gnat_getnameinfo sin host serv st =
     (if uint (sin_family sin) \<noteq> AK_AF_INET then (AK_EAI_FAMILY, None, None, st)
      else let (ok, h, st) = (case host of None \<Rightarrow> (True, None, st)
                 | Some hostlen \<Rightarrow> gnat_inet_ntop AK_AF_INET (sin_addr sin) (ucast hostlen) st)
           in if \<not> ok then (AK_EAI_SYSTEM, h, None, st)
              else case serv of
                None \<Rightarrow> (0, h, None, st)
              | Some servlen \<Rightarrow>
                  let (n, s, st) = c_snprintf servlen (dec_nat (unat (ak_sw16 (sin_port sin)))) st
                  in if n \<ge> int_of_u64 servlen then (AK_EAI_SYSTEM, h, s, st) else (0, h, s, st))"

definition gnat_gai_strerror :: "int \<Rightarrow> string" where
  "gnat_gai_strerror errcode =
     (if errcode = AK_EAI_AGAIN then ''Temporary failure in name resolution.''
      else if errcode = AK_EAI_FAIL then ''Nonrecoverable failure in name resolution.''
      else if errcode = AK_EAI_FAMILY then ''The ai_family member is not supported.''
      else if errcode = AK_EAI_MEMORY then ''Memory allocation failure.''
      else if errcode = AK_EAI_NONAME
      then ''Neither nodename nor servname provided, or not known.''
      else if errcode = AK_EAI_SERVICE then ''The servname parameter is not supported.''
      else if errcode = AK_EAI_SOCKTYPE then ''The ai_socktype member is not supported.''
      else if errcode = AK_EAI_SYSTEM then ''System error returned in errno.''
      else ''Unknown error.'')"

definition gnat_minus_500ms :: int where
  "gnat_minus_500ms = 0"

section \<open>Hosts and services\<close>

lemma dotted16_eq: "dotted16 b st = (dotted_text b, st)"
  using dotted_text_length [of b]
  by (simp add: dotted16_def gnat_inet_ntop_def c_snprintf_def word_less_def)

lemma parse_dotted_text: "length b = 4 \<Longrightarrow> ak_parse_dotted (dotted_text b) (replicate 4 0) = (1, b)"
  by (rule parse_complete) (simp_all add: dotted_text_syntax)

text \<open>
  The entry \<open>__gnat_gethostbyaddr\<close> returns for an address carries a name that
  \<open>__gnat_gethostbyname\<close> resolves to the same address, with one address, no alias, and without a
  call of the bridge.
\<close>

theorem hostbyaddr_hostbyname_roundtrip:
  assumes "length b = 4"
  shows "\<exists>he st1 st2. gnat_gethostbyaddr b 2 st = (0, Some he, 0, st1)
    \<and> gnat_gethostbyname br (gnat_hostent_h_name he) st1 = (0, Some he, 0, st2)
    \<and> gnat_hostent_h_addr he 0 = Some b \<and> gnat_hostent_h_addr he 1 = None
    \<and> gnat_hostent_h_alias he 0 = None \<and> world st2 = world st \<and> ak_fds st2 = ak_fds st"
  using assms dotted_text_length [of b] parse_dotted_text [OF assms]
  by (simp add: gnat_gethostbyaddr_def gnat_gethostbyname_def ak_fill_hostent_def dotted16_eq
      gnat_hostent_h_name_def gnat_hostent_h_addr_def gnat_hostent_h_alias_def Let_def)

theorem hostbyaddr_hostbyname_roundtrip_witness:
  "\<exists>he st1 st2. gnat_gethostbyaddr [10, 0, 2, 3] 2 (gstate_init sim_world) = (0, Some he, 0, st1)
    \<and> gnat_gethostbyname sim_bridge (gnat_hostent_h_name he) st1 = (0, Some he, 0, st2)
    \<and> gnat_hostent_h_addr he 0 = Some [10, 0, 2, 3]"
  using hostbyaddr_hostbyname_roundtrip [of "[10, 0, 2, 3]" "gstate_init sim_world" sim_bridge]
  by auto

text \<open>
  Defect: when the bridge cannot be attached, a failed name lookup reports whatever
  an earlier lookup left in \<open>ak_h_errno\<close>, although \<open>ak_dns_query\<close> is documented to set it on
  every failure.
\<close>

theorem gethostbyname_stale_h_errno:
  assumes "fst (ak_parse_dotted name (replicate 4 0)) = 0"
    and "fst (ak_ensure_net br st) \<noteq> 0" and "ak_h_errno st \<noteq> 0"
  shows "\<exists>st'. gnat_gethostbyname br name st = (-1, None, ak_h_errno st, st')
    \<and> ak_h_errno st' = ak_h_errno st"
proof -
  obtain ip where p: "ak_parse_dotted name (replicate 4 0) = (0, ip)"
    using assms(1) by (cases "ak_parse_dotted name (replicate 4 0)") simp
  obtain r st0 where n: "ak_ensure_net br st = (r, st0)" "r \<noteq> 0"
    using assms(2) by (cases "ak_ensure_net br st") simp
  then have "ak_h_errno st0 = ak_h_errno st"
    by (auto simp: ak_ensure_net_def Let_def split: if_splits)
  with p n assms(3) show ?thesis
    by (simp add: gnat_gethostbyname_def ak_dns_query_def)
qed

theorem gethostbyname_stale_h_errno_witness:
  "\<exists>st'. gnat_gethostbyname (sim_bridge\<lparr>br_endpoint := \<lambda>w. 0\<rparr>) ''a''
      ((gstate_init sim_world)\<lparr>ak_h_errno := 2\<rparr>) = (-1, None, 2, st') \<and> ak_h_errno st' = 2"
proof -
  have "fst (ak_parse_dotted ''a'' (replicate 4 0)) = 0" by code_simp
  moreover have "fst (ak_ensure_net (sim_bridge\<lparr>br_endpoint := \<lambda>w. 0\<rparr>)
      ((gstate_init sim_world)\<lparr>ak_h_errno := 2\<rparr>)) \<noteq> 0"
    by (simp add: ak_ensure_net_def)
  ultimately show ?thesis
    using gethostbyname_stale_h_errno [of "''a''" "sim_bridge\<lparr>br_endpoint := \<lambda>w. 0\<rparr>"
        "(gstate_init sim_world)\<lparr>ak_h_errno := 2\<rparr>"] by simp
qed

lemma find_services:
  "list_all (\<lambda>(n, p). find (\<lambda>(m, q). n = m) ak_services = Some (n, p)
     \<and> find (\<lambda>(m, q). uint q = uint p \<or> uint q = uint (ak_sw16 p)) ak_services = Some (n, p))
   ak_services"
  by code_simp

lemma find_service:
  assumes "(n, p) \<in> set ak_services"
  shows "find (\<lambda>(m, q). n = m) ak_services = Some (n, p)"
    and "find (\<lambda>(m, q). uint q = uint p \<or> uint q = uint (ak_sw16 p)) ak_services = Some (n, p)"
  using find_services assms unfolding list_all_iff by (blast | force)+

text \<open>
  Every service of the table is found by name, its entry carries the port in network
  order, and looking that port up again returns the same entry.
\<close>

theorem servbyname_servbyport_roundtrip:
  assumes "(n, p) \<in> set ak_services"
  shows "\<exists>se st1 st2. gnat_getservbyname n prot st = (0, Some se, st1)
    \<and> gnat_servent_s_name se = n \<and> gnat_servent_s_port se = ak_sw16 p
    \<and> gnat_servent_s_proto se = prot
    \<and> gnat_getservbyport (uint (gnat_servent_s_port se)) prot st1 = (0, Some se, st2)"
  using find_service [OF assms]
  by (simp add: gnat_getservbyname_def gnat_getservbyport_def ak_fill_servent_def
      gnat_servent_s_name_def gnat_servent_s_port_def gnat_servent_s_proto_def sw16.dec_enc Let_def)

theorem servbyname_servbyport_roundtrip_witness:
  "(''http'', 80) \<in> set ak_services
   \<and> (\<exists>se st1 st2. gnat_getservbyname ''http'' ''tcp'' (gstate_init ()) = (0, Some se, st1)
    \<and> gnat_servent_s_name se = ''http'' \<and> gnat_servent_s_port se = ak_sw16 80
    \<and> gnat_servent_s_proto se = ''tcp''
    \<and> gnat_getservbyport (uint (gnat_servent_s_port se)) ''tcp'' st1 = (0, Some se, st2))"
proof -
  have "(''http'', 80) \<in> set ak_services" by (simp add: ak_services_def)
  then show ?thesis using servbyname_servbyport_roundtrip [of "''http''" 80] by blast
qed

section \<open>Memory\<close>

text \<open>The allocator never hands out a block that is in use.\<close>

definition allocator_ok :: "(nat \<Rightarrow> heap \<Rightarrow> ptr) \<Rightarrow> bool" where
  "allocator_ok mal \<longleftrightarrow> (\<forall>n hp a. mal n hp = Some a \<longrightarrow> hp a = None)"

lemma allocator_okD: "allocator_ok mal \<Longrightarrow> mal n hp = Some a \<Longrightarrow> hp a = None"
  unfolding allocator_ok_def by blast

definition gai_entry :: "u32 \<Rightarrow> u16 \<Rightarrow> int \<Rightarrow> int \<Rightarrow> int \<Rightarrow> nat \<Rightarrow> ak_addrinfo" where
  "gai_entry ip port socktype protocol flags b =
     \<lparr>ai_flags = flags, ai_family = 2, ai_socktype = socktype, ai_protocol = protocol,
      ai_addrlen = 16, ai_addr = Some b, ai_canonname = None, ai_next = None\<rparr>"

lemma ak_mk_addrinfo_cases:
  assumes ok: "allocator_ok mal"
  obtains (nomem) "ak_mk_addrinfo mal ip port ty pr fl hp = Some (None, hp)"
  | (made) a b where "a \<noteq> b" "hp a = None" "hp b = None"
      "ak_mk_addrinfo mal ip port ty pr fl hp =
         Some (Some a, hp(b \<mapsto> Sa (mk_sockaddr port ip), a \<mapsto> Ai (gai_entry ip port ty pr fl b)))"
proof (cases "mal 48 hp")
  case None
  show thesis
  proof (cases "mal 16 hp")
    case None
    then show thesis
      using \<open>mal 48 hp = None\<close> nomem by (simp add: ak_mk_addrinfo_def c_malloc_def c_free_def)
  next
    case (Some b)
    then have "hp b = None" using ok allocator_okD by blast
    then show thesis
      using \<open>mal 48 hp = None\<close> Some nomem
      by (simp add: ak_mk_addrinfo_def c_malloc_def c_free_def fun_upd_idem)
  qed
next
  case (Some a)
  then have a: "hp a = None" using ok allocator_okD by blast
  let ?hp = "hp(a \<mapsto> Raw 48)"
  show thesis
  proof (cases "mal 16 ?hp")
    case None
    then show thesis
      using Some a nomem by (simp add: ak_mk_addrinfo_def c_malloc_def c_free_def fun_upd_idem)
  next
    case (Some b)
    from allocator_okD [OF ok this] have b: "a \<noteq> b" "hp b = None" by (auto split: if_splits)
    have "ak_mk_addrinfo mal ip port ty pr fl hp =
        Some (Some a, hp(b \<mapsto> Sa (mk_sockaddr port ip), a \<mapsto> Ai (gai_entry ip port ty pr fl b)))"
      using \<open>mal 48 hp = Some a\<close> Some b(1)
      by (auto simp: ak_mk_addrinfo_def c_malloc_def gai_entry_def fun_eq_iff)
    with a b show thesis by (intro made)
  qed
qed

lemma freeaddrinfo_None [simp]: "gnat_freeaddrinfo None hp = Some hp"
  by (simp add: gnat_freeaddrinfo.simps)

lemma freeaddrinfo_Some:
  "hp a = Some (Ai ai) \<Longrightarrow> ai_addr ai = Some b \<Longrightarrow> ai_canonname ai = None \<Longrightarrow> hp b \<noteq> None \<Longrightarrow>
     a \<noteq> b \<Longrightarrow> gnat_freeaddrinfo (Some a) hp = gnat_freeaddrinfo (ai_next ai) (hp(b := None, a := None))"
  by (subst gnat_freeaddrinfo.simps) (auto simp: heap_ai_def c_free_def)

lemma enomem_None [simp]: "enomem_loop None hp = Some hp"
  by (simp add: enomem_loop.simps)

lemma enomem_Some:
  "hp a = Some (Ai ai) \<Longrightarrow> ai_addr ai = Some b \<Longrightarrow> hp b \<noteq> None \<Longrightarrow> a \<noteq> b \<Longrightarrow>
     enomem_loop (Some a) hp = enomem_loop (ai_next ai) (hp(b := None, a := None))"
  by (subst enomem_loop.simps) (auto simp: heap_ai_def c_free_def)

text \<open>What the list holds, read through the heap (\<open>k\<close> bounds the number of entries read).\<close>

fun ai_read :: "nat \<Rightarrow> heap \<Rightarrow> ptr \<Rightarrow> (int \<times> int \<times> ak_sockaddr_in) list" where
  "ai_read 0 hp p = []"
| "ai_read (Suc k) hp p =
     (case heap_ai hp p of None \<Rightarrow> []
      | Some ai \<Rightarrow> (case ai_addr ai of None \<Rightarrow> []
          | Some b \<Rightarrow> (case hp b of Some (Sa sa) \<Rightarrow>
              (ai_socktype ai, ai_protocol ai, sa) # ai_read k hp (ai_next ai) | _ \<Rightarrow> [])))"

text \<open>The entries asked for by a socket type: both when it is 0.\<close>

definition gai_wanted :: "int \<Rightarrow> u32 \<Rightarrow> u16 \<Rightarrow> (int \<times> int \<times> ak_sockaddr_in) list" where
  "gai_wanted socktype ip port =
     filter (\<lambda>(ty, _). socktype = 0 \<or> socktype = ty)
       [(1, 6, mk_sockaddr port ip), (2, 17, mk_sockaddr port ip)]"

lemma gai_build_ok:
  assumes ok: "allocator_ok mal" and ty: "socktype = 0 \<or> socktype = 1 \<or> socktype = 2"
  shows "gai_build mal ip port socktype flags hp = Some (-10, None, hp)
    \<or> (\<exists>p hp'. gai_build mal ip port socktype flags hp = Some (0, p, hp')
         \<and> ai_read 3 hp' p = gai_wanted socktype ip port \<and> gnat_freeaddrinfo p hp' = Some hp)"
proof -
  note defs = gai_build_def Let_def heap_ai_def gai_entry_def gai_wanted_def numeral_3_eq_3
    freeaddrinfo_Some fun_upd_idem
  have one: ?thesis if "socktype = 1"
    by (rule ak_mk_addrinfo_cases [OF ok, of ip port 1 6 flags hp]) (auto simp: that defs)
  have two: ?thesis if "socktype = 2"
    by (rule ak_mk_addrinfo_cases [OF ok, of ip port 2 17 flags hp]) (auto simp: that defs)
  have both: ?thesis if z: "socktype = 0"
  proof (rule ak_mk_addrinfo_cases [OF ok, of ip port 1 6 flags hp], goal_cases)
    case 1
    then show ?case by (simp add: z defs)
  next
    case (2 a b)
    let ?hp1 = "hp(b \<mapsto> Sa (mk_sockaddr port ip), a \<mapsto> Ai (gai_entry ip port 1 6 flags b))"
    show ?case
    proof (rule ak_mk_addrinfo_cases [OF ok, of ip port 2 17 flags ?hp1], goal_cases)
      case 1
      then show ?case
        using 2 by (simp add: z gai_build_def gai_entry_def enomem_Some fun_upd_idem fun_upd_twist)
    next
      case new: (2 c d)
      then have ne: "c \<noteq> a" "c \<noteq> b" "d \<noteq> a" "d \<noteq> b" "hp c = None" "hp d = None"
        by (auto split: if_splits)
      let ?hp2 = "?hp1(d \<mapsto> Sa (mk_sockaddr port ip), c \<mapsto> Ai (gai_entry ip port 2 17 flags d))"
      let ?ai = "(gai_entry ip port 1 6 flags b)\<lparr>ai_next := Some c\<rparr>"
      have b: "gai_build mal ip port socktype flags hp = Some (0, Some a, ?hp2(a \<mapsto> Ai ?ai))"
        using 2 new ne by (simp add: z gai_build_def heap_ai_def)
      have r: "ai_read 3 (?hp2(a \<mapsto> Ai ?ai)) (Some a) = gai_wanted socktype ip port"
        using 2(1) new(1) ne by (simp add: z heap_ai_def gai_entry_def gai_wanted_def numeral_3_eq_3)
      have "gnat_freeaddrinfo (Some a) (?hp2(a \<mapsto> Ai ?ai)) =
          Some (?hp2(a \<mapsto> Ai ?ai, b := None, a := None, d := None, c := None))"
        using 2(1) new(1) ne by (simp add: freeaddrinfo_Some gai_entry_def)
      also have "?hp2(a \<mapsto> Ai ?ai, b := None, a := None, d := None, c := None) = hp"
        using 2 ne by (auto simp: fun_eq_iff)
      finally show ?case using b r by blast
    qed
  qed
  from ty one two both show ?thesis by blast
qed

lemma gai_host_error: "gai_host file br node flags st = (Inl e, st') \<Longrightarrow> e = -2"
  by (auto simp: gai_host_def Let_def split: option.splits if_splits prod.splits)

lemma gai_port_error: "gai_port service st = (Inl e, st') \<Longrightarrow> e = -8"
  by (auto simp: gai_port_def Let_def split: option.splits if_splits prod.splits)

text \<open>
  Property C6: \<open>__gnat_getaddrinfo\<close> always returns without an invalid memory operation, whatever
  the arguments and wherever the allocator fails. On success \<open>__gnat_freeaddrinfo\<close> of the list
  returns and gives back exactly the heap before the call; on every error the heap is as it was.
\<close>

theorem getaddrinfo_no_leak:
  assumes "allocator_ok mal"
  shows "\<exists>r res st' hp'. gnat_getaddrinfo mal file br node service hints st hp = Some (r, res, st', hp')
    \<and> (if r = 0 then gnat_freeaddrinfo res hp' = Some hp else res = None \<and> hp' = hp)"
proof -
  obtain family socktype flags where h: "(case hints of None \<Rightarrow> (0, 0, 0) | Some h \<Rightarrow> h) =
      (family, socktype, flags)" by (metis prod_cases3)
  obtain hr st1 where hh: "gai_host file br node flags st = (hr, st1)" by fastforce
  obtain pr st2 where pp: "gai_port service st1 = (pr, st2)" by fastforce
  note rw = gnat_getaddrinfo_def h Let_def hh
  show ?thesis
  proof (cases "(family \<noteq> 0 \<and> family \<noteq> 2) \<or> (socktype \<noteq> 0 \<and> socktype \<noteq> 1 \<and> socktype \<noteq> 2)")
    case True
    then show ?thesis by (auto simp: rw)
  next
    case guard: False
    show ?thesis
    proof (cases hr)
      case (Inl e)
      with guard gai_host_error hh show ?thesis by (auto simp: rw)
    next
      case ip: (Inr ip)
      show ?thesis
      proof (cases pr)
        case (Inl e)
        with guard ip gai_port_error pp show ?thesis by (auto simp: rw)
      next
        case (Inr port)
        have "socktype = 0 \<or> socktype = 1 \<or> socktype = 2" using guard by auto
        from gai_build_ok [OF assms this, of ip port flags hp]
        obtain r res hp' where "gai_build mal ip port socktype flags hp = Some (r, res, hp')"
          "if r = 0 then gnat_freeaddrinfo res hp' = Some hp else res = None \<and> hp' = hp"
        proof (elim disjE exE conjE, goal_cases)
          case 1
          then show ?case by (intro 1(1) [of "-10" None hp]) simp_all
        next
          case (2 p hp')
          then show ?case by (intro 2(1) [of 0 p hp']) simp_all
        qed
        then show ?thesis
          using guard ip Inr pp
          by (intro exI [of _ r] exI [of _ res] exI [of _ st2] exI [of _ hp']) (auto simp: rw)
      qed
    qed
  qed
qed

text \<open>A bump allocator below a bound, for the instances.\<close>

definition bump :: "nat \<Rightarrow> nat \<Rightarrow> heap \<Rightarrow> ptr" where
  "bump bound n hp = find (\<lambda>a. hp a = None) [0..<bound]"

lemma bump_ok: "allocator_ok (bump bound)"
  by (auto simp: allocator_ok_def bump_def dest: find_upt_Some)

theorem getaddrinfo_no_leak_witness:
  "allocator_ok (bump 3)
   \<and> (\<exists>r res st' hp'. gnat_getaddrinfo (bump 3) (\<lambda>f w. None) sim_bridge (Some ''10.0.2.3'') None None
         (gstate_init sim_world) Map.empty = Some (r, res, st', hp')
       \<and> (if r = 0 then gnat_freeaddrinfo res hp' = Some Map.empty else res = None \<and> hp' = Map.empty))"
  using bump_ok [of 3] getaddrinfo_no_leak [OF bump_ok [of 3], of "\<lambda>f w. None" sim_bridge
      "Some ''10.0.2.3''" None None "gstate_init sim_world" Map.empty] by blast

lemma strtol_dec_nat:
  assumes "n < 65536"
  shows "c_strtol10 (dec_nat n) = (int n, [], False)"
proof -
  note d = dec_nat_digits [of n]
  obtain c cs where c: "dec_nat n = c # cs" "is_digit c" using d by (cases "dec_nat n") auto
  have nots: "\<not> c_isspace c" "c \<noteq> CHR ''-''" "c \<noteq> CHR ''+''"
    using c(2) unfolding is_digit_def c_isspace_def by auto
  have run: "takeWhile is_digit (dec_nat n) = dec_nat n" "dropWhile is_digit (dec_nat n) = []"
    using d by (auto simp: takeWhile_eq_all_conv dropWhile_eq_Nil_conv list_all_iff)
  have skip: "dropWhile c_isspace (dec_nat n) = dec_nat n" using c nots by simp
  have hd: "hd (dec_nat n) \<noteq> CHR ''-''" "hd (dec_nat n) \<noteq> CHR ''+''" using c nots by simp_all
  show ?thesis
    using d assms hd unfolding c_strtol10_def Let_def skip by (simp add: run)
qed

lemma mk_addrinfo_finite:
  assumes "\<forall>n hp. finite (dom hp) \<longrightarrow> mal n hp \<noteq> None" "finite (dom hp)"
  shows "\<exists>a hp'. ak_mk_addrinfo mal ip port ty pr fl hp = Some (Some a, hp') \<and> finite (dom hp')"
proof -
  obtain a where a: "mal 48 hp = Some a" using assms by blast
  have fin: "finite (dom (hp(a \<mapsto> Raw 48)))" using assms(2) by simp
  obtain b where b: "mal 16 (hp(a \<mapsto> Raw 48)) = Some b" using assms(1) fin by blast
  show ?thesis using a b fin by (simp add: ak_mk_addrinfo_def c_malloc_def)
qed

lemma gai_build_succeeds:
  assumes m: "\<forall>n hp. finite (dom hp) \<longrightarrow> mal n hp \<noteq> None" and fin: "finite (dom hp)"
  shows "gai_build mal ip port socktype flags hp \<noteq> Some (-10, None, hp')"
proof -
  obtain a hp1 where one: "ak_mk_addrinfo mal ip port 1 6 flags hp = Some (Some a, hp1)"
      "finite (dom hp1)" using mk_addrinfo_finite [OF m fin] by metis
  obtain c hp2 where two: "ak_mk_addrinfo mal ip port 2 17 flags hp1 = Some (Some c, hp2)"
    using mk_addrinfo_finite [OF m one(2)] by metis
  obtain d hp3 where three: "ak_mk_addrinfo mal ip port 2 17 flags hp = Some (Some d, hp3)"
    using mk_addrinfo_finite [OF m fin] by metis
  show ?thesis by (simp add: gai_build_def one two three split: option.splits)
qed

text \<open>
  For a dotted address and a decimal port, with an allocator that has memory left,
  \<open>__gnat_getaddrinfo\<close> succeeds without the resolver, and the list it returns has exactly the
  entries the socket type asks for, stream before datagram, each with the address and the port in
  network byte order.
\<close>

theorem getaddrinfo_numeric:
  assumes "allocator_ok mal" and "\<forall>n hp. finite (dom hp) \<longrightarrow> mal n hp \<noteq> None"
    and "finite (dom hp)" and "dotted_syntax node b" and "p < 65536"
    and "socktype = 0 \<or> socktype = 1 \<or> socktype = 2"
  shows "\<exists>res hp'. gnat_getaddrinfo mal file br (Some node) (Some (dec_nat p)) (Some (2, socktype, flags)) st hp
      = Some (0, res, st, hp')
    \<and> ai_read 3 hp' res = filter (\<lambda>(ty, _). socktype = 0 \<or> socktype = ty)
        (let sa = \<lparr>sin_family = 2, sin_port = ak_sw16 (word_of_nat p), sin_addr = b, sin_zero = replicate 8 0\<rparr>
         in [(1, 6, sa), (2, 17, sa)])"
proof -
  have len: "length b = 4" and ne: "node \<noteq> []"
    using assms(4) by (auto simp: dotted_syntax_def octet_text_def)
  have h: "gai_host file br (Some node) flags st = (Inr (ak_addr_to_u32 b), st)"
    using ne parse_complete [OF assms(4), of "replicate 4 0"] by (simp add: gai_host_def)
  have s: "gai_port (Some (dec_nat p)) st = (Inr (word_of_nat p), st)"
    using dec_nat_digits [of p] strtol_dec_nat [OF assms(5)] assms(5) by (simp add: gai_port_def)
  from gai_build_ok [OF assms(1,6), of "ak_addr_to_u32 b" "word_of_nat p" flags hp]
    gai_build_succeeds [OF assms(2,3)]
  obtain res hp' where g: "gai_build mal (ak_addr_to_u32 b) (word_of_nat p) socktype flags hp =
      Some (0, res, hp')" "ai_read 3 hp' res = gai_wanted socktype (ak_addr_to_u32 b) (word_of_nat p)"
    by blast
  have "gnat_getaddrinfo mal file br (Some node) (Some (dec_nat p)) (Some (2, socktype, flags)) st hp
      = Some (0, res, st, hp')"
    using assms(6) h s g(1) by (auto simp: gnat_getaddrinfo_def)
  moreover have "mk_sockaddr (word_of_nat p) (ak_addr_to_u32 b) =
      \<lparr>sin_family = 2, sin_port = ak_sw16 (word_of_nat p), sin_addr = b, sin_zero = replicate 8 0\<rparr>"
    by (simp add: mk_sockaddr_def addr.enc_dec len)
  ultimately show ?thesis using g(2) by (simp add: gai_wanted_def Let_def)
qed

definition top_alloc :: "nat \<Rightarrow> heap \<Rightarrow> ptr" where
  "top_alloc n hp = (if finite (dom hp) then Some (Suc (Max (insert 0 (dom hp)))) else None)"

lemma top_alloc_ok: "allocator_ok top_alloc" "\<forall>n hp. finite (dom hp) \<longrightarrow> top_alloc n hp \<noteq> None"
proof -
  have "hp (Suc (Max (insert 0 (dom hp)))) = None" if "finite (dom hp)" for hp :: heap
  proof (rule ccontr)
    assume "hp (Suc (Max (insert 0 (dom hp)))) \<noteq> None"
    then have "Suc (Max (insert 0 (dom hp))) \<le> Max (insert 0 (dom hp))"
      using that by (intro Max_ge) auto
    then show False by simp
  qed
  then show "allocator_ok top_alloc" by (auto simp: allocator_ok_def top_alloc_def split: if_splits)
  show "\<forall>n hp. finite (dom hp) \<longrightarrow> top_alloc n hp \<noteq> None" by (simp add: top_alloc_def)
qed

theorem getaddrinfo_numeric_witness:
  "\<exists>res hp'. gnat_getaddrinfo top_alloc (\<lambda>f w. None) sim_bridge (Some (dotted_text [10, 0, 2, 3]))
      (Some (dec_nat 80)) (Some (2, 0, 0)) (gstate_init sim_world) Map.empty
      = Some (0, res, gstate_init sim_world, hp')
    \<and> length (ai_read 3 hp' res) = 2"
  using getaddrinfo_numeric [OF top_alloc_ok, of Map.empty "dotted_text [10, 0, 2, 3]" "[10, 0, 2, 3]" 80 0
      "\<lambda>f w. None" sim_bridge 0 "gstate_init sim_world"] dotted_text_syntax [of "[10, 0, 2, 3]"]
  by (auto simp: Let_def)

end
