(* ===== verification/Sock_Safety.thy ===== *)
theory Sock_Safety
  imports Sock_IO Sock_Signal Sock_Opts Netdb
begin

text \<open>
  Ownership of bridge handles. The calls of \<^verbatim>\<open>aegir_gsocket.c\<close> form a step relation on the global
  state; the invariant says that the handles open at the bridge are exactly the handles of the
  live socket descriptors, each owned by one descriptor, and the handles of the sockets that were
  given to \<open>__gnat_close_signalling_fd\<close>, which frees a slot of any kind without a close at the
  bridge. Every other call preserves the ownership on every path.
\<close>

section \<open>What the bridge promises about handles\<close>

text \<open>
  \<open>opens\<close> is the set of handles open on the bridge side. Opening and accepting return a handle
  that was not open; closing removes it; every other call leaves the set as it is.
\<close>

definition handle_contract :: "'w bridge \<Rightarrow> ('w \<Rightarrow> u64 set) \<Rightarrow> bool" where
  "handle_contract br opens \<longleftrightarrow>
     (\<forall>c w. opens (br_attach br c w) = opens w)
   \<and> (\<forall>p w s h w'. br_socket br p w = (s, h, w') \<longrightarrow>
        (if s = 0 then h \<notin> opens w \<and> opens w' = insert h (opens w) else opens w' = opens w))
   \<and> (\<forall>l w s h ip p w'. br_accept br l w = (s, h, ip, p, w') \<longrightarrow>
        (if s = 0 then h \<notin> opens w \<and> opens w' = insert h (opens w) else opens w' = opens w))
   \<and> (\<forall>h w. opens (snd (br_close br h w)) = opens w - {h})
   \<and> (\<forall>h p w s a w'. br_bind br h p w = (s, a, w') \<longrightarrow> opens w' = opens w)
   \<and> (\<forall>h ip p w s w'. br_connect br h ip p w = (s, w') \<longrightarrow> opens w' = opens w)
   \<and> (\<forall>h b w s w'. br_listen br h b w = (s, w') \<longrightarrow> opens w' = opens w)
   \<and> (\<forall>h b l ip p w s w'. br_sendto br h b l ip p w = (s, w') \<longrightarrow> opens w' = opens w)
   \<and> (\<forall>h m t w s d ip p c w'. br_recvfrom br h m t w = (s, d, ip, p, c, w') \<longrightarrow> opens w' = opens w)
   \<and> (\<forall>h w s rx tx e w'. br_poll br h w = (s, rx, tx, e, w') \<longrightarrow> opens w' = opens w)
   \<and> (\<forall>n l w s ip w'. br_resolve br n l w = (s, ip, w') \<longrightarrow> opens w' = opens w)
   \<and> (\<forall>d w. opens (br_sleep_until br d w) = opens w)
   \<and> (\<forall>w t w'. br_rdtime br w = (t, w') \<longrightarrow> opens w' = opens w)"

lemma handle_contractD:
  assumes "handle_contract br opens"
  shows "opens (br_attach br c w) = opens w"
    and "br_socket br p w = (s, h, w') \<Longrightarrow> s = 0 \<Longrightarrow> h \<notin> opens w \<and> opens w' = insert h (opens w)"
    and "br_socket br p w = (s, h, w') \<Longrightarrow> s \<noteq> 0 \<Longrightarrow> opens w' = opens w"
    and "br_accept br l w = (s, h, ip, pt, w') \<Longrightarrow> s = 0 \<Longrightarrow> h \<notin> opens w \<and> opens w' = insert h (opens w)"
    and "br_accept br l w = (s, h, ip, pt, w') \<Longrightarrow> s \<noteq> 0 \<Longrightarrow> opens w' = opens w"
    and "opens (snd (br_close br h w)) = opens w - {h}"
    and "br_bind br h p w = (s, a, w') \<Longrightarrow> opens w' = opens w"
    and "br_connect br h ip p w = (s, w') \<Longrightarrow> opens w' = opens w"
    and "br_listen br h b w = (s, w') \<Longrightarrow> opens w' = opens w"
    and "br_sendto br h buf len ip p w = (s, w') \<Longrightarrow> opens w' = opens w"
    and "br_recvfrom br h m t w = (s, d, ip, p, c', w') \<Longrightarrow> opens w' = opens w"
    and "br_poll br h w = (s, rx, tx, e, w') \<Longrightarrow> opens w' = opens w"
    and "opens (br_sleep_until br dl w) = opens w"
    and "br_rdtime br w = (tm, w') \<Longrightarrow> opens w' = opens w"
    and "br_resolve br name nlen w = (s, ip, w') \<Longrightarrow> opens w' = opens w"
  using assms unfolding handle_contract_def by (blast | metis)+

section \<open>Quiet steps\<close>

text \<open>A step that changes neither the table nor the set of open handles.\<close>

definition quiet :: "('w \<Rightarrow> u64 set) \<Rightarrow> 'w gstate \<Rightarrow> 'w gstate \<Rightarrow> bool" where
  "quiet opens st st' \<longleftrightarrow> ak_fds st' = ak_fds st \<and> opens (world st') = opens (world st)"

lemma quiet_refl [simp, intro]: "quiet opens st st"
  by (simp add: quiet_def)

lemma quiet_trans [trans]: "quiet opens a b \<Longrightarrow> quiet opens b c \<Longrightarrow> quiet opens a c"
  by (simp add: quiet_def)

lemma quiet_errno [simp]: "quiet opens st (st'\<lparr>errno := e\<rparr>) = quiet opens st st'"
  by (simp add: quiet_def)

lemma quiet_world: "opens w = opens (world st) \<Longrightarrow> quiet opens st (st\<lparr>world := w\<rparr>)"
  by (simp add: quiet_def)

lemma quiet_poll:
  "handle_contract br opens \<Longrightarrow> ak_poll br h st = (s, rx, tx, e, st') \<Longrightarrow> quiet opens st st'"
  by (auto simp: ak_poll_def quiet_def dest: handle_contractD(12) split: prod.splits)

lemma quiet_now: "handle_contract br opens \<Longrightarrow> ak_now br st = (t, st') \<Longrightarrow> quiet opens st st'"
  by (auto simp: ak_now_def quiet_def dest: handle_contractD(14) split: prod.splits)

lemma quiet_sleep: "handle_contract br opens \<Longrightarrow> quiet opens st (ak_sleep_slice br st)"
  by (auto simp: ak_sleep_slice_def quiet_def handle_contractD(13)
      dest: quiet_now [unfolded quiet_def] split: prod.splits)

lemma quiet_ensure_net:
  "handle_contract br opens \<Longrightarrow> ak_ensure_net br st = (r, st') \<Longrightarrow> quiet opens st st'"
  by (auto simp: ak_ensure_net_def Let_def quiet_def handle_contractD(1) split: if_splits)

lemma quiet_ready: "handle_contract br opens \<Longrightarrow> ak_ready br fd st = (m, st') \<Longrightarrow> quiet opens st st'"
  by (auto simp: ak_ready_def Let_def dest: quiet_poll split: option.splits if_splits prod.splits)

text \<open>The receive loop, the send loops and the wait loops are quiet whenever they return.\<close>

lemma quiet_recv_loop:
  assumes ct: "handle_contract br opens"
    and ret: "ak_recv_loop br s len st = Some (n, dat, sip, sport, st')"
  shows "quiet opens st st'"
proof -
  have "handle_contract br opens \<longrightarrow> quiet opens st (snd (snd (snd (snd (n, dat, sip, sport, st')))))"
  proof (rule ak_recv_loop.raw_induct [where P = "\<lambda>br s len st r. handle_contract br opens \<longrightarrow>
      quiet opens st (snd (snd (snd (snd r))))", OF _ ret], intro impI, goal_cases)
    case (1 f br s len st r)
    obtain q d ip pt c w where rf: "br_recvfrom br (handle s) (u64_of_int len) 0 (world st) =
        (q, d, ip, pt, c, w)" by (metis prod_cases6)
    let ?st1 = "st\<lparr>world := w\<rparr>"
    have q1: "quiet opens st ?st1"
      using handle_contractD(11) [OF 1(3) rf] by (rule quiet_world)
    obtain p rx tx e st2 where po: "ak_poll br (handle s) ?st1 = (p, rx, tx, e, st2)"
      by (metis prod_cases5)
    note q2 = quiet_poll [OF 1(3) po]
    from 1(2) consider "quiet opens ?st1 (snd (snd (snd (snd r))))"
      | st3 where "quiet opens ?st1 st3" "f br s len st3 = Some r"
      using q2 quiet_sleep [OF 1(3), of ?st1] by (auto simp: rf po Let_def split: if_splits)
    then show ?case
      using q1 1(1) [rule_format, OF _ 1(3)] by cases (blast intro: quiet_trans)+
  qed
  with ct show ?thesis by simp
qed

lemma quiet_send_dgram:
  assumes ct: "handle_contract br opens"
    and ret: "ak_send_dgram br s buf len ip port st = Some (n, st')"
  shows "quiet opens st st'"
proof -
  have "handle_contract br opens \<longrightarrow> quiet opens st (snd (n, st'))"
  proof (rule ak_send_dgram.raw_induct [where P = "\<lambda>br s buf len ip port st r.
      handle_contract br opens \<longrightarrow> quiet opens st (snd r)", OF _ ret], intro impI, goal_cases)
    case (1 f br s buf len ip port st r)
    obtain q w where se: "br_sendto br (handle s) buf (u64_of_int len) ip port (world st) = (q, w)"
      by fastforce
    let ?st1 = "st\<lparr>world := w\<rparr>"
    have q1: "quiet opens st ?st1"
      using handle_contractD(10) [OF 1(3) se] by (rule quiet_world)
    from 1(2) consider "quiet opens ?st1 (snd r)"
      | "f br s buf len ip port (ak_sleep_slice br ?st1) = Some r"
      by (auto simp: se Let_def fail_def split: if_splits)
    then show ?case
      using q1 1(1) [rule_format, OF _ 1(3)] quiet_sleep [OF 1(3), of ?st1]
      by cases (blast intro: quiet_trans)+
  qed
  with ct show ?thesis by simp
qed

lemma quiet_send_stream:
  assumes ct: "handle_contract br opens"
    and ret: "ak_send_stream br s buf len sent st = Some (n, st')"
  shows "quiet opens st st'"
proof -
  have "handle_contract br opens \<longrightarrow> quiet opens st (snd (n, st'))"
  proof (rule ak_send_stream.raw_induct [where P = "\<lambda>br s buf len sent st r.
      handle_contract br opens \<longrightarrow> quiet opens st (snd r)", OF _ ret], intro impI, goal_cases)
    case (1 f br s buf len sent st r)
    let ?c = "send_chunk (len - sent)"
    obtain p rx tx e st1 where po: "ak_poll br (handle s) st = (p, rx, tx, e, st1)"
      by (metis prod_cases5)
    obtain q w where se: "br_sendto br (handle s) (drop (nat sent) buf) (u64_of_int ?c) 0 0
        (world st1) = (q, w)" by fastforce
    let ?st2 = "st1\<lparr>world := w\<rparr>"
    have q2: "quiet opens st st1" "quiet opens st1 ?st2"
      using quiet_poll [OF 1(3) po] handle_contractD(10) [OF 1(3) se] by (auto intro: quiet_world)
    from 1(2) consider "quiet opens st (snd r)" | "quiet opens st1 (snd r)" | "quiet opens ?st2 (snd r)"
      | "f br s buf len (sent + ?c) ?st2 = Some r"
      | "f br s buf len sent (ak_sleep_slice br ?st2) = Some r"
      by (auto simp: po se Let_def fail_def split: if_splits)
    then show ?case
      using q2 1(1) [rule_format, OF _ 1(3)] quiet_sleep [OF 1(3), of ?st2]
      by cases (blast intro: quiet_trans)+
  qed
  with ct show ?thesis by simp
qed

lemma quiet_select_scan:
  "handle_contract br opens \<Longrightarrow> select_scan br fds sets n st = (n', sets', st') \<Longrightarrow> quiet opens st st'"
proof (induction br fds sets n st rule: select_scan.induct)
  case (2 br fd fds rd wr ex n st)
  obtain m st1 where m: "(if in_set rd fd \<or> in_set wr fd \<or> in_set ex fd
      then ak_ready br (int fd) st else (0, st)) = (m, st1)" by fastforce
  have "quiet opens st st1" using m quiet_ready [OF "2.prems"(1)] by (auto split: if_splits)
  moreover have "quiet opens st1 st'"
    using 2 m by (auto simp: Let_def split: prod.splits)
  ultimately show ?case by (rule quiet_trans)
qed simp

lemma quiet_select_loop:
  assumes ct: "handle_contract br opens" and ret: "select_loop br n dl sets st = Some (k, sets', st')"
  shows "quiet opens st st'"
proof -
  have "handle_contract br opens \<longrightarrow> quiet opens st (snd (snd (k, sets', st')))"
  proof (rule select_loop.raw_induct [where P = "\<lambda>br n dl sets st r.
      handle_contract br opens \<longrightarrow> quiet opens st (snd (snd r))", OF _ ret], intro impI, goal_cases)
    case (1 f br n dl sets st r)
    obtain n1 sets1 st1 where sc: "select_scan br [0..<n] sets 0 st = (n1, sets1, st1)"
      by (metis prod_cases3)
    obtain t st2 where now: "ak_now br st1 = (t, st2)" by fastforce
    have q2: "quiet opens st st1" "quiet opens st1 st2"
      using quiet_select_scan [OF 1(3) sc] quiet_now [OF 1(3) now] by blast+
    from 1(2) consider "quiet opens st1 (snd (snd r))" | "quiet opens st2 (snd (snd r))"
      | "f br n dl sets1 (ak_sleep_slice br st1) = Some r"
      | "f br n dl sets1 (ak_sleep_slice br st2) = Some r"
      by (auto simp: sc now Let_def split: option.splits if_splits)
    then show ?case
      using q2 1(1) [rule_format, OF _ 1(3)] quiet_sleep [OF 1(3)]
      by cases (blast intro: quiet_trans)+
  qed
  with ct show ?thesis by simp
qed

lemma quiet_poll_scan:
  "handle_contract br opens \<Longrightarrow> poll_scan br ps st = (ps', n, st') \<Longrightarrow> quiet opens st st'"
proof (induction ps arbitrary: st ps' n st')
  case (Cons p ps)
  obtain p1 hit st1 where one: "poll_one br p st = (p1, hit, st1)" by (metis prod_cases3)
  obtain ps2 k st2 where rest: "poll_scan br ps st1 = (ps2, k, st2)" by (metis prod_cases3)
  obtain m st0 where m: "ak_ready br (p_fd p) st = (m, st0)" by fastforce
  have "st1 = st0" using one by (auto simp: poll_one_def m Let_def split: if_splits)
  then have "quiet opens st st1" using quiet_ready [OF Cons.prems(1) m] by simp
  also have "quiet opens st1 st2" by (rule Cons.IH [OF Cons.prems(1) rest])
  finally show ?case using Cons.prems(2) by (simp add: one rest)
qed simp

lemma quiet_poll_loop:
  assumes ct: "handle_contract br opens" and ret: "poll_loop br dl ps st = Some (k, ps', st')"
  shows "quiet opens st st'"
proof -
  have "handle_contract br opens \<longrightarrow> quiet opens st (snd (snd (k, ps', st')))"
  proof (rule poll_loop.raw_induct [where P = "\<lambda>br dl ps st r.
      handle_contract br opens \<longrightarrow> quiet opens st (snd (snd r))", OF _ ret], intro impI, goal_cases)
    case (1 f br dl ps st r)
    obtain ps1 n1 st1 where sc: "poll_scan br ps st = (ps1, n1, st1)" by (metis prod_cases3)
    obtain t st2 where now: "ak_now br st1 = (t, st2)" by fastforce
    have q2: "quiet opens st st1" "quiet opens st1 st2"
      using quiet_poll_scan [OF 1(3) sc] quiet_now [OF 1(3) now] by blast+
    from 1(2) consider "quiet opens st1 (snd (snd r))" | "quiet opens st2 (snd (snd r))"
      | "f br dl ps1 (ak_sleep_slice br st1) = Some r"
      | "f br dl ps1 (ak_sleep_slice br st2) = Some r"
      by (auto simp: sc now Let_def split: option.splits if_splits)
    then show ?case
      using q2 1(1) [rule_format, OF _ 1(3)] quiet_sleep [OF 1(3)]
      by cases (blast intro: quiet_trans)+
  qed
  with ct show ?thesis by simp
qed

text \<open>The accept loop is quiet up to the handle it returns.\<close>

lemma accept_wait_handle:
  assumes ct: "handle_contract br opens" and ret: "accept_wait br s st = Some (res, st')"
  shows "case res of Inl e \<Rightarrow> quiet opens st st'
    | Inr (nh, ip, pt) \<Rightarrow> ak_fds st' = ak_fds st \<and> nh \<notin> opens (world st)
        \<and> opens (world st') = insert nh (opens (world st))"
proof -
  let ?Q = "\<lambda>st res st'. case res of Inl e \<Rightarrow> quiet opens st st'
    | Inr (nh, ip, pt) \<Rightarrow> ak_fds st' = ak_fds st \<and> nh \<notin> opens (world st)
        \<and> opens (world st') = insert nh (opens (world st))"
  have "handle_contract br opens \<longrightarrow> ?Q st (fst (res, st')) (snd (res, st'))"
  proof (rule accept_wait.raw_induct [where P = "\<lambda>br s st r.
      handle_contract br opens \<longrightarrow> ?Q st (fst r) (snd r)", OF _ ret], intro impI, goal_cases)
    case (1 f br s st r)
    obtain q nh ip pt w where ac: "br_accept br (handle s) (world st) = (q, nh, ip, pt, w)"
      by (metis prod_cases5)
    let ?st1 = "st\<lparr>world := w\<rparr>"
    show ?case
    proof (cases "q = 0")
      case True
      with 1(2) handle_contractD(4) [OF 1(3) ac] show ?thesis by (auto simp: ac Let_def)
    next
      case False
      have q1: "quiet opens st ?st1"
        using handle_contractD(5) [OF 1(3) ac False] by (rule quiet_world)
      note q2 = quiet_trans [OF q1 quiet_sleep [OF 1(3)]]
      from 1(2) False consider "\<exists>e. fst r = Inl e \<and> snd r = ?st1"
        | "f br s (ak_sleep_slice br ?st1) = Some r"
        by (auto simp: ac Let_def split: if_splits)
      then show ?thesis
      proof cases
        case 1
        with q1 show ?thesis by auto
      next
        case 2
        then have "?Q (ak_sleep_slice br ?st1) (fst r) (snd r)" using 1(1) 1(3) by blast
        then show ?thesis
          using q2 by (auto simp: quiet_def split: sum.splits prod.splits)
      qed
    qed
  qed
  with ct show ?thesis unfolding fst_conv snd_conv by blast
qed

section \<open>The ownership invariant\<close>

definition sock_handles :: "'w gstate \<Rightarrow> int \<Rightarrow> u64 option" where
  "sock_handles st fd = map_option handle (ak_get_sock st fd)"

text \<open>
  \<open>X\<close> is the set of handles that no descriptor names any more although they are open: the open
  handles are those of the live sockets, each named once, and those of \<open>X\<close>, apart from them.
\<close>

definition owns :: "('w \<Rightarrow> u64 set) \<Rightarrow> u64 set \<Rightarrow> 'w gstate \<Rightarrow> bool" where
  "owns opens X st \<longleftrightarrow> gs_wf st \<and> ran (sock_handles st) \<union> X = opens (world st)
     \<and> ran (sock_handles st) \<inter> X = {} \<and> inj_on (sock_handles st) (dom (sock_handles st))"

lemma sock_handles_put:
  assumes "gs_wf st" "3 \<le> fd" "fd < 256"
  shows "sock_handles (ak_put st fd s) =
    (sock_handles st)(fd := if used s \<and> kind s = KIND_SOCK then Some (handle s) else None)"
  using assms by (auto simp: sock_handles_def ak_get_sock_def ak_get_put fun_eq_iff)

lemma sock_handles_cong: "ak_fds st = ak_fds st' \<Longrightarrow> sock_handles st = sock_handles st'"
  by (simp add: sock_handles_def fun_eq_iff ak_get_sock_cong [of st st'])

lemma owns_quiet: "owns opens X st \<Longrightarrow> quiet opens st st' \<Longrightarrow> owns opens X st'"
  using sock_handles_cong [of st st'] gs_wf_cong [of st st'] by (auto simp: owns_def quiet_def)

text \<open>Rewriting a live entry without touching its kind or handle.\<close>

lemma owns_update:
  assumes "owns opens X st" "ak_get st fd = Some s" "used s'" "kind s' = kind s" "handle s' = handle s"
  shows "owns opens X (ak_put st fd s')"
proof -
  have wf: "gs_wf st" using assms(1) by (simp add: owns_def)
  have fd: "3 \<le> fd" "fd < 256" using assms(2) by (auto simp: ak_get_Some_iff)
  have "sock_handles st fd = (if kind s = KIND_SOCK then Some (handle s) else None)"
    using assms(2) by (simp add: sock_handles_def ak_get_sock_def)
  then have "sock_handles (ak_put st fd s') = sock_handles st"
    using assms(3-5) by (auto simp: sock_handles_put [OF wf fd] fun_eq_iff)
  then show ?thesis using assms(1) by (simp add: owns_def ak_put_def gs_wf_def)
qed

lemma owns_add:
  assumes "owns opens X st" "ak_get st fd = None" "3 \<le> fd" "fd < 256"
    and "ak_fds st1 = ak_fds st" "h \<notin> opens (world st)" "opens (world st1) = insert h (opens (world st))"
    and "used s" "kind s = KIND_SOCK" "handle s = h"
  shows "owns opens X (ak_put st1 fd s)"
proof -
  have wf1: "gs_wf st1" using assms(1,5) by (simp add: owns_def gs_wf_def)
  have none: "sock_handles st1 fd = None"
    using assms(2) sock_handles_cong [OF assms(5)] by (simp add: sock_handles_def ak_get_sock_def)
  have hs: "sock_handles (ak_put st1 fd s) = (sock_handles st1)(fd \<mapsto> h)"
    using assms(8-10) by (simp add: sock_handles_put [OF wf1 assms(3,4)])
  have inv: "ran (sock_handles st1) \<union> X = opens (world st)" "ran (sock_handles st1) \<inter> X = {}"
      "inj_on (sock_handles st1) (dom (sock_handles st1))"
    using assms(1) sock_handles_cong [OF assms(5)] by (auto simp: owns_def)
  then have "h \<notin> ran (sock_handles st1)" "h \<notin> X" using assms(6) by auto
  then have "ran ((sock_handles st1)(fd \<mapsto> h)) = insert h (ran (sock_handles st1))"
    and "inj_on ((sock_handles st1)(fd \<mapsto> h)) (dom ((sock_handles st1)(fd \<mapsto> h)))"
    using none inv(3) inj_map_upd [of "sock_handles st1" fd h] by (simp_all del: dom_fun_upd)
  then show ?thesis
    using assms(7) wf1 inv(1,2) \<open>h \<notin> X\<close> unfolding owns_def hs by (auto simp: ak_put_def gs_wf_def)
qed

lemma owns_unmap:
  assumes "owns opens X st" "ak_get_sock st fd = Some s" and "ak_fds st1 = ak_fds st"
    and "Y \<subseteq> insert (handle s) X" "X \<subseteq> Y"
    and "opens (world st1) = opens (world st) - (insert (handle s) X - Y)"
  shows "owns opens Y (ak_put st1 fd (s\<lparr>used := False\<rparr>))"
proof -
  have wf1: "gs_wf st1" using assms(1,3) by (simp add: owns_def gs_wf_def)
  have fd: "3 \<le> fd" "fd < 256" using assms(2) by (auto simp: ak_get_sock_Some ak_get_Some_iff)
  have eq: "sock_handles st1 = sock_handles st" by (rule sock_handles_cong [OF assms(3)])
  have hs: "sock_handles (ak_put st1 fd (s\<lparr>used := False\<rparr>)) = (sock_handles st)(fd := None)"
    by (simp add: sock_handles_put [OF wf1 fd] eq)
  have at: "sock_handles st fd = Some (handle s)" using assms(2) by (simp add: sock_handles_def)
  then have "handle s \<in> ran (sock_handles st)" by (rule ranI)
  moreover have inv: "ran (sock_handles st) \<union> X = opens (world st)" "ran (sock_handles st) \<inter> X = {}"
      "inj_on (sock_handles st) (dom (sock_handles st))"
    using assms(1) by (auto simp: owns_def)
  moreover have "ran ((sock_handles st)(fd := None)) = ran (sock_handles st) - {handle s}"
    by (rule ran_map_del [OF inv(3) at])
  ultimately have "ran ((sock_handles st)(fd := None)) \<union> Y = opens (world st1)"
      "ran ((sock_handles st)(fd := None)) \<inter> Y = {}"
    using assms(4-6) by auto
  moreover have "inj_on ((sock_handles st)(fd := None)) (dom ((sock_handles st)(fd := None)))"
    by (rule inj_map_del [OF inv(3)])
  ultimately show ?thesis
    using wf1 unfolding owns_def hs by (simp add: ak_put_def gs_wf_def)
qed

text \<open>Closing the handle with the slot, and freeing the slot while the handle stays open.\<close>

lemma owns_drop:
  assumes "owns opens X st" "ak_get_sock st fd = Some s"
    and "ak_fds st1 = ak_fds st" "opens (world st1) = opens (world st) - {handle s}"
  shows "owns opens X (ak_put st1 fd (s\<lparr>used := False\<rparr>))"
proof -
  have "handle s \<notin> X"
    using assms(1,2) by (force simp: owns_def sock_handles_def ran_def)
  then show ?thesis by (intro owns_unmap [OF assms(1-3)]) (auto simp: assms(4))
qed

lemma owns_abandon:
  assumes "owns opens X st" "ak_get_sock st fd = Some s"
  shows "owns opens (X \<union> {handle s}) (ak_put st fd (s\<lparr>used := False\<rparr>))"
  by (rule owns_unmap [OF assms]) auto

section \<open>Every call preserves ownership\<close>

text \<open>
  One step: one call of the interface returned. The label is the set of handles the call abandons:
  empty for every call but \<open>__gnat_close_signalling_fd\<close>, which frees the slot of whatever descriptor
  it is given and, when that is a socket, leaves its handle open at the bridge. The calls that only
  read (the accessors of the static entries, \<open>__gnat_freeaddrinfo\<close>, which only touches the heap, and
  the operations on descriptor sets) do not take the state and have no step.
\<close>

inductive gs_call :: "'w bridge \<Rightarrow> 'w gstate \<Rightarrow> u64 set \<Rightarrow> 'w gstate \<Rightarrow> bool" for br where
  call_socket: "socket br d ty p st = (r, st') \<Longrightarrow> gs_call br st {} st'"
| call_close: "gnat_socket_close br fd st = (r, st') \<Longrightarrow> gs_call br st {} st'"
| call_bind: "bind br fd sin st = (r, st') \<Longrightarrow> gs_call br st {} st'"
| call_connect: "connect br fd sin st = (r, st') \<Longrightarrow> gs_call br st {} st'"
| call_listen: "listen br fd bl st = (r, st') \<Longrightarrow> gs_call br st {} st'"
| call_accept: "accept br fd wa st = Some (r, a, st') \<Longrightarrow> gs_call br st {} st'"
| call_recv: "recv br fd len fl st = Some (r, dat, st') \<Longrightarrow> gs_call br st {} st'"
| call_recvfrom: "recvfrom br fd len fl wa st = Some (r, dat, a, st') \<Longrightarrow> gs_call br st {} st'"
| call_sendto: "sendto br fd msg len dst st = Some (r, st') \<Longrightarrow> gs_call br st {} st'"
| call_getsockopt: "getsockopt br fd l n st = (r, v, st') \<Longrightarrow> gs_call br st {} st'"
| call_setsockopt: "setsockopt fd l n v st = (r, st') \<Longrightarrow> gs_call br st {} st'"
| call_ioctl: "gnat_socket_ioctl br fd req arg st = (r, arg', st') \<Longrightarrow> gs_call br st {} st'"
| call_select: "select br nfds sets tmo st = Some (r, sets', st') \<Longrightarrow> gs_call br st {} st'"
| call_poll: "poll br ps tmo' st = Some (r, ps', st') \<Longrightarrow> gs_call br st {} st'"
| call_sig_create: "gnat_create_signalling_fds st = (r, pr, st') \<Longrightarrow> gs_call br st {} st'"
| call_sig_read: "gnat_read_signalling_fd fd st = (r, st') \<Longrightarrow> gs_call br st {} st'"
| call_sig_write: "gnat_write_signalling_fd fd st = (r, st') \<Longrightarrow> gs_call br st {} st'"
| call_getsockname: "getsockname fd st = (r, a, st') \<Longrightarrow> gs_call br st {} st'"
| call_getpeername: "getpeername fd st = (r, a, st') \<Longrightarrow> gs_call br st {} st'"
| call_shutdown: "shutdown fd st = (r, st') \<Longrightarrow> gs_call br st {} st'"
| call_socketpair: "socketpair st = (r, st') \<Longrightarrow> gs_call br st {} st'"
| call_gethostname: "gethostname k st = (r, nm, st') \<Longrightarrow> gs_call br st {} st'"
| call_recvmsg: "recvmsg st = (r, st') \<Longrightarrow> gs_call br st {} st'"
| call_sendmsg: "sendmsg st = (r, st') \<Longrightarrow> gs_call br st {} st'"
| call_pton: "gnat_inet_pton af src dstb st = (r, dstb', st') \<Longrightarrow> gs_call br st {} st'"
| call_ntop: "gnat_inet_ntop af ipb sz st = (ok, txt, st') \<Longrightarrow> gs_call br st {} st'"
| call_gethostbyname: "gnat_gethostbyname br name st = (r, he, herr, st') \<Longrightarrow> gs_call br st {} st'"
| call_gnat_gethostbyaddr: "gnat_gethostbyaddr ipb af st = (r, he, herr, st') \<Longrightarrow> gs_call br st {} st'"
| call_gethostbyaddr: "gethostbyaddr ipb af st = (he, st') \<Longrightarrow> gs_call br st {} st'"
| call_getservbyname: "gnat_getservbyname name pro st = (r, se, st') \<Longrightarrow> gs_call br st {} st'"
| call_getservbyport: "gnat_getservbyport port pro st = (r, se, st') \<Longrightarrow> gs_call br st {} st'"
| call_getaddrinfo: "gnat_getaddrinfo mal file br node serv hints st hp = Some (r, res, st', hp') \<Longrightarrow>
    gs_call br st {} st'"
| call_getnameinfo: "gnat_getnameinfo sin hostlen servlen st = (r, txt, txt', st') \<Longrightarrow> gs_call br st {} st'"
| call_sigpipe: "gs_call br st {} (gnat_disable_sigpipe fd st)"
| call_sigpipes: "gs_call br st {} (gnat_disable_all_sigpipes st)"
| call_sig_close: "gs_call br st (set_option (sock_handles st fd)) (gnat_close_signalling_fd fd st)"
| call_errno: "gs_call br st {} (st\<lparr>errno := e\<rparr>)"

text \<open>A sequence of calls, with all the handles its calls abandon.\<close>

inductive gs_run :: "'w bridge \<Rightarrow> 'w gstate \<Rightarrow> u64 set \<Rightarrow> 'w gstate \<Rightarrow> bool" for br where
  run_nil: "gs_run br st {} st"
| run_call: "gs_run br st X st1 \<Longrightarrow> gs_call br st1 A st2 \<Longrightarrow> gs_run br st (X \<union> A) st2"

lemma owns_socket:
  assumes ct: "handle_contract br opens" and ow: "owns opens X st"
    and call: "socket br d ty p st = (r, st')"
  shows "owns opens X st'"
proof -
  have wf: "gs_wf st" using ow by (simp add: owns_def)
  from wf call show ?thesis
  proof (cases rule: socket_cases)
    case (refused r st0 e)
    with owns_quiet [OF ow] quiet_ensure_net [OF ct] show ?thesis by simp
  next
    case (no_handle st0 pr s h w)
    have "opens w = opens (world st0)" by (rule handle_contractD(3) [OF ct no_handle(3,4)])
    then show ?thesis
      using no_handle owns_quiet [OF ow] quiet_ensure_net [OF ct no_handle(2)] by (simp add: quiet_def)
  next
    case (full st0 pr h w)
    have "h \<notin> opens (world st0)" "opens w = insert h (opens (world st0))"
      using handle_contractD(2) [OF ct full(3)] by auto
    then show ?thesis
      using full owns_quiet [OF ow] quiet_ensure_net [OF ct full(2)] handle_contractD(6) [OF ct]
      by (simp add: quiet_def)
  next
    case (opened st0 pr h w)
    have q: "quiet opens st st0" by (rule quiet_ensure_net [OF ct opened(3)])
    have "h \<notin> opens (world st0)" "opens w = insert h (opens (world st0))"
      using handle_contractD(2) [OF ct opened(6)] by auto
    then have "h \<notin> opens (world st)" "opens (world (st0\<lparr>world := w\<rparr>)) = insert h (opens (world st))"
      and "ak_fds (st0\<lparr>world := w\<rparr>) = ak_fds st"
      using q by (auto simp: quiet_def)
    then show ?thesis
      unfolding opened(8) using opened(2) owns_add [OF ow opened(7)] by auto
  qed
qed

lemma owns_accept_install:
  assumes ct: "handle_contract br opens" and ow: "owns opens X st"
    and fds: "ak_fds st1 = ak_fds st" "nh \<notin> opens (world st)"
      "opens (world st1) = insert nh (opens (world st))"
    and call: "accept_install br fd wa (nh, ip, pt) st1 = (r, a, st')"
  shows "owns opens X st'"
proof -
  have wf1: "gs_wf st1" using ow fds(1) by (simp add: owns_def gs_wf_def)
  obtain nfd st2 where al: "ak_alloc st1 = (nfd, st2)" by fastforce
  show ?thesis
  proof (cases "nfd < 0")
    case True
    then have "st2 = st1\<lparr>errno := EMFILE\<rparr>"
      using al by (auto simp: ak_alloc_def fail_def split: option.splits)
    then have "quiet opens st st'"
      using True call al fds handle_contractD(6) [OF ct]
      by (auto simp: accept_install_def quiet_def)
    with ow show ?thesis by (rule owns_quiet)
  next
    case False
    then have n0: "nfd \<ge> 0" by simp
    note ok = tab.alloc_ok [OF wf1 al n0]
    have fresh: "ak_fds st2 ! nat nfd = ak_fresh"
      using ok wf1 by (auto simp: ak_put_def gs_wf_def AK_FD_MAX_def)
    obtain ns where ns: "st' = ak_put st2 nfd ns" "used ns" "kind ns = KIND_SOCK" "handle ns = nh"
      using False call al fresh by (auto simp: accept_install_def Let_def)
    have "st' = ak_put st1 nfd ns" using ns(1) ok by (simp add: ak_put_def)
    moreover have "ak_get st nfd = None" using ok ak_get_cong [OF fds(1)] by simp
    ultimately show ?thesis
      using ns ok fds ow by (auto intro!: owns_add [of opens X st nfd])
  qed
qed

lemma owns_close:
  assumes "handle_contract br opens" "owns opens X st" "gnat_socket_close br fd st = (r, st')"
  shows "owns opens X st'"
proof (cases "ak_get_sock st fd")
  case None
  then show ?thesis
    using assms(2,3) by (auto simp: gnat_socket_close_def fail_def intro: owns_quiet)
next
  case (Some s)
  then show ?thesis
    using assms(3) owns_drop [OF assms(2) Some, of "st\<lparr>world := snd (br_close br (handle s) (world st))\<rparr>"]
      handle_contractD(6) [OF assms(1)]
    by (simp add: gnat_socket_close_def)
qed

text \<open>A quiet step followed by the rewriting of one live entry.\<close>

lemma owns_quiet_update:
  assumes "owns opens X st" "quiet opens st st1" "ak_get st fd = Some s"
    and "used s'" "kind s' = kind s" "handle s' = handle s"
  shows "owns opens X (ak_put st1 fd s')"
proof -
  have "ak_get st1 fd = Some s" using assms(2,3) ak_get_cong [of st1 st] by (simp add: quiet_def)
  with owns_update [OF owns_quiet [OF assms(1,2)]] assms(4-6) show ?thesis by blast
qed

lemma ak_get_sockD: "ak_get_sock st fd = Some s \<Longrightarrow> ak_get st fd = Some s \<and> used s"
  by (auto simp: ak_get_sock_Some ak_get_Some_iff)

lemma owns_errno [simp]: "owns opens X (st\<lparr>errno := e\<rparr>) = owns opens X st"
  using owns_quiet [of opens X st "st\<lparr>errno := e\<rparr>"] owns_quiet [of opens X "st\<lparr>errno := e\<rparr>" st]
  by (auto simp: quiet_def)

lemma owns_bind:
  assumes ct: "handle_contract br opens" and ow: "owns opens X st"
    and call: "bind br fd sin st = (r, st')"
  shows "owns opens X st'"
proof (cases "ak_get_sock st fd")
  case None
  then show ?thesis using call ow by (auto simp: bind_def fail_def)
next
  case (Some s)
  obtain q a w where b: "br_bind br (handle s) (ucast (ak_sw16 (sin_port sin))) (world st) = (q, a, w)"
    by (metis prod_cases3)
  have q: "quiet opens st (st\<lparr>world := w\<rparr>)"
    using handle_contractD(7) [OF ct b] by (rule quiet_world)
  show ?thesis
    using call Some b owns_quiet [OF ow q] ak_get_sockD [OF Some] ow
    by (auto simp: bind_def fail_def Let_def intro!: owns_quiet_update [OF ow q] split: if_splits)
qed

lemma ak_auto_bind_owns:
  assumes ct: "handle_contract br opens" and ow: "owns opens X st"
    and s: "ak_get_sock st fd = Some s" and call: "ak_auto_bind br fd s st = (r, st')"
  shows "owns opens X st' \<and> (\<exists>s'. ak_get_sock st' fd = Some s')"
proof (cases "local_port s \<noteq> 0")
  case True
  then show ?thesis using call ow s by (auto simp: ak_auto_bind_def)
next
  case False
  obtain q a w where b: "br_bind br (handle s) 0 (world st) = (q, a, w)" by (metis prod_cases3)
  let ?st1 = "st\<lparr>world := w\<rparr>"
  have q: "quiet opens st ?st1" using handle_contractD(7) [OF ct b] by (rule quiet_world)
  have g: "ak_get_sock ?st1 fd = Some s" using s by (simp add: ak_get_sock_def)
  have fd: "3 \<le> fd" "fd < 256" "gs_wf ?st1" "kind s = KIND_SOCK" "used s"
    using s ow by (auto simp: ak_get_sock_Some ak_get_Some_iff owns_def)
  have put: "ak_get_sock (ak_put ?st1 fd (s\<lparr>local_port := x\<rparr>)) fd = Some (s\<lparr>local_port := x\<rparr>)" for x
    using fd by (simp add: ak_get_sock_def ak_get_put)
  have own: "owns opens X (ak_put ?st1 fd (s\<lparr>local_port := x\<rparr>))" for x
    using ak_get_sockD [OF s] by (intro owns_quiet_update [OF ow q]) auto
  have g': "ak_get_sock (?st1\<lparr>errno := e\<rparr>) fd = Some s" for e
    using s by (simp add: ak_get_sock_def)
  show ?thesis
    using call False b owns_quiet [OF ow q] put own g'
    by (auto simp: ak_auto_bind_def fail_def Let_def split: if_splits)
qed

lemma owns_connect:
  assumes ct: "handle_contract br opens" and ow: "owns opens X st"
    and call: "connect br fd sin st = (r, st')"
  shows "owns opens X st'"
proof (cases "ak_get_sock st fd")
  case None
  then show ?thesis using call ow by (auto simp: connect_def fail_def)
next
  case (Some s)
  obtain b st1 where ab: "ak_auto_bind br fd s st = (b, st1)" by fastforce
  from ak_auto_bind_owns [OF ct ow Some ab] obtain s1
    where ow1: "owns opens X st1" and s1: "ak_get_sock st1 fd = Some s1" by blast
  then have nth: "ak_fds st1 ! nat fd = s1" by (auto simp: ak_get_sock_Some ak_get_nth)
  obtain c w where co: "br_connect br (handle s1) (ak_addr_to_u32 (sin_addr sin))
      (ucast (ak_sw16 (sin_port sin))) (world st1) = (c, w)" by fastforce
  have q: "quiet opens st1 (st1\<lparr>world := w\<rparr>)"
    using handle_contractD(8) [OF ct co] by (rule quiet_world)
  have own: "owns opens X (ak_put (st1\<lparr>world := w\<rparr>) fd (s1\<lparr>peer_ip := x, peer_port := y, connected := z\<rparr>))"
    for x y z using ak_get_sockD [OF s1] by (intro owns_quiet_update [OF ow1 q]) auto
  show ?thesis
    using call Some ab nth co ow ow1 owns_quiet [OF ow1 q] own
    by (auto simp: connect_def fail_def Let_def split: if_splits)
qed

lemma owns_listen:
  assumes ct: "handle_contract br opens" and ow: "owns opens X st"
    and call: "listen br fd bl st = (r, st')"
  shows "owns opens X st'"
proof (cases "ak_get_sock st fd")
  case None
  then show ?thesis using call ow by (auto simp: listen_def fail_def)
next
  case (Some s)
  obtain q w where b: "br_listen br (handle s) (u64_of_int bl) (world st) = (q, w)" by fastforce
  have q: "quiet opens st (st\<lparr>world := w\<rparr>)"
    using handle_contractD(9) [OF ct b] by (rule quiet_world)
  show ?thesis
    using call Some b owns_quiet [OF ow q] ak_get_sockD [OF Some] ow
    by (auto simp: listen_def fail_def Let_def intro!: owns_quiet_update [OF ow q] split: if_splits)
qed

lemma owns_accept:
  assumes ct: "handle_contract br opens" and ow: "owns opens X st"
    and call: "accept br fd wa st = Some (r, a, st')"
  shows "owns opens X st'"
proof (cases "\<exists>s. ak_get_sock st fd = Some s \<and> listening s")
  case False
  then show ?thesis using call ow by (auto simp: accept_def split: option.splits if_splits)
next
  case True
  then obtain s where s: "ak_get_sock st fd = Some s" "listening s" by blast
  with call obtain res st1 where aw: "accept_wait br s st = Some (res, st1)"
    by (auto simp: accept_def split: option.splits)
  note h = accept_wait_handle [OF ct aw]
  show ?thesis
  proof (cases res)
    case (Inl e)
    with call s aw h owns_quiet [OF ow, of st1] show ?thesis by (auto simp: accept_def)
  next
    case (Inr c)
    obtain nh ip pt where c: "c = (nh, ip, pt)" by (metis prod_cases3)
    with h Inr have "ak_fds st1 = ak_fds st" "nh \<notin> opens (world st)"
      "opens (world st1) = insert nh (opens (world st))" by auto
    moreover have "accept_install br fd wa (nh, ip, pt) st1 = (r, a, st')"
      using call s aw Inr c by (simp add: accept_def)
    ultimately show ?thesis by (rule owns_accept_install [OF ct ow])
  qed
qed

lemma quiet_ak_recv:
  "handle_contract br opens \<Longrightarrow> ak_recv br s len fl st = Some (n, dat, sip, sport, st') \<Longrightarrow>
     quiet opens st st'"
  by (auto simp: ak_recv_def dest: quiet_recv_loop split: if_splits)

lemma quiet_recv:
  "handle_contract br opens \<Longrightarrow> recv br fd len fl st = Some (r, dat, st') \<Longrightarrow> quiet opens st st'"
  by (auto simp: recv_def dest: quiet_ak_recv split: option.splits)

lemma quiet_recvfrom:
  "handle_contract br opens \<Longrightarrow> recvfrom br fd len fl wa st = Some (r, dat, a, st') \<Longrightarrow>
     quiet opens st st'"
  by (auto simp: recvfrom_def dest: quiet_ak_recv split: option.splits)

lemma quiet_ak_send:
  "handle_contract br opens \<Longrightarrow> ak_send br s buf len ip port st = Some (n, st') \<Longrightarrow> quiet opens st st'"
  by (auto simp: ak_send_def fail_def dest: quiet_send_dgram quiet_send_stream split: if_splits)

lemma quiet_select:
  assumes "handle_contract br opens" "select br n sets tmo st = Some (k, sets', st')"
  shows "quiet opens st st'"
proof (cases tmo)
  case None
  with assms show ?thesis by (auto simp: select_def dest: quiet_select_loop)
next
  case (Some tv)
  obtain t st1 where now: "ak_now br st = (t, st1)" by fastforce
  have "quiet opens st1 st'"
    using assms Some now by (auto simp: select_def split: prod.splits dest!: quiet_select_loop)
  with quiet_now [OF assms(1) now] show ?thesis by (rule quiet_trans)
qed

lemma quiet_poll_call:
  assumes "handle_contract br opens" "poll br ps tmo st = Some (k, ps', st')"
  shows "quiet opens st st'"
proof -
  obtain t st1 where now: "ak_now br st = (t, st1)" by fastforce
  have "quiet opens st1 st'"
    using assms now by (auto simp: poll_def Let_def split: if_splits dest!: quiet_poll_loop)
  with quiet_now [OF assms(1) now] show ?thesis by (rule quiet_trans)
qed

lemma owns_setsockopt:
  assumes ow: "owns opens X st" and call: "setsockopt fd l n v st = (r, st')"
  shows "owns opens X st'"
proof (cases "ak_get_sock st fd")
  case None
  then show ?thesis using call ow by (auto simp: setsockopt_def fail_def)
next
  case (Some s)
  note g = ak_get_sockD [OF Some]
  have own: "owns opens X (ak_put st fd (s\<lparr>opts := x\<rparr>))" for x
    using g by (intro owns_update [OF ow]) auto
  show ?thesis using call Some ow own by (auto simp: setsockopt_def fail_def split: if_splits)
qed

lemma owns_getsockopt:
  assumes ct: "handle_contract br opens" and ow: "owns opens X st"
    and call: "getsockopt br fd l n st = (r, v, st')"
  shows "owns opens X st'"
proof (cases "ak_get_sock st fd")
  case None
  then show ?thesis using call ow by (auto simp: getsockopt_def)
next
  case (Some s)
  obtain p rx tx e st1 where po: "ak_poll br (handle s) st = (p, rx, tx, e, st1)" by (metis prod_cases5)
  have own: "owns opens X (ak_put st1 fd (s\<lparr>last_so_err := x\<rparr>))" for x
    using ak_get_sockD [OF Some] by (intro owns_quiet_update [OF ow quiet_poll [OF ct po]]) auto
  show ?thesis
    using call Some po ow own by (auto simp: getsockopt_def Let_def split: if_splits option.splits)
qed

lemma owns_ioctl:
  assumes ct: "handle_contract br opens" and ow: "owns opens X st"
    and call: "gnat_socket_ioctl br fd req arg st = (r, v, st')"
  shows "owns opens X st'"
proof (cases "ak_get_sock st fd")
  case None
  then show ?thesis using call ow by (auto simp: gnat_socket_ioctl_def)
next
  case (Some s)
  obtain p rx tx e st1 where po: "ak_poll br (handle s) st = (p, rx, tx, e, st1)" by (metis prod_cases5)
  have own: "owns opens X (ak_put st fd (s\<lparr>nonblock := x\<rparr>))" for x
    using ak_get_sockD [OF Some] by (intro owns_update [OF ow]) auto
  show ?thesis
    using call Some po ow own owns_quiet [OF ow quiet_poll [OF ct po]]
    by (auto simp: gnat_socket_ioctl_def Let_def split: if_splits)
qed

lemma owns_sendto:
  assumes ct: "handle_contract br opens" and ow: "owns opens X st"
    and call: "sendto br fd msg len dst st = Some (r, st')"
  shows "owns opens X st'"
proof (cases "ak_get_sock st fd")
  case None
  then show ?thesis using call ow by (auto simp: sendto_def fail_def)
next
  case (Some s)
  obtain b st1 where ab: "(if \<not> connected s then ak_auto_bind br fd s st else (0, st)) = (b, st1)"
    by fastforce
  have ow1: "owns opens X st1"
    using ab ow ak_auto_bind_owns [OF ct ow Some] by (auto split: if_splits)
  from call Some ab consider "owns opens X st'" | "st' = st1"
    | ip port where "ak_send br (ak_fds st1 ! nat fd) msg len ip port st1 = Some (r, st')"
    using ow by (auto simp: sendto_def fail_def Let_def split: option.splits if_splits)
  then show ?thesis
    using ow1 owns_quiet [OF ow1 quiet_ak_send [OF ct]] by cases auto
qed

text \<open>Allocating and releasing signalling descriptors never involves a handle.\<close>

lemma owns_put_nonsock:
  assumes "owns opens X st" "3 \<le> fd" "fd < 256" "ak_get_sock st fd = None"
    and "\<not> used s \<or> kind s \<noteq> KIND_SOCK"
  shows "owns opens X (ak_put st fd s)"
proof -
  have wf: "gs_wf st" using assms(1) by (simp add: owns_def)
  have "sock_handles st fd = None" using assms(4) by (simp add: sock_handles_def)
  then have "sock_handles (ak_put st fd s) = sock_handles st"
    using assms(5) by (auto simp: sock_handles_put [OF wf assms(2,3)] fun_eq_iff)
  then show ?thesis using assms(1) by (simp add: owns_def ak_put_def gs_wf_def)
qed

lemma alloc_owns:
  assumes ow: "owns opens X st" and al: "ak_alloc st = (fd, st')"
  shows "owns opens X st' \<and> (fd \<ge> 0 \<longrightarrow> 3 \<le> fd \<and> fd < 256 \<and> ak_get st fd = None
    \<and> ak_get st' fd = Some ak_fresh \<and> (\<forall>j. j \<noteq> fd \<longrightarrow> ak_get st' j = ak_get st j))"
proof -
  have wf: "gs_wf st" using ow by (simp add: owns_def)
  show ?thesis
  proof (cases "fd \<ge> 0")
    case True
    note ok = tab.alloc_ok [OF wf al True]
    then have "owns opens X (ak_put st fd ak_fresh)"
      by (intro owns_put_nonsock [OF ow]) (auto simp: ak_get_sock_def ak_sock_zero_def)
    with ok tab.alloc_get [OF wf al True] show ?thesis by auto
  next
    case False
    then have "st' = st\<lparr>errno := EMFILE\<rparr>"
      using al by (auto simp: ak_alloc_def fail_def split: option.splits)
    with ow False show ?thesis by simp
  qed
qed

lemma owns_create_signalling:
  assumes ow: "owns opens X st" and call: "gnat_create_signalling_fds st = (r, pr, st')"
  shows "owns opens X st'"
proof -
  obtain rf st1 where a1: "ak_alloc st = (rf, st1)" by fastforce
  obtain wf st2 where a2: "ak_alloc st1 = (wf, st2)" by fastforce
  note o1 = alloc_owns [OF ow a1]
  then have ow1: "owns opens X st1" by blast
  note o2 = alloc_owns [OF ow1 a2]
  then have ow2: "owns opens X st2" and wf2: "gs_wf st2" by (auto simp: owns_def)
  show ?thesis
  proof (cases "rf < 0")
    case True
    then show ?thesis using call a1 ow1 by (auto simp: gnat_create_signalling_fds_def)
  next
    case rf: False
    have r1: "3 \<le> rf" "rf < 256" "ak_get st1 rf = Some ak_fresh" using o1 rf by auto
    have st2: "ak_fds st2 = ak_fds st1" if "wf < 0"
      using a2 that by (auto simp: ak_alloc_def fail_def split: option.splits)
    have g2: "ak_get st2 rf = Some ak_fresh"
      using r1 o2 st2 ak_get_cong [of st2 st1] by (cases "wf < 0"; cases "wf = rf") auto
    then have ns2: "ak_get_sock st2 rf = None" by (simp add: ak_get_sock_def ak_sock_zero_def)
    let ?st3 = "ak_put st2 rf ((ak_fds st2 ! nat rf)\<lparr>kind := KIND_SIGR, partner := wf\<rparr>)"
    have ow3: "owns opens X ?st3" "owns opens X (ak_put st2 rf ((ak_fds st2 ! nat rf)\<lparr>used := False\<rparr>))"
      using r1 ns2 by (auto intro!: owns_put_nonsock [OF ow2])
    have "owns opens X (ak_put ?st3 wf ((ak_fds ?st3 ! nat wf)\<lparr>kind := KIND_SIGW, partner := rf\<rparr>))"
      if "wf \<ge> 0"
    proof -
      have "ak_get_sock ?st3 wf = None"
        using o1 o2 that r1 wf2 by (auto simp: ak_get_sock_def ak_get_put ak_sock_zero_def)
      then show ?thesis using o2 that by (intro owns_put_nonsock [OF ow3(1)]) auto
    qed
    with rf show ?thesis
      using call a1 a2 ow3 by (auto simp: gnat_create_signalling_fds_def Let_def split: if_splits)
  qed
qed

lemma owns_read_signalling:
  assumes "owns opens X st" "gnat_read_signalling_fd fd st = (r, st')"
  shows "owns opens X st'"
  using assms
  by (auto simp: gnat_read_signalling_fd_def fail_def ak_get_Some_iff split: option.splits if_splits
      intro!: owns_update)

lemma owns_write_signalling:
  assumes "owns opens X st" "gnat_write_signalling_fd fd st = (r, st')"
  shows "owns opens X st'"
  using assms
  by (auto simp: gnat_write_signalling_fd_def fail_def ak_get_Some_iff split: option.splits if_splits
      intro!: owns_update)

lemma owns_close_signalling:
  assumes "owns opens X st"
  shows "owns opens (X \<union> set_option (sock_handles st fd)) (gnat_close_signalling_fd fd st)"
proof (cases "ak_get_sock st fd")
  case None
  then show ?thesis
    using assms ak_get_Some_iff [of st fd] owns_put_nonsock [OF assms _ _ None]
    by (auto simp: gnat_close_signalling_fd_def sock_handles_def split: option.splits)
next
  case (Some s)
  then show ?thesis
    using owns_abandon [OF assms Some] ak_get_sockD [OF Some]
    by (simp add: gnat_close_signalling_fd_def sock_handles_def)
qed

text \<open>The lookup calls change the static entries, \<open>errno\<close> and the resolver's state only.\<close>

lemma quiet_static [simp]:
  "quiet opens st (ak_fill_hostent n ip st')= quiet opens st st'"
  "quiet opens st (ak_fill_servent n p pr st') = quiet opens st st'"
  "quiet opens st (st'\<lparr>ak_h_errno := e\<rparr>) = quiet opens st st'"
  by (simp_all add: quiet_def ak_fill_hostent_def ak_fill_servent_def Let_def)

lemma quiet_dns:
  assumes ct: "handle_contract br opens" and call: "ak_dns_query br name ip st = (r, ip', st')"
  shows "quiet opens st st'"
proof -
  obtain q st1 where en: "ak_ensure_net br st = (q, st1)" by fastforce
  obtain s out w where rs: "br_resolve br name (word_of_nat (length name)) (world st1) = (s, out, w)"
    by (metis prod_cases3)
  note q1 = quiet_ensure_net [OF ct en]
  moreover have "quiet opens st1 (st1\<lparr>world := w\<rparr>)"
    using handle_contractD(15) [OF ct rs] by (rule quiet_world)
  ultimately have "quiet opens st (st1\<lparr>world := w\<rparr>)" by (rule quiet_trans)
  with q1 show ?thesis using call en rs by (auto simp: ak_dns_query_def Let_def split: if_splits)
qed

lemma quiet_ntop: "gnat_inet_ntop af b sz st = (ok, txt, st') \<Longrightarrow> quiet opens st st'"
  by (auto simp: gnat_inet_ntop_def c_snprintf_def Let_def split: if_splits prod.splits)

lemma quiet_dotted16: "dotted16 b st = (txt, st') \<Longrightarrow> quiet opens st st'"
  by (auto simp: dotted16_def dest: quiet_ntop split: prod.splits)

lemma quiet_gethostbyname:
  assumes "handle_contract br opens" "gnat_gethostbyname br name st = (r, he, herr, st')"
  shows "quiet opens st st'"
  using assms(2) by (auto simp: gnat_gethostbyname_def Let_def dest: quiet_dns [OF assms(1)] split: prod.splits if_splits)

lemma quiet_gai_host:
  "handle_contract br opens \<Longrightarrow> gai_host file br node flags st = (r, st') \<Longrightarrow> quiet opens st st'"
  by (auto simp: gai_host_def Let_def dest: quiet_dns split: option.splits prod.splits if_splits)

lemma quiet_gai_port: "gai_port service st = (r, st') \<Longrightarrow> quiet opens st st'"
  by (auto simp: gai_port_def Let_def split: option.splits prod.splits if_splits)

lemma quiet_getaddrinfo:
  assumes ct: "handle_contract br opens"
    and call: "gnat_getaddrinfo mal file br node serv hints st hp = Some (r, res, st', hp')"
  shows "quiet opens st st'"
proof -
  obtain hr st1 where h: "gai_host file br node (snd (snd (case hints of None \<Rightarrow> (0, 0, 0) | Some h \<Rightarrow> h))) st = (hr, st1)"
    by fastforce
  obtain pr st2 where p: "gai_port serv st1 = (pr, st2)" by fastforce
  have "st' \<in> {st, st1, st2}"
    using call h p by (auto simp: gnat_getaddrinfo_def Let_def split: prod.splits if_splits sum.splits)
  moreover note quiet_gai_host [OF ct h] quiet_trans [OF quiet_gai_host [OF ct h] quiet_gai_port [OF p]]
  ultimately show ?thesis by auto
qed

lemma quiet_getnameinfo: "gnat_getnameinfo sin host serv st = (r, h, s, st') \<Longrightarrow> quiet opens st st'"
  by (auto simp: gnat_getnameinfo_def c_snprintf_def Let_def split: if_splits option.splits prod.splits dest!: quiet_ntop)

lemma quiet_local_lookups:
  "gnat_inet_pton af src dst st = (r, dst', st') \<Longrightarrow> quiet opens st st'"
  "gnat_gethostbyaddr b af st = (r, he, herr, st') \<Longrightarrow> quiet opens st st'"
  "gethostbyaddr b af st = (he, st') \<Longrightarrow> quiet opens st st'"
  "gnat_getservbyname name pro st = (r, se, st') \<Longrightarrow> quiet opens st st'"
  "gnat_getservbyport port pro st = (r, se, st') \<Longrightarrow> quiet opens st st'"
  by (auto simp: gnat_inet_pton_def gnat_gethostbyaddr_def gethostbyaddr_def gnat_getservbyname_def
      gnat_getservbyport_def fail_def Let_def dest: quiet_dotted16 split: if_splits option.splits prod.splits)

lemma quiet_local_calls:
  "getsockname fd st = (r, a, st') \<Longrightarrow> quiet opens st st'"
  "getpeername fd st = (r, a, st') \<Longrightarrow> quiet opens st st'"
  "shutdown fd st = (r, st') \<Longrightarrow> quiet opens st st'"
  "socketpair st = (r, st') \<Longrightarrow> quiet opens st st'"
  "gethostname k st = (r, nm, st') \<Longrightarrow> quiet opens st st'"
  "recvmsg st = (r, st') \<Longrightarrow> quiet opens st st'"
  "sendmsg st = (r, st') \<Longrightarrow> quiet opens st st'"
  by (auto simp: getsockname_def getpeername_def shutdown_def socketpair_def gethostname_def recvmsg_def
      sendmsg_def fail_def split: option.splits if_splits)

text \<open>One law per call: a call keeps the ownership, or is quiet and leaves the handles alone.\<close>

lemmas owning_calls =
  owns_socket owns_close owns_bind owns_connect owns_listen owns_accept owns_sendto owns_getsockopt owns_ioctl

lemmas quiet_calls = quiet_recv quiet_recvfrom quiet_select quiet_poll_call quiet_gethostbyname quiet_getaddrinfo

lemmas quiet_locals = quiet_ntop quiet_getnameinfo quiet_local_lookups quiet_local_calls

lemmas local_calls = owns_setsockopt owns_create_signalling owns_read_signalling owns_write_signalling

lemma gs_call_owns:
  assumes ct: "handle_contract br opens" and step: "gs_call br st A st'" and ow: "owns opens X st"
  shows "owns opens (X \<union> A) st'"
  using step
proof cases
  case (call_sig_close fd)
  then show ?thesis using owns_close_signalling [OF ow] by simp
qed (auto dest: owning_calls [OF ct ow] local_calls [OF ow] quiet_calls [OF ct]
      quiet_locals [where opens = opens] intro: owns_quiet [OF ow]
      simp: ow gnat_disable_sigpipe_def gnat_disable_all_sigpipes_def)

lemma owns_init: "opens w = {} \<Longrightarrow> owns opens {} (gstate_init w)"
  by (auto simp: owns_def sock_handles_def ak_get_sock_def ak_get_def gstate_init_def ran_def
      ak_sock_zero_def fd_bounds gs_wf_def inj_on_def)

lemma owns_reachable:
  assumes ct: "handle_contract br opens" and "gs_run br st X st'" "owns opens {} st"
  shows "owns opens X st'"
  using assms(2,3) by induction (auto dest: gs_call_owns [OF ct])

section \<open>Properties\<close>

lemma sim_handle_contract: "handle_contract sim_bridge (set \<circ> sim_opens)"
  by (auto simp: handle_contract_def sim_bridge_def sim_open_def Let_def split: if_splits)

text \<open>
  Property C1: from the initial table and a bridge with no open handle, after any sequence of calls
  of the socket layer the handles open at the bridge are exactly the handles of the live socket
  descriptors, no two of which share one, and the handles abandoned by a call of
  \<open>__gnat_close_signalling_fd\<close> on a socket descriptor, which stay open for ever because no descriptor
  names them. No path of any other call, the failing ones included, leaks a handle, and no descriptor
  keeps one that was closed; in particular without such a call the open handles are those of the
  live sockets.
\<close>

theorem bridge_handles_owned:
  assumes "handle_contract br opens" and "opens w0 = {}"
    and "gs_run br (gstate_init w0) X st"
  shows "opens (world st) = {h. \<exists>fd s. ak_get_sock st fd = Some s \<and> handle s = h} \<union> X
    \<and> {h. \<exists>fd s. ak_get_sock st fd = Some s \<and> handle s = h} \<inter> X = {}
    \<and> (\<forall>fd fd' s s'. ak_get_sock st fd = Some s \<longrightarrow> ak_get_sock st fd' = Some s' \<longrightarrow>
         handle s = handle s' \<longrightarrow> fd = fd')"
proof -
  have "owns opens X st"
    by (rule owns_reachable [OF assms(1,3)]) (simp add: owns_init assms(2))
  then have ran: "ran (sock_handles st) \<union> X = opens (world st)" "ran (sock_handles st) \<inter> X = {}"
    and inj: "inj_on (sock_handles st) (dom (sock_handles st))" by (auto simp: owns_def)
  have "ran (sock_handles st) = {h. \<exists>fd s. ak_get_sock st fd = Some s \<and> handle s = h}"
    by (auto simp: ran_def sock_handles_def)
  moreover have "fd = fd'"
    if "ak_get_sock st fd = Some s" "ak_get_sock st fd' = Some s'" "handle s = handle s'" for fd fd' s s'
    using inj_onD [OF inj, of fd fd'] that by (simp add: sock_handles_def domIff)
  ultimately show ?thesis using ran by blast
qed

text \<open>The witness opens a socket, abandons it through the signalling call, and opens another.\<close>

theorem bridge_handles_owned_witness:
  "\<exists>X st. gs_run sim_bridge (gstate_init sim_world) X st \<and> X \<noteq> {}
    \<and> (set \<circ> sim_opens) (world st) = {h. \<exists>fd s. ak_get_sock st fd = Some s \<and> handle s = h} \<union> X"
proof -
  let ?s1 = "snd (socket sim_bridge 2 1 0 (gstate_init sim_world))"
  let ?s2 = "gnat_close_signalling_fd 3 ?s1"
  let ?X = "set_option (sock_handles ?s1 3)"
  have "gs_run sim_bridge (gstate_init sim_world) ({} \<union> {}) ?s1"
    by (rule run_call, rule run_nil, rule call_socket, rule prod.collapse [symmetric])
  then have "gs_run sim_bridge (gstate_init sim_world) ({} \<union> {} \<union> ?X) ?s2"
    by (rule run_call) (rule call_sig_close)
  then have "gs_run sim_bridge (gstate_init sim_world) ({} \<union> {} \<union> ?X \<union> {}) (snd (socket sim_bridge 2 1 0 ?s2))" (is "gs_run _ _ ?Y ?st")
    by (rule run_call) (rule call_socket, rule prod.collapse [symmetric])
  moreover have "(set \<circ> sim_opens) sim_world = {}" by (simp add: sim_world_def)
  moreover have "sock_handles ?s1 3 \<noteq> None" by code_simp
  ultimately have "gs_run sim_bridge (gstate_init sim_world) ?Y ?st \<and> ?Y \<noteq> {}
      \<and> (set \<circ> sim_opens) (world ?st) = {h. \<exists>fd s. ak_get_sock ?st fd = Some s \<and> handle s = h} \<union> ?Y"
    using bridge_handles_owned [OF sim_handle_contract, of sim_world ?Y ?st] by auto
  then show ?thesis by blast
qed

end
