(* ===== verification/Rt_Clock.thy ===== *)
theory Rt_Clock
  imports Aegir_Prelude
begin

text \<open>
  The small runtime pieces: the time register (\<^verbatim>\<open>aegir_rtclock.c\<close>), \<open>nanosleep\<close>
  (\<^verbatim>\<open>aegir_nanosleep.c\<close>), the lwIP millisecond clock (\<^verbatim>\<open>sys_arch.c\<close>) and the process glue
  (\<^verbatim>\<open>aegir_glue.c\<close>). The machine is a state \<open>'c\<close>; reading the \<open>time\<close> CSR and yielding the hart are
  its operations.
\<close>

section \<open>Clocks\<close>

record 'c machine =
  m_csrr_time :: "'c \<Rightarrow> u64 \<times> 'c"
  m_sys_yield :: "'c \<Rightarrow> 'c"

definition aegir_rdtime :: "'c machine \<Rightarrow> 'c \<Rightarrow> u64 \<times> 'c" where
  "aegir_rdtime m c = m_csrr_time m c"

definition sys_now :: "'c machine \<Rightarrow> 'c \<Rightarrow> u32 \<times> 'c" where
  "sys_now m c = (let (t, c) = aegir_rdtime m c in (ucast (t div 10000), c))"

section \<open>nanosleep\<close>

partial_function (option) nanosleep_loop ::
  "'c machine \<Rightarrow> u64 \<Rightarrow> u64 \<Rightarrow> 'c \<Rightarrow> (int \<times> 'c) option" where
  "nanosleep_loop m start ticks c =
     (let (now, c) = aegir_rdtime m c in
      if now - start \<ge> ticks then Some (0, c)
      else nanosleep_loop m start ticks (m_sys_yield m c))"

declare nanosleep_loop.simps [code]

text \<open>\<open>req\<close> is \<open>(tv_sec, tv_nsec)\<close> when the pointer is not NULL.\<close>

definition nanosleep_ticks :: "int \<Rightarrow> int \<Rightarrow> u64" where
  "nanosleep_ticks sec nsec = word_of_int sec * 10000000 + word_of_int nsec div 100"

definition nanosleep :: "'c machine \<Rightarrow> (int \<times> int) option \<Rightarrow> 'c \<Rightarrow> (int \<times> 'c) option" where
  "nanosleep m req c =
     (case req of
        None \<Rightarrow> Some (0, c)
      | Some (sec, nsec) \<Rightarrow>
          if sec = 0 \<and> nsec = 0 then Some (0, c)
          else let ticks = nanosleep_ticks sec nsec;
                   (start, c) = aegir_rdtime m c
               in nanosleep_loop m start ticks c)"

section \<open>Process glue\<close>

text \<open>The exit status reaches the kernel sign-extended to 64 bits.\<close>

definition gnat_exit :: "(u64 \<Rightarrow> 'r) \<Rightarrow> int \<Rightarrow> 'r" where
  "gnat_exit sys_exit status = sys_exit (u64_of_int status)"

definition aegir_register_frames :: "(u64 \<Rightarrow> 'c \<Rightarrow> 'c) \<Rightarrow> u64 \<Rightarrow> 'c \<Rightarrow> 'c" where
  "aegir_register_frames register_frame eh_frame_begin c = register_frame eh_frame_begin c"

section \<open>Sleeping long enough\<close>

text \<open>
  The time register shows a tick count \<open>ticks_of\<close> modulo \<open>2 ^ 64\<close> that never goes back; a yield
  takes at least one tick, and at most \<open>d\<close> ticks pass between two reads.
\<close>

definition tick_clock :: "'c machine \<Rightarrow> ('c \<Rightarrow> nat) \<Rightarrow> nat \<Rightarrow> bool" where
  "tick_clock m ticks_of d \<longleftrightarrow>
     (\<forall>c t c'. m_csrr_time m c = (t, c') \<longrightarrow> t = word_of_nat (ticks_of c)
        \<and> ticks_of c \<le> ticks_of c' \<and> ticks_of c' \<le> ticks_of c + d
        \<and> ticks_of c' < ticks_of (m_sys_yield m c') \<and> ticks_of (m_sys_yield m c') \<le> ticks_of c + d)"

lemma tick_clockD:
  assumes "tick_clock m ticks_of d" "aegir_rdtime m c = (t, c')"
  shows "t = word_of_nat (ticks_of c)" "ticks_of c \<le> ticks_of c'" "ticks_of c' \<le> ticks_of c + d"
    "ticks_of c' < ticks_of (m_sys_yield m c')" "ticks_of (m_sys_yield m c') \<le> ticks_of c + d"
  using assms unfolding tick_clock_def aegir_rdtime_def by blast+

lemma elapsed_words:
  assumes "s \<le> t" "t - s < 2 ^ 64"
  shows "unat (word_of_nat t - word_of_nat s :: u64) = t - s"
proof -
  have "(word_of_nat t - word_of_nat s :: u64) = word_of_nat (t - s)"
    using assms(1) by (simp add: of_nat_diff)
  then show ?thesis using assms(2) by (simp add: unat_of_nat take_bit_nat_eq_self)
qed

lemma nanosleep_loop_returns:
  assumes ck: "tick_clock m ticks_of d" and bound: "unat ticks + d < 2 ^ 64"
    and s: "s \<le> ticks_of c" and near: "ticks_of c \<le> s + unat ticks + d"
  shows "\<exists>c'. nanosleep_loop m (word_of_nat s) ticks c = Some (0, c') \<and> s + unat ticks \<le> ticks_of c'
    \<and> ticks_of c \<le> ticks_of c'"
  using s near
proof (induction "s + unat ticks - ticks_of c" arbitrary: c rule: less_induct)
  case less
  obtain t c1 where rd: "aegir_rdtime m c = (t, c1)" by fastforce
  note k = tick_clockD [OF ck rd]
  have el: "unat (t - word_of_nat s) = ticks_of c - s"
    unfolding k(1) using less.prems bound by (intro elapsed_words) auto
  show ?case
  proof (cases "t - word_of_nat s \<ge> ticks")
    case True
    then have "unat ticks \<le> ticks_of c - s" using el by (simp add: word_le_nat_alt)
    with True rd k(2) less.prems show ?thesis by (subst nanosleep_loop.simps) auto
  next
    case False
    then have lt: "ticks_of c - s < unat ticks" using el by (simp add: word_le_nat_alt)
    let ?c = "m_sys_yield m c1"
    have "\<exists>c'. nanosleep_loop m (word_of_nat s) ticks ?c = Some (0, c') \<and> s + unat ticks \<le> ticks_of c'
        \<and> ticks_of ?c \<le> ticks_of c'"
      using lt k less.prems by (intro less.hyps) linarith+
    then show ?thesis using False rd k by (subst nanosleep_loop.simps) fastforce
  qed
qed

text \<open>
  A nonzero request makes \<open>nanosleep\<close> return 0 after at least the requested number of
  10 MHz ticks, across a wrap-around of the time register, as long as the request and the gap
  between two reads together stay below \<open>2 ^ 64\<close> ticks.
\<close>

theorem nanosleep_waits:
  assumes "tick_clock m ticks_of d" and "unat (nanosleep_ticks sec nsec) + d < 2 ^ 64"
    and "sec \<noteq> 0 \<or> nsec \<noteq> 0"
  shows "\<exists>c'. nanosleep m (Some (sec, nsec)) c = Some (0, c')
    \<and> ticks_of c + unat (nanosleep_ticks sec nsec) \<le> ticks_of c'"
proof -
  obtain t c1 where rd: "aegir_rdtime m c = (t, c1)" by fastforce
  note k = tick_clockD [OF assms(1) rd]
  have "\<exists>c'. nanosleep_loop m (word_of_nat (ticks_of c)) (nanosleep_ticks sec nsec) c1 = Some (0, c')
      \<and> ticks_of c + unat (nanosleep_ticks sec nsec) \<le> ticks_of c' \<and> ticks_of c1 \<le> ticks_of c'"
    using k by (intro nanosleep_loop_returns [OF assms(1,2)]) linarith+
  then show ?thesis using assms(3) rd k(1) by (auto simp: nanosleep_def Let_def)
qed

text \<open>A machine whose clock starts just below the wrap and advances by 1000 ticks per yield.\<close>

definition toy_machine :: "nat machine" where
  "toy_machine = \<lparr>m_csrr_time = (\<lambda>c. (word_of_nat c, c)), m_sys_yield = (\<lambda>c. c + 1000)\<rparr>"

theorem nanosleep_waits_witness:
  "\<exists>c'. nanosleep toy_machine (Some (1, 500)) (2 ^ 64 - 5) = Some (0, c')
    \<and> 2 ^ 64 - 5 + unat (nanosleep_ticks 1 500) \<le> c'"
proof -
  have "tick_clock toy_machine (\<lambda>c. c) 1000" by (simp add: tick_clock_def toy_machine_def)
  moreover have "unat (nanosleep_ticks 1 500) + 1000 < 2 ^ 64" by (simp add: nanosleep_ticks_def)
  ultimately show ?thesis
    using nanosleep_waits [of toy_machine "\<lambda>c. c" 1000 1 500 "2 ^ 64 - 5"] by simp
qed

text \<open>
  Differences of \<open>sys_now\<close> are differences of the millisecond count modulo
  \<open>2 ^ 32\<close>, so lwIP's timeout arithmetic survives the wrap of its 32-bit clock.
\<close>

theorem sys_now_difference:
  assumes "m_csrr_time m c = (word_of_nat t, c')" and "m_csrr_time m e = (word_of_nat u, e')"
    and "t \<le> u" and "u < 2 ^ 64"
  shows "unat (fst (sys_now m e) - fst (sys_now m c)) = (u div 10000 - t div 10000) mod 2 ^ 32"
proof -
  have w: "(ucast ((word_of_nat x :: u64) div 10000) :: u32) = word_of_nat (x div 10000)"
    if "x < 2 ^ 64" for x
  proof -
    have "unat ((word_of_nat x :: u64) div 10000) = x div 10000"
      using that by (simp add: unat_div_distrib unat_of_nat take_bit_nat_eq_self)
    then show ?thesis by (subst of_nat_unat [symmetric]) (simp only:)
  qed
  have "fst (sys_now m e) - fst (sys_now m c) = word_of_nat (u div 10000 - t div 10000)"
    using assms w [of u] w [of t] div_le_mono [OF assms(3), of 10000]
    by (simp add: sys_now_def aegir_rdtime_def of_nat_diff)
  then show ?thesis by (simp add: unat_of_nat take_bit_eq_mod)
qed

theorem sys_now_difference_witness:
  "unat (fst (sys_now toy_machine (2 ^ 50)) - fst (sys_now toy_machine (2 ^ 45))) =
     (2 ^ 50 div 10000 - 2 ^ 45 div 10000) mod 2 ^ 32"
  using sys_now_difference [of toy_machine "2 ^ 45" "2 ^ 45" "2 ^ 45" "2 ^ 50" "2 ^ 50" "2 ^ 50"]
  by (simp add: toy_machine_def)

end
