(* ===== verification/Ft_Shim.thy ===== *)
theory Ft_Shim
  imports Aegir_Prelude
begin

text \<open>
  The shim between Trinket.Fonts and FreeType (\<^verbatim>\<open>ftaegir.c\<close>). FreeType itself is not part of the
  repository: its calls are the fields of \<open>ft\<close>, acting on a state \<open>'f\<close>. The handles the shim
  returns are addresses of \<open>struct aegir_ft_face\<close> blocks.
\<close>

section \<open>FreeType\<close>

text \<open>The parts of \<open>FT_GlyphSlot\<close> the shim reads; \<open>FT_PIXEL_MODE_GRAY\<close> is 2.\<close>

record ft_glyph_slot =
  advance_x :: int
  bitmap_left :: int
  bitmap_top :: int
  bitmap_width :: u32
  bitmap_rows :: u32
  bitmap_pitch :: int
  bitmap_pixel_mode :: u8
  bitmap_buffer :: u64

record 'f ft =
  FT_Init_FreeType :: "'f \<Rightarrow> int \<times> u64 \<times> 'f"
  FT_New_Memory_Face :: "u64 \<Rightarrow> u64 \<Rightarrow> u64 \<Rightarrow> 'f \<Rightarrow> int \<times> u64 \<times> 'f"
  FT_Set_Pixel_Sizes :: "u64 \<Rightarrow> u32 \<Rightarrow> u32 \<Rightarrow> 'f \<Rightarrow> int \<times> 'f"
  FT_Done_Face :: "u64 \<Rightarrow> 'f \<Rightarrow> 'f"
  FT_Get_Postscript_Name :: "u64 \<Rightarrow> 'f \<Rightarrow> string option"
  FT_size_ascender :: "u64 \<Rightarrow> 'f \<Rightarrow> int"
  FT_size_descender :: "u64 \<Rightarrow> 'f \<Rightarrow> int"
  FT_Get_Char_Index :: "u64 \<Rightarrow> u64 \<Rightarrow> 'f \<Rightarrow> u32"
  FT_Load_Glyph :: "u64 \<Rightarrow> u32 \<Rightarrow> 'f \<Rightarrow> int \<times> 'f"
  FT_Render_Glyph :: "u64 \<Rightarrow> 'f \<Rightarrow> int \<times> 'f"
  FT_face_glyph :: "u64 \<Rightarrow> 'f \<Rightarrow> ft_glyph_slot"
  FT_Get_Kerning :: "u64 \<Rightarrow> u32 \<Rightarrow> u32 \<Rightarrow> 'f \<Rightarrow> int \<times> int"

section \<open>The shim\<close>

text \<open>
  \<open>struct aegir_ft_face\<close> blocks by address (an uninitialised \<open>face\<close> is \<open>None\<close>), the lazily created
  library (0 is NULL), and FreeType's state. A null handle is \<open>None\<close>.
\<close>

record 'f shim =
  g_lib :: u64
  ft_blocks :: "nat \<rightharpoonup> u64 option"
  ft_state :: 'f

definition aegir_ft_lib :: "'f ft \<Rightarrow> 'f shim \<Rightarrow> int \<times> 'f shim" where
  "aegir_ft_lib ft s =
     (if g_lib s = 0
      then let (rc, lib, f) = FT_Init_FreeType ft (ft_state s)
           in (rc, s\<lparr>g_lib := lib, ft_state := f\<rparr>)
      else (0, s))"

text \<open>\<open>mal\<close> is \<open>malloc (sizeof *f)\<close>; \<open>data\<close> is the address of the font bytes, 0 for NULL.\<close>

definition aegir_ft_open ::
  "'f ft \<Rightarrow> ((nat \<rightharpoonup> u64 option) \<Rightarrow> nat option) \<Rightarrow> u64 \<Rightarrow> u64 \<Rightarrow> u32 \<Rightarrow> 'f shim \<Rightarrow> nat option \<times> 'f shim" where
  "aegir_ft_open ft mal data len px s =
     (if data = 0 \<or> len = 0 then (None, s)
      else let (r, s) = aegir_ft_lib ft s in
        if r \<noteq> 0 then (None, s)
        else case mal (ft_blocks s) of
          None \<Rightarrow> (None, s)
        | Some a \<Rightarrow>
            let s = s\<lparr>ft_blocks := (ft_blocks s)(a \<mapsto> None)\<rparr>;
                (rc, face, f) = FT_New_Memory_Face ft (g_lib s) data len (ft_state s);
                s = s\<lparr>ft_state := f\<rparr>
            in if rc \<noteq> 0 then (None, s\<lparr>ft_blocks := (ft_blocks s)(a := None)\<rparr>)
               else let s = s\<lparr>ft_blocks := (ft_blocks s)(a \<mapsto> Some face)\<rparr>;
                        (rc, f) = FT_Set_Pixel_Sizes ft face 0 px (ft_state s);
                        s = s\<lparr>ft_state := f\<rparr>
                    in if rc \<noteq> 0
                       then (None, s\<lparr>ft_state := FT_Done_Face ft face (ft_state s),
                                     ft_blocks := (ft_blocks s)(a := None)\<rparr>)
                       else (Some a, s))"

text \<open>\<open>f->face\<close>; 0 when the block is not a live face, which no handle of \<open>aegir_ft_open\<close> is.\<close>

definition ft_face_of :: "'f shim \<Rightarrow> nat \<Rightarrow> u64" where
  "ft_face_of s a = (case ft_blocks s a of Some (Some face) \<Rightarrow> face | _ \<Rightarrow> 0)"

definition aegir_ft_close :: "'f ft \<Rightarrow> nat option \<Rightarrow> 'f shim \<Rightarrow> 'f shim" where
  "aegir_ft_close ft v s =
     (case v of None \<Rightarrow> s
      | Some a \<Rightarrow> s\<lparr>ft_state := FT_Done_Face ft (ft_face_of s a) (ft_state s),
                   ft_blocks := (ft_blocks s)(a := None)\<rparr>)"

definition aegir_ft_family :: "'f ft \<Rightarrow> nat option \<Rightarrow> 'f shim \<Rightarrow> string" where
  "aegir_ft_family ft v s =
     (case v of None \<Rightarrow> []
      | Some a \<Rightarrow> (case FT_Get_Postscript_Name ft (ft_face_of s a) (ft_state s) of
                    Some n \<Rightarrow> n | None \<Rightarrow> []))"

text \<open>\<open>(int) ((p + 32) >> 6)\<close>: a 26.6 fixed point position rounded to pixels.\<close>

definition px_round :: "int \<Rightarrow> int" where
  "px_round p = sint (word_of_int (drop_bit 6 (p + 32)) :: u32)"

definition aegir_ft_ascent :: "'f ft \<Rightarrow> nat option \<Rightarrow> 'f shim \<Rightarrow> int" where
  "aegir_ft_ascent ft v s =
     (case v of None \<Rightarrow> 0 | Some a \<Rightarrow> px_round (FT_size_ascender ft (ft_face_of s a) (ft_state s)))"

definition aegir_ft_descent :: "'f ft \<Rightarrow> nat option \<Rightarrow> 'f shim \<Rightarrow> int" where
  "aegir_ft_descent ft v s =
     (case v of None \<Rightarrow> 0 | Some a \<Rightarrow> px_round (- FT_size_descender ft (ft_face_of s a) (ft_state s)))"

definition aegir_ft_advance_x :: "'f ft \<Rightarrow> nat option \<Rightarrow> u64 \<Rightarrow> 'f shim \<Rightarrow> int \<times> 'f shim" where
  "aegir_ft_advance_x ft v cp s =
     (case v of None \<Rightarrow> (0, s)
      | Some a \<Rightarrow>
          let face = ft_face_of s a; idx = FT_Get_Char_Index ft face cp (ft_state s) in
          if idx = 0 then (0, s)
          else let (e, f) = FT_Load_Glyph ft face idx (ft_state s); s = s\<lparr>ft_state := f\<rparr> in
            if e \<noteq> 0 then (0, s)
            else (px_round (advance_x (FT_face_glyph ft face (ft_state s))), s))"

text \<open>What \<open>aegir_ft_glyph\<close> stores through its out-pointers.\<close>

record glyph_out =
  go_left :: int
  go_top :: int
  go_w :: int
  go_h :: int
  go_pitch :: int
  go_bits :: u64

definition no_glyph :: glyph_out where
  "no_glyph = \<lparr>go_left = 0, go_top = 0, go_w = 0, go_h = 0, go_pitch = 0, go_bits = 0\<rparr>"

definition aegir_ft_glyph ::
  "'f ft \<Rightarrow> nat option \<Rightarrow> u64 \<Rightarrow> 'f shim \<Rightarrow> int \<times> glyph_out \<times> 'f shim" where
  "aegir_ft_glyph ft v cp s =
     (case v of None \<Rightarrow> (1, no_glyph, s)
      | Some a \<Rightarrow>
          let face = ft_face_of s a; idx = FT_Get_Char_Index ft face cp (ft_state s) in
          if idx = 0 then (1, no_glyph, s)
          else let (e, f) = FT_Load_Glyph ft face idx (ft_state s); s = s\<lparr>ft_state := f\<rparr> in
            if e \<noteq> 0 then (1, no_glyph, s)
            else let (e, f) = FT_Render_Glyph ft face (ft_state s); s = s\<lparr>ft_state := f\<rparr> in
              if e \<noteq> 0 then (1, no_glyph, s)
              else let slot = FT_face_glyph ft face (ft_state s) in
                if bitmap_pixel_mode slot \<noteq> 2 then (1, no_glyph, s)
                else (0, \<lparr>go_left = bitmap_left slot, go_top = bitmap_top slot,
                          go_w = sint (bitmap_width slot), go_h = sint (bitmap_rows slot),
                          go_pitch = bitmap_pitch slot, go_bits = bitmap_buffer slot\<rparr>, s))"

definition aegir_ft_has :: "'f ft \<Rightarrow> nat option \<Rightarrow> u64 \<Rightarrow> 'f shim \<Rightarrow> int" where
  "aegir_ft_has ft v cp s =
     (case v of None \<Rightarrow> 0
      | Some a \<Rightarrow> if FT_Get_Char_Index ft (ft_face_of s a) cp (ft_state s) \<noteq> 0 then 1 else 0)"

definition aegir_ft_kerning :: "'f ft \<Rightarrow> nat option \<Rightarrow> u64 \<Rightarrow> u64 \<Rightarrow> 'f shim \<Rightarrow> int" where
  "aegir_ft_kerning ft v l r s =
     (case v of None \<Rightarrow> 0
      | Some a \<Rightarrow>
          let (e, kx) = FT_Get_Kerning ft (ft_face_of s a) (ucast l) (ucast r) (ft_state s) in
          if e \<noteq> 0 then 0 else px_round kx)"

section \<open>Faces and blocks are balanced\<close>

text \<open>
  What FreeType documents about faces: \<open>faces\<close> is the set of live face objects; a successful
  \<open>FT_New_Memory_Face\<close> adds a new one, \<open>FT_Done_Face\<close> removes one, the other calls of opening
  change none.
\<close>

definition face_contract :: "'f ft \<Rightarrow> ('f \<Rightarrow> u64 set) \<Rightarrow> bool" where
  "face_contract ft faces \<longleftrightarrow>
     (\<forall>f rc lib f'. FT_Init_FreeType ft f = (rc, lib, f') \<longrightarrow> faces f' = faces f)
   \<and> (\<forall>lib d n f rc face f'. FT_New_Memory_Face ft lib d n f = (rc, face, f') \<longrightarrow>
        (rc = 0 \<longrightarrow> face \<notin> faces f \<and> faces f' = insert face (faces f))
      \<and> (rc \<noteq> 0 \<longrightarrow> faces f' = faces f))
   \<and> (\<forall>face w h f rc f'. FT_Set_Pixel_Sizes ft face w h f = (rc, f') \<longrightarrow> faces f' = faces f)
   \<and> (\<forall>face f. faces (FT_Done_Face ft face f) = faces f - {face})"

lemma face_contractD:
  assumes "face_contract ft faces"
  shows "FT_Init_FreeType ft f = (rc, lib, f') \<Longrightarrow> faces f' = faces f"
    and "FT_New_Memory_Face ft lib d n f = (0, face, f') \<Longrightarrow>
           face \<notin> faces f \<and> faces f' = insert face (faces f)"
    and "FT_New_Memory_Face ft lib d n f = (rc, face, f') \<Longrightarrow> rc \<noteq> 0 \<Longrightarrow> faces f' = faces f"
    and "FT_Set_Pixel_Sizes ft face x y f = (rc, f') \<Longrightarrow> faces f' = faces f"
    and "faces (FT_Done_Face ft face f) = faces f - {face}"
proof -
  note c = assms [unfolded face_contract_def]
  note c2 = c [THEN conjunct2] and c3 = c [THEN conjunct2, THEN conjunct2]
  show "FT_Init_FreeType ft f = (rc, lib, f') \<Longrightarrow> faces f' = faces f" using c [THEN conjunct1] by blast
  show "FT_New_Memory_Face ft lib d n f = (0, face, f') \<Longrightarrow>
      face \<notin> faces f \<and> faces f' = insert face (faces f)" using c2 [THEN conjunct1] by blast
  show "FT_New_Memory_Face ft lib d n f = (rc, face, f') \<Longrightarrow> rc \<noteq> 0 \<Longrightarrow> faces f' = faces f"
    using c2 [THEN conjunct1] by blast
  show "FT_Set_Pixel_Sizes ft face x y f = (rc, f') \<Longrightarrow> faces f' = faces f"
    using c3 [THEN conjunct1] by blast
  show "faces (FT_Done_Face ft face f) = faces f - {face}" using c3 [THEN conjunct2] by blast
qed

lemma aegir_ft_lib_quiet:
  assumes "face_contract ft faces" "aegir_ft_lib ft s = (r, s')"
  shows "ft_blocks s' = ft_blocks s \<and> faces (ft_state s') = faces (ft_state s)"
  using assms face_contractD(1) [OF assms(1)]
  by (auto simp: aegir_ft_lib_def split: if_splits prod.splits)

text \<open>
  Property C39: when \<open>aegir_ft_open\<close> fails, on any of its paths, no block and no FreeType face is
  left behind; when it succeeds it owns exactly one new block and one new face, and
  \<open>aegir_ft_close\<close> gives both back.
\<close>

theorem ft_open_close_balanced:
  assumes "face_contract ft faces" and "\<forall>b a. mal b = Some a \<longrightarrow> b a = None"
    and "aegir_ft_open ft mal data len px s = (v, s')"
  shows "(v = None \<longrightarrow> ft_blocks s' = ft_blocks s \<and> faces (ft_state s') = faces (ft_state s))
    \<and> (\<forall>a. v = Some a \<longrightarrow>
         (\<exists>face. ft_blocks s a = None \<and> face \<notin> faces (ft_state s)
            \<and> ft_blocks s' = (ft_blocks s)(a \<mapsto> Some face)
            \<and> faces (ft_state s') = insert face (faces (ft_state s)))
       \<and> ft_blocks (aegir_ft_close ft v s') = ft_blocks s
       \<and> faces (ft_state (aegir_ft_close ft v s')) = faces (ft_state s))"
proof -
  note D = face_contractD [OF assms(1)]
  obtain r s1 where lib: "aegir_ft_lib ft s = (r, s1)" by fastforce
  note q1 = aegir_ft_lib_quiet [OF assms(1) lib]
  show ?thesis
  proof (cases "data = 0 \<or> len = 0 \<or> r \<noteq> 0 \<or> mal (ft_blocks s1) = None")
    case True
    then have "v = None \<and> (s' = s \<or> s' = s1)"
      using assms(3) lib by (auto simp: aegir_ft_open_def split: if_splits)
    with q1 show ?thesis by auto
  next
    case False
    then obtain a where a: "mal (ft_blocks s1) = Some a" by blast
    have a': "mal (ft_blocks s) = Some a" using a q1 by simp
    then have fresh: "ft_blocks s a = None" using assms(2) by blast
    let ?s2 = "s1\<lparr>ft_blocks := (ft_blocks s1)(a \<mapsto> None)\<rparr>"
    obtain rc face f where nf: "FT_New_Memory_Face ft (g_lib s1) data len (ft_state s1) = (rc, face, f)"
      by (metis prod_cases3)
    obtain rc' f' where sp: "FT_Set_Pixel_Sizes ft face 0 px f = (rc', f')" by fastforce
    note rw = aegir_ft_open_def lib a a' nf sp Let_def
    consider "rc \<noteq> 0" | "rc = 0" "rc' \<noteq> 0" | "rc = 0" "rc' = 0" by blast
    then show ?thesis
    proof cases
      case 1
      then show ?thesis
        using False assms(3) q1 fresh D(3) [OF nf] by (auto simp: rw fun_upd_idem)
    next
      case 2
      then show ?thesis
        using False assms(3) q1 fresh nf D(2) [of "g_lib s1" data len "ft_state s1" face f] D(4) [OF sp]
        by (auto simp: rw fun_upd_idem D(5))
    next
      case 3
      then have "v = Some a" "ft_blocks s' = (ft_blocks s)(a \<mapsto> Some face)"
        "faces (ft_state s') = insert face (faces (ft_state s))" "face \<notin> faces (ft_state s)"
        using False assms(3) q1 nf D(2) [of "g_lib s1" data len "ft_state s1" face f] D(4) [OF sp]
        by (auto simp: rw)
      then show ?thesis
        using fresh by (auto simp: aegir_ft_close_def ft_face_of_def D(5) fun_upd_idem)
    qed
  qed
qed

text \<open>A small FreeType: one font of ten glyphs, the glyph of code point \<open>65 + i\<close> being \<open>i + 1\<close>.\<close>

definition toy_ft :: "u64 list ft" where
  "toy_ft = \<lparr>FT_Init_FreeType = (\<lambda>f. (0, 1, f)),
     FT_New_Memory_Face = (\<lambda>lib d n f. if 7 \<in> set f then (1, 0, f) else (0, 7, 7 # f)),
     FT_Set_Pixel_Sizes = (\<lambda>face w h f. (if h = 0 then 1 else 0, f)),
     FT_Done_Face = (\<lambda>face f. removeAll face f),
     FT_Get_Postscript_Name = (\<lambda>face f. Some ''Toy''),
     FT_size_ascender = (\<lambda>face f. 700), FT_size_descender = (\<lambda>face f. -200),
     FT_Get_Char_Index = (\<lambda>face cp f. if 65 \<le> cp \<and> cp < 75 then ucast cp - 64 else 0),
     FT_Load_Glyph = (\<lambda>face idx f. (0, f)), FT_Render_Glyph = (\<lambda>face f. (0, f)),
     FT_face_glyph = (\<lambda>face f. \<lparr>advance_x = 640, bitmap_left = 1, bitmap_top = 9, bitmap_width = 8,
        bitmap_rows = 9, bitmap_pitch = 8, bitmap_pixel_mode = 2, bitmap_buffer = 4096\<rparr>),
     FT_Get_Kerning = (\<lambda>face l r f. if l = 1 \<and> r = 2 then (0, 64) else (0, 0))\<rparr>"

definition toy_shim :: "u64 list shim" where
  "toy_shim = \<lparr>g_lib = 1, ft_blocks = [5 \<mapsto> Some 7], ft_state = [7]\<rparr>"

lemma toy_face_contract: "face_contract toy_ft set"
  by (auto simp: face_contract_def toy_ft_def split: if_splits)

theorem ft_open_close_balanced_witness:
  "fst (aegir_ft_open toy_ft (\<lambda>b. if b 5 = None then Some 5 else None) 4096 100 16
       \<lparr>g_lib = 0, ft_blocks = Map.empty, ft_state = []\<rparr>) = Some 5
   \<and> ft_blocks (aegir_ft_close toy_ft (Some 5) (snd (aegir_ft_open toy_ft
       (\<lambda>b. if b 5 = None then Some 5 else None) 4096 100 16
       \<lparr>g_lib = 0, ft_blocks = Map.empty, ft_state = []\<rparr>))) = Map.empty"
proof -
  let ?m = "\<lambda>b :: nat \<rightharpoonup> u64 option. if b 5 = None then Some (5 :: nat) else None"
  let ?s = "\<lparr>g_lib = 0, ft_blocks = Map.empty, ft_state = []\<rparr>"
  obtain s' where op: "aegir_ft_open toy_ft ?m 4096 100 16 ?s = (Some 5, s')"
    by (simp add: aegir_ft_open_def aegir_ft_lib_def toy_ft_def)
  have "\<forall>b a. ?m b = Some a \<longrightarrow> b a = None" by auto
  from ft_open_close_balanced [OF toy_face_contract this op] show ?thesis by (simp add: op)
qed

section \<open>Metrics and glyphs\<close>

text \<open>
  \<open>aegir_ft_glyph\<close> stores zeros and a null bitmap on every failing path, and on success
  the code point has a glyph and the stored fields are those of the rendered grayscale slot.
\<close>

theorem ft_glyph_result:
  assumes "aegir_ft_glyph ft v cp s = (r, out, s')"
  shows "(r \<noteq> 0 \<longrightarrow> out = no_glyph)
    \<and> (r = 0 \<longrightarrow> aegir_ft_has ft v cp s = 1
         \<and> (\<exists>a. v = Some a \<and> (let slot = FT_face_glyph ft (ft_face_of s a) (ft_state s') in
              bitmap_pixel_mode slot = 2 \<and> go_bits out = bitmap_buffer slot
            \<and> go_w out = sint (bitmap_width slot) \<and> go_h out = sint (bitmap_rows slot)
            \<and> go_pitch out = bitmap_pitch slot)))"
  using assms
  by (auto simp: aegir_ft_glyph_def aegir_ft_has_def Let_def split: option.splits if_splits prod.splits)

theorem ft_glyph_result_witness:
  "fst (aegir_ft_glyph toy_ft (Some 5) 65 toy_shim) = 0 \<and> aegir_ft_has toy_ft (Some 5) 65 toy_shim = 1"
proof -
  obtain out s' where g: "aegir_ft_glyph toy_ft (Some 5) 65 toy_shim = (0, out, s')"
    by (simp add: aegir_ft_glyph_def toy_ft_def toy_shim_def ft_face_of_def)
  with ft_glyph_result [OF g] show ?thesis by simp
qed

text \<open>
  Defect: \<open>aegir_ft_kerning\<close> passes its code points to \<open>FT_Get_Kerning\<close> as glyph
  indices. The pair of glyphs of the two code points is never consulted: the result is the same
  for every character map, and it can be nonzero for code points without a glyph, although the
  comment promises 0 when either glyph is missing.
\<close>

theorem ft_kerning_ignores_char_map:
  assumes "FT_Get_Kerning ft (ft_face_of s a) (ucast l) (ucast r) (ft_state s) = (0, kx)"
    and "aegir_ft_has ft (Some a) l s = 0" and "aegir_ft_has ft (Some a) r s = 0"
  shows "aegir_ft_kerning ft (Some a) l r s = px_round kx
    \<and> (\<forall>cmap. aegir_ft_kerning (ft\<lparr>FT_Get_Char_Index := cmap\<rparr>) (Some a) l r s =
         aegir_ft_kerning ft (Some a) l r s)"
  using assms by (simp add: aegir_ft_kerning_def)

theorem ft_kerning_ignores_char_map_witness:
  "aegir_ft_has toy_ft (Some 5) 1 toy_shim = 0 \<and> aegir_ft_has toy_ft (Some 5) 2 toy_shim = 0
   \<and> aegir_ft_kerning toy_ft (Some 5) 1 2 toy_shim = 1"
proof -
  have k: "FT_Get_Kerning toy_ft (ft_face_of toy_shim 5) (ucast (1 :: u64)) (ucast (2 :: u64))
      (ft_state toy_shim) = (0, 64)" by (simp add: toy_ft_def)
  have h: "aegir_ft_has toy_ft (Some 5) 1 toy_shim = 0" "aegir_ft_has toy_ft (Some 5) 2 toy_shim = 0"
    by (simp_all add: aegir_ft_has_def toy_ft_def word_le_nat_alt)
  have "px_round 64 = 1" by code_simp
  with ft_kerning_ignores_char_map [OF k h] h show ?thesis by simp
qed

text \<open>
  The pixel metrics are the 26.6 fixed point values rounded to the nearest pixel, for
  every value whose rounding fits an \<open>int\<close>.
\<close>

theorem ft_ascent_nearest:
  assumes "\<bar>FT_size_ascender ft (ft_face_of s a) (ft_state s)\<bar> < 2 ^ 36"
  shows "\<bar>64 * aegir_ft_ascent ft (Some a) s - FT_size_ascender ft (ft_face_of s a) (ft_state s)\<bar> \<le> 32"
proof -
  let ?p = "FT_size_ascender ft (ft_face_of s a) (ft_state s)"
  have d: "drop_bit 6 (?p + 32) = (?p + 32) div 64" by (simp add: drop_bit_eq_div)
  have r: "- (2 ^ 31) \<le> (?p + 32) div 64" "(?p + 32) div 64 < 2 ^ 31" using assms by auto
  have "sint (word_of_int ((?p + 32) div 64) :: u32) = signed_take_bit 31 ((?p + 32) div 64)"
    by (simp add: signed_of_int)
  also have "\<dots> = (?p + 32) div 64" by (rule signed_take_bit_int_eq_self [OF r])
  finally have "aegir_ft_ascent ft (Some a) s = (?p + 32) div 64"
    by (simp add: aegir_ft_ascent_def px_round_def d)
  then show ?thesis by (simp add: minus_mod_eq_mult_div [symmetric]) presburger?
qed

theorem ft_ascent_nearest_witness:
  "\<bar>64 * aegir_ft_ascent toy_ft (Some 5) toy_shim - 700\<bar> \<le> 32"
  using ft_ascent_nearest [of toy_ft toy_shim 5] by (simp add: toy_ft_def)

end
