(* ===== verification/Aknet_Queue.thy ===== *)
theory Aknet_Queue
  imports Aegir_Prelude
begin

text \<open>
  The core of the lwIP adapter (\<^verbatim>\<open>aknet_glue.c\<close>): its static state, the interface to lwIP and to
  netserv, the two netif output functions, and the queue of hairpinned packets. lwIP and netserv
  are not C code of the repository: their calls are the fields of \<open>env\<close>. The ring of 16 packet
  slots with free-running 32-bit indices is shown to implement a bounded FIFO.
\<close>

section \<open>Static state\<close>

text \<open>A \<open>struct pbuf *\<close> and a \<open>struct tcp_pcb *\<close> are addresses, 0 for NULL.\<close>

type_synonym pbuf = u64
type_synonym pcb = u64

text \<open>
  The static variables of the file that outlive a call, and everything behind them (lwIP's own
  state, netserv, the driver) as \<open>lw\<close>. \<open>aknet_txbuf\<close> and \<open>aknet_rxbuf\<close> are scratch: each call
  fills what it passes on, so the bytes are passed as values. \<open>listen_pcbs\<close> is the list of
  \<open>struct listen_ent\<close>, newest first.
\<close>

record 'l glue =
  hq :: "pbuf list"
  hq_head :: u32
  hq_tail :: u32
  hq_draining :: bool
  listen_pcbs :: "(u32 \<times> pcb) list"
  lw :: 'l

definition AKNET_HQ_SIZE :: nat where "AKNET_HQ_SIZE = 16"

datatype pbuf_layer = PBUF_RAW | PBUF_TRANSPORT | PBUF_IP
datatype pbuf_type = PBUF_RAM | PBUF_POOL

abbreviation (input) ERR_OK :: int where "ERR_OK \<equiv> 0"
abbreviation (input) ERR_MEM :: int where "ERR_MEM \<equiv> -1"
abbreviation (input) ERR_INPROGRESS :: int where "ERR_INPROGRESS \<equiv> -5"
abbreviation (input) ERR_IF :: int where "ERR_IF \<equiv> -12"
abbreviation (input) ERR_ABRT :: int where "ERR_ABRT \<equiv> -13"

section \<open>The packet interface\<close>

text \<open>
  The parts of lwIP and netserv the packet path uses. \<open>ip4_input\<close> may call the interface's output
  function any number of times, so it takes that function and acts on the whole state;
  \<open>etharp_output\<close> takes the link output function.
\<close>

record 'l env =
  pbuf_alloc :: "pbuf_layer \<Rightarrow> u16 \<Rightarrow> pbuf_type \<Rightarrow> 'l \<Rightarrow> pbuf \<times> 'l"
  pbuf_free :: "pbuf \<Rightarrow> 'l \<Rightarrow> 'l"
  pbuf_copy :: "pbuf \<Rightarrow> pbuf \<Rightarrow> 'l \<Rightarrow> 'l"
  pbuf_take :: "pbuf \<Rightarrow> bytes \<Rightarrow> u16 \<Rightarrow> 'l \<Rightarrow> 'l"
  pbuf_tot_len :: "pbuf \<Rightarrow> 'l \<Rightarrow> u16"
  pbuf_copy_partial :: "pbuf \<Rightarrow> u16 \<Rightarrow> u16 \<Rightarrow> 'l \<Rightarrow> bytes"
  netif_ip4_addr :: "'l \<Rightarrow> u32"
  etharp_output :: "(pbuf \<Rightarrow> 'l \<Rightarrow> int \<times> 'l) \<Rightarrow> pbuf \<Rightarrow> u32 \<Rightarrow> 'l \<Rightarrow> int \<times> 'l"
  ip4_input :: "(pbuf \<Rightarrow> u32 \<Rightarrow> 'l glue \<Rightarrow> int \<times> 'l glue) \<Rightarrow> pbuf \<Rightarrow> 'l glue \<Rightarrow> int \<times> 'l glue"
  frame_tx :: "bytes \<Rightarrow> 'l \<Rightarrow> int \<times> 'l"

definition aknet_linkoutput :: "('l, 'x) env_scheme \<Rightarrow> pbuf \<Rightarrow> 'l \<Rightarrow> int \<times> 'l" where
  "aknet_linkoutput e p l =
     (if unat (pbuf_tot_len e p l) > 2048 then (ERR_MEM, l)
      else let (r, l) = frame_tx e (pbuf_copy_partial e p (pbuf_tot_len e p l) 0 l) l
           in if r \<noteq> 0 then (ERR_IF, l) else (ERR_OK, l))"

definition aknet_output :: "('l, 'x) env_scheme \<Rightarrow> pbuf \<Rightarrow> u32 \<Rightarrow> 'l glue \<Rightarrow> int \<times> 'l glue" where
  "aknet_output e p ipaddr g =
     (if ipaddr = netif_ip4_addr e (lw g)
      then if hq_tail g - hq_head g \<ge> word_of_nat AKNET_HQ_SIZE then (ERR_MEM, g)
           else let (q, l) = pbuf_alloc e PBUF_RAW (pbuf_tot_len e p (lw g)) PBUF_RAM (lw g);
                    g = g\<lparr>lw := l\<rparr>
                in if q = 0 then (ERR_MEM, g)
                   else let g = g\<lparr>lw := pbuf_copy e q p (lw g)\<rparr>
                        in (ERR_OK, g\<lparr>hq := (hq g)[unat (hq_tail g) mod AKNET_HQ_SIZE := q],
                                      hq_tail := hq_tail g + 1\<rparr>)
      else let (r, l) = etharp_output e (aknet_linkoutput e) p ipaddr (lw g) in (r, g\<lparr>lw := l\<rparr>))"

text \<open>The \<open>while\<close> loop: draining can enqueue more, so it may not end.\<close>

partial_function (option) hairpin_loop :: "('l, 'x) env_scheme \<Rightarrow> 'l glue \<Rightarrow> 'l glue option" where
  "hairpin_loop e g =
     (if hq_head g = hq_tail g then Some g
      else let p = hq g ! (unat (hq_head g) mod AKNET_HQ_SIZE);
               g = g\<lparr>hq_head := hq_head g + 1\<rparr>;
               (r, g) = ip4_input e (aknet_output e) p g
           in hairpin_loop e (if r \<noteq> ERR_OK then g\<lparr>lw := pbuf_free e p (lw g)\<rparr> else g))"

declare hairpin_loop.simps [code]

definition aknet_hairpin_drain :: "('l, 'x) env_scheme \<Rightarrow> 'l glue \<Rightarrow> 'l glue option" where
  "aknet_hairpin_drain e g =
     (if hq_draining g then Some g
      else map_option (\<lambda>g. g\<lparr>hq_draining := False\<rparr>) (hairpin_loop e (g\<lparr>hq_draining := True\<rparr>)))"

section \<open>Bounded queues\<close>

text \<open>
  The interface of a bounded FIFO: \<open>contents\<close> reads a state as a list, \<open>push\<close> appends when there is
  room, \<open>pop\<close> removes the first element.
\<close>

locale bounded_fifo =
  fixes contents :: "'q \<Rightarrow> 'e list"
    and push :: "'e \<Rightarrow> 'q \<Rightarrow> 'q"
    and pop :: "'q \<Rightarrow> 'e \<times> 'q"
    and full :: "'q \<Rightarrow> bool"
    and empty :: "'q \<Rightarrow> bool"
    and wf :: "'q \<Rightarrow> bool"
    and cap :: nat
  assumes push_contents: "wf q \<Longrightarrow> \<not> full q \<Longrightarrow> wf (push x q) \<and> contents (push x q) = contents q @ [x]"
    and pop_contents: "wf q \<Longrightarrow> \<not> empty q \<Longrightarrow> pop q = (x, q') \<Longrightarrow> wf q' \<and> contents q = x # contents q'"
    and full_iff: "wf q \<Longrightarrow> full q \<longleftrightarrow> length (contents q) = cap"
    and empty_iff: "wf q \<Longrightarrow> empty q \<longleftrightarrow> contents q = []"
    and bound: "wf q \<Longrightarrow> length (contents q) \<le> cap"
begin

text \<open>Pushing a list as far as there is room, and popping everything.\<close>

fun push_all :: "'e list \<Rightarrow> 'q \<Rightarrow> 'q" where
  "push_all [] q = q"
| "push_all (x # xs) q = (if full q then q else push_all xs (push x q))"

lemma push_all_contents:
  "wf q \<Longrightarrow> wf (push_all xs q) \<and> contents (push_all xs q) = take cap (contents q @ xs)"
proof (induction xs arbitrary: q)
  case Nil
  then show ?case using bound by simp
next
  case (Cons x xs)
  show ?case
  proof (cases "full q")
    case True
    with Cons.prems full_iff show ?thesis by simp
  next
    case False
    with Cons.IH [of "push x q"] push_contents [OF Cons.prems False] show ?thesis by simp
  qed
qed

fun pop_n :: "nat \<Rightarrow> 'q \<Rightarrow> 'e list" where
  "pop_n 0 q = []"
| "pop_n (Suc n) q = (if empty q then [] else (let (x, q') = pop q in x # pop_n n q'))"

lemma pop_n_contents: "wf q \<Longrightarrow> pop_n n q = take n (contents q)"
proof (induction n arbitrary: q)
  case (Suc n)
  show ?case
  proof (cases "empty q")
    case True
    then show ?thesis using Suc.prems empty_iff by simp
  next
    case False
    obtain x q' where p: "pop q = (x, q')" by fastforce
    then show ?thesis using False Suc.IH [of q'] pop_contents [OF Suc.prems False p] by simp
  qed
qed simp

lemma fifo: "wf q \<Longrightarrow> contents q = [] \<Longrightarrow> length xs \<le> cap \<Longrightarrow> pop_n (length xs) (push_all xs q) = xs"
  using push_all_contents [of q xs] by (simp add: pop_n_contents)

end

section \<open>The ring implements the interface\<close>

definition hq_len :: "'l glue \<Rightarrow> nat" where
  "hq_len g = unat (hq_tail g - hq_head g)"

definition hq_contents :: "'l glue \<Rightarrow> pbuf list" where
  "hq_contents g = map (\<lambda>k. hq g ! (unat (hq_head g + word_of_nat k) mod AKNET_HQ_SIZE)) [0..<hq_len g]"

definition hq_wf :: "'l glue \<Rightarrow> bool" where
  "hq_wf g \<longleftrightarrow> length (hq g) = AKNET_HQ_SIZE \<and> hq_len g \<le> AKNET_HQ_SIZE"

definition hq_full :: "'l glue \<Rightarrow> bool" where
  "hq_full g \<longleftrightarrow> hq_tail g - hq_head g \<ge> word_of_nat AKNET_HQ_SIZE"

definition hq_push :: "pbuf \<Rightarrow> 'l glue \<Rightarrow> 'l glue" where
  "hq_push q g = g\<lparr>hq := (hq g)[unat (hq_tail g) mod AKNET_HQ_SIZE := q], hq_tail := hq_tail g + 1\<rparr>"

definition hq_pop :: "'l glue \<Rightarrow> pbuf \<times> 'l glue" where
  "hq_pop g = (hq g ! (unat (hq_head g) mod AKNET_HQ_SIZE), g\<lparr>hq_head := hq_head g + 1\<rparr>)"

lemma unat_add_mod16: "unat (x + word_of_nat k :: u32) mod 16 = (unat x + k) mod 16"
proof -
  have "unat (x + word_of_nat k :: u32) = (unat x + k) mod 2 ^ 32"
    by (simp add: unat_word_ariths unat_of_nat take_bit_eq_mod mod_simps)
  moreover have "(m :: nat) mod 2 ^ 32 mod 16 = m mod 16" for m
    by (rule mod_mod_cancel) simp
  ultimately show ?thesis by simp
qed

lemma hq_contents_alt:
  "hq_contents g = map (\<lambda>k. hq g ! ((unat (hq_head g) + k) mod 16)) [0..<hq_len g]"
  by (simp add: hq_contents_def AKNET_HQ_SIZE_def unat_add_mod16)

lemma hq_full_len: "hq_full g \<longleftrightarrow> hq_len g \<ge> 16"
  by (simp add: hq_full_def hq_len_def AKNET_HQ_SIZE_def word_le_nat_alt)

lemma hq_push_len: "hq_len g < 16 \<Longrightarrow> hq_len (hq_push q g) = hq_len g + 1"
proof -
  assume "hq_len g < 16"
  then have "unat (hq_tail g - hq_head g + 1) = unat (hq_tail g - hq_head g) + 1"
    by (simp add: hq_len_def unat_word_ariths)
  then show ?thesis by (simp add: hq_len_def hq_push_def algebra_simps)
qed

lemma hq_pop_len: "hq_len g > 0 \<Longrightarrow> hq_len (snd (hq_pop g)) = hq_len g - 1"
proof -
  assume "hq_len g > 0"
  then have "hq_tail g - hq_head g \<noteq> 0" by (auto simp: hq_len_def)
  then have "unat (hq_tail g - hq_head g - 1) = unat (hq_tail g - hq_head g) - 1"
    by (rule unat_minus_one)
  then show ?thesis by (simp add: hq_len_def hq_pop_def diff_diff_eq)
qed

lemma tail_index: "unat (hq_tail g) mod 16 = (unat (hq_head g) + hq_len g) mod 16"
proof -
  have "hq_tail g = hq_head g + word_of_nat (hq_len g)" by (simp add: hq_len_def)
  then show ?thesis by (metis unat_add_mod16)
qed

text \<open>Different places of the window are different slots of the ring.\<close>

lemma ring_slots_distinct:
  assumes "j < k" "k - j < 16"
  shows "(h + j) mod 16 \<noteq> (h + k) mod (16 :: nat)"
proof
  assume "(h + j) mod 16 = (h + k) mod 16"
  then have "16 dvd (h + k) - (h + j)" by (metis mod_eq_dvd_iff_nat less_imp_le_nat assms(1) nat_add_left_cancel_le)
  then have "16 dvd k - j" by simp
  with assms show False by (simp add: nat_dvd_not_less)
qed

lemma hq_push_contents:
  assumes "hq_wf g" "\<not> hq_full g"
  shows "hq_wf (hq_push q g) \<and> hq_contents (hq_push q g) = hq_contents g @ [q]"
proof -
  have len: "length (hq g) = 16" "hq_len g < 16"
    using assms by (simp_all add: hq_wf_def hq_full_len AKNET_HQ_SIZE_def)
  let ?h = "unat (hq_head g)" and ?t = "(unat (hq_head g) + hq_len g) mod 16"
  have tail: "hq (hq_push q g) = (hq g)[?t := q]" "hq_head (hq_push q g) = hq_head g"
    using tail_index [of g] by (simp_all add: hq_push_def AKNET_HQ_SIZE_def)
  have old: "(hq g)[?t := q] ! ((?h + k) mod 16) = hq g ! ((?h + k) mod 16)" if "k < hq_len g" for k
  proof -
    have "(?h + k) mod 16 \<noteq> ?t" using that len(2) by (intro ring_slots_distinct) auto
    then show ?thesis by (rule nth_list_update_neq [OF not_sym])
  qed
  have new: "(hq g)[?t := q] ! ?t = q" using len(1) by simp
  have "hq_contents (hq_push q g) = map (\<lambda>k. (hq g)[?t := q] ! ((?h + k) mod 16)) [0..<Suc (hq_len g)]"
    unfolding hq_contents_alt [of "hq_push q g"] tail hq_push_len [OF len(2)] by simp
  also have "\<dots> = hq_contents g @ [q]"
    using old new by (simp add: hq_contents_alt)
  finally show ?thesis
    using len hq_push_len [OF len(2), of q] by (simp add: hq_wf_def tail AKNET_HQ_SIZE_def)
qed

lemma hq_pop_contents:
  assumes "hq_wf g" "hq_head g \<noteq> hq_tail g" "hq_pop g = (x, g')"
  shows "hq_wf g' \<and> hq_contents g = x # hq_contents g'"
proof -
  have "hq_len g \<noteq> 0" using assms(2) by (simp add: hq_len_def unat_eq_0)
  then obtain n where n: "hq_len g = Suc n" by (cases "hq_len g") auto
  have g': "g' = g\<lparr>hq_head := hq_head g + 1\<rparr>" "x = hq g ! (unat (hq_head g) mod 16)"
    using assms(3) by (auto simp: hq_pop_def AKNET_HQ_SIZE_def)
  have ln: "hq_len g' = n" using hq_pop_len [of g] n assms(3) by simp
  have shift: "(unat (hq_head g + 1) + k) mod 16 = (unat (hq_head g) + Suc k) mod 16" for k
    using unat_add_mod16 [of "hq_head g" 1] by (simp add: mod_add_left_eq [symmetric, of "unat (hq_head g + 1)"]
        mod_add_left_eq [of "Suc (unat (hq_head g))"])
  have "hq_contents g = x # map (\<lambda>k. hq g ! ((unat (hq_head g) + Suc k) mod 16)) [0..<n]"
    unfolding hq_contents_alt n map_upt_Suc by (simp add: g')
  also have "map (\<lambda>k. hq g ! ((unat (hq_head g) + Suc k) mod 16)) [0..<n] = hq_contents g'"
    unfolding hq_contents_alt [of g'] ln by (simp add: g' shift)
  finally show ?thesis using assms(1) ln n by (simp add: hq_wf_def g')
qed

interpretation hq: bounded_fifo hq_contents hq_push hq_pop hq_full "\<lambda>g. hq_head g = hq_tail g" hq_wf 16
proof (unfold_locales, goal_cases)
  case (1 g x)
  then show ?case by (rule hq_push_contents)
next
  case (2 g x g')
  then show ?case by (rule hq_pop_contents)
next
  case (3 g)
  then show ?case by (auto simp: hq_full_len hq_wf_def hq_contents_def AKNET_HQ_SIZE_def)
next
  case (4 g)
  have "hq_head g = hq_tail g \<longleftrightarrow> hq_len g = 0" by (auto simp: hq_len_def unat_eq_0)
  then show ?case by (simp add: hq_contents_def)
next
  case (5 g)
  then show ?case by (simp add: hq_wf_def hq_contents_def AKNET_HQ_SIZE_def)
qed

lemma hq_lw [simp]:
  "hq_contents (g\<lparr>lw := l\<rparr>) = hq_contents g" "hq_wf (g\<lparr>lw := l\<rparr>) = hq_wf g"
  "hq_full (g\<lparr>lw := l\<rparr>) = hq_full g"
  by (simp_all add: hq_contents_def hq_wf_def hq_full_def hq_len_def)

text \<open>The queue operations inside \<open>aknet_output\<close> and the drain loop.\<close>

lemma aknet_output_own:
  "ipaddr = netif_ip4_addr e (lw g) \<Longrightarrow> aknet_output e p ipaddr g =
     (if hq_full g then (-1, g)
      else let (q, l) = pbuf_alloc e PBUF_RAW (pbuf_tot_len e p (lw g)) PBUF_RAM (lw g)
           in if q = 0 then (-1, g\<lparr>lw := l\<rparr>)
              else (0, hq_push q (g\<lparr>lw := pbuf_copy e q p l\<rparr>)))"
  by (simp add: aknet_output_def hq_full_def hq_push_def Let_def split: prod.splits)

lemma hairpin_loop_step:
  "hairpin_loop e g =
     (if hq_head g = hq_tail g then Some g
      else let (p, g) = hq_pop g; (r, g) = ip4_input e (aknet_output e) p g
           in hairpin_loop e (if r \<noteq> 0 then g\<lparr>lw := pbuf_free e p (lw g)\<rparr> else g))"
  by (subst hairpin_loop.simps) (simp add: hq_pop_def Let_def)

section \<open>Properties\<close>

text \<open>
  Property C19: what \<open>aknet_output\<close> does, on a ring whose free-running 32-bit indices may wrap. A packet for
  the interface's own address is refused with \<open>ERR_MEM\<close> and nothing changes when 16 packets wait; it is
  refused with \<open>ERR_MEM\<close> when fewer wait but \<open>pbuf_alloc\<close> fails, and the only change is the allocator's; in
  every other case the result is \<open>ERR_OK\<close>, the queue is what it was with the copy behind it, and the rest of
  the system has changed by the allocation and the copy alone, so that in no case the packet reaches the
  link. A packet for another address goes to \<open>etharp_output\<close>, whose result is returned, and the queue
  stays as it is.
\<close>

theorem aknet_output_hairpin:
  assumes "hq_wf g" and "pbuf_alloc e PBUF_RAW (pbuf_tot_len e p (lw g)) PBUF_RAM (lw g) = (q, l)"
  shows "if a \<noteq> netif_ip4_addr e (lw g)
    then \<exists>r l'. etharp_output e (aknet_linkoutput e) p a (lw g) = (r, l') \<and> aknet_output e p a g = (r, g\<lparr>lw := l'\<rparr>)
    else if length (hq_contents g) = 16 then aknet_output e p a g = (-1, g)
    else if q = 0 then aknet_output e p a g = (-1, g\<lparr>lw := l\<rparr>)
    else \<exists>g'. aknet_output e p a g = (0, g') \<and> hq_wf g' \<and> hq_contents g' = hq_contents g @ [q]
      \<and> lw g' = pbuf_copy e q p l \<and> listen_pcbs g' = listen_pcbs g \<and> hq_draining g' = hq_draining g"
proof (cases "a = netif_ip4_addr e (lw g)")
  case True
  have full: "hq_full g \<longleftrightarrow> length (hq_contents g) = 16" by (rule hq.full_iff [OF assms(1)])
  let ?g = "g\<lparr>lw := pbuf_copy e q p l\<rparr>"
  have push: "hq_wf (hq_push q ?g) \<and> hq_contents (hq_push q ?g) = hq_contents g @ [q]" if "\<not> hq_full g"
    using hq.push_contents [of ?g q] assms(1) that by simp
  show ?thesis
    using True push full assms(2) by (auto simp: aknet_output_own hq_push_def)
next
  case False
  then show ?thesis by (auto simp: aknet_output_def split: prod.splits)
qed

text \<open>
  The contract of lwIP used below. \<open>log\<close> observes the packets handed to \<open>ip4_input\<close> so far. It
  grows only there, and \<open>ip4_input\<close> touches the adapter's state only through the output function it
  is given: whatever holds once the packet is logged, and survives output calls and changes of
  lwIP's state that keep the log, holds when it returns.
\<close>

definition input_contract :: "('l, 'x) env_scheme \<Rightarrow> ('l \<Rightarrow> pbuf list) \<Rightarrow> bool" where
  "input_contract e log \<longleftrightarrow>
     (\<forall>I out p g. (\<forall>g l. I g \<and> log l = log (lw g) \<longrightarrow> I (g\<lparr>lw := l\<rparr>)) \<longrightarrow>
        (\<forall>p a g. I g \<longrightarrow> I (snd (out p a g))) \<longrightarrow>
        (\<forall>l. log l = log (lw g) @ [p] \<longrightarrow> I (g\<lparr>lw := l\<rparr>)) \<longrightarrow> I (snd (ip4_input e out p g)))
   \<and> (\<forall>ly n ty l. log (snd (pbuf_alloc e ly n ty l)) = log l)
   \<and> (\<forall>q p l. log (pbuf_copy e q p l) = log l)
   \<and> (\<forall>p l. log (pbuf_free e p l) = log l)
   \<and> (\<forall>out p a l. log (snd (etharp_output e out p a l)) = log l)"

lemma input_contractD:
  assumes "input_contract e log"
  shows "(\<And>g l. I g \<Longrightarrow> log l = log (lw g) \<Longrightarrow> I (g\<lparr>lw := l\<rparr>)) \<Longrightarrow> (\<And>p a g. I g \<Longrightarrow> I (snd (out p a g))) \<Longrightarrow>
      (\<And>l. log l = log (lw g) @ [p] \<Longrightarrow> I (g\<lparr>lw := l\<rparr>)) \<Longrightarrow> I (snd (ip4_input e out p g))"
    and "log (snd (pbuf_alloc e ly n ty l)) = log l"
    and "log (pbuf_copy e q p l) = log l"
    and "log (pbuf_free e p l) = log l"
    and "log (snd (etharp_output e lout p a l)) = log l"
proof -
  note c = assms [unfolded input_contract_def]
  show "(\<And>g l. I g \<Longrightarrow> log l = log (lw g) \<Longrightarrow> I (g\<lparr>lw := l\<rparr>)) \<Longrightarrow> (\<And>p a g. I g \<Longrightarrow> I (snd (out p a g))) \<Longrightarrow>
      (\<And>l. log l = log (lw g) @ [p] \<Longrightarrow> I (g\<lparr>lw := l\<rparr>)) \<Longrightarrow> I (snd (ip4_input e out p g))"
    using c [THEN conjunct1, rule_format, of I out g p] by blast
qed (use assms in \<open>simp_all add: input_contract_def\<close>)

text \<open>
  The history of the queue: what lwIP has been handed, then what waits. \<open>hist_inv\<close> says that a
  history has only been extended at its end.
\<close>

definition hist :: "('l \<Rightarrow> pbuf list) \<Rightarrow> 'l glue \<Rightarrow> pbuf list" where
  "hist log g = log (lw g) @ hq_contents g"

definition hist_inv :: "('l \<Rightarrow> pbuf list) \<Rightarrow> pbuf list \<Rightarrow> bool \<Rightarrow> 'l glue \<Rightarrow> bool" where
  "hist_inv log h d g \<longleftrightarrow> hq_wf g \<and> hq_draining g = d \<and> (\<exists>ys. hist log g = h @ ys)"

lemma hist_inv_lw: "hist_inv log h d g \<Longrightarrow> log l = log (lw g) \<Longrightarrow> hist_inv log h d (g\<lparr>lw := l\<rparr>)"
  by (simp add: hist_inv_def hist_def)

lemma hist_inv_push:
  assumes "hist_inv log h d g" "\<not> hq_full g"
  shows "hist_inv log h d (hq_push q g)"
proof -
  have g: "hq_wf g" "hq_draining g = d" using assms(1) by (auto simp: hist_inv_def)
  from assms(1) obtain ys where ys: "hist log g = h @ ys" by (auto simp: hist_inv_def)
  note p = hq.push_contents [OF g(1) assms(2), of q]
  have "hist log (hq_push q g) = h @ ys @ [q]"
    using p ys by (simp add: hist_def hq_push_def)
  moreover have "hq_draining (hq_push q g) = d" using g(2) by (simp add: hq_push_def)
  ultimately show ?thesis using p unfolding hist_inv_def by blast
qed

lemma hist_inv_output:
  assumes ct: "input_contract e log" and g: "hist_inv log h d g"
  shows "hist_inv log h d (snd (aknet_output e p a g))"
proof (cases "a = netif_ip4_addr e (lw g)")
  case False
  obtain r l where eo: "etharp_output e (aknet_linkoutput e) p a (lw g) = (r, l)" by fastforce
  have "log l = log (lw g)" using input_contractD(5) [OF ct, of "aknet_linkoutput e" p a "lw g"] eo by simp
  with False eo g show ?thesis by (simp add: aknet_output_def hist_inv_lw)
next
  case True
  obtain q l where al: "pbuf_alloc e PBUF_RAW (pbuf_tot_len e p (lw g)) PBUF_RAM (lw g) = (q, l)"
    by fastforce
  have l: "log l = log (lw g)"
    using input_contractD(2) [OF ct, of PBUF_RAW "pbuf_tot_len e p (lw g)" PBUF_RAM "lw g"] al by simp
  let ?g = "g\<lparr>lw := pbuf_copy e q p l\<rparr>"
  have "hist_inv log h d ?g" using g l input_contractD(3) [OF ct] by (intro hist_inv_lw) auto
  then have "hist_inv log h d (hq_push q ?g)" if "\<not> hq_full g"
    using that by (intro hist_inv_push) simp_all
  with True al g l show ?thesis by (simp add: aknet_output_own hist_inv_lw)
qed

lemma hist_inv_step:
  assumes ct: "input_contract e log" and g: "hist_inv log h d g" and ne: "hq_head g \<noteq> hq_tail g"
    and pop: "hq_pop g = (p, g1)"
  shows "hist_inv log h d (snd (ip4_input e (aknet_output e) p g1))"
proof (rule input_contractD(1) [OF ct])
  fix l assume l: "log l = log (lw g1) @ [p]"
  have "hq_wf g" using g by (simp add: hist_inv_def)
  from hq.pop_contents [OF this ne pop] have c: "hq_wf g1" "hq_contents g = p # hq_contents g1" by auto
  have "lw g1 = lw g" "hq_draining g1 = hq_draining g" using pop by (auto simp: hq_pop_def)
  with c l g show "hist_inv log h d (g1\<lparr>lw := l\<rparr>)" by (simp add: hist_inv_def hist_def)
qed (auto intro: hist_inv_lw hist_inv_output [OF ct])

lemma hairpin_loop_ends:
  assumes "input_contract e log" "hairpin_loop e g = Some g'" "hist_inv log h d g"
  shows "hist_inv log h d g' \<and> hq_contents g' = []"
proof -
  have "input_contract e log \<longrightarrow> hist_inv log h d g \<longrightarrow> hist_inv log h d g' \<and> hq_contents g' = []"
  proof (rule hairpin_loop.raw_induct [where P = "\<lambda>e g g'. input_contract e log \<longrightarrow>
      hist_inv log h d g \<longrightarrow> hist_inv log h d g' \<and> hq_contents g' = []", OF _ assms(2)],
      intro impI, goal_cases)
    case (1 f e g g')
    have wf: "hq_wf g" using 1(4) by (simp add: hist_inv_def)
    show ?case
    proof (cases "hq_head g = hq_tail g")
      case True
      with 1(2,4) hq.empty_iff [OF wf] show ?thesis by auto
    next
      case False
      obtain p g1 where pop: "hq_pop g = (p, g1)" by fastforce
      obtain r g2 where inp: "ip4_input e (aknet_output e) p g1 = (r, g2)" by fastforce
      have i2: "hist_inv log h d g2" using hist_inv_step [OF 1(3,4) False pop] inp by simp
      define g3 where "g3 = (if r \<noteq> 0 then g2\<lparr>lw := pbuf_free e p (lw g2)\<rparr> else g2)"
      have "hist_inv log h d g3"
        using i2 hist_inv_lw [OF i2] input_contractD(4) [OF 1(3)] by (simp add: g3_def)
      moreover have "f e g3 = Some g'"
        using 1(2) False inp pop by (auto simp: Let_def hq_pop_def g3_def split: if_splits)
      ultimately show ?thesis using 1(1,3) by blast
    qed
  qed
  with assms show ?thesis by blast
qed

text \<open>
  Property C18: when \<open>aknet_hairpin_drain\<close> returns, the queue is empty and the guard is reset, and
  lwIP has been handed every packet that was waiting, in the order of the queue, before anything
  that was enqueued while draining. A nested call changes nothing.
\<close>

theorem hairpin_drain_fifo:
  assumes "input_contract e log" and "hq_wf g" and "aknet_hairpin_drain e g = Some g'"
  shows "if hq_draining g then g' = g
    else hq_wf g' \<and> hq_contents g' = [] \<and> \<not> hq_draining g'
       \<and> (\<exists>later. log (lw g') = log (lw g) @ hq_contents g @ later)"
proof (cases "hq_draining g")
  case True
  with assms(3) show ?thesis by (simp add: aknet_hairpin_drain_def)
next
  case False
  let ?g = "g\<lparr>hq_draining := True\<rparr>"
  from assms(3) False obtain g1 where g1: "hairpin_loop e ?g = Some g1" "g' = g1\<lparr>hq_draining := False\<rparr>"
    by (auto simp: aknet_hairpin_drain_def)
  have "hist_inv log (log (lw g) @ hq_contents g) True ?g"
    using assms(2) by (simp add: hist_inv_def hist_def hq_wf_def hq_len_def hq_contents_def)
  from hairpin_loop_ends [OF assms(1) g1(1) this] False show ?thesis
    by (auto simp: g1(2) hist_inv_def hist_def hq_wf_def hq_len_def hq_contents_def)
qed

section \<open>A small stack\<close>

text \<open>
  A stack for the instances: it numbers its pbufs, logs what \<open>ip4_input\<close> receives, and answers the
  first packet with one packet to its own address.
\<close>

definition toy_env :: "(pbuf list \<times> u64) env" where
  "toy_env = \<lparr>
     pbuf_alloc = (\<lambda>ly n ty (lg, k). (if k = 0 then 0 else k, (lg, k + 1))),
     pbuf_free = (\<lambda>p l. l), pbuf_copy = (\<lambda>q p l. l), pbuf_take = (\<lambda>p b n l. l),
     pbuf_tot_len = (\<lambda>p l. 40), pbuf_copy_partial = (\<lambda>p n off l. replicate (unat n) 0),
     netif_ip4_addr = (\<lambda>l. 0x0F02000A), etharp_output = (\<lambda>out p a l. (0, l)),
     ip4_input = (\<lambda>out p g.
        let g = g\<lparr>lw := (fst (lw g) @ [p], snd (lw g))\<rparr> in
        if length (fst (lw g)) = 1 then (0, snd (out p 0x0F02000A g)) else (0, g)),
     frame_tx = (\<lambda>b l. (0, l))\<rparr>"

definition toy_glue :: "(pbuf list \<times> u64) glue" where
  "toy_glue = \<lparr>hq = replicate 16 0, hq_head = -1, hq_tail = -1, hq_draining = False,
     listen_pcbs = [], lw = ([], 100)\<rparr>"

lemma toy_contract: "input_contract toy_env fst"
  unfolding input_contract_def by (auto simp: toy_env_def Let_def)

lemma toy_glue_wf [simp]: "hq_wf toy_glue" "hq_contents toy_glue = []"
  by (simp_all add: toy_glue_def hq_wf_def hq_len_def hq_contents_def AKNET_HQ_SIZE_def)

definition toy_queued :: "(pbuf list \<times> u64) glue" where
  "toy_queued = hq_push 8 (hq_push 7 toy_glue)"

lemma toy_queued_wf: "hq_wf toy_queued \<and> hq_contents toy_queued = [7, 8]"
proof -
  have "\<not> hq_full toy_glue" "\<not> hq_full (hq_push 7 toy_glue)"
    by (simp_all add: hq_full_def toy_glue_def hq_push_def AKNET_HQ_SIZE_def word_le_nat_alt)
  then show ?thesis
    using hq.push_contents [of toy_glue 7] hq.push_contents [of "hq_push 7 toy_glue" 8]
    by (simp add: toy_queued_def)
qed

theorem aknet_output_hairpin_witness:
  "\<exists>g'. aknet_output toy_env 5 0x0F02000A toy_queued = (0, g') \<and> hq_contents g' = [7, 8, 100]"
proof -
  have al: "pbuf_alloc toy_env PBUF_RAW (pbuf_tot_len toy_env 5 (lw toy_queued)) PBUF_RAM (lw toy_queued) = (100, ([], 101))"
    by (simp add: toy_env_def toy_queued_def toy_glue_def hq_push_def)
  have own: "netif_ip4_addr toy_env (lw toy_queued) = 0x0F02000A" by (simp add: toy_env_def)
  show ?thesis
    using aknet_output_hairpin [OF conjunct1 [OF toy_queued_wf] al, of "0x0F02000A"] own conjunct2 [OF toy_queued_wf] by auto
qed

theorem hairpin_drain_fifo_witness:
  "map_option (\<lambda>g. fst (lw g)) (aknet_hairpin_drain toy_env toy_queued) = Some [7, 8, 100]
   \<and> (\<exists>g'. aknet_hairpin_drain toy_env toy_queued = Some g' \<and> hq_contents g' = [])"
proof -
  have u: "unat (- 1 :: u32) = 4294967295" by (simp add: unat_eq_nat_uint uint_word_ariths)
  have run: "map_option (\<lambda>g. fst (lw g)) (aknet_hairpin_drain toy_env toy_queued) = Some [7, 8, 100]"
    by (simp add: aknet_hairpin_drain_def hairpin_loop.simps aknet_output_def toy_env_def toy_queued_def
        toy_glue_def hq_push_def AKNET_HQ_SIZE_def word_le_nat_alt u)
  then obtain g' where g': "aknet_hairpin_drain toy_env toy_queued = Some g'" by auto
  have "\<not> hq_draining toy_queued" by (simp add: toy_queued_def hq_push_def toy_glue_def)
  with hairpin_drain_fifo [OF toy_contract _ g'] toy_queued_wf run g' show ?thesis by auto
qed

end
