(* ===== verification/Aknet_Inet.thy ===== *)
theory Aknet_Inet
  imports Aknet_Queue
begin

text \<open>
  The interface, UDP, raw ICMP, ARP, DNS and DHCP parts of \<^verbatim>\<open>aknet_glue.c\<close>. Calls of lwIP that can
  send a packet take the interface's output function and act on the whole state; the others act on
  lwIP's own state. The upcalls into netserv are fields of the same record.
\<close>

section \<open>The interface to lwIP and netserv\<close>

text \<open>The fields of the static \<open>struct netif\<close> the file reads or writes.\<close>

record netif =
  nif_name :: string
  nif_mtu :: u16
  nif_hwaddr :: bytes
  nif_hwaddr_len :: u8
  nif_flags :: u8
  nif_ip :: u32
  nif_mask :: u32
  nif_gw :: u32

type_synonym 'l netif_out = "pbuf \<Rightarrow> u32 \<Rightarrow> 'l glue \<Rightarrow> int \<times> 'l glue"

record 'l env_inet = "'l env" +
  PP_HTONL :: "u32 \<Rightarrow> u32"
  PP_NTOHL :: "u32 \<Rightarrow> u32"
  aknet_netif :: "'l \<Rightarrow> netif"
  netif_store :: "netif \<Rightarrow> 'l \<Rightarrow> 'l"
  netif_add :: "(netif \<Rightarrow> int \<times> netif) \<Rightarrow> u32 \<Rightarrow> u32 \<Rightarrow> u32 \<Rightarrow> 'l \<Rightarrow> 'l"
  netif_set_default :: "'l \<Rightarrow> 'l"
  netif_set_up :: "'l \<Rightarrow> 'l"
  netif_set_link_up :: "'l \<Rightarrow> 'l"
  netif_set_addr :: "u32 \<Rightarrow> u32 option \<Rightarrow> u32 \<Rightarrow> 'l \<Rightarrow> 'l"
  netif_input :: "'l netif_out \<Rightarrow> pbuf \<Rightarrow> 'l glue \<Rightarrow> int \<times> 'l glue"
  udp_new :: "'l \<Rightarrow> pcb \<times> 'l"
  udp_recv :: "pcb \<Rightarrow> u32 \<Rightarrow> 'l \<Rightarrow> 'l"
  udp_bind :: "pcb \<Rightarrow> u16 \<Rightarrow> 'l \<Rightarrow> int \<times> 'l"
  udp_connect :: "pcb \<Rightarrow> u32 \<Rightarrow> u16 \<Rightarrow> 'l \<Rightarrow> int \<times> 'l"
  udp_sendto :: "'l netif_out \<Rightarrow> pcb \<Rightarrow> pbuf \<Rightarrow> u32 \<Rightarrow> u16 \<Rightarrow> 'l glue \<Rightarrow> int \<times> 'l glue"
  udp_remove :: "pcb \<Rightarrow> 'l \<Rightarrow> 'l"
  udp_pcbs :: "'l \<Rightarrow> (u16 \<times> bool) list"
  raw_new :: "'l \<Rightarrow> pcb \<times> 'l"
  raw_recv :: "pcb \<Rightarrow> 'l \<Rightarrow> 'l"
  raw_sendto :: "'l netif_out \<Rightarrow> pcb \<Rightarrow> pbuf \<Rightarrow> u32 \<Rightarrow> 'l glue \<Rightarrow> int \<times> 'l glue"
  IPH_HL_BYTES :: "pbuf \<Rightarrow> 'l \<Rightarrow> u16"
  ARP_TABLE_SIZE :: nat
  etharp_get_entry :: "nat \<Rightarrow> 'l \<Rightarrow> (u32 \<times> bytes) option"
  dns_setserver :: "u32 \<Rightarrow> 'l \<Rightarrow> 'l"
  dns_gethostbyname :: "'l netif_out \<Rightarrow> string \<Rightarrow> u32 \<Rightarrow> 'l glue \<Rightarrow> int \<times> u32 \<times> 'l glue"
  dhcp_start :: "'l netif_out \<Rightarrow> 'l glue \<Rightarrow> int \<times> 'l glue"
  dhcp_release_and_stop :: "'l netif_out \<Rightarrow> 'l glue \<Rightarrow> 'l glue"
  dhcp_renew :: "'l netif_out \<Rightarrow> 'l glue \<Rightarrow> int \<times> 'l glue"
  dhcp_supplied_address :: "'l \<Rightarrow> int"
  netif_dhcp_state :: "'l \<Rightarrow> u8 option"
  sys_check_timeouts :: "'l netif_out \<Rightarrow> 'l glue \<Rightarrow> 'l glue"
  on_udp_rx :: "u32 \<Rightarrow> u32 \<Rightarrow> u32 \<Rightarrow> bytes \<Rightarrow> 'l \<Rightarrow> 'l"
  on_icmp_rx :: "u32 \<Rightarrow> bytes \<Rightarrow> 'l \<Rightarrow> int \<times> 'l"
  on_dns_reply :: "u32 \<Rightarrow> u32 \<Rightarrow> 'l \<Rightarrow> 'l"

section \<open>The network interface\<close>

text \<open>
  The flags are \<open>NETIF_FLAG_BROADCAST | NETIF_FLAG_ETHARP | NETIF_FLAG_ETHERNET |
  NETIF_FLAG_LINK_UP\<close>, that is 2, 8, 16 and 4.
\<close>

definition aknet_netif_init :: "netif \<Rightarrow> int \<times> netif" where
  "aknet_netif_init n = (ERR_OK, n\<lparr>nif_name := ''ak'', nif_mtu := 1500, nif_hwaddr_len := 6,
     nif_flags := 2 OR 8 OR 16 OR 4\<rparr>)"

definition aknet_setup :: "('l, 'x) env_inet_scheme \<Rightarrow> bytes \<Rightarrow> u32 \<Rightarrow> u32 \<Rightarrow> u32 \<Rightarrow> 'l \<Rightarrow> 'l" where
  "aknet_setup e mac ip gw mtu l =
     (let l = netif_store e ((aknet_netif e l)\<lparr>nif_hwaddr := take 6 mac\<rparr>) l;
          l = netif_add e aknet_netif_init (PP_HTONL e ip) 0 (PP_HTONL e gw) l;
          l = (if mtu \<noteq> 0 then netif_store e ((aknet_netif e l)\<lparr>nif_mtu := ucast mtu\<rparr>) l else l)
      in netif_set_link_up e (netif_set_up e (netif_set_default e l)))"

definition aknet_set_addr :: "('l, 'x) env_inet_scheme \<Rightarrow> u32 \<Rightarrow> u32 \<Rightarrow> 'l \<Rightarrow> 'l" where
  "aknet_set_addr e ip gw l = netif_set_addr e (PP_HTONL e ip) None (PP_HTONL e gw) l"

definition aknet_get_addr :: "('l, 'x) env_inet_scheme \<Rightarrow> 'l \<Rightarrow> u32 \<times> u32" where
  "aknet_get_addr e l = (PP_NTOHL e (nif_ip (aknet_netif e l)), PP_NTOHL e (nif_gw (aknet_netif e l)))"

definition aknet_rx :: "('l, 'x) env_inet_scheme \<Rightarrow> bytes \<Rightarrow> u32 \<Rightarrow> 'l glue \<Rightarrow> int \<times> 'l glue" where
  "aknet_rx e frame len g =
     (let (p, l) = pbuf_alloc e PBUF_RAW (ucast len) PBUF_POOL (lw g); g = g\<lparr>lw := l\<rparr> in
      if p = 0 then (ERR_MEM, g)
      else let g = g\<lparr>lw := pbuf_take e p frame (ucast len) (lw g)\<rparr>;
               (r, g) = netif_input e (aknet_output e) p g
           in if r \<noteq> ERR_OK then (ERR_IF, g\<lparr>lw := pbuf_free e p (lw g)\<rparr>) else (ERR_OK, g))"

section \<open>UDP\<close>

definition aknet_udp_rx_cb ::
  "('l, 'x) env_inet_scheme \<Rightarrow> u32 \<Rightarrow> pbuf \<Rightarrow> u32 \<Rightarrow> u16 \<Rightarrow> 'l \<Rightarrow> 'l" where
  "aknet_udp_rx_cb e arg p addr port l =
     (if p = 0 then l
      else let n = (if unat (pbuf_tot_len e p l) < 2048 then pbuf_tot_len e p l else 2048);
               l = on_udp_rx e arg (PP_NTOHL e addr) (ucast port) (pbuf_copy_partial e p n 0 l) l
           in pbuf_free e p l)"

definition aknet_udp_new :: "('l, 'x) env_inet_scheme \<Rightarrow> u32 \<Rightarrow> 'l \<Rightarrow> pcb \<times> 'l" where
  "aknet_udp_new e sid l =
     (let (pcb, l) = udp_new e l in (pcb, if pcb \<noteq> 0 then udp_recv e pcb sid l else l))"

definition aknet_udp_bind :: "('l, 'x) env_inet_scheme \<Rightarrow> pcb \<Rightarrow> u32 \<Rightarrow> 'l \<Rightarrow> int \<times> 'l" where
  "aknet_udp_bind e pcb port l = udp_bind e pcb (ucast port) l"

definition aknet_udp_connect :: "('l, 'x) env_inet_scheme \<Rightarrow> pcb \<Rightarrow> u32 \<Rightarrow> u32 \<Rightarrow> 'l \<Rightarrow> int \<times> 'l" where
  "aknet_udp_connect e pcb ip port l = udp_connect e pcb (PP_HTONL e ip) (ucast port) l"

definition aknet_udp_send ::
  "('l, 'x) env_inet_scheme \<Rightarrow> pcb \<Rightarrow> u32 \<Rightarrow> u32 \<Rightarrow> bytes \<Rightarrow> u32 \<Rightarrow> 'l glue \<Rightarrow> int \<times> 'l glue" where
  "aknet_udp_send e pcb ip port data len g =
     (let (p, l) = pbuf_alloc e PBUF_TRANSPORT (ucast len) PBUF_RAM (lw g); g = g\<lparr>lw := l\<rparr> in
      if p = 0 then (ERR_MEM, g)
      else let g = g\<lparr>lw := pbuf_take e p data (ucast len) (lw g)\<rparr>;
               (r, g) = udp_sendto e (aknet_output e) pcb p (PP_HTONL e ip) (ucast port) g
           in (r, g\<lparr>lw := pbuf_free e p (lw g)\<rparr>))"

definition aknet_udp_del :: "('l, 'x) env_inet_scheme \<Rightarrow> pcb \<Rightarrow> 'l \<Rightarrow> 'l" where
  "aknet_udp_del e pcb l = udp_remove e pcb l"

text \<open>\<open>udp_pcbs\<close> lists each pcb's local port and whether its callback is \<open>aknet_udp_rx_cb\<close>.\<close>

definition aknet_udp_port_open :: "('l, 'x) env_inet_scheme \<Rightarrow> u32 \<Rightarrow> 'l \<Rightarrow> int" where
  "aknet_udp_port_open e port l =
     (if list_ex (\<lambda>(lp, ours). lp = ucast port \<and> \<not> ours) (udp_pcbs e l) then 1 else 0)"

section \<open>Raw ICMP\<close>

text \<open>The result: 1 when the packet is eaten.\<close>

definition aknet_raw_rx_cb :: "('l, 'x) env_inet_scheme \<Rightarrow> pbuf \<Rightarrow> u32 \<Rightarrow> 'l \<Rightarrow> int \<times> 'l" where
  "aknet_raw_rx_cb e p addr l =
     (if unat (pbuf_tot_len e p l) < 20 then (0, l)
      else let hlen = IPH_HL_BYTES e p l in
        if pbuf_tot_len e p l < hlen then (0, l)
        else let plen = pbuf_tot_len e p l - hlen;
                 n = (if unat plen < 2048 then plen else 2048);
                 (r, l) = on_icmp_rx e (PP_NTOHL e addr) (pbuf_copy_partial e p n hlen l) l
             in if r \<noteq> 0 then (1, pbuf_free e p l) else (0, l))"

definition aknet_raw_icmp_new :: "('l, 'x) env_inet_scheme \<Rightarrow> 'l \<Rightarrow> pcb \<times> 'l" where
  "aknet_raw_icmp_new e l =
     (let (pcb, l) = raw_new e l in (pcb, if pcb \<noteq> 0 then raw_recv e pcb l else l))"

definition aknet_raw_send ::
  "('l, 'x) env_inet_scheme \<Rightarrow> pcb \<Rightarrow> u32 \<Rightarrow> bytes \<Rightarrow> u32 \<Rightarrow> 'l glue \<Rightarrow> int \<times> 'l glue" where
  "aknet_raw_send e pcb ip data len g =
     (let (p, l) = pbuf_alloc e PBUF_IP (ucast len) PBUF_RAM (lw g); g = g\<lparr>lw := l\<rparr> in
      if p = 0 then (ERR_MEM, g)
      else let g = g\<lparr>lw := pbuf_take e p data (ucast len) (lw g)\<rparr>;
               (r, g) = raw_sendto e (aknet_output e) pcb p (PP_HTONL e ip) g
           in (r, g\<lparr>lw := pbuf_free e p (lw g)\<rparr>))"

section \<open>ARP, DNS, DHCP and timers\<close>

definition aknet_arp_resolved :: "('l, 'x) env_inet_scheme \<Rightarrow> u32 \<Rightarrow> 'l \<Rightarrow> int" where
  "aknet_arp_resolved e ip l =
     (case find (\<lambda>i. case etharp_get_entry e i l of None \<Rightarrow> False | Some (eip, emac) \<Rightarrow> PP_NTOHL e eip = ip)
             [0..<ARP_TABLE_SIZE e] of
        Some i \<Rightarrow> 1 | None \<Rightarrow> 0)"

text \<open>The result and, when it is 1, the address and the six bytes stored.\<close>

definition aknet_arp_get :: "('l, 'x) env_inet_scheme \<Rightarrow> u32 \<Rightarrow> 'l \<Rightarrow> int \<times> (u32 \<times> bytes) option" where
  "aknet_arp_get e i l =
     (case etharp_get_entry e (unat i) l of
        None \<Rightarrow> (0, None) | Some (eip, emac) \<Rightarrow> (1, Some (PP_NTOHL e eip, take 6 emac)))"

definition aknet_dns_found_cb :: "('l, 'x) env_inet_scheme \<Rightarrow> u32 option \<Rightarrow> u32 \<Rightarrow> 'l \<Rightarrow> 'l" where
  "aknet_dns_found_cb e ipaddr arg l =
     on_dns_reply e arg (case ipaddr of None \<Rightarrow> 0 | Some a \<Rightarrow> PP_NTOHL e a) l"

definition aknet_dns_setserver :: "('l, 'x) env_inet_scheme \<Rightarrow> u32 \<Rightarrow> 'l \<Rightarrow> 'l" where
  "aknet_dns_setserver e ip l = dns_setserver e (PP_HTONL e ip) l"

definition aknet_dns_resolve ::
  "('l, 'x) env_inet_scheme \<Rightarrow> string \<Rightarrow> u32 \<Rightarrow> 'l glue \<Rightarrow> int \<times> u32 option \<times> 'l glue" where
  "aknet_dns_resolve e name slot g =
     (let (r, addr, g) = dns_gethostbyname e (aknet_output e) name slot g in
      if r = ERR_OK then (1, Some (PP_NTOHL e addr), g)
      else if r = ERR_INPROGRESS then (0, None, g)
      else (-1, None, g))"

definition aknet_dhcp_start :: "('l, 'x) env_inet_scheme \<Rightarrow> 'l glue \<Rightarrow> int \<times> 'l glue" where
  "aknet_dhcp_start e g = (let (r, g) = dhcp_start e (aknet_output e) g in (if r = ERR_OK then 0 else -1, g))"

definition aknet_dhcp_stop :: "('l, 'x) env_inet_scheme \<Rightarrow> 'l glue \<Rightarrow> 'l glue" where
  "aknet_dhcp_stop e g = dhcp_release_and_stop e (aknet_output e) g"

definition aknet_dhcp_renew :: "('l, 'x) env_inet_scheme \<Rightarrow> 'l glue \<Rightarrow> int \<times> 'l glue" where
  "aknet_dhcp_renew e g =
     (if dhcp_supplied_address e (lw g) = 0 then (-1, g)
      else let (r, g) = dhcp_renew e (aknet_output e) g in (if r = ERR_OK then 0 else -1, g))"

definition aknet_dhcp_bound :: "('l, 'x) env_inet_scheme \<Rightarrow> 'l \<Rightarrow> int" where
  "aknet_dhcp_bound e l = dhcp_supplied_address e l"

definition aknet_dhcp_state :: "('l, 'x) env_inet_scheme \<Rightarrow> 'l \<Rightarrow> int" where
  "aknet_dhcp_state e l = (case netif_dhcp_state e l of Some s \<Rightarrow> uint s | None \<Rightarrow> 0)"

definition aknet_timeouts :: "('l, 'x) env_inet_scheme \<Rightarrow> 'l glue \<Rightarrow> 'l glue" where
  "aknet_timeouts e g = sys_check_timeouts e (aknet_output e) g"

definition aknet_pbuf_totlen :: "('l, 'x) env_scheme \<Rightarrow> pbuf \<Rightarrow> 'l \<Rightarrow> u32" where
  "aknet_pbuf_totlen e p l = ucast (pbuf_tot_len e p l)"

definition aknet_pbuf_copy :: "('l, 'x) env_scheme \<Rightarrow> pbuf \<Rightarrow> u32 \<Rightarrow> u32 \<Rightarrow> 'l \<Rightarrow> bytes" where
  "aknet_pbuf_copy e p off len l = pbuf_copy_partial e p (ucast len) (ucast off) l"

section \<open>Addresses\<close>

text \<open>
  What lwIP documents about the interface: the byte order macros undo each other; storing into the
  static structure is read back; \<open>netif_add\<close> clears flags and MTU, stores the three addresses and
  runs the init function; \<open>netif_set_addr\<close> stores the addresses, a null mask keeping the old one;
  the remaining calls change flags only.
\<close>

definition netif_contract :: "('l, 'x) env_inet_scheme \<Rightarrow> bool" where
  "netif_contract e \<longleftrightarrow>
     (\<forall>x. PP_NTOHL e (PP_HTONL e x) = x)
   \<and> (\<forall>n l. aknet_netif e (netif_store e n l) = n)
   \<and> (\<forall>init a m g l. aknet_netif e (netif_add e init a m g l) =
        snd (init ((aknet_netif e l)\<lparr>nif_flags := 0, nif_mtu := 0, nif_ip := a, nif_mask := m, nif_gw := g\<rparr>)))
   \<and> (\<forall>a m g l. aknet_netif e (netif_set_addr e a m g l) =
        (aknet_netif e l)\<lparr>nif_ip := a, nif_mask := (case m of None \<Rightarrow> nif_mask (aknet_netif e l) | Some x \<Rightarrow> x), nif_gw := g\<rparr>)
   \<and> (\<forall>f \<in> {netif_set_default e, netif_set_up e, netif_set_link_up e}. \<forall>l. \<exists>fl.
        aknet_netif e (f l) = (aknet_netif e l)\<lparr>nif_flags := fl\<rparr>)"

lemma netif_flag_calls:
  assumes "netif_contract e"
  shows "\<exists>fl. aknet_netif e (netif_set_link_up e (netif_set_up e (netif_set_default e l))) =
    (aknet_netif e l)\<lparr>nif_flags := fl\<rparr>"
proof -
  have f: "\<exists>fl. aknet_netif e (f l) = (aknet_netif e l)\<lparr>nif_flags := fl\<rparr>"
    if "f \<in> {netif_set_default e, netif_set_up e, netif_set_link_up e}" for f l
    using assms that unfolding netif_contract_def by blast
  obtain a where "aknet_netif e (netif_set_default e l) = (aknet_netif e l)\<lparr>nif_flags := a\<rparr>" using f by blast
  moreover obtain b where "aknet_netif e (netif_set_up e (netif_set_default e l)) =
      (aknet_netif e (netif_set_default e l))\<lparr>nif_flags := b\<rparr>" using f by blast
  moreover obtain c where "aknet_netif e (netif_set_link_up e (netif_set_up e (netif_set_default e l))) =
      (aknet_netif e (netif_set_up e (netif_set_default e l)))\<lparr>nif_flags := c\<rparr>" using f by blast
  ultimately show ?thesis by auto
qed

text \<open>
  After \<open>aknet_setup\<close> the interface has the given MAC address, the mask /0, the given
  MTU or 1500 when that is 0, and \<open>aknet_get_addr\<close> returns the configured addresses; it also
  returns what a later \<open>aknet_set_addr\<close> configures, which keeps the mask.
\<close>

theorem aknet_setup_addresses:
  assumes "netif_contract e" and "length mac = 6"
  shows "let l' = aknet_setup e mac ip gw mtu l in
      nif_hwaddr (aknet_netif e l') = mac \<and> nif_mask (aknet_netif e l') = 0
    \<and> nif_mtu (aknet_netif e l') = (if mtu = 0 then 1500 else ucast mtu)
    \<and> aknet_get_addr e l' = (ip, gw)
    \<and> aknet_get_addr e (aknet_set_addr e ip2 gw2 l') = (ip2, gw2)
    \<and> nif_mask (aknet_netif e (aknet_set_addr e ip2 gw2 l')) = 0"
proof -
  note c = assms(1) [unfolded netif_contract_def]
  have hton: "PP_NTOHL e (PP_HTONL e x) = x" for x using c by blast
  have store: "aknet_netif e (netif_store e n l) = n" for n l using c by blast
  have add: "aknet_netif e (netif_add e init a m g l) =
      snd (init ((aknet_netif e l)\<lparr>nif_flags := 0, nif_mtu := 0, nif_ip := a, nif_mask := m, nif_gw := g\<rparr>))"
    for init a m g l using c by blast
  have set: "aknet_netif e (netif_set_addr e a None g l) = (aknet_netif e l)\<lparr>nif_ip := a,
      nif_mask := nif_mask (aknet_netif e l), nif_gw := g\<rparr>" for a g l
    using c by simp
  define l1 where "l1 = netif_add e aknet_netif_init (PP_HTONL e ip) 0 (PP_HTONL e gw)
    (netif_store e ((aknet_netif e l)\<lparr>nif_hwaddr := take 6 mac\<rparr>) l)"
  define l2 where "l2 = (if mtu \<noteq> 0 then netif_store e ((aknet_netif e l1)\<lparr>nif_mtu := ucast mtu\<rparr>) l1 else l1)"
  have su: "aknet_setup e mac ip gw mtu l = netif_set_link_up e (netif_set_up e (netif_set_default e l2))"
    by (simp add: aknet_setup_def Let_def l1_def l2_def)
  obtain fl where fl: "aknet_netif e (aknet_setup e mac ip gw mtu l) = (aknet_netif e l2)\<lparr>nif_flags := fl\<rparr>"
    unfolding su using netif_flag_calls [OF assms(1), of l2] by blast
  have n1: "nif_hwaddr (aknet_netif e l1) = mac" "nif_mask (aknet_netif e l1) = 0"
    "nif_mtu (aknet_netif e l1) = 1500" "nif_ip (aknet_netif e l1) = PP_HTONL e ip"
    "nif_gw (aknet_netif e l1) = PP_HTONL e gw"
    using assms(2) by (simp_all add: l1_def add store aknet_netif_init_def)
  have n2: "nif_hwaddr (aknet_netif e l2) = mac" "nif_mask (aknet_netif e l2) = 0"
    "nif_mtu (aknet_netif e l2) = (if mtu = 0 then 1500 else ucast mtu)"
    "nif_ip (aknet_netif e l2) = PP_HTONL e ip" "nif_gw (aknet_netif e l2) = PP_HTONL e gw"
    using n1 by (simp_all add: l2_def store)
  show ?thesis
    using n2 by (simp add: Let_def fl aknet_get_addr_def aknet_set_addr_def set hton)
qed

section \<open>Packets\<close>

text \<open>
  A packet of at least 20 bytes whose header fits is handed to netserv without its IP
  header, at most 2048 bytes of it, and is freed exactly when netserv took it; a packet that is
  too short is left to lwIP untouched.
\<close>

theorem raw_rx_strips_header:
  assumes "\<forall>p n off l. pbuf_copy_partial e p n off l = take (unat n) (drop (unat off) (pkt l p))"
    and "\<forall>p l. length (pkt l p) = unat (pbuf_tot_len e p l)"
  shows "aknet_raw_rx_cb e p addr l =
    (let hlen = unat (IPH_HL_BYTES e p l) in
     if length (pkt l p) < 20 \<or> length (pkt l p) < hlen then (0, l)
     else let (r, l') = on_icmp_rx e (PP_NTOHL e addr) (take 2048 (drop hlen (pkt l p))) l
          in if r = 0 then (0, l') else (1, pbuf_free e p l'))"
proof -
  let ?t = "pbuf_tot_len e p l" and ?h = "IPH_HL_BYTES e p l"
  have t: "length (pkt l p) = unat ?t" using assms(2) by blast
  have body: "pbuf_copy_partial e p (if unat (?t - ?h) < 2048 then ?t - ?h else 2048) ?h l =
      take 2048 (drop (unat ?h) (pkt l p))" if "\<not> ?t < ?h"
  proof -
    have "unat (?t - ?h) = length (drop (unat ?h) (pkt l p))"
      using that t by (simp add: unat_sub not_less)
    then show ?thesis using assms(1) by auto
  qed
  show ?thesis
    using t body by (auto simp: aknet_raw_rx_cb_def Let_def word_less_nat_alt split: prod.splits)
qed

text \<open>
  \<open>aknet_arp_resolved\<close> answers 1 exactly when \<open>aknet_arp_get\<close> lists the address at some
  index of the table.
\<close>

theorem arp_resolved_iff_listed:
  assumes "ARP_TABLE_SIZE e < 2 ^ 32"
  shows "aknet_arp_resolved e ip l = 1 \<longleftrightarrow>
    (\<exists>i mac. unat i < ARP_TABLE_SIZE e \<and> aknet_arp_get e i l = (1, Some (ip, mac)))"
proof -
  let ?P = "\<lambda>i. case etharp_get_entry e i l of None \<Rightarrow> False | Some (eip, emac) \<Rightarrow> PP_NTOHL e eip = ip"
  have get: "?P (unat i) \<longleftrightarrow> (\<exists>mac. aknet_arp_get e i l = (1, Some (ip, mac)))" for i
    by (auto simp: aknet_arp_get_def split: option.splits)
  have "aknet_arp_resolved e ip l = 1 \<longleftrightarrow> (\<exists>i < ARP_TABLE_SIZE e. ?P i)"
  proof (cases "find ?P [0..<ARP_TABLE_SIZE e]")
    case None
    then have "\<forall>i < ARP_TABLE_SIZE e. \<not> ?P i"
      using find_upt_None [of ?P 0 "ARP_TABLE_SIZE e"] by blast
    then show ?thesis by (simp add: aknet_arp_resolved_def None)
  next
    case (Some i)
    then show ?thesis using find_upt_Some [OF Some] by (auto simp: aknet_arp_resolved_def)
  qed
  also have "\<dots> \<longleftrightarrow> (\<exists>i :: u32. unat i < ARP_TABLE_SIZE e \<and> ?P (unat i))"
  proof
    assume "\<exists>i < ARP_TABLE_SIZE e. ?P i"
    then obtain i where i: "i < ARP_TABLE_SIZE e" "?P i" by blast
    have "unat (word_of_nat i :: u32) = i"
      using i(1) assms by (simp add: unat_of_nat take_bit_nat_eq_self)
    with i show "\<exists>i :: u32. unat i < ARP_TABLE_SIZE e \<and> ?P (unat i)" by metis
  qed blast
  finally show ?thesis using get by blast
qed

section \<open>Every packet buffer is given back\<close>

text \<open>
  What lwIP documents about packet buffers: \<open>live\<close> is the set of allocated ones; allocation adds a
  new one, freeing removes one; the sending calls do not keep or free the buffer they are given
  and touch the adapter's state only through the output function.
\<close>

definition pbuf_contract :: "('l, 'x) env_inet_scheme \<Rightarrow> ('l \<Rightarrow> pbuf set) \<Rightarrow> bool" where
  "pbuf_contract e live \<longleftrightarrow>
     (\<forall>ly n ty l p l'. pbuf_alloc e ly n ty l = (p, l') \<longrightarrow>
        (if p = 0 then live l' = live l else p \<notin> live l \<and> live l' = insert p (live l)))
   \<and> (\<forall>p l. live (pbuf_free e p l) = live l - {p})
   \<and> (\<forall>q p l. live (pbuf_copy e q p l) = live l)
   \<and> (\<forall>p b n l. live (pbuf_take e p b n l) = live l)
   \<and> (\<forall>out p a l. live (snd (etharp_output e out p a l)) = live l)
   \<and> (\<forall>I out g. (\<forall>g l. I g \<and> live l = live (lw g) \<longrightarrow> I (g\<lparr>lw := l\<rparr>)) \<longrightarrow>
        (\<forall>p a g. I g \<longrightarrow> I (snd (out p a g))) \<longrightarrow> I g \<longrightarrow>
        (\<forall>pcb p a port. I (snd (udp_sendto e out pcb p a port g)))
      \<and> (\<forall>pcb p a. I (snd (raw_sendto e out pcb p a g))))"

lemma pbuf_contractD:
  assumes "pbuf_contract e live"
  shows "pbuf_alloc e ly n ty l = (0, l') \<Longrightarrow> live l' = live l"
    and "pbuf_alloc e ly n ty l = (p, l') \<Longrightarrow> p \<noteq> 0 \<Longrightarrow> p \<notin> live l \<and> live l' = insert p (live l)"
    and "live (pbuf_free e p l) = live l - {p}"
    and "live (pbuf_copy e q p l) = live l"
    and "live (pbuf_take e p b n l) = live l"
    and "live (snd (etharp_output e lout p a l)) = live l"
proof -
  note c = assms [unfolded pbuf_contract_def]
  note al = c [THEN conjunct1, rule_format]
  show "pbuf_alloc e ly n ty l = (0, l') \<Longrightarrow> live l' = live l" using al [of ly n ty l 0 l'] by simp
  show "pbuf_alloc e ly n ty l = (p, l') \<Longrightarrow> p \<noteq> 0 \<Longrightarrow> p \<notin> live l \<and> live l' = insert p (live l)"
    using al [of ly n ty l p l'] by simp
qed (use assms in \<open>simp_all add: pbuf_contract_def\<close>)

lemma pbuf_contract_send:
  assumes "pbuf_contract e live" "\<And>g l. I g \<Longrightarrow> live l = live (lw g) \<Longrightarrow> I (g\<lparr>lw := l\<rparr>)"
    "\<And>p a g. I g \<Longrightarrow> I (snd (out p a g))" "I g"
  shows "I (snd (udp_sendto e out pcb p a port g))" "I (snd (raw_sendto e out pcb p a g))"
proof -
  note c = assms(1) [unfolded pbuf_contract_def]
  note s = c [THEN conjunct2, THEN conjunct2, THEN conjunct2, THEN conjunct2, THEN conjunct2,
      rule_format, of I out g]
  show "I (snd (udp_sendto e out pcb p a port g))" "I (snd (raw_sendto e out pcb p a g))"
    using s assms(2-4) by blast+
qed

text \<open>The live buffers are those waiting in the queue and the set \<open>X\<close>.\<close>

definition pbuf_inv :: "('l \<Rightarrow> pbuf set) \<Rightarrow> pbuf set \<Rightarrow> 'l glue \<Rightarrow> bool" where
  "pbuf_inv live X g \<longleftrightarrow> hq_wf g \<and> live (lw g) = X \<union> set (hq_contents g) \<and> X \<inter> set (hq_contents g) = {}"

lemma pbuf_inv_lw: "pbuf_inv live X g \<Longrightarrow> live l = live (lw g) \<Longrightarrow> pbuf_inv live X (g\<lparr>lw := l\<rparr>)"
  by (simp add: pbuf_inv_def)

lemma pbuf_inv_output:
  assumes ct: "pbuf_contract e live" and g: "pbuf_inv live X g"
  shows "pbuf_inv live X (snd (aknet_output e p a g))"
proof (cases "a = netif_ip4_addr e (lw g)")
  case False
  obtain r l where eo: "etharp_output e (aknet_linkoutput e) p a (lw g) = (r, l)" by fastforce
  have "live l = live (lw g)" using pbuf_contractD(6) [OF ct, of "aknet_linkoutput e" p a "lw g"] eo by simp
  with False eo g show ?thesis by (simp add: aknet_output_def pbuf_inv_lw)
next
  case True
  obtain q l where al: "pbuf_alloc e PBUF_RAW (pbuf_tot_len e p (lw g)) PBUF_RAM (lw g) = (q, l)"
    by fastforce
  have zero: "pbuf_inv live X (g\<lparr>lw := l\<rparr>)" if "q = 0"
    using pbuf_contractD(1) [OF ct] al that g by (intro pbuf_inv_lw) auto
  let ?g = "g\<lparr>lw := pbuf_copy e q p l\<rparr>"
  have push: "pbuf_inv live X (hq_push q ?g)" if q: "q \<noteq> 0" and nf: "\<not> hq_full g"
  proof -
    have lv: "q \<notin> live (lw g)" "live (pbuf_copy e q p l) = insert q (live (lw g))"
      using pbuf_contractD(2) [OF ct al q] pbuf_contractD(4) [OF ct] by auto
    have "hq_wf ?g" "\<not> hq_full ?g" using g nf by (simp_all add: pbuf_inv_def)
    from hq.push_contents [OF this, of q] have "hq_wf (hq_push q ?g)"
      "hq_contents (hq_push q ?g) = hq_contents g @ [q]" by auto
    moreover have "lw (hq_push q ?g) = pbuf_copy e q p l" by (simp add: hq_push_def)
    ultimately show ?thesis using lv g by (auto simp: pbuf_inv_def)
  qed
  show ?thesis using True al zero push g by (simp add: aknet_output_own)
qed

text \<open>The common shape of the two datagram senders: allocate, send, free.\<close>

lemma send_balanced:
  assumes ct: "pbuf_contract e live" and g: "pbuf_inv live X g"
    and al: "pbuf_alloc e ly n ty (lw g) = (p, l)" and p: "p \<noteq> 0"
    and send: "\<And>Y. pbuf_inv live Y (g\<lparr>lw := pbuf_take e p b m l\<rparr>) \<Longrightarrow> pbuf_inv live Y g2"
  shows "pbuf_inv live X (g2\<lparr>lw := pbuf_free e p (lw g2)\<rparr>)"
proof -
  have lv: "p \<notin> live (lw g)" "live (pbuf_take e p b m l) = insert p (live (lw g))"
    using pbuf_contractD(2) [OF ct al p] pbuf_contractD(5) [OF ct] by auto
  have "pbuf_inv live (insert p X) (g\<lparr>lw := pbuf_take e p b m l\<rparr>)"
    using lv g by (auto simp: pbuf_inv_def)
  then have "pbuf_inv live (insert p X) g2" by (rule send)
  then show ?thesis
    using lv g pbuf_contractD(3) [OF ct] by (auto simp: pbuf_inv_def)
qed

text \<open>
  The datagram senders give back every packet buffer on every path. Apart from copies
  waiting in the hairpin queue, the live buffers after \<open>aknet_udp_send\<close> and \<open>aknet_raw_send\<close> are
  those before.
\<close>

theorem dgram_send_frees:
  assumes "pbuf_contract e live" and "hq_wf g" and "set (hq_contents g) \<subseteq> live (lw g)"
  shows "let g1 = snd (aknet_udp_send e pcb ip port data len g);
             g2 = snd (aknet_raw_send e pcb ip data len g)
         in live (lw g1) - set (hq_contents g1) = live (lw g) - set (hq_contents g)
          \<and> live (lw g2) - set (hq_contents g2) = live (lw g) - set (hq_contents g)
          \<and> set (hq_contents g1) \<subseteq> live (lw g1) \<and> set (hq_contents g2) \<subseteq> live (lw g2)"
proof -
  let ?X = "live (lw g) - set (hq_contents g)"
  have g: "pbuf_inv live ?X g" using assms(2,3) by (auto simp: pbuf_inv_def)
  have split: "live (lw h) - set (hq_contents h) = ?X \<and> set (hq_contents h) \<subseteq> live (lw h)"
    if "pbuf_inv live ?X h" for h using that by (auto simp: pbuf_inv_def)
  have send: "pbuf_inv live Y (snd (udp_sendto e (aknet_output e) pcb p a pt h))"
    "pbuf_inv live Y (snd (raw_sendto e (aknet_output e) pcb p a h))"
    if "pbuf_inv live Y h" for Y p a pt h
    by (rule pbuf_contract_send [OF assms(1), where I = "pbuf_inv live Y"],
        erule (1) pbuf_inv_lw, erule pbuf_inv_output [OF assms(1)], rule that)+
  have udp: "pbuf_inv live ?X (snd (aknet_udp_send e pcb ip port data len g))"
  proof -
    obtain p l where al: "pbuf_alloc e PBUF_TRANSPORT (ucast len) PBUF_RAM (lw g) = (p, l)" by fastforce
    let ?h = "g\<lparr>lw := pbuf_take e p data (ucast len) l\<rparr>"
    show ?thesis
      using al pbuf_inv_lw [OF g] pbuf_contractD(1) [OF assms(1)]
        send_balanced [OF assms(1) g al, where ?g2.0 = "snd (udp_sendto e (aknet_output e) pcb p
          (PP_HTONL e ip) (ucast port) ?h)" and b = data and m = "ucast len"] send(1)
      by (cases "p = 0") (auto simp: aknet_udp_send_def Let_def split: prod.splits)
  qed
  have raw: "pbuf_inv live ?X (snd (aknet_raw_send e pcb ip data len g))"
  proof -
    obtain p l where al: "pbuf_alloc e PBUF_IP (ucast len) PBUF_RAM (lw g) = (p, l)" by fastforce
    let ?h = "g\<lparr>lw := pbuf_take e p data (ucast len) l\<rparr>"
    show ?thesis
      using al pbuf_inv_lw [OF g] pbuf_contractD(1) [OF assms(1)]
        send_balanced [OF assms(1) g al, where ?g2.0 = "snd (raw_sendto e (aknet_output e) pcb p
          (PP_HTONL e ip) ?h)" and b = data and m = "ucast len"] send(2)
      by (cases "p = 0") (auto simp: aknet_raw_send_def Let_def split: prod.splits)
  qed
  show ?thesis using split [OF udp] split [OF raw] by (simp add: Let_def)
qed

section \<open>A small stack\<close>

text \<open>
  A concrete stack for the instances: one interface, numbered packet buffers, every packet holding
  the same 24 bytes with a 20 byte header. Sending passes the packet to the output function.
\<close>

record inet_sim =
  is_netif :: netif
  is_live :: "pbuf list"
  is_next :: u64
  is_icmp :: bytes

definition sim_packet :: bytes where
  "sim_packet = replicate 20 0 @ [8, 0, 1, 2]"

definition sim_inet :: "inet_sim env_inet" where
  "sim_inet = \<lparr>
     pbuf_alloc = (\<lambda>ly n ty l. if is_next l = 0 \<or> is_next l \<in> set (is_live l) then (0, l)
        else (is_next l, l\<lparr>is_live := is_next l # is_live l, is_next := is_next l + 1\<rparr>)),
     pbuf_free = (\<lambda>p l. l\<lparr>is_live := removeAll p (is_live l)\<rparr>),
     pbuf_copy = (\<lambda>q p l. l), pbuf_take = (\<lambda>p b n l. l),
     pbuf_tot_len = (\<lambda>p l. 24),
     pbuf_copy_partial = (\<lambda>p n off l. take (unat n) (drop (unat off) sim_packet)),
     netif_ip4_addr = (\<lambda>l. nif_ip (is_netif l)), etharp_output = (\<lambda>out p a l. (0, l)),
     ip4_input = (\<lambda>out p g. (0, g)), frame_tx = (\<lambda>b l. (0, l)),
     PP_HTONL = (\<lambda>x. x), PP_NTOHL = (\<lambda>x. x),
     aknet_netif = is_netif, netif_store = (\<lambda>n l. l\<lparr>is_netif := n\<rparr>),
     netif_add = (\<lambda>init a m g l. l\<lparr>is_netif := snd (init ((is_netif l)
        \<lparr>nif_flags := 0, nif_mtu := 0, nif_ip := a, nif_mask := m, nif_gw := g\<rparr>))\<rparr>),
     netif_set_default = (\<lambda>l. l), netif_set_up = (\<lambda>l. l), netif_set_link_up = (\<lambda>l. l),
     netif_set_addr = (\<lambda>a m g l. l\<lparr>is_netif := (is_netif l)\<lparr>nif_ip := a,
        nif_mask := (case m of None \<Rightarrow> nif_mask (is_netif l) | Some x \<Rightarrow> x), nif_gw := g\<rparr>\<rparr>),
     netif_input = (\<lambda>out p g. (0, g)),
     udp_new = (\<lambda>l. (1, l)), udp_recv = (\<lambda>p i l. l), udp_bind = (\<lambda>p n l. (0, l)),
     udp_connect = (\<lambda>p a n l. (0, l)), udp_sendto = (\<lambda>out pcb p a n g. out p a g),
     udp_remove = (\<lambda>p l. l), udp_pcbs = (\<lambda>l. [(53, False)]),
     raw_new = (\<lambda>l. (2, l)), raw_recv = (\<lambda>p l. l), raw_sendto = (\<lambda>out pcb p a g. out p a g),
     IPH_HL_BYTES = (\<lambda>p l. 20), ARP_TABLE_SIZE = 10,
     etharp_get_entry = (\<lambda>i l. if i = 3 then Some (0x0A000202, [82, 85, 10, 0, 2, 2]) else None),
     dns_setserver = (\<lambda>a l. l), dns_gethostbyname = (\<lambda>out n s g. (0, 0x0A000203, g)),
     dhcp_start = (\<lambda>out g. (0, g)), dhcp_release_and_stop = (\<lambda>out g. g), dhcp_renew = (\<lambda>out g. (0, g)),
     dhcp_supplied_address = (\<lambda>l. 0), netif_dhcp_state = (\<lambda>l. None), sys_check_timeouts = (\<lambda>out g. g),
     on_udp_rx = (\<lambda>i a p b l. l), on_icmp_rx = (\<lambda>a b l. (1, l\<lparr>is_icmp := b\<rparr>)),
     on_dns_reply = (\<lambda>s a l. l)\<rparr>"

definition sim_netif :: netif where
  "sim_netif = \<lparr>nif_name = [], nif_mtu = 0, nif_hwaddr = [], nif_hwaddr_len = 0, nif_flags = 0,
     nif_ip = 0x0A00020F, nif_mask = 0, nif_gw = 0\<rparr>"

definition sim_lw :: inet_sim where
  "sim_lw = \<lparr>is_netif = sim_netif, is_live = [], is_next = 1, is_icmp = []\<rparr>"

definition sim_glue :: "inet_sim glue" where
  "sim_glue = \<lparr>hq = replicate 16 0, hq_head = 0, hq_tail = 0, hq_draining = False,
     listen_pcbs = [], lw = sim_lw\<rparr>"

lemma sim_netif_contract: "netif_contract sim_inet"
proof -
  have "\<exists>fl. n = n\<lparr>nif_flags := fl\<rparr>" for n :: netif by (rule exI [of _ "nif_flags n"]) simp
  then show ?thesis by (simp add: netif_contract_def sim_inet_def split: option.splits)
qed

lemma sim_pbuf_contract: "pbuf_contract sim_inet (set \<circ> is_live)"
  unfolding pbuf_contract_def by (auto simp: sim_inet_def split: if_splits)

theorem aknet_setup_addresses_witness:
  "aknet_get_addr sim_inet (aknet_setup sim_inet [82, 84, 0, 18, 52, 86] 0x0A00020F 0x0A000202 1500 sim_lw)
     = (0x0A00020F, 0x0A000202)"
  using aknet_setup_addresses [OF sim_netif_contract, where mac = "[82, 84, 0, 18, 52, 86]"
      and ip = "0x0A00020F" and gw = "0x0A000202" and mtu = 1500 and l = sim_lw]
  by (simp add: Let_def)

theorem raw_rx_strips_header_witness:
  "aknet_raw_rx_cb sim_inet 1 0x0A000202 sim_lw = (1, sim_lw\<lparr>is_icmp := [8, 0, 1, 2]\<rparr>)"
proof -
  have "\<forall>p n off l. pbuf_copy_partial sim_inet p n off l = take (unat n) (drop (unat off) sim_packet)"
    "\<forall>p l. length sim_packet = unat (pbuf_tot_len sim_inet p l)"
    by (simp_all add: sim_inet_def sim_packet_def)
  from raw_rx_strips_header [where e = sim_inet and pkt = "\<lambda>l p. sim_packet" and p = 1
      and addr = "0x0A000202" and l = sim_lw, OF this] show ?thesis
    by (simp add: sim_inet_def sim_packet_def sim_lw_def)
qed

theorem arp_resolved_iff_listed_witness:
  "ARP_TABLE_SIZE sim_inet < 2 ^ 32 \<and> aknet_arp_resolved sim_inet 0x0A000202 sim_lw = 1"
proof -
  have "ARP_TABLE_SIZE sim_inet < 2 ^ 32" "unat (3 :: u32) < ARP_TABLE_SIZE sim_inet"
    "aknet_arp_get sim_inet 3 sim_lw = (1, Some (0x0A000202, [82, 85, 10, 0, 2, 2]))"
    by (simp_all add: sim_inet_def aknet_arp_get_def)
  with arp_resolved_iff_listed [where e = sim_inet and ip = "0x0A000202" and l = sim_lw]
  show ?thesis by blast
qed

theorem dgram_send_frees_witness:
  "set (is_live (lw (snd (aknet_udp_send sim_inet 1 0x0A00020F 53 [1, 2] 2 sim_glue))))
     - set (hq_contents (snd (aknet_udp_send sim_inet 1 0x0A00020F 53 [1, 2] 2 sim_glue))) = {}"
proof -
  have "hq_wf sim_glue" "hq_contents sim_glue = []" "is_live (lw sim_glue) = []"
    by (simp_all add: sim_glue_def sim_lw_def hq_wf_def hq_len_def hq_contents_def AKNET_HQ_SIZE_def)
  with dgram_send_frees [OF sim_pbuf_contract, where g = sim_glue and pcb = 1 and ip = "0x0A00020F"
      and port = 53 and data = "[1, 2]" and len = 2] show ?thesis
    by (simp add: Let_def)
qed

end
