(* ===== verification/Aknet_Tcp.thy ===== *)
theory Aknet_Tcp
  imports Aknet_Inet
begin

text \<open>
  The TCP part of \<^verbatim>\<open>aknet_glue.c\<close>: the list of listen pcbs, the callbacks lwIP makes into the
  adapter, and the calls netserv makes on stream sockets; and the build options of
  \<^verbatim>\<open>lwipopts.h\<close> that the ring geometry rests on.
\<close>

section \<open>The interface to lwIP's TCP\<close>

text \<open>
  Setting a callback takes a flag: whether the adapter's function or NULL is installed. Calls that
  can send a segment take the interface's output function.
\<close>

record 'l env_tcp = "'l env_inet" +
  tcp_new :: "'l \<Rightarrow> pcb \<times> 'l"
  tcp_arg :: "pcb \<Rightarrow> u64 \<Rightarrow> 'l \<Rightarrow> 'l"
  tcp_recv :: "pcb \<Rightarrow> bool \<Rightarrow> 'l \<Rightarrow> 'l"
  tcp_sent :: "pcb \<Rightarrow> bool \<Rightarrow> 'l \<Rightarrow> 'l"
  tcp_err :: "pcb \<Rightarrow> bool \<Rightarrow> 'l \<Rightarrow> 'l"
  tcp_accept :: "pcb \<Rightarrow> 'l \<Rightarrow> 'l"
  tcp_bind :: "pcb \<Rightarrow> u16 \<Rightarrow> 'l \<Rightarrow> int \<times> 'l"
  tcp_listen :: "pcb \<Rightarrow> 'l \<Rightarrow> pcb \<times> 'l"
  tcp_connect :: "'l netif_out \<Rightarrow> pcb \<Rightarrow> u32 \<Rightarrow> u16 \<Rightarrow> 'l glue \<Rightarrow> int \<times> 'l glue"
  tcp_write :: "pcb \<Rightarrow> bytes \<Rightarrow> u16 \<Rightarrow> 'l \<Rightarrow> int \<times> 'l"
  tcp_output :: "'l netif_out \<Rightarrow> pcb \<Rightarrow> 'l glue \<Rightarrow> int \<times> 'l glue"
  tcp_refused_data :: "pcb \<Rightarrow> 'l \<Rightarrow> pbuf"
  tcp_process_refused_data :: "'l netif_out \<Rightarrow> pcb \<Rightarrow> 'l glue \<Rightarrow> int \<times> 'l glue"
  tcp_close :: "'l netif_out \<Rightarrow> pcb \<Rightarrow> 'l glue \<Rightarrow> int \<times> 'l glue"
  tcp_abort :: "'l netif_out \<Rightarrow> pcb \<Rightarrow> 'l glue \<Rightarrow> 'l glue"
  tcp_accepted :: "pcb \<Rightarrow> 'l \<Rightarrow> 'l"
  tcp_recved :: "'l netif_out \<Rightarrow> pcb \<Rightarrow> u16 \<Rightarrow> 'l glue \<Rightarrow> 'l glue"
  tcp_pcb_state :: "pcb \<Rightarrow> 'l \<Rightarrow> int"
  tcp_pcb_remote_ip :: "pcb \<Rightarrow> 'l \<Rightarrow> u32"
  tcp_pcb_remote_port :: "pcb \<Rightarrow> 'l \<Rightarrow> u16"
  tcp_pcb_local_port :: "pcb \<Rightarrow> 'l \<Rightarrow> u16"
  malloc_listen_ent :: "'l \<Rightarrow> bool \<times> 'l"
  free_listen_ent :: "'l \<Rightarrow> 'l"
  on_tcp_accept :: "u32 \<Rightarrow> pcb \<Rightarrow> 'l \<Rightarrow> int \<times> 'l"
  on_tcp_connected :: "u32 \<Rightarrow> int \<Rightarrow> 'l \<Rightarrow> 'l"
  on_tcp_rx :: "u32 \<Rightarrow> pbuf \<Rightarrow> 'l \<Rightarrow> int \<times> 'l"
  on_tcp_eof :: "u32 \<Rightarrow> 'l \<Rightarrow> 'l"
  on_tcp_sent :: "u32 \<Rightarrow> u32 \<Rightarrow> 'l \<Rightarrow> 'l"
  on_tcp_err :: "u32 \<Rightarrow> int \<Rightarrow> 'l \<Rightarrow> 'l"

text \<open>lwIP's \<open>enum tcp_state\<close> value of a listening pcb.\<close>

abbreviation (input) LISTEN :: int where "LISTEN \<equiv> 1"

section \<open>The listen list\<close>

fun listen_find :: "u32 \<Rightarrow> (u32 \<times> pcb) list \<Rightarrow> pcb" where
  "listen_find i [] = 0"
| "listen_find i ((j, p) # es) = (if j = i then p else listen_find i es)"

definition aknet_listen_find :: "u32 \<Rightarrow> 'l glue \<Rightarrow> pcb" where
  "aknet_listen_find i g = listen_find i (listen_pcbs g)"

definition aknet_listen_add :: "('l, 'x) env_tcp_scheme \<Rightarrow> u32 \<Rightarrow> pcb \<Rightarrow> 'l glue \<Rightarrow> 'l glue" where
  "aknet_listen_add e i p g =
     (let (ok, l) = malloc_listen_ent e (lw g); g = g\<lparr>lw := l\<rparr>
      in if \<not> ok then g else g\<lparr>listen_pcbs := (i, p) # listen_pcbs g\<rparr>)"

text \<open>The entry removed by the pointer walk is the first with the id.\<close>

fun listen_del :: "u32 \<Rightarrow> (u32 \<times> pcb) list \<Rightarrow> (u32 \<times> pcb) list" where
  "listen_del i [] = []"
| "listen_del i ((j, p) # es) = (if j = i then es else (j, p) # listen_del i es)"

definition aknet_listen_del :: "('l, 'x) env_tcp_scheme \<Rightarrow> u32 \<Rightarrow> 'l glue \<Rightarrow> 'l glue" where
  "aknet_listen_del e i g =
     (if list_ex (\<lambda>(j, p). j = i) (listen_pcbs g)
      then g\<lparr>listen_pcbs := listen_del i (listen_pcbs g), lw := free_listen_ent e (lw g)\<rparr> else g)"

section \<open>Callbacks\<close>

definition aknet_tcp_set_cbs :: "('l, 'x) env_tcp_scheme \<Rightarrow> pcb \<Rightarrow> 'l \<Rightarrow> 'l" where
  "aknet_tcp_set_cbs e p l = tcp_err e p True (tcp_sent e p True (tcp_recv e p True l))"

definition aknet_tcp_accept_cb ::
  "('l, 'x) env_tcp_scheme \<Rightarrow> u32 \<Rightarrow> pcb \<Rightarrow> 'l glue \<Rightarrow> int \<times> 'l glue" where
  "aknet_tcp_accept_cb e i newpcb g =
     (let (r, l) = on_tcp_accept e i newpcb (lw g); g = g\<lparr>lw := l\<rparr> in
      if r \<noteq> 0 then (ERR_ABRT, g)
      else let lp = aknet_listen_find i g
           in (ERR_OK, if lp \<noteq> 0 then g\<lparr>lw := tcp_accepted e lp (lw g)\<rparr> else g))"

definition aknet_tcp_connected_cb ::
  "('l, 'x) env_tcp_scheme \<Rightarrow> u32 \<Rightarrow> int \<Rightarrow> 'l \<Rightarrow> int \<times> 'l" where
  "aknet_tcp_connected_cb e i err l = (ERR_OK, on_tcp_connected e i err l)"

definition aknet_tcp_rx_cb ::
  "('l, 'x) env_tcp_scheme \<Rightarrow> u32 \<Rightarrow> pcb \<Rightarrow> pbuf \<Rightarrow> 'l glue \<Rightarrow> int \<times> 'l glue" where
  "aknet_tcp_rx_cb e i tpcb p g =
     (if p = 0 then (ERR_OK, g\<lparr>lw := on_tcp_eof e i (lw g)\<rparr>)
      else let (r, l) = on_tcp_rx e i p (lw g); g = g\<lparr>lw := l\<rparr> in
        if r = 0 then (ERR_MEM, g)
        else let g = tcp_recved e (aknet_output e) tpcb (pbuf_tot_len e p (lw g)) g
             in (ERR_OK, g\<lparr>lw := pbuf_free e p (lw g)\<rparr>))"

definition aknet_tcp_sent_cb :: "('l, 'x) env_tcp_scheme \<Rightarrow> u32 \<Rightarrow> u16 \<Rightarrow> 'l \<Rightarrow> int \<times> 'l" where
  "aknet_tcp_sent_cb e i len l = (ERR_OK, on_tcp_sent e i (ucast len) l)"

definition aknet_tcp_err_cb :: "('l, 'x) env_tcp_scheme \<Rightarrow> u32 \<Rightarrow> int \<Rightarrow> 'l \<Rightarrow> 'l" where
  "aknet_tcp_err_cb e i err l = on_tcp_err e i err l"

section \<open>Calls from netserv\<close>

definition aknet_tcp_new :: "('l, 'x) env_tcp_scheme \<Rightarrow> u32 \<Rightarrow> 'l \<Rightarrow> pcb \<times> 'l" where
  "aknet_tcp_new e i l =
     (let (p, l) = tcp_new e l in (p, if p \<noteq> 0 then tcp_arg e p (ucast i) l else l))"

definition aknet_tcp_bind :: "('l, 'x) env_tcp_scheme \<Rightarrow> pcb \<Rightarrow> u32 \<Rightarrow> 'l \<Rightarrow> int \<times> 'l" where
  "aknet_tcp_bind e p port l = tcp_bind e p (ucast port) l"

text \<open>The result, \<open>*ppcb\<close> afterwards, and the state.\<close>

definition aknet_tcp_listen ::
  "('l, 'x) env_tcp_scheme \<Rightarrow> pcb \<Rightarrow> u32 \<Rightarrow> 'l glue \<Rightarrow> int \<times> pcb \<times> 'l glue" where
  "aknet_tcp_listen e ppcb i g =
     (let g = g\<lparr>lw := tcp_arg e ppcb (ucast i) (lw g)\<rparr>;
          (lp, l) = tcp_listen e ppcb (lw g);
          g = g\<lparr>lw := l\<rparr>
      in if lp = 0 then (ERR_MEM, ppcb, g)
         else let g = aknet_listen_add e i lp g
              in (0, lp, g\<lparr>lw := tcp_accept e lp (lw g)\<rparr>))"

definition aknet_tcp_attach :: "('l, 'x) env_tcp_scheme \<Rightarrow> pcb \<Rightarrow> u32 \<Rightarrow> 'l \<Rightarrow> 'l" where
  "aknet_tcp_attach e p i l = aknet_tcp_set_cbs e p (tcp_arg e p (ucast i) l)"

definition aknet_tcp_connect ::
  "('l, 'x) env_tcp_scheme \<Rightarrow> pcb \<Rightarrow> u32 \<Rightarrow> u32 \<Rightarrow> 'l glue \<Rightarrow> int \<times> 'l glue" where
  "aknet_tcp_connect e p ip port g =
     tcp_connect e (aknet_output e) p (PP_HTONL e ip) (ucast port)
       (g\<lparr>lw := aknet_tcp_set_cbs e p (lw g)\<rparr>)"

definition aknet_tcp_write :: "('l, 'x) env_tcp_scheme \<Rightarrow> pcb \<Rightarrow> bytes \<Rightarrow> u32 \<Rightarrow> 'l \<Rightarrow> int \<times> 'l" where
  "aknet_tcp_write e p data len l = tcp_write e p data (ucast len) l"

definition aknet_tcp_output :: "('l, 'x) env_tcp_scheme \<Rightarrow> pcb \<Rightarrow> 'l glue \<Rightarrow> int \<times> 'l glue" where
  "aknet_tcp_output e p g = tcp_output e (aknet_output e) p g"

definition aknet_tcp_kick :: "('l, 'x) env_tcp_scheme \<Rightarrow> pcb \<Rightarrow> 'l glue \<Rightarrow> int \<times> 'l glue" where
  "aknet_tcp_kick e p g =
     (if tcp_refused_data e p (lw g) = 0 then (0, g)
      else tcp_process_refused_data e (aknet_output e) p g)"

text \<open>The part of \<open>aknet_tcp_close\<close> before the pcb is closed.\<close>

definition aknet_tcp_detach :: "('l, 'x) env_tcp_scheme \<Rightarrow> pcb \<Rightarrow> u32 \<Rightarrow> 'l glue \<Rightarrow> 'l glue" where
  "aknet_tcp_detach e p i g =
     (let g = aknet_listen_del e i g;
          g = g\<lparr>lw := tcp_arg e p 0 (lw g)\<rparr>
      in if tcp_pcb_state e p (lw g) \<noteq> LISTEN
         then g\<lparr>lw := tcp_err e p False (tcp_sent e p False (tcp_recv e p False (lw g)))\<rparr> else g)"

definition aknet_tcp_close :: "('l, 'x) env_tcp_scheme \<Rightarrow> pcb \<Rightarrow> u32 \<Rightarrow> 'l glue \<Rightarrow> int \<times> 'l glue" where
  "aknet_tcp_close e p i g =
     (let g = aknet_tcp_detach e p i g;
          (r, g) = tcp_close e (aknet_output e) p g
      in (0, if r \<noteq> ERR_OK then tcp_abort e (aknet_output e) p g else g))"

definition aknet_tcp_state :: "('l, 'x) env_tcp_scheme \<Rightarrow> pcb \<Rightarrow> 'l \<Rightarrow> int" where
  "aknet_tcp_state e p l = tcp_pcb_state e p l"

definition aknet_tcp_peer :: "('l, 'x) env_tcp_scheme \<Rightarrow> pcb \<Rightarrow> 'l \<Rightarrow> int \<times> (u32 \<times> u16) option" where
  "aknet_tcp_peer e p l =
     (if p = 0 then (-1, None)
      else (0, Some (PP_NTOHL e (tcp_pcb_remote_ip e p l), tcp_pcb_remote_port e p l)))"

definition aknet_tcp_local_port :: "('l, 'x) env_tcp_scheme \<Rightarrow> pcb \<Rightarrow> 'l \<Rightarrow> u32" where
  "aknet_tcp_local_port e p l = ucast (tcp_pcb_local_port e p l)"

definition aknet_tcp_remote_port :: "('l, 'x) env_tcp_scheme \<Rightarrow> pcb \<Rightarrow> 'l \<Rightarrow> u32" where
  "aknet_tcp_remote_port e p l = ucast (tcp_pcb_remote_port e p l)"

definition aknet_tcp_remote_ip :: "('l, 'x) env_tcp_scheme \<Rightarrow> pcb \<Rightarrow> 'l \<Rightarrow> u32" where
  "aknet_tcp_remote_ip e p l = PP_NTOHL e (tcp_pcb_remote_ip e p l)"

section \<open>Scoped tables\<close>

text \<open>
  The interface of a table in which a binding hides older ones of the same key and removing a key
  uncovers the binding before.
\<close>

locale scoped_table =
  fixes look :: "'k \<Rightarrow> 't \<Rightarrow> 'v"
    and bnd :: "'k \<Rightarrow> 'v \<Rightarrow> 't \<Rightarrow> 't"
    and unb :: "'k \<Rightarrow> 't \<Rightarrow> 't"
  assumes look_bnd: "look k (bnd j v t) = (if j = k then v else look k t)"
    and unb_bnd: "unb k (bnd j v t) = (if j = k then t else bnd j v (unb k t))"
    and look_unb: "j \<noteq> k \<Longrightarrow> look j (unb k t) = look j t"
begin

fun bnd_all :: "('k \<times> 'v) list \<Rightarrow> 't \<Rightarrow> 't" where
  "bnd_all [] t = t"
| "bnd_all ((k, v) # kvs) t = bnd_all kvs (bnd k v t)"

lemma look_bnd_all_other: "k \<notin> fst ` set kvs \<Longrightarrow> look k (bnd_all kvs t) = look k t"
  by (induction kvs t rule: bnd_all.induct) (auto simp: look_bnd)

lemma unb_bnd_all: "k \<notin> fst ` set kvs \<Longrightarrow> unb k (bnd_all kvs (bnd k v t)) = bnd_all kvs t"
proof (induction kvs arbitrary: t rule: rev_induct)
  case Nil
  then show ?case by (simp add: unb_bnd)
next
  case (snoc x xs)
  have app: "bnd_all (xs @ [y]) u = bnd (fst y) (snd y) (bnd_all xs u)" for y u
    by (induction xs u rule: bnd_all.induct) (auto split: prod.splits, cases y, simp)
  show ?case using snoc by (auto simp: app unb_bnd)
qed

text \<open>A binding made before others of different keys is undone without a trace.\<close>

lemma bracket: "k \<notin> fst ` set kvs \<Longrightarrow> look k (bnd_all kvs (bnd k v t)) = v
    \<and> unb k (bnd_all kvs (bnd k v t)) = bnd_all kvs t"
  by (simp add: look_bnd_all_other look_bnd unb_bnd_all)

end

interpretation lt: scoped_table listen_find "\<lambda>i p es. (i, p) # es" listen_del
proof
  show "j \<noteq> k \<Longrightarrow> listen_find j (listen_del k t) = listen_find j t" for j k t
    by (induction k t rule: listen_del.induct) auto
qed simp_all

lemma listen_del_absent: "i \<notin> fst ` set es \<Longrightarrow> listen_del i es = es \<and> listen_find i es = 0"
  by (induction i es rule: listen_del.induct) auto

lemma aknet_listen_del_list: "listen_pcbs (aknet_listen_del e i g) = listen_del i (listen_pcbs g)"
proof (cases "i \<in> fst ` set (listen_pcbs g)")
  case True
  then show ?thesis by (auto simp: aknet_listen_del_def list_ex_iff)
next
  case False
  then have "\<not> list_ex (\<lambda>(j, p). j = i) (listen_pcbs g)" by (force simp: list_ex_iff)
  with listen_del_absent [OF False] show ?thesis by (simp add: aknet_listen_del_def)
qed

section \<open>Listening and closing\<close>

text \<open>
  The calls of lwIP used by closing touch the adapter's state only through the output function.
\<close>

definition tcp_frame :: "('l, 'x) env_tcp_scheme \<Rightarrow> bool" where
  "tcp_frame e \<longleftrightarrow> (\<forall>I out p g. (\<forall>g l. I g \<longrightarrow> I (g\<lparr>lw := l\<rparr>)) \<longrightarrow> (\<forall>p a g. I g \<longrightarrow> I (snd (out p a g))) \<longrightarrow>
      I g \<longrightarrow> I (snd (tcp_close e out p g)) \<and> I (tcp_abort e out p g))"

lemma aknet_output_listen: "listen_pcbs (snd (aknet_output e p a g)) = listen_pcbs g"
  by (simp add: aknet_output_def Let_def split: prod.splits)

lemma tcp_frame_listen:
  assumes "tcp_frame e"
  shows "listen_pcbs (snd (tcp_close e (aknet_output e) p g)) = listen_pcbs g"
    and "listen_pcbs (tcp_abort e (aknet_output e) p g) = listen_pcbs g"
  using assms [unfolded tcp_frame_def, rule_format, of "\<lambda>x. listen_pcbs x = listen_pcbs g" "aknet_output e" g p]
  by (simp_all add: aknet_output_listen)

lemma aknet_tcp_close_list:
  assumes "tcp_frame e"
  shows "listen_pcbs (snd (aknet_tcp_close e p i g)) = listen_del i (listen_pcbs g)"
proof -
  let ?g = "aknet_tcp_detach e p i g"
  obtain r h where c: "tcp_close e (aknet_output e) p ?g = (r, h)" by fastforce
  have "listen_pcbs ?g = listen_del i (listen_pcbs g)"
    by (simp add: aknet_tcp_detach_def Let_def aknet_listen_del_list)
  moreover have "listen_pcbs h = listen_pcbs ?g" using tcp_frame_listen(1) [OF assms, of p ?g] c by simp
  ultimately show ?thesis
    using c tcp_frame_listen(2) [OF assms, of p h] by (simp add: aknet_tcp_close_def)
qed

lemma listen_skip:
  "i \<notin> fst ` set ys \<Longrightarrow> listen_find i (ys @ es) = listen_find i es \<and> listen_del i (ys @ es) = ys @ listen_del i es"
  by (induction ys) auto

lemma aknet_tcp_listen_result:
  assumes "tcp_listen e p (tcp_arg e p (ucast i) (lw g)) = (lp, l1)" and "malloc_listen_ent e l1 = (ok, l2)"
  shows "aknet_tcp_listen e p i g = (if lp = 0 then (-1, p, g\<lparr>lw := l1\<rparr>)
    else (0, lp, g\<lparr>lw := tcp_accept e lp l2, listen_pcbs := (if ok then [(i, lp)] else []) @ listen_pcbs g\<rparr>))"
  using assms by (simp add: aknet_tcp_listen_def aknet_listen_add_def Let_def)

text \<open>
  Property C30: the life of a listener, for an id that has no entry in the list. When lwIP gives no listen pcb,
  \<open>aknet_tcp_listen\<close> returns \<open>ERR_MEM\<close> and the list is unchanged. Otherwise it returns the listen pcb, the accept
  callback is installed on it and its entry joins the list, unless \<open>malloc\<close> fails, which leaves the list as it is. From then on,
  whatever entries of other ids join the list and whatever happens to the rest of the state, the accept callback refuses a
  connection that netserv refuses, and answers one that netserv takes with \<open>ERR_OK\<close>, after telling lwIP against
  exactly that pcb, or, without an entry, nothing; and \<open>aknet_tcp_close\<close> leaves the list with the other entries only.
\<close>

theorem tcp_listen_accept_close:
  assumes "tcp_frame e" and "i \<notin> fst ` set (listen_pcbs g)"
    and "tcp_listen e p (tcp_arg e p (ucast i) (lw g)) = (lp, l1)" and "malloc_listen_ent e l1 = (ok, l2)"
    and "g1 = g\<lparr>lw := tcp_accept e lp l2, listen_pcbs := (if ok then [(i, lp)] else []) @ listen_pcbs g\<rparr>"
  shows "aknet_tcp_listen e p i g = (if lp = 0 then (-1, p, g\<lparr>lw := l1\<rparr>) else (0, lp, g1)) \<and>
    (\<forall>g2 ys newpcb r l. lp \<noteq> 0 \<and> listen_pcbs g2 = ys @ listen_pcbs g1 \<and> i \<notin> fst ` set ys \<and>
        on_tcp_accept e i newpcb (lw g2) = (r, l) \<longrightarrow>
      aknet_tcp_accept_cb e i newpcb g2 =
        (if r \<noteq> 0 then (-13, g2\<lparr>lw := l\<rparr>) else (0, g2\<lparr>lw := if ok then tcp_accepted e lp l else l\<rparr>)) \<and>
      listen_pcbs (snd (aknet_tcp_close e lp i g2)) = ys @ listen_pcbs g)"
proof (intro conjI allI impI)
  show "aknet_tcp_listen e p i g = (if lp = 0 then (-1, p, g\<lparr>lw := l1\<rparr>) else (0, lp, g1))"
    using aknet_tcp_listen_result [OF assms(3,4)] assms(5) by simp
  fix g2 :: "'a glue" and ys newpcb r l
  assume a: "lp \<noteq> 0 \<and> listen_pcbs g2 = ys @ listen_pcbs g1 \<and> i \<notin> fst ` set ys \<and> on_tcp_accept e i newpcb (lw g2) = (r, l)"
  note old = listen_del_absent [OF assms(2)]
  have list: "listen_find i (listen_pcbs g2) = (if ok then lp else 0)" "listen_del i (listen_pcbs g2) = ys @ listen_pcbs g"
    using a listen_skip [of i ys "listen_pcbs g1"] old assms(5) by simp_all
  show "aknet_tcp_accept_cb e i newpcb g2 =
      (if r \<noteq> 0 then (-13, g2\<lparr>lw := l\<rparr>) else (0, g2\<lparr>lw := if ok then tcp_accepted e lp l else l\<rparr>))"
    using a list(1) by (simp add: aknet_tcp_accept_cb_def aknet_listen_find_def)
  show "listen_pcbs (snd (aknet_tcp_close e lp i g2)) = ys @ listen_pcbs g"
    using aknet_tcp_close_list [OF assms(1), of lp i g2] list(2) by simp
qed

text \<open>The calls a close makes on a pcb, in order.\<close>

datatype tcp_event = EvArg u64 | EvRecv bool | EvSent bool | EvErr bool | EvClose | EvAbort

definition event_contract :: "('l, 'x) env_tcp_scheme \<Rightarrow> (pcb \<Rightarrow> 'l \<Rightarrow> tcp_event list) \<Rightarrow> bool" where
  "event_contract e ev \<longleftrightarrow>
     (\<forall>p a l. ev p (tcp_arg e p a l) = ev p l @ [EvArg a] \<and> tcp_pcb_state e p (tcp_arg e p a l) = tcp_pcb_state e p l)
   \<and> (\<forall>p b l. ev p (tcp_recv e p b l) = ev p l @ [EvRecv b])
   \<and> (\<forall>p b l. ev p (tcp_sent e p b l) = ev p l @ [EvSent b])
   \<and> (\<forall>p b l. ev p (tcp_err e p b l) = ev p l @ [EvErr b])
   \<and> (\<forall>p g. ev p (lw (snd (tcp_close e (aknet_output e) p g))) = ev p (lw g) @ [EvClose])
   \<and> (\<forall>p g. ev p (lw (tcp_abort e (aknet_output e) p g)) = ev p (lw g) @ [EvAbort])
   \<and> (\<forall>p l. ev p (free_listen_ent e l) = ev p l \<and> tcp_pcb_state e p (free_listen_ent e l) = tcp_pcb_state e p l)"

text \<open>
  \<open>aknet_tcp_close\<close> clears the argument and every callback of the pcb before it closes
  it, never sets a callback on a listening pcb, and aborts exactly when the close is refused.
\<close>

theorem tcp_close_order:
  assumes "event_contract e ev"
  shows "\<exists>tail. (tail = [] \<or> tail = [EvAbort])
    \<and> ev p (lw (snd (aknet_tcp_close e p i g))) = ev p (lw g) @ [EvArg 0]
        @ (if tcp_pcb_state e p (lw g) = 1 then [] else [EvRecv False, EvSent False, EvErr False])
        @ [EvClose] @ tail"
proof -
  note c = assms [unfolded event_contract_def]
  have arg: "ev p (tcp_arg e p a l) = ev p l @ [EvArg a]" "tcp_pcb_state e p (tcp_arg e p a l) = tcp_pcb_state e p l"
    and cbs: "ev p (tcp_recv e p b l) = ev p l @ [EvRecv b]" "ev p (tcp_sent e p b l) = ev p l @ [EvSent b]"
      "ev p (tcp_err e p b l) = ev p l @ [EvErr b]"
    and cls: "ev p (lw (snd (tcp_close e (aknet_output e) p h))) = ev p (lw h) @ [EvClose]"
      "ev p (lw (tcp_abort e (aknet_output e) p h)) = ev p (lw h) @ [EvAbort]"
    and fre: "ev p (free_listen_ent e l) = ev p l" "tcp_pcb_state e p (free_listen_ent e l) = tcp_pcb_state e p l"
    for a b l h using c by blast+
  let ?g = "aknet_tcp_detach e p i g"
  have 1: "ev p (lw (aknet_listen_del e i g)) = ev p (lw g)"
    "tcp_pcb_state e p (lw (aknet_listen_del e i g)) = tcp_pcb_state e p (lw g)"
    by (simp_all add: aknet_listen_del_def fre)
  have 2: "ev p (lw ?g) = ev p (lw g) @ [EvArg 0]
      @ (if tcp_pcb_state e p (lw g) = 1 then [] else [EvRecv False, EvSent False, EvErr False])"
    using 1 by (simp add: aknet_tcp_detach_def Let_def arg cbs)
  obtain r h where t: "tcp_close e (aknet_output e) p ?g = (r, h)" by fastforce
  have "ev p (lw h) = ev p (lw ?g) @ [EvClose]" using cls(1) [of ?g] t by simp
  then have "ev p (lw (snd (aknet_tcp_close e p i g))) =
      ev p (lw ?g) @ [EvClose] @ (if r \<noteq> 0 then [EvAbort] else [])"
    using cls(2) [of h] t by (simp add: aknet_tcp_close_def)
  then show ?thesis using 2 by (intro exI [of _ "if r \<noteq> 0 then [EvAbort] else []"]) simp
qed

section \<open>Receiving\<close>

text \<open>
  Opening the window touches the adapter's state only through the output function, and netserv
  neither frees nor allocates packet buffers when it copies a chain into a ring.
\<close>

definition rx_contract :: "('l, 'x) env_tcp_scheme \<Rightarrow> ('l \<Rightarrow> pbuf set) \<Rightarrow> bool" where
  "rx_contract e live \<longleftrightarrow>
     (\<forall>i p l. live (snd (on_tcp_rx e i p l)) = live l)
   \<and> (\<forall>I out p n g. (\<forall>g l. I g \<and> live l = live (lw g) \<longrightarrow> I (g\<lparr>lw := l\<rparr>)) \<longrightarrow>
        (\<forall>p a g. I g \<longrightarrow> I (snd (out p a g))) \<longrightarrow> I g \<longrightarrow> I (tcp_recved e out p n g))"

lemma rx_contract_recved:
  assumes "rx_contract e live" "\<And>g l. I g \<Longrightarrow> live l = live (lw g) \<Longrightarrow> I (g\<lparr>lw := l\<rparr>)"
    "\<And>p a g. I g \<Longrightarrow> I (snd (out p a g))" "I g"
  shows "I (tcp_recved e out p n g)"
  using assms(1) [unfolded rx_contract_def, THEN conjunct2, rule_format, of I out g p n] assms(2-4)
  by blast

text \<open>
  The receive callback takes ownership of a chain exactly when netserv stored it whole:
  it then frees it and returns \<open>ERR_OK\<close>; otherwise it returns \<open>ERR_MEM\<close> and the chain stays live for
  lwIP to deliver again. No other buffer changes hands, copies in the hairpin queue apart.
\<close>

theorem tcp_rx_ownership:
  assumes "pbuf_contract e live" and "rx_contract e live" and "hq_wf g"
    and "set (hq_contents g) \<subseteq> live (lw g)" and "p \<noteq> 0" and "p \<in> live (lw g) - set (hq_contents g)"
    and "aknet_tcp_rx_cb e i tpcb p g = (r, g')"
  shows "(r = 0 \<and> fst (on_tcp_rx e i p (lw g)) \<noteq> 0
        \<and> live (lw g') - set (hq_contents g') = live (lw g) - set (hq_contents g) - {p})
    \<or> (r = -1 \<and> fst (on_tcp_rx e i p (lw g)) = 0
        \<and> live (lw g') - set (hq_contents g') = live (lw g) - set (hq_contents g) \<and> hq_contents g' = hq_contents g)"
proof -
  let ?X = "live (lw g) - set (hq_contents g)"
  obtain q l where rx: "on_tcp_rx e i p (lw g) = (q, l)" by fastforce
  have live: "live l = live (lw g)"
    using assms(2) [unfolded rx_contract_def, THEN conjunct1, rule_format, of i p "lw g"] rx by simp
  have g: "pbuf_inv live ?X (g\<lparr>lw := l\<rparr>)" using assms(3,4) live by (auto simp: pbuf_inv_def)
  show ?thesis
  proof (cases "q = 0")
    case True
    have "r = -1 \<and> g' = g\<lparr>lw := l\<rparr>"
      using assms(7) unfolding aknet_tcp_rx_cb_def using assms(5) rx True by simp
    with rx live True show ?thesis by simp
  next
    case False
    define h where "h = tcp_recved e (aknet_output e) tpcb (pbuf_tot_len e p l) (g\<lparr>lw := l\<rparr>)"
    have h: "pbuf_inv live ?X h"
      unfolding h_def
      by (rule rx_contract_recved [OF assms(2), where I = "pbuf_inv live ?X"],
          erule (1) pbuf_inv_lw, erule pbuf_inv_output [OF assms(1)], rule g)
    have "live (lw h) - set (hq_contents h) = ?X" using h by (auto simp: pbuf_inv_def)
    then have "live (lw h) - {p} - set (hq_contents h) = ?X - {p}" by blast
    moreover have "g' = h\<lparr>lw := pbuf_free e p (lw h)\<rparr>" "r = 0"
      using assms(5,7) rx False by (auto simp: aknet_tcp_rx_cb_def h_def Let_def)
    ultimately show ?thesis using rx False pbuf_contractD(3) [OF assms(1)] by simp
  qed
qed

section \<open>Instances\<close>

text \<open>A TCP on top of the small stack: it counts nothing and accepts everything.\<close>

definition sim_tcp_env :: "inet_sim env_tcp" where
  "sim_tcp_env = env_inet.extend sim_inet (env_tcp.fields
     (\<lambda>l. (7, l)) (\<lambda>p a l. l) (\<lambda>p b l. l) (\<lambda>p b l. l) (\<lambda>p b l. l) (\<lambda>p l. l)
     (\<lambda>p n l. (0, l)) (\<lambda>p l. (p + 1, l)) (\<lambda>out p a n g. (0, g)) (\<lambda>p b n l. (0, l))
     (\<lambda>out p g. (0, g)) (\<lambda>p l. 0) (\<lambda>out p g. (0, g)) (\<lambda>out p g. (0, g)) (\<lambda>out p g. g)
     (\<lambda>p l. l) (\<lambda>out p n g. g) (\<lambda>p l. 4) (\<lambda>p l. 0x0A000202) (\<lambda>p l. 40000) (\<lambda>p l. 80)
     (\<lambda>l. (True, l)) (\<lambda>l. l)
     (\<lambda>i p l. (0, l)) (\<lambda>i r l. l) (\<lambda>i p l. (1, l)) (\<lambda>i l. l) (\<lambda>i n l. l) (\<lambda>i r l. l))"

lemmas sim_tcp_simps = sim_tcp_env_def sim_inet_def env_inet.defs env_tcp.defs

lemma sim_tcp_pbuf_contract: "pbuf_contract sim_tcp_env (set \<circ> is_live)"
  unfolding pbuf_contract_def by (auto simp: sim_tcp_simps split: if_splits)

theorem tcp_listen_accept_close_witness:
  "aknet_tcp_listen sim_tcp_env 7 5 sim_glue = (0, 8, sim_glue\<lparr>listen_pcbs := [(5, 8)]\<rparr>)
   \<and> aknet_tcp_accept_cb sim_tcp_env 5 9 (sim_glue\<lparr>listen_pcbs := [(6, 4), (5, 8)]\<rparr>)
       = (0, sim_glue\<lparr>listen_pcbs := [(6, 4), (5, 8)]\<rparr>)
   \<and> listen_pcbs (snd (aknet_tcp_close sim_tcp_env 8 5 (sim_glue\<lparr>listen_pcbs := [(6, 4), (5, 8)]\<rparr>))) = [(6, 4)]"
proof -
  have f: "tcp_frame sim_tcp_env" by (simp add: tcp_frame_def sim_tcp_simps)
  have n: "5 \<notin> fst ` set (listen_pcbs sim_glue)" "listen_pcbs sim_glue = []" by (simp_all add: sim_glue_def)
  have t: "tcp_listen sim_tcp_env 7 (tcp_arg sim_tcp_env 7 (ucast (5 :: u32)) (lw sim_glue)) = (8, lw sim_glue)"
      "malloc_listen_ent sim_tcp_env (lw sim_glue) = (True, lw sim_glue)" by (simp_all add: sim_tcp_simps)
  let ?g1 = "sim_glue\<lparr>lw := tcp_accept sim_tcp_env 8 (lw sim_glue), listen_pcbs := (if True then [(5, 8)] else []) @ listen_pcbs sim_glue\<rparr>"
  let ?g2 = "sim_glue\<lparr>listen_pcbs := [(6, 4), (5, 8)]\<rparr>"
  note R = tcp_listen_accept_close [OF f n(1) t refl]
  have g1: "?g1 = sim_glue\<lparr>listen_pcbs := [(5, 8)]\<rparr>" using n(2) by (simp add: sim_tcp_simps)
  have "listen_pcbs ?g2 = [(6, 4)] @ listen_pcbs ?g1" "on_tcp_accept sim_tcp_env 5 9 (lw ?g2) = (0, lw ?g2)"
    using n(2) by (simp_all add: sim_tcp_simps)
  then have "aknet_tcp_accept_cb sim_tcp_env 5 9 ?g2 = (0, ?g2\<lparr>lw := tcp_accepted sim_tcp_env 8 (lw ?g2)\<rparr>) \<and>
      listen_pcbs (snd (aknet_tcp_close sim_tcp_env 8 5 ?g2)) = [(6, 4)] @ listen_pcbs sim_glue"
    using conjunct2 [OF R, rule_format, of ?g2 "[(6, 4)]" 9 0 "lw ?g2"] by simp
  then show ?thesis using conjunct1 [OF R] g1 n(2) by (simp add: sim_tcp_simps)
qed

text \<open>A TCP that records the calls made on each pcb.\<close>

definition trace_tcp_env :: "(pcb \<times> tcp_event) list env_tcp" where
  "trace_tcp_env = env_inet.extend
     (env.extend \<lparr>pbuf_alloc = (\<lambda>ly n ty l. (0, l)), pbuf_free = (\<lambda>p l. l), pbuf_copy = (\<lambda>q p l. l),
        pbuf_take = (\<lambda>p b n l. l), pbuf_tot_len = (\<lambda>p l. 0), pbuf_copy_partial = (\<lambda>p n off l. []),
        netif_ip4_addr = (\<lambda>l. 0), etharp_output = (\<lambda>out p a l. (0, l)), ip4_input = (\<lambda>out p g. (0, g)),
        frame_tx = (\<lambda>b l. (0, l))\<rparr>
      (env_inet.fields (\<lambda>x. x) (\<lambda>x. x) (\<lambda>l. sim_netif) (\<lambda>n l. l) (\<lambda>f a m g l. l) (\<lambda>l. l) (\<lambda>l. l) (\<lambda>l. l)
        (\<lambda>a m g l. l) (\<lambda>out p g. (0, g)) (\<lambda>l. (0, l)) (\<lambda>p i l. l) (\<lambda>p n l. (0, l)) (\<lambda>p a n l. (0, l))
        (\<lambda>out pcb p a n g. (0, g)) (\<lambda>p l. l) (\<lambda>l. []) (\<lambda>l. (0, l)) (\<lambda>p l. l) (\<lambda>out pcb p a g. (0, g))
        (\<lambda>p l. 20) 0 (\<lambda>i l. None) (\<lambda>a l. l) (\<lambda>out n s g. (0, 0, g)) (\<lambda>out g. (0, g)) (\<lambda>out g. g)
        (\<lambda>out g. (0, g)) (\<lambda>l. 0) (\<lambda>l. None) (\<lambda>out g. g) (\<lambda>i a p b l. l) (\<lambda>a b l. (0, l)) (\<lambda>s a l. l)))
     (env_tcp.fields
      (\<lambda>l. (7, l)) (\<lambda>p a l. l @ [(p, EvArg a)]) (\<lambda>p b l. l @ [(p, EvRecv b)]) (\<lambda>p b l. l @ [(p, EvSent b)])
      (\<lambda>p b l. l @ [(p, EvErr b)]) (\<lambda>p l. l)
      (\<lambda>p n l. (0, l)) (\<lambda>p l. (p + 1, l)) (\<lambda>out p a n g. (0, g)) (\<lambda>p b n l. (0, l))
      (\<lambda>out p g. (0, g)) (\<lambda>p l. 0) (\<lambda>out p g. (0, g))
      (\<lambda>out p g. (-1, g\<lparr>lw := lw g @ [(p, EvClose)]\<rparr>)) (\<lambda>out p g. g\<lparr>lw := lw g @ [(p, EvAbort)]\<rparr>)
      (\<lambda>p l. l) (\<lambda>out p n g. g) (\<lambda>p l. if p = 8 then 1 else 4) (\<lambda>p l. 0) (\<lambda>p l. 0) (\<lambda>p l. 0)
      (\<lambda>l. (True, l)) (\<lambda>l. l)
      (\<lambda>i p l. (0, l)) (\<lambda>i r l. l) (\<lambda>i p l. (1, l)) (\<lambda>i l. l) (\<lambda>i n l. l) (\<lambda>i r l. l))"

definition pcb_events :: "pcb \<Rightarrow> (pcb \<times> tcp_event) list \<Rightarrow> tcp_event list" where
  "pcb_events p l = map snd (filter (\<lambda>x. fst x = p) l)"

lemma trace_event_contract: "event_contract trace_tcp_env pcb_events"
  by (simp add: event_contract_def pcb_events_def trace_tcp_env_def env.defs env_inet.defs env_tcp.defs)

theorem tcp_close_order_witness:
  "\<exists>tail. pcb_events 9 (lw (snd (aknet_tcp_close trace_tcp_env 9 5
      \<lparr>hq = [], hq_head = 0, hq_tail = 0, hq_draining = False, listen_pcbs = [], lw = []\<rparr>))) =
     [EvArg 0, EvRecv False, EvSent False, EvErr False, EvClose] @ tail"
  using tcp_close_order [OF trace_event_contract, of 9 5
      "\<lparr>hq = [], hq_head = 0, hq_tail = 0, hq_draining = False, listen_pcbs = [], lw = []\<rparr>"]
  by (auto simp: pcb_events_def trace_tcp_env_def env.defs env_inet.defs env_tcp.defs)

theorem tcp_rx_ownership_witness:
  "set (is_live (lw (snd (aknet_tcp_rx_cb sim_tcp_env 5 7 3 (sim_glue\<lparr>lw := sim_lw\<lparr>is_live := [3]\<rparr>\<rparr>))))) = {}"
proof -
  let ?g = "sim_glue\<lparr>lw := sim_lw\<lparr>is_live := [3]\<rparr>\<rparr>"
  have wf: "hq_wf ?g" "hq_contents ?g = []"
    by (simp_all add: sim_glue_def hq_wf_def hq_len_def hq_contents_def AKNET_HQ_SIZE_def)
  have rx: "rx_contract sim_tcp_env (set \<circ> is_live)" by (simp add: rx_contract_def sim_tcp_simps)
  obtain r g' where c: "aknet_tcp_rx_cb sim_tcp_env 5 7 3 ?g = (r, g')" by fastforce
  have one: "fst (on_tcp_rx sim_tcp_env 5 3 (lw ?g)) \<noteq> 0" by (simp add: sim_tcp_simps)
  have "hq_contents g' = []" using c wf by (auto simp: aknet_tcp_rx_cb_def sim_tcp_simps Let_def)
  with tcp_rx_ownership [OF sim_tcp_pbuf_contract rx wf(1) _ _ _ c] wf(2) one show ?thesis
    by (auto simp: c)
qed

end
