(* ===== verification/Unwind_Pe.thy ===== *)
theory Unwind_Pe
  imports Aegir_Prelude "HOL-Library.Monad_Syntax"
begin

text \<open>
  The pointer encodings of exception tables (\<^verbatim>\<open>unwind-pe.h\<close>): the LEB128 readers and the encoded
  value reader. Memory is a function from addresses to bytes; a reader returns the value and the
  address behind it, and \<open>None\<close> when it calls \<open>abort\<close> or never returns. The LEB128 readers are
  shown to invert the standard encoders on every 64-bit value.
\<close>

section \<open>Memory\<close>

type_synonym mem = "u64 \<Rightarrow> u8"

text \<open>Little-endian loads of riscv64.\<close>

definition load16 :: "mem \<Rightarrow> u64 \<Rightarrow> u16" where
  "load16 m p = ucast (m p) OR push_bit 8 (ucast (m (p + 1)))"

definition load32 :: "mem \<Rightarrow> u64 \<Rightarrow> u32" where
  "load32 m p = ucast (load16 m p) OR push_bit 16 (ucast (load16 m (p + 2)))"

definition load64 :: "mem \<Rightarrow> u64 \<Rightarrow> u64" where
  "load64 m p = ucast (load32 m p) OR push_bit 32 (ucast (load32 m (p + 4)))"

section \<open>LEB128\<close>

text \<open>
  The \<open>do ... while\<close> of both readers: the last byte, the final shift, the bits collected and the
  address behind. The shift of the C code is only defined below the width of the result; like
  the target's tables, the theorems use encodings of 64-bit values.
\<close>

partial_function (option) leb_loop :: "mem \<Rightarrow> u64 \<Rightarrow> nat \<Rightarrow> u64 \<Rightarrow> (u8 \<times> nat \<times> u64 \<times> u64) option" where
  "leb_loop m p shift result =
     (let byte = m p; p = p + 1;
          result = result OR push_bit shift (ucast byte AND 0x7f);
          shift = shift + 7
      in if byte AND 0x80 \<noteq> 0 then leb_loop m p shift result else Some (byte, shift, result, p))"

declare leb_loop.simps [code]

definition read_uleb128 :: "mem \<Rightarrow> u64 \<Rightarrow> (u64 \<times> u64) option" where
  "read_uleb128 m p = map_option (\<lambda>(byte, shift, result, p). (result, p)) (leb_loop m p 0 0)"

definition read_sleb128 :: "mem \<Rightarrow> u64 \<Rightarrow> (u64 \<times> u64) option" where
  "read_sleb128 m p = map_option (\<lambda>(byte, shift, result, p).
     (if shift < 64 \<and> byte AND 0x40 \<noteq> 0 then result OR - push_bit shift 1 else result, p)) (leb_loop m p 0 0)"

section \<open>Encoded values\<close>

abbreviation (input) DW_EH_PE_omit :: u8 where "DW_EH_PE_omit \<equiv> 0xff"

definition size_of_encoded_value :: "u8 \<Rightarrow> u64 option" where
  "size_of_encoded_value encoding =
     (if encoding = DW_EH_PE_omit then Some 0
      else let k = encoding AND 0x07 in
        if k = 0 then Some 8 else if k = 2 then Some 2 else if k = 3 then Some 4
        else if k = 4 then Some 8 else None)"

text \<open>What the unwinder's accessors return for a context; \<open>None\<close> stands for a null context.\<close>

record unwind_context =
  uw_lsda :: u64
  uw_region_start :: u64
  uw_text_base :: u64
  uw_data_base :: u64
  uw_ip :: u64
  uw_ip_before_insn :: bool
  uw_gr0 :: u64
  uw_gr1 :: u64

definition base_of_encoded_value :: "u8 \<Rightarrow> unwind_context option \<Rightarrow> u64 option" where
  "base_of_encoded_value encoding ctx =
     (if encoding = DW_EH_PE_omit then Some 0
      else let k = encoding AND 0x70 in
        if k = 0 \<or> k = 0x10 \<or> k = 0x50 then Some 0
        else if k = 0x20 then map_option uw_text_base ctx
        else if k = 0x30 then map_option uw_data_base ctx
        else if k = 0x40 then map_option uw_region_start ctx
        else None)"

text \<open>The \<open>switch\<close> on the format: value and address behind it.\<close>

definition read_format :: "u8 \<Rightarrow> mem \<Rightarrow> u64 \<Rightarrow> (u64 \<times> u64) option" where
  "read_format encoding m p =
     (let k = encoding AND 0x0f in
      if k = 0 then Some (load64 m p, p + 8)
      else if k = 1 then read_uleb128 m p
      else if k = 9 then read_sleb128 m p
      else if k = 2 then Some (ucast (load16 m p), p + 2)
      else if k = 3 then Some (ucast (load32 m p), p + 4)
      else if k = 4 then Some (load64 m p, p + 8)
      else if k = 10 then Some (scast (load16 m p), p + 2)
      else if k = 11 then Some (scast (load32 m p), p + 4)
      else if k = 12 then Some (load64 m p, p + 8)
      else None)"

definition read_encoded_value_with_base ::
  "mem \<Rightarrow> u8 \<Rightarrow> u64 \<Rightarrow> u64 \<Rightarrow> (u64 \<times> u64) option" where
  "read_encoded_value_with_base m encoding base p =
     (if encoding = 0x50
      then let a = (p + 8 - 1) AND - 8 in Some (load64 m a, a + 8)
      else do {
        (result, p') \<leftarrow> read_format encoding m p;
        let result =
          (if result \<noteq> 0
           then let r = result + (if encoding AND 0x70 = 0x10 then p else base)
                in if encoding AND 0x80 \<noteq> 0 then load64 m r else r
           else result);
        Some (result, p')
      })"

definition read_encoded_value ::
  "mem \<Rightarrow> unwind_context option \<Rightarrow> u8 \<Rightarrow> u64 \<Rightarrow> (u64 \<times> u64) option" where
  "read_encoded_value m ctx encoding p =
     do { base \<leftarrow> base_of_encoded_value encoding ctx; read_encoded_value_with_base m encoding base p }"

section \<open>Groups of seven bits\<close>

definition bytes_at :: "mem \<Rightarrow> u64 \<Rightarrow> bytes \<Rightarrow> bool" where
  "bytes_at m p bs \<longleftrightarrow> (\<forall>i < length bs. m (p + word_of_nat i) = bs ! i)"

lemma bytes_at_Cons: "bytes_at m p (b # bs) \<longleftrightarrow> m p = b \<and> bytes_at m (p + 1) bs"
proof -
  have "(\<forall>i < length (b # bs). m (p + word_of_nat i) = (b # bs) ! i) \<longleftrightarrow>
      m p = b \<and> (\<forall>i < length bs. m (p + word_of_nat (Suc i)) = bs ! i)"
    by (auto simp: less_Suc_eq_0_disj)
  then show ?thesis by (simp add: bytes_at_def add.assoc add.commute [of 1])
qed

lemma bytes_at_append:
  "bytes_at m p (xs @ ys) \<longleftrightarrow> bytes_at m p xs \<and> bytes_at m (p + word_of_nat (length xs)) ys"
proof (induction xs arbitrary: p)
  case Nil
  then show ?case by (simp add: bytes_at_def)
next
  case (Cons x xs)
  then show ?case by (auto simp: bytes_at_Cons add.assoc)
qed

fun leb_val :: "nat list \<Rightarrow> nat" where
  "leb_val [] = 0"
| "leb_val (d # ds) = d + 128 * leb_val ds"

fun leb_bytes :: "nat list \<Rightarrow> bytes" where
  "leb_bytes [] = []"
| "leb_bytes [d] = [word_of_nat d]"
| "leb_bytes (d # ds) = word_of_nat (d + 128) # leb_bytes ds"

lemma leb_bytes_length [simp]: "length (leb_bytes ds) = length ds"
  by (induction ds rule: leb_bytes.induct) auto

lemma byte_more:
  assumes "d < 128"
  shows "(word_of_nat d :: u8) AND 0x80 = 0" "(word_of_nat (d + 128) :: u8) AND 0x80 \<noteq> 0"
proof -
  have 80: "(b :: u8) AND 0x80 = 0 \<longleftrightarrow> \<not> bit b 7" for b
    using and_exp_eq_0_iff_not_bit [of b 7] by simp
  have "(d + 128) div 128 = 1" using assms by simp
  then have "\<not> bit d 7" "bit (d + 128) 7" using assms by (auto simp: bit_iff_odd)
  then show "(word_of_nat d :: u8) AND 0x80 = 0" "(word_of_nat (d + 128) :: u8) AND 0x80 \<noteq> 0"
    unfolding 80 by (simp_all add: bit_of_nat_iff del: of_nat_add)
qed

lemma byte_low:
  assumes "d < 128"
  shows "(ucast (word_of_nat d :: u8) AND 0x7f :: u64) = word_of_nat d"
    "(ucast (word_of_nat (d + 128) :: u8) AND 0x7f :: u64) = word_of_nat d"
proof -
  have 7: "(w :: u64) AND 0x7f = take_bit 7 w" for w by (simp add: take_bit_eq_mask mask_eq_exp_minus_1)
  have "take_bit 7 (take_bit 8 d) = d" "take_bit 7 (take_bit 8 (d + 128)) = d"
    using assms by (simp_all add: take_bit_eq_mod mod_mod_cancel)
  then show "(ucast (word_of_nat d :: u8) AND 0x7f :: u64) = word_of_nat d"
    "(ucast (word_of_nat (d + 128) :: u8) AND 0x7f :: u64) = word_of_nat d"
    unfolding 7 unsigned_of_nat by (simp_all add: take_bit_of_nat)
qed

lemma or_push_bit_disjoint:
  assumes "\<forall>n \<ge> s. \<not> bit (acc :: u64) n"
  shows "acc OR push_bit s w = acc + push_bit s w"
proof -
  have "acc AND push_bit s w = 0"
    using assms by (intro bit_eqI) (auto simp: bit_and_iff bit_push_bit_iff)
  then show ?thesis by (simp add: disjunctive_add_eq_or)
qed

lemma small_bits: "d < 2 ^ k \<Longrightarrow> bit (word_of_nat d :: u64) n \<Longrightarrow> n < k"
proof -
  assume d: "d < 2 ^ k" and b: "bit (word_of_nat d :: u64) n"
  from d have "take_bit k d = d" by (simp add: take_bit_eq_mod)
  then have "take_bit k (word_of_nat d :: u64) = word_of_nat d" by (simp add: take_bit_of_nat)
  with b show "n < k" by (metis bit_take_bit_iff)
qed

lemma acc_grows:
  assumes "\<forall>n \<ge> s. \<not> bit (acc :: u64) n" and "d < 128"
  shows "\<forall>n \<ge> s + 7. \<not> bit (acc + push_bit s (word_of_nat d)) n"
proof -
  have "\<not> bit (acc OR push_bit s (word_of_nat d)) n" if "n \<ge> s + 7" for n
    using assms that small_bits [of d 7 "n - s"] by (auto simp: bit_or_iff bit_push_bit_iff)
  then show ?thesis by (simp add: or_push_bit_disjoint [OF assms(1)])
qed

text \<open>The loop reads the digits of a number, least significant first, above the bits it already has.\<close>

lemma leb_loop_digits:
  assumes "bytes_at m p (leb_bytes ds)" and "ds \<noteq> []" and "\<forall>d \<in> set ds. d < 128"
    and "\<forall>n \<ge> s. \<not> bit acc n"
  shows "leb_loop m p s acc = Some (word_of_nat (last ds), s + 7 * length ds,
           acc + push_bit s (word_of_nat (leb_val ds)), p + word_of_nat (length ds))"
  using assms
proof (induction ds arbitrary: p s acc rule: leb_bytes.induct)
  case (2 d)
  then have m: "m p = word_of_nat d" and d: "d < 128" by (simp_all add: bytes_at_Cons)
  show ?case
    by (subst leb_loop.simps)
      (simp only: m Let_def byte_more [OF d] byte_low [OF d] or_push_bit_disjoint [OF 2(4)], simp)
next
  case (3 d e es)
  let ?acc = "acc + push_bit s (word_of_nat d)"
  from 3(2,4) have m: "m p = word_of_nat (d + 128)" and d: "d < 128"
    and rest: "bytes_at m (p + 1) (leb_bytes (e # es))"
    by (simp_all add: bytes_at_Cons)
  have "leb_loop m p s acc = leb_loop m (p + 1) (s + 7) ?acc"
    by (subst leb_loop.simps)
      (simp only: m Let_def byte_more [OF d] byte_low [OF d] or_push_bit_disjoint [OF 3(5)], simp)
  also have "\<dots> = Some (word_of_nat (last (e # es)), s + 7 + 7 * length (e # es),
      ?acc + push_bit (s + 7) (word_of_nat (leb_val (e # es))), p + 1 + word_of_nat (length (e # es)))"
    using 3(1) [OF rest _ _ acc_grows [OF 3(5) d]] 3(4) by simp
  finally show ?case
    by (simp add: push_bit_eq_mult power_add algebra_simps)
qed simp

section \<open>Encoders\<close>

function uleb_digits :: "nat \<Rightarrow> nat list" where
  "uleb_digits n = (if n < 128 then [n] else n mod 128 # uleb_digits (n div 128))"
  by auto
termination by (relation "measure (\<lambda>n. n)") auto

declare uleb_digits.simps [simp del]

function sleb_digits :: "int \<Rightarrow> nat list" where
  "sleb_digits k = (if - 64 \<le> k \<and> k < 64 then [nat (k mod 128)]
     else nat (k mod 128) # sleb_digits (k div 128))"
  by auto
termination by (relation "measure (\<lambda>k. nat \<bar>k\<bar>)") auto

declare sleb_digits.simps [simp del]

definition encode_uleb128 :: "u64 \<Rightarrow> bytes" where
  "encode_uleb128 x = leb_bytes (uleb_digits (unat x))"

definition encode_sleb128 :: "u64 \<Rightarrow> bytes" where
  "encode_sleb128 x = leb_bytes (sleb_digits (sint x))"

lemma uleb_digits_spec:
  "uleb_digits n \<noteq> [] \<and> (\<forall>d \<in> set (uleb_digits n). d < 128) \<and> leb_val (uleb_digits n) = n"
proof (induction n rule: uleb_digits.induct)
  case (1 n)
  then show ?case by (subst (1 2 3) uleb_digits.simps) auto
qed

lemma sleb_digits_spec:
  "sleb_digits k \<noteq> [] \<and> (\<forall>d \<in> set (sleb_digits k). d < 128)
    \<and> int (leb_val (sleb_digits k)) = k mod 2 ^ (7 * length (sleb_digits k))
    \<and> (64 \<le> last (sleb_digits k) \<longleftrightarrow> k < 0)
    \<and> (- (2 ^ (7 * length (sleb_digits k))) \<le> k \<and> k < 2 ^ (7 * length (sleb_digits k)))"
proof (induction k rule: sleb_digits.induct)
  case (1 k)
  show ?case
  proof (cases "- 64 \<le> k \<and> k < 64")
    case True
    then have "sleb_digits k = [nat (k mod 128)]" by (subst sleb_digits.simps) simp
    moreover from True have "64 \<le> k mod 128 \<longleftrightarrow> k < 0" by presburger
    then have "64 \<le> nat (k mod 128) \<longleftrightarrow> k < 0" by (simp add: le_nat_iff)
    ultimately show ?thesis using True by simp
  next
    case False
    let ?ds = "sleb_digits (k div 128)"
    note IH = 1 [OF False]
    have k: "sleb_digits k = nat (k mod 128) # ?ds"
      by (subst sleb_digits.simps) (simp only: if_not_P [OF False])
    have "int (leb_val (sleb_digits k)) = k mod 128 + 128 * (k div 128 mod 2 ^ (7 * length ?ds))"
      using IH by (simp add: k)
    also have "\<dots> = k mod (128 * 2 ^ (7 * length ?ds))"
      by (simp add: zmod_zmult2_eq)
    also have "(128 :: int) * 2 ^ (7 * length ?ds) = 2 ^ (7 * length (sleb_digits k))"
      by (simp add: k power_add)
    finally have v: "int (leb_val (sleb_digits k)) = k mod 2 ^ (7 * length (sleb_digits k))" .
    have "k = 128 * (k div 128) + k mod 128" "k mod 128 \<ge> 0" "k mod 128 < 128" by simp_all
    moreover from IH have "- (2 ^ (7 * length ?ds)) \<le> k div 128" "k div 128 + 1 \<le> 2 ^ (7 * length ?ds)"
      by simp_all
    ultimately have "- (128 * 2 ^ (7 * length ?ds)) \<le> k" "k < 128 * 2 ^ (7 * length ?ds)"
      by linarith+
    then have "- (2 ^ (7 * length (sleb_digits k))) \<le> k" "k < 2 ^ (7 * length (sleb_digits k))"
      by (simp_all add: k power_add)
    moreover have "k div 128 < 0 \<longleftrightarrow> k < 0" by presburger
    ultimately show ?thesis using IH v by (auto simp: k)
  qed
qed

lemma read_encode_uleb128:
  assumes "bytes_at m p (encode_uleb128 x)"
  shows "read_uleb128 m p = Some (x, p + word_of_nat (length (encode_uleb128 x)))"
proof -
  have "leb_loop m p 0 0 = Some (word_of_nat (last (uleb_digits (unat x))),
      0 + 7 * length (uleb_digits (unat x)), 0 + push_bit 0 (word_of_nat (unat x)),
      p + word_of_nat (length (uleb_digits (unat x))))"
    using leb_loop_digits [of m p "uleb_digits (unat x)" 0 0] uleb_digits_spec [of "unat x"] assms
    by (simp add: encode_uleb128_def)
  then show ?thesis by (simp add: read_uleb128_def encode_uleb128_def)
qed

lemma byte_sign:
  assumes "d < 128"
  shows "(word_of_nat d :: u8) AND 0x40 \<noteq> 0 \<longleftrightarrow> 64 \<le> d"
proof -
  have "(b :: u8) AND 0x40 = 0 \<longleftrightarrow> \<not> bit b 6" for b
    using and_exp_eq_0_iff_not_bit [of b 6] by simp
  moreover have "d div 64 = (if 64 \<le> d then 1 else 0)" using assms by auto
  then have "bit d 6 \<longleftrightarrow> 64 \<le> d" by (simp add: bit_iff_odd)
  ultimately show ?thesis by (simp add: bit_of_nat_iff)
qed

lemma or_minus_push_bit:
  assumes "\<forall>n \<ge> s. \<not> bit (r :: u64) n"
  shows "r OR - push_bit s 1 = r - push_bit s 1"
proof -
  have "- push_bit s (1 :: u64) = push_bit s (- 1)" by (simp add: push_bit_eq_mult)
  then show ?thesis using or_push_bit_disjoint [OF assms, of "- 1"] by simp
qed

lemma neg_mod: "- m \<le> k \<Longrightarrow> k < 0 \<Longrightarrow> k mod m = k + m" for k m :: int
  by (metis add.commute add_less_same_cancel2 diff_ge_0_iff_ge diff_minus_eq_add mod_add_self2 mod_pos_pos_trivial)

lemma sleb_word: "take_bit 64 (int n) = take_bit 64 (sint x) \<Longrightarrow> word_of_nat n = (x :: u64)"
  using word_of_int_eq_iff [where ?'a = 64, of "int n" "sint x"] by simp

lemma sleb_value:
  fixes x :: u64
  assumes n: "int n = sint x mod 2 ^ s" and "- (2 ^ s) \<le> sint x" and "sint x < 2 ^ s"
  shows "(if s < 64 \<and> sint x < 0 then word_of_nat n OR - push_bit s 1 else word_of_nat n) = x"
proof (cases "sint x < 0")
  case False
  with assms(3) have "sint x mod 2 ^ s = sint x" by (intro mod_pos_pos_trivial) linarith+
  with n have "take_bit 64 (int n) = take_bit 64 (sint x)" by (simp only:)
  with False sleb_word show ?thesis by (simp only: HOL.simp_thms if_False) 
next
  case True
  show ?thesis
  proof (cases "s < 64")
    case False
    from n have "int n = take_bit s (sint x)" by (simp only: take_bit_eq_mod)
    then have "take_bit 64 (int n) = take_bit (min 64 s) (sint x)" by (simp only: take_bit_take_bit)
    with False have "take_bit 64 (int n) = take_bit 64 (sint x)" by (simp only: min_def) simp
    with False sleb_word show ?thesis by (simp only: HOL.simp_thms if_False)
  next
    case s: True
    have "int n < 2 ^ s" unfolding n by (intro pos_mod_bound) simp
    then have "n < 2 ^ s" by simp
    then have "\<forall>i \<ge> s. \<not> bit (word_of_nat n :: u64) i" using small_bits [of n s] by fastforce
    then have "word_of_nat n OR - push_bit s 1 = (word_of_nat n - 2 ^ s :: u64)"
      by (subst or_minus_push_bit) (auto simp: push_bit_eq_mult)
    also have "\<dots> = word_of_int (int n - 2 ^ s)" by simp
    also have "int n - 2 ^ s = sint x" using neg_mod [OF assms(2) True] n by linarith
    finally show ?thesis using True s by (simp only: HOL.simp_thms if_True) simp
  qed
qed

lemma read_encode_sleb128:
  assumes "bytes_at m p (encode_sleb128 x)"
  shows "read_sleb128 m p = Some (x, p + word_of_nat (length (encode_sleb128 x)))"
proof -
  let ?ds = "sleb_digits (sint x)"
  let ?s = "7 * length ?ds"
  note spec = sleb_digits_spec [of "sint x"]
  have loop: "leb_loop m p 0 0 = Some (word_of_nat (last ?ds), ?s, word_of_nat (leb_val ?ds),
      p + word_of_nat (length ?ds))"
    using leb_loop_digits [of m p ?ds 0 0] spec assms by (simp add: encode_sleb128_def)
  from spec have "last ?ds < 128" "64 \<le> last ?ds \<longleftrightarrow> sint x < 0" by auto
  then have sign: "(word_of_nat (last ?ds) :: u8) AND 0x40 \<noteq> 0 \<longleftrightarrow> sint x < 0"
    using byte_sign by blast
  from spec have "(if ?s < 64 \<and> sint x < 0 then word_of_nat (leb_val ?ds) OR - push_bit ?s 1
      else word_of_nat (leb_val ?ds)) = x"
    by (intro sleb_value) blast+
  then show ?thesis
    by (simp only: read_sleb128_def encode_sleb128_def loop sign option.map prod.case leb_bytes_length)
qed

section \<open>Readers of encoded values\<close>

text \<open>
  The interface of a reader: wherever the bytes of an encoded value lie, it returns the value and
  the address behind. Its clients read one value after the other.
\<close>

locale byte_reader =
  fixes enc :: "u64 \<Rightarrow> bytes"
    and rd :: "mem \<Rightarrow> u64 \<Rightarrow> (u64 \<times> u64) option"
  assumes rd_enc: "bytes_at m p (enc x) \<Longrightarrow> rd m p = Some (x, p + word_of_nat (length (enc x)))"
    and enc_nonempty: "enc x \<noteq> []"
begin

lemma rd_append:
  assumes "bytes_at m p (enc x @ rest)"
  shows "rd m p = Some (x, p + word_of_nat (length (enc x)))"
    and "bytes_at m (p + word_of_nat (length (enc x))) rest"
  using assms rd_enc by (auto simp: bytes_at_append)

lemma enc_prefix_inject:
  assumes "enc x @ rest = enc y @ rest'" and "length (enc x @ rest) < 2 ^ 64"
  shows "x = y"
proof -
  let ?m = "\<lambda>a :: u64. (enc x @ rest) ! unat a"
  have "bytes_at ?m 0 (enc x @ rest)"
    using assms(2) by (simp add: bytes_at_def unat_of_nat take_bit_nat_eq_self)
  with rd_append(1) [of ?m 0 x rest] rd_append(1) [of ?m 0 y rest'] assms(1) show ?thesis by simp
qed

end

interpretation uleb: byte_reader encode_uleb128 read_uleb128
proof unfold_locales
  fix x
  have "length (encode_uleb128 x) \<noteq> 0"
    using uleb_digits_spec [of "unat x"] by (simp add: encode_uleb128_def)
  then show "encode_uleb128 x \<noteq> []" by simp
qed (rule read_encode_uleb128)

interpretation sleb: byte_reader encode_sleb128 read_sleb128
proof unfold_locales
  fix x
  have "length (encode_sleb128 x) \<noteq> 0"
    using sleb_digits_spec [of "sint x"] by (simp add: encode_sleb128_def)
  then show "encode_sleb128 x \<noteq> []" by simp
qed (rule read_encode_sleb128)

text \<open>
  The unsigned reader inverts the standard encoder on every 64-bit value, wherever
  the bytes lie, and returns the address behind them.
\<close>

theorem uleb128_roundtrip:
  assumes "bytes_at m p (encode_uleb128 x)"
  shows "read_uleb128 m p = Some (x, p + word_of_nat (length (encode_uleb128 x)))"
  using assms by (rule uleb.rd_enc)

theorem uleb128_roundtrip_witness:
  "read_uleb128 (\<lambda>a. if a = 7 then 0xe5 else if a = 8 then 0x8e else if a = 9 then 0x26 else 0) 7
     = Some (624485, 10)"
proof -
  let ?m = "\<lambda>a :: u64. if a = 7 then 0xe5 else if a = 8 then 0x8e else if a = 9 then 0x26 else (0 :: u8)"
  have d: "uleb_digits 624485 = [101, 14, 38]"
    by (subst uleb_digits.simps, simp)+
  then have e: "encode_uleb128 624485 = [0xe5, 0x8e, 0x26]" by (simp add: encode_uleb128_def)
  have "bytes_at ?m 7 (encode_uleb128 624485)" by (simp add: e bytes_at_Cons bytes_at_def [of _ _ "[]"])
  from uleb128_roundtrip [OF this] show ?thesis by (simp add: e)
qed

text \<open>
  The signed reader inverts the standard encoder on every 64-bit value in two's
  complement. The sign is extended from the last byte when fewer than 64 bits were read.
\<close>

theorem sleb128_roundtrip:
  assumes "bytes_at m p (encode_sleb128 x)"
  shows "read_sleb128 m p = Some (x, p + word_of_nat (length (encode_sleb128 x)))"
  using assms by (rule sleb.rd_enc)

theorem sleb128_roundtrip_witness:
  "read_sleb128 (\<lambda>a. if a = 7 then 0xc0 else if a = 8 then 0xbb else if a = 9 then 0x78 else 0) 7
     = Some (- 123456, 10)"
proof -
  let ?m = "\<lambda>a :: u64. if a = 7 then 0xc0 else if a = 8 then 0xbb else if a = 9 then 0x78 else (0 :: u8)"
  have "sleb_digits (- 123456) = [64, 59, 120]"
    by (subst sleb_digits.simps, simp)+
  then have e: "encode_sleb128 (- 123456) = [0xc0, 0xbb, 0x78]" by (simp add: encode_sleb128_def)
  have "bytes_at ?m 7 (encode_sleb128 (- 123456))"
    by (simp add: e bytes_at_Cons bytes_at_def [of _ _ "[]"])
  from sleb128_roundtrip [OF this] show ?thesis by (simp add: e)
qed

end
