(* ===== verification/Raise_Tables.thy ===== *)
theory Raise_Tables
  imports Unwind_Pe
begin

text \<open>
  The tables of the GNAT personality routine (\<^verbatim>\<open>raise-gcc.c\<close>): the region description read from the
  language-specific data, the call-site search, the matching of a choice against the propagated
  exception and the walk along a chain of action records. What \<open>a-exexpr.adb\<close> and the C++ support
  export is a parameter. The build has \<open>GXX_EH_INTEROP\<close>, \<open>HAVE_GETIPINFO\<close> and \<open>inhibit_libc\<close> set and
  none of \<open>CERT\<close>, SJLJ, SEH, ARM EABI and CHERI, so the \<open>db_*\<close> calls do nothing.
\<close>

section \<open>Regions\<close>

record region_descriptor =
  rg_base :: u64
  rg_lsda :: u64
  call_site_encoding :: u8
  call_site_table :: u64
  lp_base :: u64
  action_table :: u64
  ttype_encoding :: u8
  ttype_table :: u64
  ttype_base :: u64

definition get_ip_from_context :: "unwind_context \<Rightarrow> u64" where
  "get_ip_from_context ctx = (if \<not> uw_ip_before_insn ctx then uw_ip ctx - 1 else uw_ip ctx)"

definition get_ttype_entry_for :: "mem \<Rightarrow> region_descriptor \<Rightarrow> u64 \<Rightarrow> u64 option" where
  "get_ttype_entry_for m region flt =
     do { size \<leftarrow> size_of_encoded_value (ttype_encoding region);
          (entry, _) \<leftarrow> read_encoded_value_with_base m (ttype_encoding region) (ttype_base region)
                          (ttype_table region - flt * size);
          Some entry }"

text \<open>
  The descriptor is an uninitialised local of the caller, given as \<open>region\<close>: without language-specific
  data only \<open>rg_lsda\<close> is set.
\<close>

definition get_region_description_for ::
  "mem \<Rightarrow> unwind_context option \<Rightarrow> region_descriptor \<Rightarrow> region_descriptor option" where
  "get_region_description_for m uw_context region =
     (let region = region\<lparr>rg_lsda := (case uw_context of None \<Rightarrow> 0 | Some c \<Rightarrow> uw_lsda c)\<rparr>
      in case uw_context of
        None \<Rightarrow> Some region
      | Some c \<Rightarrow>
          if rg_lsda region = 0 then Some region
          else do {
            let p = rg_lsda region;
            let region = region\<lparr>rg_base := uw_region_start c\<rparr>;
            let lpbase_encoding = m p;
            let p = p + 1;
            (lpb, p) \<leftarrow> (if lpbase_encoding \<noteq> DW_EH_PE_omit
                         then read_encoded_value m uw_context lpbase_encoding p
                         else Some (rg_base region, p));
            let region = region\<lparr>lp_base := lpb, ttype_encoding := m p\<rparr>;
            let p = p + 1;
            (tt, p) \<leftarrow> (if ttype_encoding region \<noteq> DW_EH_PE_omit
                        then do { (tmp, p) \<leftarrow> read_uleb128 m p; Some (p + tmp, p) }
                        else Some (0, p));
            ttb \<leftarrow> base_of_encoded_value (ttype_encoding region) uw_context;
            let region = region\<lparr>ttype_table := tt, ttype_base := ttb, call_site_encoding := m p\<rparr>;
            let p = p + 1;
            (tmp, p) \<leftarrow> read_uleb128 m p;
            Some (region\<lparr>call_site_table := p, action_table := p + tmp\<rparr>)
          })"

section \<open>Call sites\<close>

datatype action_kind = Unknown | Nothing | Cleanup | Handler | Unhandler

definition cleanup_filter :: u64 where "cleanup_filter = 0"

record action_descriptor =
  act_kind :: action_kind
  table_entry :: u64
  landing_pad :: u64
  ttype_filter :: u64

definition call_site_match :: "region_descriptor \<Rightarrow> u64 \<Rightarrow> u64 \<Rightarrow> action_descriptor \<Rightarrow> action_descriptor" where
  "call_site_match region cs_lp cs_action action =
     action\<lparr>act_kind := Unknown,
            landing_pad := (if cs_lp \<noteq> 0 then lp_base region + cs_lp else 0),
            table_entry := (if cs_action \<noteq> 0 then action_table region + cs_action - 1 else 0)\<rparr>"

partial_function (option) call_site_loop ::
  "mem \<Rightarrow> u64 \<Rightarrow> region_descriptor \<Rightarrow> u64 \<Rightarrow> action_descriptor \<Rightarrow> action_descriptor option" where
  "call_site_loop m ip region p action =
     (if \<not> p < action_table region then Some action
      else do {
        (cs_start, p) \<leftarrow> read_encoded_value m None (call_site_encoding region) p;
        (cs_len, p) \<leftarrow> read_encoded_value m None (call_site_encoding region) p;
        (cs_lp, p) \<leftarrow> read_encoded_value m None (call_site_encoding region) p;
        (cs_action, p) \<leftarrow> read_uleb128 m p;
        if ip < rg_base region + cs_start then Some action
        else if ip < rg_base region + cs_start + cs_len
        then Some (call_site_match region cs_lp cs_action action)
        else call_site_loop m ip region p action
      })"

declare call_site_loop.simps [code]

definition get_call_site_action_for ::
  "mem \<Rightarrow> u64 \<Rightarrow> region_descriptor \<Rightarrow> action_descriptor \<Rightarrow> action_descriptor option" where
  "get_call_site_action_for m ip region action =
     call_site_loop m ip region (call_site_table region) (action\<lparr>act_kind := Nothing\<rparr>)"

section \<open>Matching a choice\<close>

text \<open>
  What the Ada side and \<open>GNAT.CPP_Exception\<close> export. An exception id is the address of its data;
  \<open>convert_caught_object\<close> also returns the adjusted object pointer.
\<close>

record 's ada_rts =
  GNAT_OTHERS :: u64
  GNAT_ALL_OTHERS :: u64
  GNAT_UNHANDLED_OTHERS :: u64
  Foreign_Exception :: u64
  Is_Handled_By_Others :: "u64 \<Rightarrow> bool"
  Language_For :: "u64 \<Rightarrow> char"
  Foreign_Data_For :: "u64 \<Rightarrow> u64"
  EID_For :: "u64 \<Rightarrow> u64"
  convert_caught_object :: "u64 \<Rightarrow> u64 \<Rightarrow> u64 \<Rightarrow> char \<Rightarrow> bool \<times> u64"
  setup_current_excep :: "u64 \<Rightarrow> u32 \<Rightarrow> u64 \<Rightarrow> 's \<Rightarrow> u64 \<times> 's"
  notify_handled_exception :: "u64 \<Rightarrow> 's \<Rightarrow> 's"
  notify_unhandled_exception :: "u64 \<Rightarrow> 's \<Rightarrow> 's"

definition CXX_EXCEPTION_CLASS :: u64 where "CXX_EXCEPTION_CLASS = 0x474e5543432b2b00"
definition CXX_DEPENDENT_EXCEPTION_CLASS :: u64 where
  "CXX_DEPENDENT_EXCEPTION_CLASS = 0x474e5543432b2b01"
definition GNAT_EXCEPTION_CLASS :: u64 where "GNAT_EXCEPTION_CLASS = 0x474e552d41646100"

text \<open>
  The class is the first word of an \<open>_Unwind_Exception\<close>, which has 32 bytes on riscv64; an
  \<open>__cxa_exception\<close> has 112, with the type information in the first word and the unwind header in the
  last 32 bytes.
\<close>

definition SIZEOF_Unwind_Exception :: u64 where "SIZEOF_Unwind_Exception = 32"
definition SIZEOF_cxa_exception :: u64 where "SIZEOF_cxa_exception = 112"
definition OFFSET_unwindHeader :: u64 where "OFFSET_unwindHeader = 80"

definition exception_class_eq :: "mem \<Rightarrow> u64 \<Rightarrow> u64 \<Rightarrow> bool" where
  "exception_class_eq m except ec \<longleftrightarrow> load64 m except = ec"

definition gnat_exception_language_is_cplusplus :: "mem \<Rightarrow> u64 \<Rightarrow> bool" where
  "gnat_exception_language_is_cplusplus m except \<longleftrightarrow>
     exception_class_eq m except CXX_EXCEPTION_CLASS
     \<or> exception_class_eq m except CXX_DEPENDENT_EXCEPTION_CLASS"

definition gnat_exception_language_is_ada :: "mem \<Rightarrow> u64 \<Rightarrow> bool" where
  "gnat_exception_language_is_ada m except \<longleftrightarrow> exception_class_eq m except GNAT_EXCEPTION_CLASS"

definition gnat_get_cxx_dependent_exception :: "mem \<Rightarrow> u64 \<Rightarrow> u64" where
  "gnat_get_cxx_dependent_exception m thrown_ptr = load64 m (thrown_ptr - SIZEOF_cxa_exception)"

definition gnat_maybe_get_cxx_dependent_exception :: "mem \<Rightarrow> u64 \<Rightarrow> u64" where
  "gnat_maybe_get_cxx_dependent_exception m thrown_ptr =
     (if exception_class_eq m (thrown_ptr - SIZEOF_Unwind_Exception) CXX_DEPENDENT_EXCEPTION_CLASS
      then gnat_get_cxx_dependent_exception m thrown_ptr else thrown_ptr)"

definition gnat_get_cxx_exception_type_info :: "mem \<Rightarrow> u64 \<Rightarrow> u64" where
  "gnat_get_cxx_exception_type_info m ue =
     (let thrown_ptr = gnat_maybe_get_cxx_dependent_exception m (ue + SIZEOF_Unwind_Exception);
          cxa_xcpt = thrown_ptr - SIZEOF_cxa_exception
      in if \<not> exception_class_eq m (cxa_xcpt + OFFSET_unwindHeader) CXX_EXCEPTION_CLASS then 0
         else load64 m cxa_xcpt)"

text \<open>The two stores, for out-pointers that are not null: success and the object pointer.\<close>

definition gnat_obtain_caught_object ::
  "'s ada_rts \<Rightarrow> mem \<Rightarrow> u64 \<Rightarrow> char \<Rightarrow> u64 \<Rightarrow> bool \<times> u64" where
  "gnat_obtain_caught_object rts m choice_typeinfo lang ue =
     (let thrown_ptr = gnat_maybe_get_cxx_dependent_exception m (ue + SIZEOF_Unwind_Exception);
          (success, thrown_ptr) =
            (if lang = CHR ''A'' then (True, thrown_ptr)
             else if lang = CHR ''B'' \<or> lang = CHR ''C''
             then let cxa_xcpt = thrown_ptr - SIZEOF_cxa_exception;
                      except_typeinfo = load64 m cxa_xcpt
                  in convert_caught_object rts choice_typeinfo except_typeinfo thrown_ptr lang
             else (False, thrown_ptr))
      in (success, if success then thrown_ptr else 0))"

text \<open>How the choice matches, and the new value of \<open>*eid\<close>.\<close>

definition is_handled_by ::
  "'s ada_rts \<Rightarrow> mem \<Rightarrow> u64 \<Rightarrow> u64 \<Rightarrow> u64 \<Rightarrow> action_kind \<times> u64" where
  "is_handled_by rts m choice eid ue =
     (if choice = GNAT_ALL_OTHERS rts then (Handler, eid)
      else if exception_class_eq m ue GNAT_EXCEPTION_CLASS
      then if choice = GNAT_UNHANDLED_OTHERS rts then (Unhandler, eid)
           else let E = EID_For rts ue
                in if choice = E \<or> choice = GNAT_OTHERS rts \<and> Is_Handled_By_Others rts E
                   then (Handler, eid) else (Nothing, eid)
      else if choice = GNAT_ALL_OTHERS rts \<or> choice = GNAT_OTHERS rts \<or> choice = Foreign_Exception rts
      then (Handler, eid)
      else let primary = exception_class_eq m ue CXX_EXCEPTION_CLASS;
               lang = Language_For rts choice
           in if (primary \<or> exception_class_eq m ue CXX_DEPENDENT_EXCEPTION_CLASS)
                 \<and> (lang = CHR ''C'' \<or> lang = CHR ''B'')
              then let choice_typeinfo = Foreign_Data_For rts choice;
                       thrown_ptr = ue + SIZEOF_Unwind_Exception;
                       thrown_ptr = (if \<not> primary then gnat_get_cxx_dependent_exception m thrown_ptr
                                     else thrown_ptr);
                       cxa_xcpt = thrown_ptr - SIZEOF_cxa_exception;
                       except_typeinfo = load64 m cxa_xcpt
                   in if fst (convert_caught_object rts choice_typeinfo except_typeinfo thrown_ptr lang)
                      then (Handler, choice) else (Nothing, eid)
              else (Nothing, eid))"

section \<open>Action records\<close>

abbreviation (input) UA_SEARCH_PHASE :: u32 where "UA_SEARCH_PHASE \<equiv> 1"
abbreviation (input) UA_CLEANUP_PHASE :: u32 where "UA_CLEANUP_PHASE \<equiv> 2"
abbreviation (input) UA_FORCE_UNWIND :: u32 where "UA_FORCE_UNWIND \<equiv> 8"
abbreviation (input) UA_END_OF_STACK :: u32 where "UA_END_OF_STACK \<equiv> 16"

text \<open>
  The \<open>while (1)\<close> over the records; a chain that never reaches a zero displacement does not end.
\<close>

partial_function (option) action_loop ::
  "'s ada_rts \<Rightarrow> mem \<Rightarrow> u64 \<Rightarrow> u32 \<Rightarrow> region_descriptor \<Rightarrow> u64 \<Rightarrow> u64 \<Rightarrow> action_descriptor
     \<Rightarrow> (action_descriptor \<times> u64) option" where
  "action_loop rts m ue phase region eid p action =
     do {
       (ar_filter, p) \<leftarrow> read_sleb128 m p;
       (ar_disp, _) \<leftarrow> read_sleb128 m p;
       (act, choice_eid) \<leftarrow>
         (if ar_filter \<noteq> cleanup_filter \<and> sint ar_filter > 0 \<and> phase AND UA_FORCE_UNWIND = 0
          then do { choice \<leftarrow> get_ttype_entry_for m region ar_filter;
                    Some (is_handled_by rts m choice eid ue) }
          else Some (Nothing, eid));
       let action = (if ar_filter = cleanup_filter
                     then action\<lparr>act_kind := Cleanup, ttype_filter := cleanup_filter\<rparr> else action);
       if act \<noteq> Nothing then Some (action\<lparr>act_kind := act, ttype_filter := ar_filter\<rparr>, choice_eid)
       else if ar_disp = 0 then Some (action, eid)
       else action_loop rts m ue phase region eid (p + ar_disp) action
     }"

declare action_loop.simps [code]

definition get_action_description_for ::
  "'s ada_rts \<Rightarrow> mem \<Rightarrow> u64 \<Rightarrow> u64 \<Rightarrow> u32 \<Rightarrow> u64 \<Rightarrow> region_descriptor \<Rightarrow> action_descriptor
     \<Rightarrow> (action_descriptor \<times> u64) option" where
  "get_action_description_for rts m ip ue phase eid region action =
     do {
       action \<leftarrow> get_call_site_action_for m ip region action;
       if act_kind action = Nothing then Some (action, eid)
       else if landing_pad action = 0 then Some (action\<lparr>act_kind := Nothing\<rparr>, eid)
       else if table_entry action = 0
       then Some (action\<lparr>act_kind := Cleanup, ttype_filter := cleanup_filter\<rparr>, eid)
       else action_loop rts m ue phase region eid (table_entry action) (action\<lparr>act_kind := Nothing\<rparr>)
     }"

section \<open>The call-site table\<close>

text \<open>
  An entry of the table as the compiler writes it with the encoding \<open>DW_EH_PE_uleb128\<close>: start and
  length of the range, landing pad, action. The reference search finds the first entry that covers
  the instruction.
\<close>

abbreviation (input) DW_EH_PE_uleb128 :: u8 where "DW_EH_PE_uleb128 \<equiv> 1"

type_synonym call_site = "u64 \<times> u64 \<times> u64 \<times> u64"

fun call_site_bytes :: "call_site \<Rightarrow> bytes" where
  "call_site_bytes (start, len, lp, act) =
     encode_uleb128 start @ encode_uleb128 len @ encode_uleb128 lp @ encode_uleb128 act"

fun covers :: "u64 \<Rightarrow> u64 \<Rightarrow> call_site \<Rightarrow> bool" where
  "covers base ip (start, len, lp, act) \<longleftrightarrow>
     unat base + unat start \<le> unat ip \<and> unat ip < unat base + unat start + unat len"

definition call_sites_ok :: "u64 \<Rightarrow> call_site list \<Rightarrow> bool" where
  "call_sites_ok base es \<longleftrightarrow> sorted_wrt (\<lambda>(s, _) (s', _). s \<le> s') es
     \<and> (\<forall>(s, l, _) \<in> set es. unat base + unat s + unat l < 2 ^ 64)"

definition call_site_spec ::
  "u64 \<Rightarrow> region_descriptor \<Rightarrow> call_site list \<Rightarrow> action_descriptor \<Rightarrow> action_descriptor" where
  "call_site_spec ip region es action =
     (case find (covers (rg_base region) ip) es of
        None \<Rightarrow> action
      | Some (s, l, lp, act) \<Rightarrow>
          action\<lparr>act_kind := Unknown,
                 landing_pad := (if lp = 0 then 0 else lp_base region + lp),
                 table_entry := (if act = 0 then 0 else action_table region + (act - 1))\<rparr>)"

lemma read_call_site_field [simp]:
  "read_encoded_value m None DW_EH_PE_uleb128 p = read_uleb128 m p"
  by (cases "read_uleb128 m p")
    (auto simp: read_encoded_value_def base_of_encoded_value_def read_encoded_value_with_base_def
      read_format_def Let_def)

lemma unat_add_less: "unat (a :: u64) + unat b < 2 ^ 64 \<Longrightarrow> unat (a + b) = unat a + unat b"
  using unat_add_lem [of a b] by simp

lemma unat_add_nat:
  assumes "unat (a :: u64) + n < 2 ^ 64"
  shows "unat (a + word_of_nat n) = unat a + n"
proof -
  have "unat (word_of_nat n :: u64) = n" using assms by (simp add: unat_of_nat take_bit_nat_eq_self)
  with assms show ?thesis by (subst unat_add_less) simp_all
qed

text \<open>Before the first start that covers the instruction, nothing later covers it either.\<close>

lemma covers_none_before:
  assumes "call_sites_ok base ((s, l, lp, act) # es)" "ip < base + s" "x \<in> set ((s, l, lp, act) # es)"
  shows "\<not> covers base ip x"
proof -
  obtain s' l' r where x: "x = (s', l', r)" by (metis prod_cases3)
  have "unat base + unat s + unat l < 2 ^ 64" "s \<le> s'" using assms(1,3) by (auto simp: call_sites_ok_def x)
  with assms(2) show ?thesis by (cases r) (simp add: x unat_add_less word_less_nat_alt word_le_nat_alt)
qed

text \<open>One iteration of the loop reads one record and goes on behind its bytes.\<close>

lemma call_site_loop_record:
  assumes "call_site_encoding region = DW_EH_PE_uleb128" and "p < action_table region"
    and "bytes_at m p (call_site_bytes (s, l, lp, act) @ rest)"
  shows "call_site_loop m ip region p action =
    (if ip < rg_base region + s then Some action
     else if ip < rg_base region + s + l then Some (call_site_match region lp act action)
     else call_site_loop m ip region (p + word_of_nat (length (call_site_bytes (s, l, lp, act)))) action)"
proof -
  note r1 = uleb.rd_append [OF assms(3) [unfolded call_site_bytes.simps append_assoc]]
  note r2 = uleb.rd_append [OF r1(2)]
  note r3 = uleb.rd_append [OF r2(2)]
  note r4 = uleb.rd_append [OF r3(2)]
  have q: "p + word_of_nat (length (call_site_bytes (s, l, lp, act))) =
      p + word_of_nat (length (encode_uleb128 s)) + word_of_nat (length (encode_uleb128 l))
      + word_of_nat (length (encode_uleb128 lp)) + word_of_nat (length (encode_uleb128 act))"
    by (simp add: add.assoc)
  show ?thesis
    unfolding q by (subst call_site_loop.simps) (simp add: assms(1,2) r1(1) r2(1) r3(1) r4(1))
qed

lemma call_site_loop_spec:
  assumes "call_site_encoding region = DW_EH_PE_uleb128"
    and "bytes_at m p (concat (map call_site_bytes es))"
    and "action_table region = p + word_of_nat (length (concat (map call_site_bytes es)))"
    and "unat p + length (concat (map call_site_bytes es)) < 2 ^ 64"
    and "call_sites_ok (rg_base region) es"
  shows "call_site_loop m ip region p action = Some (call_site_spec ip region es action)"
  using assms
proof (induction es arbitrary: p)
  case Nil
  then show ?case by (subst call_site_loop.simps) (simp add: call_site_spec_def)
next
  case (Cons e es)
  obtain s l lp act where e: "e = (s, l, lp, act)" by (metis prod_cases4)
  let ?b = "concat (map call_site_bytes es)"
  let ?q = "p + word_of_nat (length (call_site_bytes e))"
  let ?base = "rg_base region"
  have uq: "unat ?q = unat p + length (call_site_bytes e)" using Cons.prems(4) by (intro unat_add_nat) simp
  have rest: "call_site_loop m ip region ?q action = Some (call_site_spec ip region es action)"
  proof (rule Cons.IH)
    show "bytes_at m ?q ?b" using Cons.prems(2) by (simp add: bytes_at_append)
    show "action_table region = ?q + word_of_nat (length ?b)" using Cons.prems(3) by (simp add: add.assoc)
    show "unat ?q + length ?b < 2 ^ 64" using Cons.prems(4) uq by simp
    show "call_sites_ok ?base es" using Cons.prems(5) by (simp add: call_sites_ok_def)
  qed (rule Cons.prems(1))
  have "unat (action_table region) = unat p + length (concat (map call_site_bytes (e # es)))"
    unfolding Cons.prems(3) using Cons.prems(4) by (rule unat_add_nat)
  then have lt: "p < action_table region" using uleb.enc_nonempty [of s] by (simp add: e word_less_nat_alt)
  have u: "unat ?base + unat s + unat l < 2 ^ 64" using Cons.prems(5) by (simp add: call_sites_ok_def e)
  have "bytes_at m p (call_site_bytes (s, l, lp, act) @ ?b)" using Cons.prems(2) by (simp add: e)
  note step = call_site_loop_record [OF Cons.prems(1) lt this, where ip = ip and action = action]
  have "find (covers ?base ip) (e # es) = None" if "ip < ?base + s"
    using covers_none_before [OF Cons.prems(5) [unfolded e] that] unfolding e find_None_iff by blast
  then show ?case
    using step rest u by (auto simp: call_site_spec_def call_site_match_def e word_less_nat_alt unat_add_less)
qed

text \<open>
  On a table written with the compiler's encoding, sorted by start addresses and not
  wrapping around the address space, \<open>get_call_site_action_for\<close> returns and finds exactly the first
  entry that covers the instruction, with its landing pad and its first action record; without such
  an entry the action is \<open>nothing\<close>.
\<close>

theorem call_site_search_correct:
  assumes "call_site_encoding region = DW_EH_PE_uleb128"
    and "bytes_at m (call_site_table region) (concat (map call_site_bytes es))"
    and "action_table region =
      call_site_table region + word_of_nat (length (concat (map call_site_bytes es)))"
    and "unat (call_site_table region) + length (concat (map call_site_bytes es)) < 2 ^ 64"
    and "call_sites_ok (rg_base region) es"
  shows "get_call_site_action_for m ip region action =
    Some (call_site_spec ip region es (action\<lparr>act_kind := Nothing\<rparr>))"
  unfolding get_call_site_action_for_def using assms by (rule call_site_loop_spec)

theorem call_site_search_correct_witness:
  "let m = (\<lambda>a. [0, 4, 0, 0, 8, 8, 9, 1] ! (unat a mod 8));
       r = \<lparr>rg_base = 0x1000, rg_lsda = 1, call_site_encoding = 1, call_site_table = 0x100, lp_base = 0x1000,
             action_table = 0x108, ttype_encoding = 0xff, ttype_table = 0, ttype_base = 0\<rparr>;
       a = \<lparr>act_kind = Unknown, table_entry = 7, landing_pad = 7, ttype_filter = 7\<rparr>
   in get_call_site_action_for m 0x100a r a =
      Some \<lparr>act_kind = Unknown, table_entry = 0x108, landing_pad = 0x1009, ttype_filter = 7\<rparr>"
proof -
  let ?m = "\<lambda>a :: u64. [0, 4, 0, 0, 8, 8, 9, 1 :: u8] ! (unat a mod 8)"
  let ?r = "\<lparr>rg_base = 0x1000, rg_lsda = 1, call_site_encoding = 1, call_site_table = 0x100, lp_base = 0x1000,
    action_table = 0x108, ttype_encoding = 0xff, ttype_table = 0, ttype_base = 0\<rparr> :: region_descriptor"
  let ?es = "[(0, 4, 0, 0), (8, 8, 9, 1)] :: call_site list"
  have b: "concat (map call_site_bytes ?es) = [0, 4, 0, 0, 8, 8, 9, 1]"
    by (simp add: encode_uleb128_def uleb_digits.simps)
  have "get_call_site_action_for ?m 0x100a ?r a =
      Some (call_site_spec 0x100a ?r ?es (a\<lparr>act_kind := Nothing\<rparr>))" for a
    by (rule call_site_search_correct [where es = ?es, unfolded b])
      (simp_all add: bytes_at_Cons bytes_at_def [of _ _ "[]"] call_sites_ok_def)
  then show ?thesis by (simp add: call_site_spec_def)
qed

section \<open>Chains of action records\<close>

text \<open>
  A chain as the tables describe it: the filters of the records from an address on, up to the record
  with displacement 0. The reference takes the first record that handles the exception, and
  otherwise a cleanup when the chain has one. No record handles anything while a forced unwinding
  is in progress.
\<close>

inductive action_chain :: "mem \<Rightarrow> u64 \<Rightarrow> u64 list \<Rightarrow> bool" for m where
  chain_end: "read_sleb128 m p = Some (f, q) \<Longrightarrow> read_sleb128 m q = Some (0, q') \<Longrightarrow> action_chain m p [f]"
| chain_next: "read_sleb128 m p = Some (f, q) \<Longrightarrow> read_sleb128 m q = Some (d, q') \<Longrightarrow> d \<noteq> 0
    \<Longrightarrow> action_chain m (q + d) fs \<Longrightarrow> action_chain m p (f # fs)"

definition handles :: "'s ada_rts \<Rightarrow> mem \<Rightarrow> u64 \<Rightarrow> u32 \<Rightarrow> (u64 \<Rightarrow> u64) \<Rightarrow> u64 \<Rightarrow> u64 \<Rightarrow> bool" where
  "handles rts m ue phase tt eid f \<longleftrightarrow>
     sint f > 0 \<and> phase AND UA_FORCE_UNWIND = 0 \<and> fst (is_handled_by rts m (tt f) eid ue) \<noteq> Nothing"

definition chain_spec ::
  "'s ada_rts \<Rightarrow> mem \<Rightarrow> u64 \<Rightarrow> u32 \<Rightarrow> (u64 \<Rightarrow> u64) \<Rightarrow> u64 \<Rightarrow> u64 list \<Rightarrow> action_descriptor
     \<Rightarrow> action_descriptor \<times> u64" where
  "chain_spec rts m ue phase tt eid fs action =
     (case find (handles rts m ue phase tt eid) fs of
        Some f \<Rightarrow> let (k, e) = is_handled_by rts m (tt f) eid ue
                  in (action\<lparr>act_kind := k, ttype_filter := f\<rparr>, e)
      | None \<Rightarrow> (if 0 \<in> set fs then action\<lparr>act_kind := Cleanup, ttype_filter := 0\<rparr> else action, eid))"

lemma action_loop_step:
  assumes "read_sleb128 m p = Some (f, q)" and "read_sleb128 m q = Some (d, q')"
    and "sint f > 0 \<Longrightarrow> get_ttype_entry_for m region f = Some (tt f)"
  shows "action_loop rts m ue phase region eid p action =
    (let a = (if f = 0 then action\<lparr>act_kind := Cleanup, ttype_filter := 0\<rparr> else action) in
     if handles rts m ue phase tt eid f then Some (chain_spec rts m ue phase tt eid [f] a)
     else if d = 0 then Some (a, eid)
     else action_loop rts m ue phase region eid (q + d) a)"
proof (cases "sint f > 0 \<and> phase AND UA_FORCE_UNWIND = 0")
  case True
  then have "f \<noteq> 0" by auto
  with True assms show ?thesis
    by (subst action_loop.simps)
      (cases "is_handled_by rts m (tt f) eid ue", auto simp: cleanup_filter_def handles_def chain_spec_def)
next
  case False
  with assms show ?thesis
    by (subst action_loop.simps) (auto simp: cleanup_filter_def handles_def)
qed

lemma chain_spec_Nil: "chain_spec rts m ue phase tt eid [] action = (action, eid)"
  by (simp add: chain_spec_def)

lemma chain_spec_Cons:
  "chain_spec rts m ue phase tt eid (f # fs) action =
    (let a = (if f = 0 then action\<lparr>act_kind := Cleanup, ttype_filter := 0\<rparr> else action) in
     if handles rts m ue phase tt eid f then chain_spec rts m ue phase tt eid [f] a
     else chain_spec rts m ue phase tt eid fs a)"
proof (cases "handles rts m ue phase tt eid f")
  case True
  then have "f \<noteq> 0" by (auto simp: handles_def)
  with True show ?thesis by (simp add: chain_spec_def)
next
  case False
  then show ?thesis
    by (cases "f = 0") (simp_all add: chain_spec_def Let_def split: option.split prod.split)
qed

lemma action_loop_spec:
  assumes "action_chain m p fs"
    and "\<forall>f \<in> set fs. sint f > 0 \<longrightarrow> get_ttype_entry_for m region f = Some (tt f)"
  shows "action_loop rts m ue phase region eid p action =
    Some (chain_spec rts m ue phase tt eid fs action)"
  using assms
proof (induction arbitrary: action rule: action_chain.induct)
  case (chain_end p f q q')
  have "action_loop rts m ue phase region eid p action =
    (let a = (if f = 0 then action\<lparr>act_kind := Cleanup, ttype_filter := 0\<rparr> else action) in
     if handles rts m ue phase tt eid f then Some (chain_spec rts m ue phase tt eid [f] a)
     else Some (a, eid))"
    by (subst action_loop_step [OF chain_end(1,2), of region tt])
      (use chain_end(3) in \<open>simp_all add: Let_def\<close>)
  then show ?case by (subst chain_spec_Cons) (simp add: chain_spec_Nil Let_def)
next
  case (chain_next p f q d q' fs)
  have "action_loop rts m ue phase region eid p action =
    (let a = (if f = 0 then action\<lparr>act_kind := Cleanup, ttype_filter := 0\<rparr> else action) in
     if handles rts m ue phase tt eid f then Some (chain_spec rts m ue phase tt eid [f] a)
     else action_loop rts m ue phase region eid (q + d) a)"
    by (subst action_loop_step [OF chain_next(1,2), of region tt])
      (use chain_next(3,6) in \<open>simp_all add: Let_def\<close>)
  also have "\<dots> = Some (chain_spec rts m ue phase tt eid (f # fs) action)"
    using chain_next(5,6) by (subst chain_spec_Cons) (simp add: Let_def)
  finally show ?case .
qed

lemma chain_spec_forced:
  assumes "phase AND UA_FORCE_UNWIND \<noteq> 0"
  shows "chain_spec rts m ue phase tt eid fs action =
    (if 0 \<in> set fs then action\<lparr>act_kind := Cleanup, ttype_filter := 0\<rparr> else action, eid)"
proof -
  have "find (handles rts m ue phase tt eid) fs = None"
    using assms by (auto simp: find_None_iff handles_def)
  then show ?thesis by (simp add: chain_spec_def)
qed

text \<open>
  At a call site with a landing pad and action records, \<open>get_action_description_for\<close>
  returns and selects the first record of the chain whose filter is positive and whose choice
  matches the exception, else the cleanup if the chain has one, else nothing; the landing pad is that
  of the call site. During a forced unwinding no handler is selected.
\<close>

theorem action_description_correct:
  assumes "get_call_site_action_for m ip region action = Some a"
    and "act_kind a \<noteq> Nothing" "landing_pad a \<noteq> 0" "table_entry a \<noteq> 0"
    and "action_chain m (table_entry a) fs"
    and "\<forall>f \<in> set fs. sint f > 0 \<longrightarrow> get_ttype_entry_for m region f = Some (tt f)"
  shows "get_action_description_for rts m ip ue phase eid region action =
      Some (chain_spec rts m ue phase tt eid fs (a\<lparr>act_kind := Nothing\<rparr>))
    \<and> (phase AND UA_FORCE_UNWIND \<noteq> 0 \<longrightarrow>
        act_kind (fst (chain_spec rts m ue phase tt eid fs (a\<lparr>act_kind := Nothing\<rparr>))) \<in> {Cleanup, Nothing})"
proof
  show "get_action_description_for rts m ip ue phase eid region action =
      Some (chain_spec rts m ue phase tt eid fs (a\<lparr>act_kind := Nothing\<rparr>))"
    using assms(1-4) action_loop_spec [OF assms(5,6)]
    by (simp add: get_action_description_for_def)
qed (simp add: chain_spec_forced)

definition toy_rts :: "u64 list ada_rts" where
  "toy_rts = \<lparr>GNAT_OTHERS = 1, GNAT_ALL_OTHERS = 2, GNAT_UNHANDLED_OTHERS = 3, Foreign_Exception = 4,
     Is_Handled_By_Others = (\<lambda>e. True), Language_For = (\<lambda>e. CHR ''A''), Foreign_Data_For = (\<lambda>e. 0),
     EID_For = (\<lambda>ue. 0x77), convert_caught_object = (\<lambda>c e p l. (c = e, p)),
     setup_current_excep = (\<lambda>ue ph eid s. (ue, s @ [ue])), notify_handled_exception = (\<lambda>x s. s @ [0x11]),
     notify_unhandled_exception = (\<lambda>x s. s @ [0x22])\<rparr>"

text \<open>
  Language-specific data at address 256 for the range of 8 bytes from the start of the function, with
  the landing pad 9 and a chain of three records (a choice that is not the raised exception, a
  cleanup, a choice that is), the exception ids behind it, and an occurrence of the raised exception at
  address 512.
\<close>

definition toy_lsda :: bytes where
  "toy_lsda = [0xff, 3, 21, 1, 4, 0, 8, 9, 1, 1, 1, 0, 1, 2, 0, 0, 0x77, 0, 0, 0, 0x66, 0, 0, 0]"

definition toy_mem :: mem where
  "toy_mem a = (if 256 \<le> a \<and> a < 280 then toy_lsda ! unat (a - 256)
     else if 512 \<le> a \<and> a < 520 then [0, 0x61, 0x64, 0x41, 0x2d, 0x55, 0x4e, 0x47] ! unat (a - 512) else 0)"

definition toy_context :: unwind_context where
  "toy_context = \<lparr>uw_lsda = 256, uw_region_start = 0x1000, uw_text_base = 0, uw_data_base = 0,
     uw_ip = 0x1004, uw_ip_before_insn = False, uw_gr0 = 0, uw_gr1 = 0\<rparr>"

definition toy_region :: region_descriptor where
  "toy_region = \<lparr>rg_base = 0x1000, rg_lsda = 256, call_site_encoding = 1, call_site_table = 261,
     lp_base = 0x1000, action_table = 265, ttype_encoding = 3, ttype_table = 280, ttype_base = 0\<rparr>"

definition toy_action :: action_descriptor where
  "toy_action = \<lparr>act_kind = Nothing, table_entry = 0, landing_pad = 0, ttype_filter = 7\<rparr>"

lemma toy_chain: "action_chain toy_mem 265 [1, 0, 2]"
proof -
  have records:
    "read_sleb128 toy_mem 265 = Some (1, 266)" "read_sleb128 toy_mem 266 = Some (1, 267)"
    "read_sleb128 toy_mem 267 = Some (0, 268)" "read_sleb128 toy_mem 268 = Some (1, 269)"
    "read_sleb128 toy_mem 269 = Some (2, 270)" "read_sleb128 toy_mem 270 = Some (0, 271)"
    by code_simp+
  show ?thesis
    by (rule chain_next, rule records, rule records, simp, simp,
        rule chain_next, rule records, rule records, simp, simp, rule chain_end, (rule records)+)
qed

lemma toy_ttypes:
  "\<forall>f \<in> set [1, 0, 2]. 0 < sint f \<longrightarrow> get_ttype_entry_for toy_mem toy_region f =
     Some ((\<lambda>f. if f = 1 then 0x66 else 0x77) f)"
  by code_simp

theorem action_description_correct_witness:
  "get_action_description_for toy_rts toy_mem 0x1003 512 UA_SEARCH_PHASE 0 toy_region toy_action =
     Some (\<lparr>act_kind = Handler, table_entry = 265, landing_pad = 0x1009, ttype_filter = 2\<rparr>, 0)"
proof -
  have site: "get_call_site_action_for toy_mem 0x1003 toy_region toy_action =
      Some \<lparr>act_kind = Unknown, table_entry = 265, landing_pad = 0x1009, ttype_filter = 7\<rparr>"
    by code_simp
  have "get_action_description_for toy_rts toy_mem 0x1003 512 UA_SEARCH_PHASE 0 toy_region toy_action =
      Some (chain_spec toy_rts toy_mem 512 UA_SEARCH_PHASE (\<lambda>f. if f = 1 then 0x66 else 0x77) 0 [1, 0, 2]
        \<lparr>act_kind = Nothing, table_entry = 265, landing_pad = 0x1009, ttype_filter = 7\<rparr>)"
    using action_description_correct [OF site _ _ _ _ toy_ttypes, of toy_rts 512 UA_SEARCH_PHASE 0]
      toy_chain by simp
  also have "\<dots> = Some (\<lparr>act_kind = Handler, table_entry = 265, landing_pad = 0x1009, ttype_filter = 2\<rparr>, 0)"
    by code_simp
  finally show ?thesis .
qed

end
