(* ===== verification/Raise_Gcc.thy ===== *)
theory Raise_Gcc
  imports Raise_Tables
begin

text \<open>
  The GNAT personality routine (\<^verbatim>\<open>raise-gcc.c\<close>) on top of the tables: what it tells the unwinder in
  the search and in the cleanup phase, and what it installs. The two phases are shown to agree, the
  search phase is related to the abstract contents of the language-specific data, and the matching
  of C++ exceptions to the object the handler obtains.
\<close>

section \<open>The personality routine\<close>

datatype reason_code =
  URC_NO_REASON | URC_FATAL_PHASE1_ERROR | URC_HANDLER_FOUND | URC_INSTALL_CONTEXT | URC_CONTINUE_UNWIND

text \<open>The filter is passed as an \<open>int\<close> and stored into a 64-bit register.\<close>

definition setup_to_install :: "u64 \<Rightarrow> u64 \<Rightarrow> u64 \<Rightarrow> unwind_context \<Rightarrow> unwind_context" where
  "setup_to_install ue lp flt ctx =
     ctx\<lparr>uw_gr0 := ue, uw_gr1 := scast (ucast flt :: u32), uw_ip := lp\<rparr>"

definition continue_unwind :: reason_code where
  "continue_unwind = URC_CONTINUE_UNWIND"

text \<open>
  \<open>region\<close> and \<open>action\<close> are the uninitialised locals. A null context has no language-specific data.
\<close>

definition personality_body ::
  "'s ada_rts \<Rightarrow> mem \<Rightarrow> region_descriptor \<Rightarrow> action_descriptor \<Rightarrow> u32 \<Rightarrow> u64 \<Rightarrow> unwind_context option \<Rightarrow> 's
     \<Rightarrow> (reason_code \<times> unwind_context option \<times> 's) option" where
  "personality_body rts m region action uw_phases uw_exception uw_context s =
     do {
       region \<leftarrow> get_region_description_for m uw_context region;
       if rg_lsda region = 0 then Some (continue_unwind, uw_context, s)
       else do {
         c \<leftarrow> uw_context;
         let ip = get_ip_from_context c;
         (action, eid) \<leftarrow> get_action_description_for rts m ip uw_exception uw_phases 0 region action;
         if act_kind action = Nothing then Some (continue_unwind, uw_context, s)
         else if uw_phases AND UA_SEARCH_PHASE \<noteq> 0
         then if act_kind action = Cleanup then Some (continue_unwind, uw_context, s)
              else let (excep, s) = setup_current_excep rts uw_exception uw_phases eid s;
                       s = (if act_kind action = Unhandler then notify_unhandled_exception rts excep s
                            else notify_handled_exception rts excep s)
                   in Some (URC_HANDLER_FOUND, uw_context, s)
         else let c = setup_to_install uw_exception (landing_pad action) (ttype_filter action) c;
                  (excep, s) = setup_current_excep rts uw_exception uw_phases eid s
              in Some (URC_INSTALL_CONTEXT, Some c, s)
       }
     }"

definition gnat_personality_v0 ::
  "'s ada_rts \<Rightarrow> mem \<Rightarrow> region_descriptor \<Rightarrow> action_descriptor \<Rightarrow> int \<Rightarrow> u32 \<Rightarrow> u64 \<Rightarrow> unwind_context option
     \<Rightarrow> 's \<Rightarrow> (reason_code \<times> unwind_context option \<times> 's) option" where
  "gnat_personality_v0 rts m region action uw_version uw_phases uw_exception uw_context s =
     (if uw_version \<noteq> 1 then Some (URC_FATAL_PHASE1_ERROR, uw_context, s)
      else personality_body rts m region action uw_phases uw_exception uw_context s)"

text \<open>The stop function of a forced unwinding; the Ada handler of the end of the stack is a parameter.\<close>

definition gnat_cleanupunwind_handler :: "(u64 \<Rightarrow> 's \<Rightarrow> 's) \<Rightarrow> u32 \<Rightarrow> u64 \<Rightarrow> 's \<Rightarrow> reason_code \<times> 's" where
  "gnat_cleanupunwind_handler unhandled_except_handler phases ue s =
     (URC_NO_REASON, if phases AND UA_END_OF_STACK \<noteq> 0 then unhandled_except_handler ue s else s)"

definition gnat_Unwind_RaiseException :: "(u64 \<Rightarrow> 's \<Rightarrow> reason_code \<times> 's) \<Rightarrow> u64 \<Rightarrow> 's \<Rightarrow> reason_code \<times> 's" where
  "gnat_Unwind_RaiseException unwind_RaiseException e s = unwind_RaiseException e s"

definition gnat_Unwind_ForcedUnwind ::
  "(u64 \<Rightarrow> 'f \<Rightarrow> u64 \<Rightarrow> 's \<Rightarrow> reason_code \<times> 's) \<Rightarrow> u64 \<Rightarrow> 'f \<Rightarrow> u64 \<Rightarrow> 's \<Rightarrow> reason_code \<times> 's" where
  "gnat_Unwind_ForcedUnwind unwind_ForcedUnwind e stop arg s = unwind_ForcedUnwind e stop arg s"

section \<open>What an action says\<close>

text \<open>
  The action found for a frame: a handler has a positive filter and is not found in a forced
  unwinding, a cleanup has filter 0, and both have a landing pad.
\<close>

definition action_ok :: "u32 \<Rightarrow> action_descriptor \<Rightarrow> bool" where
  "action_ok phase a \<longleftrightarrow> (case act_kind a of
       Unknown \<Rightarrow> False
     | Nothing \<Rightarrow> True
     | Cleanup \<Rightarrow> ttype_filter a = 0 \<and> landing_pad a \<noteq> 0
     | _ \<Rightarrow> sint (ttype_filter a) > 0 \<and> landing_pad a \<noteq> 0 \<and> phase AND UA_FORCE_UNWIND = 0)"

lemma is_handled_by_kind: "fst (is_handled_by rts m choice eid ue) \<in> {Nothing, Handler, Unhandler}"
  by (simp add: is_handled_by_def Let_def)

lemma action_loop_ok:
  assumes "action_loop rts m ue phase region eid p action = Some r"
    and "act_kind action = Nothing \<or> act_kind action = Cleanup \<and> ttype_filter action = 0"
    and "landing_pad action \<noteq> 0"
  shows "action_ok phase (fst r)"
proof -
  let ?P = "\<lambda>phase action r. act_kind action = Nothing \<or> act_kind action = Cleanup \<and> ttype_filter action = 0
    \<longrightarrow> landing_pad action \<noteq> 0 \<longrightarrow> action_ok phase (fst r)"
  have "?P phase action r"
  proof (rule action_loop.raw_induct
      [where P = "\<lambda>rts m ue phase region eid p action r. ?P phase action r", OF _ assms(1)],
      intro impI, goal_cases)
    case (1 f rts m ue phase region eid p action r)
    from 1(2) obtain flt q d q' act e where
      "read_sleb128 m p = Some (flt, q)" "read_sleb128 m q = Some (d, q')"
      and act: "(if flt \<noteq> cleanup_filter \<and> sint flt > 0 \<and> phase AND UA_FORCE_UNWIND = 0
          then do { choice \<leftarrow> get_ttype_entry_for m region flt; Some (is_handled_by rts m choice eid ue) }
          else Some (Nothing, eid)) = Some (act, e)"
      and rest: "(let action = (if flt = cleanup_filter
                     then action\<lparr>act_kind := Cleanup, ttype_filter := cleanup_filter\<rparr> else action)
         in if act \<noteq> Nothing then Some (action\<lparr>act_kind := act, ttype_filter := flt\<rparr>, e)
            else if d = 0 then Some (action, eid)
            else f rts m ue phase region eid (q + d) action) = Some r"
      by (auto simp: bind_eq_Some_conv)
    from act have pos: "act \<noteq> Nothing \<Longrightarrow> sint flt > 0 \<and> phase AND UA_FORCE_UNWIND = 0"
      by (auto split: if_splits)
    from act consider "act = Nothing" | choice where "is_handled_by rts m choice eid ue = (act, e)"
      by (auto simp: bind_eq_Some_conv split: if_splits)
    then have kind: "act \<in> {Nothing, Handler, Unhandler}"
      using is_handled_by_kind [of rts m _ eid ue] by cases (simp, metis fst_conv)
    show ?case
    proof (cases "act = Nothing \<and> d \<noteq> 0")
      case True
      from 1(1) [OF rest [unfolded Let_def, simplified True, simplified]] 1(3,4) show ?thesis
        by (cases "flt = 0") (auto simp: cleanup_filter_def)
    next
      case False
      with rest kind pos 1(3,4) show ?thesis
        by (auto simp: action_ok_def cleanup_filter_def Let_def split: if_splits action_kind.splits)
    qed
  qed
  with assms show ?thesis by blast
qed

lemma get_action_description_ok:
  assumes "get_action_description_for rts m ip ue phase eid region action = Some (a, e)"
  shows "action_ok phase a"
proof -
  from assms obtain b where site: "get_call_site_action_for m ip region action = Some b"
    and a: "(if act_kind b = Nothing then Some (b, eid)
       else if landing_pad b = 0 then Some (b\<lparr>act_kind := Nothing\<rparr>, eid)
       else if table_entry b = 0 then Some (b\<lparr>act_kind := Cleanup, ttype_filter := cleanup_filter\<rparr>, eid)
       else action_loop rts m ue phase region eid (table_entry b) (b\<lparr>act_kind := Nothing\<rparr>)) = Some (a, e)"
    by (auto simp: get_action_description_for_def bind_eq_Some_conv)
  show ?thesis
  proof (cases "act_kind b = Nothing \<or> landing_pad b = 0 \<or> table_entry b = 0")
    case True
    with a show ?thesis by (auto simp: action_ok_def cleanup_filter_def split: if_splits)
  next
    case False
    with a have "action_loop rts m ue phase region eid (table_entry b) (b\<lparr>act_kind := Nothing\<rparr>) = Some (a, e)"
      by simp
    from action_loop_ok [OF this] False show ?thesis by simp
  qed
qed

lemma personality_action:
  assumes "get_region_description_for m (Some c) region = Some r" and "rg_lsda r \<noteq> 0"
    and "get_action_description_for rts m (get_ip_from_context c) ue phases 0 r action = Some (a, e)"
  shows "\<exists>s'. personality_body rts m region action phases ue (Some c) s = Some (
    if act_kind a = Nothing \<or> phases AND UA_SEARCH_PHASE \<noteq> 0 \<and> act_kind a = Cleanup
    then (URC_CONTINUE_UNWIND, Some c, s)
    else if phases AND UA_SEARCH_PHASE \<noteq> 0 then (URC_HANDLER_FOUND, Some c, s')
    else (URC_INSTALL_CONTEXT, Some (setup_to_install ue (landing_pad a) (ttype_filter a) c), s'))"
  using assms by (auto simp: personality_body_def continue_unwind_def Let_def split: prod.split)

section \<open>C++ exceptions\<close>

text \<open>
  A choice that the personality routine matches against a C++ exception by its type is
  recorded as the exception id, and \<open>__gnat_obtain_caught_object\<close> called for that choice succeeds:
  it converts the same object, of the type that \<open>__gnat_get_cxx_exception_type_info\<close> reports for a
  primary exception.
\<close>

theorem cpp_match_obtains_object:
  assumes "is_handled_by rts m choice eid ue = (Handler, e)"
    and "\<not> gnat_exception_language_is_ada m ue"
    and "choice \<notin> {GNAT_OTHERS rts, GNAT_ALL_OTHERS rts, Foreign_Exception rts}"
  shows "e = choice \<and> gnat_exception_language_is_cplusplus m ue \<and> Language_For rts choice \<in> {CHR ''B'', CHR ''C''}
    \<and> fst (gnat_obtain_caught_object rts m (Foreign_Data_For rts choice) (Language_For rts choice) ue)
    \<and> (exception_class_eq m ue CXX_EXCEPTION_CLASS \<longrightarrow>
        gnat_obtain_caught_object rts m (Foreign_Data_For rts choice) (Language_For rts choice) ue =
        convert_caught_object rts (Foreign_Data_For rts choice) (gnat_get_cxx_exception_type_info m ue)
          (ue + 32) (Language_For rts choice))"
proof -
  have distinct: "CXX_EXCEPTION_CLASS \<noteq> CXX_DEPENDENT_EXCEPTION_CLASS"
    by (simp add: CXX_EXCEPTION_CLASS_def CXX_DEPENDENT_EXCEPTION_CLASS_def)
  have hdr: "ue + SIZEOF_Unwind_Exception - SIZEOF_Unwind_Exception = ue"
    "ue + SIZEOF_Unwind_Exception - SIZEOF_cxa_exception + OFFSET_unwindHeader = ue"
    by (simp_all add: SIZEOF_Unwind_Exception_def SIZEOF_cxa_exception_def OFFSET_unwindHeader_def)
  let ?primary = "exception_class_eq m ue CXX_EXCEPTION_CLASS"
  let ?dependent = "exception_class_eq m ue CXX_DEPENDENT_EXCEPTION_CLASS"
  let ?lang = "Language_For rts choice"
  define p where "p = (if ?primary then ue + SIZEOF_Unwind_Exception
      else gnat_get_cxx_dependent_exception m (ue + SIZEOF_Unwind_Exception))"
  from assms have cls: "?primary \<or> ?dependent" and lang: "?lang = CHR ''C'' \<or> ?lang = CHR ''B''"
    and conv: "fst (convert_caught_object rts (Foreign_Data_For rts choice) (load64 m (p - SIZEOF_cxa_exception)) p ?lang)"
    and e: "e = choice"
    by (auto simp: is_handled_by_def gnat_exception_language_is_ada_def Let_def p_def split: if_splits)
  have maybe: "gnat_maybe_get_cxx_dependent_exception m (ue + SIZEOF_Unwind_Exception) = p"
    using cls distinct by (auto simp: gnat_maybe_get_cxx_dependent_exception_def hdr p_def exception_class_eq_def)
  have obj: "gnat_obtain_caught_object rts m (Foreign_Data_For rts choice) ?lang ue =
      convert_caught_object rts (Foreign_Data_For rts choice) (load64 m (p - SIZEOF_cxa_exception)) p ?lang"
    using conv lang by (auto simp: gnat_obtain_caught_object_def maybe split: prod.splits)
  have "gnat_get_cxx_exception_type_info m ue = load64 m (p - SIZEOF_cxa_exception)" "p = ue + 32" if ?primary
    using that by (simp_all add: gnat_get_cxx_exception_type_info_def maybe Let_def p_def hdr
        flip: SIZEOF_Unwind_Exception_def)
  with e cls lang conv obj show ?thesis
    by (auto simp: gnat_exception_language_is_cplusplus_def)
qed

theorem cpp_match_obtains_object_witness:
  "let rts = toy_rts\<lparr>Language_For := (\<lambda>e. CHR ''C''), Foreign_Data_For := (\<lambda>e. 0x55)\<rparr>;
       m = (\<lambda>a. if a = 432 then 0x55 else if 512 \<le> a \<and> a < 520
                then [0, 0x2b, 0x2b, 0x43, 0x43, 0x55, 0x4e, 0x47] ! unat (a - 512) else 0)
   in is_handled_by rts m 0x99 0 512 = (Handler, 0x99) \<and>
      gnat_obtain_caught_object rts m 0x55 CHR ''C'' 512 = (True, 544)"
proof -
  let ?rts = "toy_rts\<lparr>Language_For := (\<lambda>e. CHR ''C''), Foreign_Data_For := (\<lambda>e. 0x55)\<rparr>"
  let ?m = "\<lambda>a :: u64. if a = 432 then 0x55 else if 512 \<le> a \<and> a < 520
    then [0, 0x2b, 0x2b, 0x43, 0x43, 0x55, 0x4e, 0x47] ! unat (a - 512) else (0 :: u8)"
  have h: "is_handled_by ?rts ?m 0x99 0 512 = (Handler, 0x99)" by code_simp
  have l: "\<not> gnat_exception_language_is_ada ?m 512" by code_simp
  have c: "exception_class_eq ?m 512 CXX_EXCEPTION_CLASS" by code_simp
  have ti: "gnat_get_cxx_exception_type_info ?m 512 = 0x55" by code_simp
  from cpp_match_obtains_object [OF h l] c ti
  have "gnat_obtain_caught_object ?rts ?m 0x55 CHR ''C'' 512 = (True, 544)"
    by (simp add: toy_rts_def)
  with h show ?thesis by (simp add: Let_def)
qed

section \<open>The contents of the language-specific data\<close>

text \<open>
  The header as the compiler writes it: no separate base for landing pads, the encoding and offset of
  the type table unless it is omitted, and the encoding and length of the call-site table. What
  follows is the call-site table itself and then the action table.
\<close>

definition lsda_header :: "u8 \<Rightarrow> u64 \<Rightarrow> u64 \<Rightarrow> bytes" where
  "lsda_header tte ttoff n = [DW_EH_PE_omit, tte]
     @ (if tte = DW_EH_PE_omit then [] else encode_uleb128 ttoff) @ [DW_EH_PE_uleb128] @ encode_uleb128 n"

definition call_site_area :: "call_site list \<Rightarrow> bytes" where
  "call_site_area es = concat (map call_site_bytes es)"

definition lsda_bytes :: "u8 \<Rightarrow> u64 \<Rightarrow> call_site list \<Rightarrow> bytes" where
  "lsda_bytes tte ttoff es = lsda_header tte ttoff (word_of_nat (length (call_site_area es))) @ call_site_area es"

definition lsda_region :: "unwind_context \<Rightarrow> u8 \<Rightarrow> u64 \<Rightarrow> u64 \<Rightarrow> u64 \<Rightarrow> region_descriptor" where
  "lsda_region c tte ttoff ttb n =
     (let cs = uw_lsda c + word_of_nat (length (lsda_header tte ttoff n))
      in \<lparr>rg_base = uw_region_start c, rg_lsda = uw_lsda c, call_site_encoding = DW_EH_PE_uleb128,
          call_site_table = cs, lp_base = uw_region_start c, action_table = cs + n, ttype_encoding = tte,
          ttype_table = (if tte = DW_EH_PE_omit then 0
             else uw_lsda c + 2 + word_of_nat (length (encode_uleb128 ttoff)) + ttoff),
          ttype_base = ttb\<rparr>)"

lemma get_region_of_header:
  assumes "bytes_at m (uw_lsda c) (lsda_header tte ttoff n)" and "uw_lsda c \<noteq> 0"
    and "base_of_encoded_value tte (Some c) = Some ttb"
  shows "get_region_description_for m (Some c) region = Some (lsda_region c tte ttoff ttb n)"
proof -
  let ?p = "uw_lsda c"
  from assms(1) have hd: "m ?p = DW_EH_PE_omit" "m (?p + 1) = tte"
    and tl: "bytes_at m (?p + 2) ((if tte = DW_EH_PE_omit then [] else encode_uleb128 ttoff)
      @ [DW_EH_PE_uleb128] @ encode_uleb128 n)"
    by (simp_all add: lsda_header_def bytes_at_Cons add.assoc)
  show ?thesis
  proof (cases "tte = DW_EH_PE_omit")
    case True
    with tl have "m (?p + 2) = DW_EH_PE_uleb128" "bytes_at m (?p + 2 + 1) (encode_uleb128 n)"
      by (simp_all add: bytes_at_Cons)
    with True hd assms(2,3) uleb.rd_enc [OF this(2)] show ?thesis
      by (simp add: get_region_description_for_def lsda_region_def lsda_header_def Let_def add.assoc)
  next
    case False
    let ?q = "?p + 2 + word_of_nat (length (encode_uleb128 ttoff))"
    from tl False have tt: "bytes_at m (?p + 2) (encode_uleb128 ttoff @ DW_EH_PE_uleb128 # encode_uleb128 n)"
      by simp
    note rd = uleb.rd_append [OF tt]
    from rd(2) have "m ?q = DW_EH_PE_uleb128" "bytes_at m (?q + 1) (encode_uleb128 n)"
      by (simp_all add: bytes_at_Cons)
    with False hd assms(2,3) rd(1) uleb.rd_enc [OF this(2)] show ?thesis
      by (simp add: get_region_description_for_def lsda_region_def lsda_header_def Let_def add.assoc)
  qed
qed

text \<open>
  The abstract contents: for every action number used by a call site the filters of its chain, and
  for every positive filter the exception choice. \<open>frame_handles\<close> is the reference: the frame has a
  handler when the call site of the instruction has a landing pad and some choice of its chain matches.
\<close>

definition actions_ok ::
  "mem \<Rightarrow> region_descriptor \<Rightarrow> (u64 \<Rightarrow> u64 list) \<Rightarrow> (u64 \<Rightarrow> u64) \<Rightarrow> call_site list \<Rightarrow> bool" where
  "actions_ok m region chain tt es \<longleftrightarrow> (\<forall>(s, l, lp, act) \<in> set es.
     (lp \<noteq> 0 \<longrightarrow> lp_base region + lp \<noteq> 0) \<and>
     (act \<noteq> 0 \<longrightarrow> action_table region + (act - 1) \<noteq> 0
        \<and> action_chain m (action_table region + (act - 1)) (chain act)
        \<and> (\<forall>f \<in> set (chain act). sint f > 0 \<longrightarrow> get_ttype_entry_for m region f = Some (tt f))))"

definition frame_handles ::
  "'s ada_rts \<Rightarrow> mem \<Rightarrow> u64 \<Rightarrow> unwind_context \<Rightarrow> (u64 \<Rightarrow> u64 list) \<Rightarrow> (u64 \<Rightarrow> u64) \<Rightarrow> call_site list \<Rightarrow> bool" where
  "frame_handles rts m ue c chain tt es \<longleftrightarrow>
     (case find (covers (uw_region_start c) (get_ip_from_context c)) es of
        None \<Rightarrow> False
      | Some (s, l, lp, act) \<Rightarrow> lp \<noteq> 0 \<and> act \<noteq> 0 \<and>
          (\<exists>f \<in> set (chain act). sint f > 0 \<and> fst (is_handled_by rts m (tt f) 0 ue) \<noteq> Nothing))"

text \<open>
  Where the unwinding is to land in the frame, the reference for the cleanup phase: the landing pad of
  the call site with the first matching filter of its chain, else with 0 when the site has no chain or
  the chain has a cleanup. In a forced unwinding no filter matches.
\<close>

definition frame_landing ::
  "'s ada_rts \<Rightarrow> mem \<Rightarrow> u64 \<Rightarrow> u32 \<Rightarrow> unwind_context \<Rightarrow> (u64 \<Rightarrow> u64 list) \<Rightarrow> (u64 \<Rightarrow> u64) \<Rightarrow> call_site list
     \<Rightarrow> (u64 \<times> u64) option" where
  "frame_landing rts m ue phases c chain tt es =
     (case find (covers (uw_region_start c) (get_ip_from_context c)) es of
        None \<Rightarrow> None
      | Some (s, l, lp, act) \<Rightarrow>
          if lp = 0 then None
          else if act = 0 then Some (uw_region_start c + lp, 0)
          else case find (handles rts m ue phases tt 0) (chain act) of
                 Some f \<Rightarrow> Some (uw_region_start c + lp, f)
               | None \<Rightarrow> if 0 \<in> set (chain act) then Some (uw_region_start c + lp, 0) else None)"

lemma frame_landing_filter:
  assumes "frame_landing rts m ue phases c chain tt es = Some (lp, f)"
  shows "f = 0 \<or> 0 < sint f \<and> phases AND UA_FORCE_UNWIND = 0"
  using assms by (auto simp: frame_landing_def find_Some_iff handles_def split: option.splits if_splits)

lemma frame_handles_landing:
  assumes "phases AND UA_FORCE_UNWIND = 0"
  shows "frame_handles rts m ue c chain tt es \<longleftrightarrow>
    (\<exists>lp f. frame_landing rts m ue phases c chain tt es = Some (lp, f) \<and> f \<noteq> 0)"
proof (cases "find (covers (uw_region_start c) (get_ip_from_context c)) es")
  case (Some x)
  obtain s l lp act where x: "x = (s, l, lp, act)" by (metis prod_cases4)
  have "(\<exists>f \<in> set (chain act). sint f > 0 \<and> fst (is_handled_by rts m (tt f) 0 ue) \<noteq> Nothing) \<longleftrightarrow>
      (\<exists>f. find (handles rts m ue phases tt 0) (chain act) = Some f \<and> f \<noteq> 0)"
    using find_None_iff [of "handles rts m ue phases tt 0" "chain act"] assms
    by (cases "find (handles rts m ue phases tt 0) (chain act)")
      (auto simp: handles_def find_Some_iff)
  with Some x show ?thesis
    by (auto simp: frame_handles_def frame_landing_def split: option.splits)
qed (simp add: frame_handles_def frame_landing_def)

lemma chain_spec_landing:
  assumes "chain_spec rts m ue phase tt eid fs (a\<lparr>act_kind := Nothing\<rparr>) = (b, e)"
  shows "(if act_kind b = Nothing then None else Some (landing_pad b, ttype_filter b)) =
    (case find (handles rts m ue phase tt eid) fs of
       Some f \<Rightarrow> Some (landing_pad a, f)
     | None \<Rightarrow> if 0 \<in> set fs then Some (landing_pad a, 0) else None)"
proof (cases "find (handles rts m ue phase tt eid) fs")
  case None
  with assms show ?thesis by (auto simp: chain_spec_def split: if_splits)
next
  case (Some f)
  then have "handles rts m ue phase tt eid f" by (auto simp: find_Some_iff)
  with Some assms show ?thesis by (auto simp: chain_spec_def handles_def split: prod.splits)
qed

text \<open>On the tables of a function every phase finds the action that the reference names.\<close>

lemma action_of_tables:
  assumes area: "bytes_at m (call_site_table region) (call_site_area es)"
    and enc: "call_site_encoding region = DW_EH_PE_uleb128"
    and tab: "action_table region = call_site_table region + word_of_nat (length (call_site_area es))"
    and room: "unat (call_site_table region) + length (call_site_area es) < 2 ^ 64"
    and sites: "call_sites_ok (rg_base region) es"
    and acts: "actions_ok m region chain tt es"
    and c: "rg_base region = uw_region_start c" "lp_base region = uw_region_start c"
  shows "\<exists>a e. get_action_description_for rts m (get_ip_from_context c) ue phase 0 region action = Some (a, e)
    \<and> frame_landing rts m ue phase c chain tt es =
        (if act_kind a = Nothing then None else Some (landing_pad a, ttype_filter a))"
proof -
  let ?ip = "get_ip_from_context c"
  let ?a = "call_site_spec ?ip region es (action\<lparr>act_kind := Nothing\<rparr>)"
  have site: "get_call_site_action_for m ?ip region action = Some ?a"
    unfolding get_call_site_action_for_def
    using enc area tab room sites by (intro call_site_loop_spec) (simp_all add: call_site_area_def)
  show ?thesis
  proof (cases "find (covers (uw_region_start c) ?ip) es")
    case None
    then show ?thesis
      by (simp add: get_action_description_for_def site call_site_spec_def c frame_landing_def)
  next
    case (Some x)
    obtain s l lp act where x: "x = (s, l, lp, act)" by (metis prod_cases4)
    from Some have "x \<in> set es" by (auto simp: find_Some_iff)
    with acts have ok: "lp \<noteq> 0 \<Longrightarrow> lp_base region + lp \<noteq> 0"
      "act \<noteq> 0 \<Longrightarrow> action_table region + (act - 1) \<noteq> 0"
      "act \<noteq> 0 \<Longrightarrow> action_chain m (action_table region + (act - 1)) (chain act)"
      "act \<noteq> 0 \<Longrightarrow> \<forall>f \<in> set (chain act). sint f > 0 \<longrightarrow> get_ttype_entry_for m region f = Some (tt f)"
      by (auto simp: actions_ok_def x)
    show ?thesis
    proof (cases "lp \<noteq> 0 \<and> act \<noteq> 0")
      case True
      then have a: "act_kind ?a = Unknown" "landing_pad ?a \<noteq> 0" "table_entry ?a \<noteq> 0"
        "landing_pad ?a = uw_region_start c + lp" "table_entry ?a = action_table region + (act - 1)"
        using Some ok by (simp_all add: call_site_spec_def c x)
      obtain b e where b: "chain_spec rts m ue phase tt 0 (chain act) (?a\<lparr>act_kind := Nothing\<rparr>) = (b, e)"
        by (metis prod.exhaust)
      have "get_action_description_for rts m ?ip ue phase 0 region action = Some (b, e)"
        using a True action_loop_spec [OF ok(3,4), of rts ue phase 0] b by (simp add: get_action_description_for_def site)
      with chain_spec_landing [OF b, unfolded a(4)] True Some show ?thesis
        by (simp add: frame_landing_def x)
    next
      case False
      with Some ok(1) show ?thesis
        by (auto simp: get_action_description_for_def site call_site_spec_def c frame_landing_def x cleanup_filter_def)
    qed
  qed
qed

lemma personality_of_tables:
  assumes "bytes_at m (uw_lsda c) (lsda_bytes tte ttoff es)" and "uw_lsda c \<noteq> 0"
    and "unat (uw_lsda c) + length (lsda_bytes tte ttoff es) < 2 ^ 64"
    and "base_of_encoded_value tte (Some c) = Some ttb"
    and "call_sites_ok (uw_region_start c) es"
    and "actions_ok m (lsda_region c tte ttoff ttb (word_of_nat (length (call_site_area es)))) chain tt es"
  shows "\<exists>s'. gnat_personality_v0 rts m region action 1 phases ue (Some c) s = Some (
    case frame_landing rts m ue phases c chain tt es of
      None \<Rightarrow> (URC_CONTINUE_UNWIND, Some c, s)
    | Some (lp, f) \<Rightarrow>
        if phases AND UA_SEARCH_PHASE = 0 then (URC_INSTALL_CONTEXT, Some (setup_to_install ue lp f c), s')
        else if f = 0 then (URC_CONTINUE_UNWIND, Some c, s) else (URC_HANDLER_FOUND, Some c, s'))"
    and "frame_landing rts m ue phases c chain tt es = Some (lp, f) \<Longrightarrow> lp \<noteq> 0"
proof -
  let ?n = "word_of_nat (length (call_site_area es)) :: u64"
  let ?h = "lsda_header tte ttoff ?n"
  let ?r = "lsda_region c tte ttoff ttb ?n"
  from assms(1) have hdr: "bytes_at m (uw_lsda c) ?h"
    and area: "bytes_at m (uw_lsda c + word_of_nat (length ?h)) (call_site_area es)"
    by (simp_all add: lsda_bytes_def bytes_at_append)
  have r: "get_region_description_for m (Some c) region = Some ?r"
    using hdr assms(2,4) by (rule get_region_of_header)
  have "unat (uw_lsda c + word_of_nat (length ?h)) = unat (uw_lsda c) + length ?h"
    using assms(3) by (intro unat_add_nat) (simp add: lsda_bytes_def)
  then have room: "unat (uw_lsda c + word_of_nat (length ?h)) + length (call_site_area es) < 2 ^ 64"
    using assms(3) by (simp add: lsda_bytes_def)
  obtain a e where a: "get_action_description_for rts m (get_ip_from_context c) ue phases 0 ?r action = Some (a, e)"
    and l: "frame_landing rts m ue phases c chain tt es =
      (if act_kind a = Nothing then None else Some (landing_pad a, ttype_filter a))"
    using action_of_tables [of m ?r es chain tt c rts ue phases action] area room assms(5,6)
    by (auto simp: lsda_region_def Let_def)
  note ok = get_action_description_ok [OF a]
  from personality_action [OF r _ a, of s] assms(2) l ok
  show "\<exists>s'. gnat_personality_v0 rts m region action 1 phases ue (Some c) s = Some (
    case frame_landing rts m ue phases c chain tt es of
      None \<Rightarrow> (URC_CONTINUE_UNWIND, Some c, s)
    | Some (lp, f) \<Rightarrow>
        if phases AND UA_SEARCH_PHASE = 0 then (URC_INSTALL_CONTEXT, Some (setup_to_install ue lp f c), s')
        else if f = 0 then (URC_CONTINUE_UNWIND, Some c, s) else (URC_HANDLER_FOUND, Some c, s'))"
    by (cases "act_kind a") (auto simp: gnat_personality_v0_def lsda_region_def Let_def action_ok_def)
  show "frame_landing rts m ue phases c chain tt es = Some (lp, f) \<Longrightarrow> lp \<noteq> 0"
    using l ok by (auto simp: action_ok_def split: if_splits action_kind.splits)
qed

text \<open>
  Property C31: on the language-specific data of a function, the search phase returns for every
  instruction and leaves the context alone. It answers that the frame has a handler exactly when
  the reference says so: some choice in the chain of the call site of the instruction matches the
  exception. Otherwise the unwinding goes on.
\<close>

theorem personality_search_correct:
  assumes "bytes_at m (uw_lsda c) (lsda_bytes tte ttoff es)" and "uw_lsda c \<noteq> 0"
    and "unat (uw_lsda c) + length (lsda_bytes tte ttoff es) < 2 ^ 64"
    and "base_of_encoded_value tte (Some c) = Some ttb"
    and "call_sites_ok (uw_region_start c) es"
    and "actions_ok m (lsda_region c tte ttoff ttb (word_of_nat (length (call_site_area es)))) chain tt es"
  shows "\<exists>s'. gnat_personality_v0 rts m region action 1 UA_SEARCH_PHASE ue (Some c) s =
    Some (if frame_handles rts m ue c chain tt es then URC_HANDLER_FOUND else URC_CONTINUE_UNWIND, Some c, s')"
proof -
  have "UA_SEARCH_PHASE AND UA_FORCE_UNWIND = 0" "UA_SEARCH_PHASE AND UA_SEARCH_PHASE \<noteq> 0" by simp_all
  with personality_of_tables(1) [OF assms, of rts region action UA_SEARCH_PHASE ue s]
    frame_handles_landing [of UA_SEARCH_PHASE rts m ue c chain tt es]
  show ?thesis by (auto split: option.splits if_splits)
qed

text \<open>The example of \<open>Raise_Tables\<close>, as the bytes of its tables.\<close>

abbreviation (input) toy_sites :: "call_site list" where "toy_sites \<equiv> [(0, 8, 9, 1)]"
abbreviation (input) toy_choice :: "u64 \<Rightarrow> u64" where "toy_choice \<equiv> \<lambda>f. if f = 1 then 0x66 else 0x77"

lemma toy_tables:
  "bytes_at toy_mem (uw_lsda toy_context) (lsda_bytes 3 21 toy_sites)"
  "uw_lsda toy_context \<noteq> 0"
  "unat (uw_lsda toy_context) + length (lsda_bytes 3 21 toy_sites) < 2 ^ 64"
  "base_of_encoded_value 3 (Some toy_context) = Some 0"
  "call_sites_ok (uw_region_start toy_context) toy_sites"
  "actions_ok toy_mem (lsda_region toy_context 3 21 0 (word_of_nat (length (call_site_area toy_sites))))
     (\<lambda>_. [1, 0, 2]) toy_choice toy_sites"
proof -
  have e: "encode_uleb128 21 = [21]" "call_site_area toy_sites = [0, 8, 9, 1]" "encode_uleb128 4 = [4]"
    by (simp_all add: call_site_area_def encode_uleb128_def uleb_digits.simps)
  have bytes: "lsda_bytes 3 21 toy_sites = [0xff, 3, 21, 1, 4, 0, 8, 9, 1]"
    by (simp add: lsda_bytes_def lsda_header_def e)
  show "bytes_at toy_mem (uw_lsda toy_context) (lsda_bytes 3 21 toy_sites)"
    unfolding bytes by (simp add: toy_context_def toy_mem_def toy_lsda_def bytes_at_Cons bytes_at_def [of _ _ "[]"])
  show "unat (uw_lsda toy_context) + length (lsda_bytes 3 21 toy_sites) < 2 ^ 64"
    unfolding bytes by (simp add: toy_context_def)
  have region: "lsda_region toy_context 3 21 0 (word_of_nat (length (call_site_area toy_sites))) = toy_region"
    by (simp add: lsda_region_def toy_region_def toy_context_def lsda_header_def e)
  show "actions_ok toy_mem (lsda_region toy_context 3 21 0 (word_of_nat (length (call_site_area toy_sites))))
     (\<lambda>_. [1, 0, 2]) toy_choice toy_sites"
    unfolding region using toy_chain toy_ttypes by (simp add: actions_ok_def) (simp add: toy_region_def)
qed (simp_all add: toy_context_def base_of_encoded_value_def call_sites_ok_def)

theorem personality_search_correct_witness:
  "\<exists>s'. gnat_personality_v0 toy_rts toy_mem toy_region toy_action 1 UA_SEARCH_PHASE 512 (Some toy_context) [] =
     Some (URC_HANDLER_FOUND, Some toy_context, s')"
proof -
  have "frame_handles toy_rts toy_mem 512 toy_context (\<lambda>_. [1, 0, 2]) toy_choice toy_sites"
    by code_simp
  with personality_search_correct [OF toy_tables, of toy_rts toy_region toy_action 512 "[]"]
  show ?thesis by simp
qed

section \<open>The two phases\<close>

text \<open>A filter that fits the \<open>int\<close> parameter of \<open>setup_to_install\<close> reaches the register unchanged.\<close>

lemma filter_register:
  fixes f :: u64
  assumes "0 \<le> sint f" and "sint f < 2 ^ 31"
  shows "scast (ucast f :: u32) = f"
proof -
  let ?k = "sint f"
  have "sint (ucast f :: u32) = signed_take_bit 31 ?k"
    by (simp add: sint_uint unsigned_ucast_eq signed_take_bit_take_bit)
  also have "\<dots> = ?k" using assms by (simp add: signed_take_bit_int_eq_self)
  finally show ?thesis by (simp add: scast_eq)
qed

text \<open>
  Property C32: on the language-specific data of a function the two phases agree. The search phase
  answers that the frame has a handler exactly when the reference landing of the frame has a filter
  other than 0, and it leaves the context alone. The cleanup phase of the same frame then installs
  exactly that landing: the instruction pointer is the landing pad of the call site, which is not null,
  the first data register is the exception, the second the filter of the first matching choice cut to
  an \<open>int\<close>; a filter below \<open>2 ^ 31\<close> arrives as it is, and positive. With a landing of filter 0 the
  search goes on and the cleanup phase installs the cleanup; with no landing both go on. A forced
  unwinding never lands on a handler.
\<close>

theorem two_phases_agree:
  assumes "bytes_at m (uw_lsda c) (lsda_bytes tte ttoff es)" and "uw_lsda c \<noteq> 0"
    and "unat (uw_lsda c) + length (lsda_bytes tte ttoff es) < 2 ^ 64"
    and "base_of_encoded_value tte (Some c) = Some ttb"
    and "call_sites_ok (uw_region_start c) es"
    and "actions_ok m (lsda_region c tte ttoff ttb (word_of_nat (length (call_site_area es)))) chain tt es"
    and phase: "phases AND UA_SEARCH_PHASE = 0"
  shows "(\<exists>s1. gnat_personality_v0 rts m region action 1 UA_SEARCH_PHASE ue (Some c) s = Some (
        case frame_landing rts m ue UA_SEARCH_PHASE c chain tt es of
          None \<Rightarrow> (URC_CONTINUE_UNWIND, Some c, s)
        | Some (lp, f) \<Rightarrow> if f = 0 then (URC_CONTINUE_UNWIND, Some c, s) else (URC_HANDLER_FOUND, Some c, s1)))
    \<and> (\<exists>s2. gnat_personality_v0 rts m region action 1 phases ue (Some c) s = Some (
        case frame_landing rts m ue phases c chain tt es of
          None \<Rightarrow> (URC_CONTINUE_UNWIND, Some c, s)
        | Some (lp, f) \<Rightarrow>
            (URC_INSTALL_CONTEXT, Some (c\<lparr>uw_gr0 := ue, uw_gr1 := scast (ucast f :: u32), uw_ip := lp\<rparr>), s2)))
    \<and> (phases AND UA_FORCE_UNWIND = 0 \<longrightarrow>
        frame_landing rts m ue phases c chain tt es = frame_landing rts m ue UA_SEARCH_PHASE c chain tt es)
    \<and> (\<forall>lp f. frame_landing rts m ue phases c chain tt es = Some (lp, f) \<longrightarrow>
        lp \<noteq> 0 \<and> 0 \<le> sint f \<and> (f \<noteq> 0 \<longrightarrow> phases AND UA_FORCE_UNWIND = 0) \<and>
        (sint f < 2 ^ 31 \<longrightarrow> scast (ucast f :: u32) = f))"
proof (intro conjI impI allI)
  note p = personality_of_tables [OF assms(1-6)]
  show "\<exists>s1. gnat_personality_v0 rts m region action 1 UA_SEARCH_PHASE ue (Some c) s = Some (
      case frame_landing rts m ue UA_SEARCH_PHASE c chain tt es of
        None \<Rightarrow> (URC_CONTINUE_UNWIND, Some c, s)
      | Some (lp, f) \<Rightarrow> if f = 0 then (URC_CONTINUE_UNWIND, Some c, s) else (URC_HANDLER_FOUND, Some c, s1))"
    using p(1) [of rts region action UA_SEARCH_PHASE ue s] by (simp cong: option.case_cong)
  show "\<exists>s2. gnat_personality_v0 rts m region action 1 phases ue (Some c) s = Some (
      case frame_landing rts m ue phases c chain tt es of
        None \<Rightarrow> (URC_CONTINUE_UNWIND, Some c, s)
      | Some (lp, f) \<Rightarrow>
          (URC_INSTALL_CONTEXT, Some (c\<lparr>uw_gr0 := ue, uw_gr1 := scast (ucast f :: u32), uw_ip := lp\<rparr>), s2))"
    using p(1) [of rts region action phases ue s] by (simp add: phase setup_to_install_def cong: option.case_cong)
  show "frame_landing rts m ue phases c chain tt es = frame_landing rts m ue UA_SEARCH_PHASE c chain tt es"
    if "phases AND UA_FORCE_UNWIND = 0"
  proof -
    have eq: "handles rts m ue phases = handles rts m ue UA_SEARCH_PHASE"
      using that by (simp add: handles_def fun_eq_iff)
    show ?thesis unfolding frame_landing_def eq ..
  qed
  fix lp f
  assume l: "frame_landing rts m ue phases c chain tt es = Some (lp, f)"
  from frame_landing_filter [OF l] p(2) [OF l] show "lp \<noteq> 0" "0 \<le> sint f"
    "f \<noteq> 0 \<Longrightarrow> phases AND UA_FORCE_UNWIND = 0" "sint f < 2 ^ 31 \<Longrightarrow> scast (ucast f :: u32) = f"
    by (auto intro: filter_register)
qed

theorem two_phases_agree_witness:
  "(\<exists>s1. gnat_personality_v0 toy_rts toy_mem toy_region toy_action 1 UA_SEARCH_PHASE 512 (Some toy_context) [] =
      Some (URC_HANDLER_FOUND, Some toy_context, s1)) \<and>
   (\<exists>s2. gnat_personality_v0 toy_rts toy_mem toy_region toy_action 1 6 512 (Some toy_context) [] =
      Some (URC_INSTALL_CONTEXT, Some (toy_context\<lparr>uw_gr0 := 512, uw_gr1 := 2, uw_ip := 0x1009\<rparr>), s2))"
proof -
  have l: "frame_landing toy_rts toy_mem 512 1 toy_context (\<lambda>_. [1, 0, 2]) toy_choice toy_sites = Some (0x1009, 2)"
    "frame_landing toy_rts toy_mem 512 6 toy_context (\<lambda>_. [1, 0, 2]) toy_choice toy_sites = Some (0x1009, 2)"
    by code_simp+
  have "(6 :: u32) AND UA_SEARCH_PHASE = 0" by simp
  from two_phases_agree [OF toy_tables this, of toy_rts toy_region toy_action 512 "[]"]
  show ?thesis by (simp add: l)
qed

end
