(* ===== verification/Gnat_Files.thy ===== *)
theory Gnat_Files
  imports Aegir_Prelude
begin

text \<open>
  The file interface of the GNAT runtime (\<^verbatim>\<open>adaint.c\<close>) in the configuration of this build: the cache of
  file attributes, path names with volume labels, the search for a file along a path, permissions and
  directory walks. The C library and the Ada file hooks are parameters. Names are C strings without
  their NUL.
\<close>

section \<open>File attributes\<close>

record stat =
  st_mode :: u32
  st_size :: int
  st_mtime :: int

text \<open>What \<open>stat\<close> and \<open>fstat\<close> return, set \<open>errno\<close> to and store; a query does not change the file system.\<close>

record libc_stat =
  sys_stat :: "string \<Rightarrow> int \<times> int \<times> stat"
  sys_fstat :: "int \<Rightarrow> int \<times> int \<times> stat"

abbreviation (input) ENOENT :: int where "ENOENT \<equiv> 2"
abbreviation (input) EINVAL :: int where "EINVAL \<equiv> 22"
abbreviation (input) S_IRUSR :: u32 where "S_IRUSR \<equiv> 0x100"
abbreviation (input) S_IWUSR :: u32 where "S_IWUSR \<equiv> 0x80"
abbreviation (input) S_IXUSR :: u32 where "S_IXUSR \<equiv> 0x40"
abbreviation (input) S_IXGRP :: u32 where "S_IXGRP \<equiv> 0x08"
abbreviation (input) S_IXOTH :: u32 where "S_IXOTH \<equiv> 0x01"

definition S_ISREG :: "u32 \<Rightarrow> bool" where "S_ISREG mode \<longleftrightarrow> mode AND 0xF000 = 0x8000"
definition S_ISDIR :: "u32 \<Rightarrow> bool" where "S_ISDIR mode \<longleftrightarrow> mode AND 0xF000 = 0x4000"

record file_attributes =
  attr_error :: int
  attr_exists :: u8
  attr_writable :: u8
  attr_readable :: u8
  attr_executable :: u8
  attr_symbolic_link :: u8
  attr_regular :: u8
  attr_directory :: u8
  attr_timestamp :: int
  attr_file_length :: int

definition ATTR_UNSET :: u8 where "ATTR_UNSET = 127"

definition gnat_reset_attributes :: "file_attributes \<Rightarrow> file_attributes" where
  "gnat_reset_attributes attr =
     attr\<lparr>attr_exists := ATTR_UNSET, attr_error := EINVAL, attr_writable := ATTR_UNSET,
          attr_readable := ATTR_UNSET, attr_executable := ATTR_UNSET, attr_regular := ATTR_UNSET,
          attr_symbolic_link := ATTR_UNSET, attr_directory := ATTR_UNSET, attr_timestamp := - 2,
          attr_file_length := - 1\<rparr>"

definition gnat_error_attributes :: "file_attributes \<Rightarrow> int" where
  "gnat_error_attributes attr = attr_error attr"

text \<open>The error and the buffer.\<close>

definition gnat_stat :: "libc_stat \<Rightarrow> string \<Rightarrow> int \<times> stat" where
  "gnat_stat L name = (let (r, e, buf) = sys_stat L name in (if r = 0 then 0 else e, buf))"

definition gnat_stat_to_attr :: "libc_stat \<Rightarrow> int \<Rightarrow> string \<Rightarrow> file_attributes \<Rightarrow> file_attributes" where
  "gnat_stat_to_attr L fd name attr =
     (let (ret, err, buf) =
            (if fd \<noteq> - 1 then let (r, e, buf) = sys_fstat L fd in (r, if r \<noteq> 0 then e else 0, buf)
             else let (err, buf) = gnat_stat L name in (if err \<noteq> 0 then - 1 else 0, err, buf));
          attr = attr\<lparr>attr_error := (if err = 0 \<or> err = ENOENT then 0 else err),
                      attr_regular := of_bool (ret = 0 \<and> S_ISREG (st_mode buf)),
                      attr_directory := of_bool (ret = 0 \<and> S_ISDIR (st_mode buf))\<rparr>;
          attr = attr\<lparr>attr_file_length := (if attr_regular attr = 0 then 0 else st_size buf),
                      attr_exists := of_bool (ret = 0),
                      attr_readable := of_bool (ret = 0 \<and> st_mode buf AND S_IRUSR \<noteq> 0),
                      attr_writable := of_bool (ret = 0 \<and> st_mode buf AND S_IWUSR \<noteq> 0),
                      attr_executable := of_bool (ret = 0 \<and> st_mode buf AND S_IXUSR \<noteq> 0)\<rparr>
      in attr\<lparr>attr_timestamp := (if ret \<noteq> 0 then - 1 else st_mtime buf)\<rparr>)"

text \<open>The cached queries: the answer and the cache afterwards.\<close>

definition gnat_file_length_attr ::
  "libc_stat \<Rightarrow> int \<Rightarrow> string \<Rightarrow> file_attributes \<Rightarrow> int \<times> file_attributes" where
  "gnat_file_length_attr L fd name attr =
     (let attr = (if attr_file_length attr = - 1 then gnat_stat_to_attr L fd name attr else attr)
      in (attr_file_length attr, attr))"

definition gnat_file_time_name_attr ::
  "libc_stat \<Rightarrow> string \<Rightarrow> file_attributes \<Rightarrow> int \<times> file_attributes" where
  "gnat_file_time_name_attr L name attr =
     (let attr = (if attr_timestamp attr = - 2 then gnat_stat_to_attr L (- 1) name attr else attr)
      in (attr_timestamp attr, attr))"

definition gnat_file_time_fd_attr ::
  "libc_stat \<Rightarrow> int \<Rightarrow> file_attributes \<Rightarrow> int \<times> file_attributes" where
  "gnat_file_time_fd_attr L fd attr =
     (let attr = (if attr_timestamp attr = - 2 then gnat_stat_to_attr L fd [] attr else attr)
      in (attr_timestamp attr, attr))"

definition gnat_file_exists_attr ::
  "libc_stat \<Rightarrow> string \<Rightarrow> file_attributes \<Rightarrow> int \<times> file_attributes" where
  "gnat_file_exists_attr L name attr =
     (let attr = (if attr_exists attr = ATTR_UNSET then gnat_stat_to_attr L (- 1) name attr else attr)
      in (uint (attr_exists attr), attr))"

definition gnat_is_regular_file_attr ::
  "libc_stat \<Rightarrow> string \<Rightarrow> file_attributes \<Rightarrow> int \<times> file_attributes" where
  "gnat_is_regular_file_attr L name attr =
     (let attr = (if attr_regular attr = ATTR_UNSET then gnat_stat_to_attr L (- 1) name attr else attr)
      in (uint (attr_regular attr), attr))"

definition gnat_is_directory_attr ::
  "libc_stat \<Rightarrow> string \<Rightarrow> file_attributes \<Rightarrow> int \<times> file_attributes" where
  "gnat_is_directory_attr L name attr =
     (let attr = (if attr_directory attr = ATTR_UNSET then gnat_stat_to_attr L (- 1) name attr else attr)
      in (uint (attr_directory attr), attr))"

definition gnat_is_readable_file_attr ::
  "libc_stat \<Rightarrow> string \<Rightarrow> file_attributes \<Rightarrow> int \<times> file_attributes" where
  "gnat_is_readable_file_attr L name attr =
     (let attr = (if attr_readable attr = ATTR_UNSET then gnat_stat_to_attr L (- 1) name attr else attr)
      in (uint (attr_readable attr), attr))"

definition gnat_is_writable_file_attr ::
  "libc_stat \<Rightarrow> string \<Rightarrow> file_attributes \<Rightarrow> int \<times> file_attributes" where
  "gnat_is_writable_file_attr L name attr =
     (let attr = (if attr_writable attr = ATTR_UNSET then gnat_stat_to_attr L (- 1) name attr else attr)
      in (uint (attr_writable attr), attr))"

definition gnat_is_executable_file_attr ::
  "libc_stat \<Rightarrow> string \<Rightarrow> file_attributes \<Rightarrow> int \<times> file_attributes" where
  "gnat_is_executable_file_attr L name attr =
     (let attr = (if attr_executable attr = ATTR_UNSET then gnat_stat_to_attr L (- 1) name attr else attr)
      in (of_bool (attr_regular attr \<noteq> 0 \<and> attr_executable attr \<noteq> 0), attr))"

text \<open>Neither VxWorks nor a Unix: there are no symbolic links.\<close>

definition gnat_is_symbolic_link_attr :: "string \<Rightarrow> file_attributes \<Rightarrow> int \<times> file_attributes" where
  "gnat_is_symbolic_link_attr name attr =
     (let attr = (if attr_symbolic_link attr = ATTR_UNSET then attr\<lparr>attr_symbolic_link := 0\<rparr> else attr)
      in (uint (attr_symbolic_link attr), attr))"

text \<open>
  The uncached queries work on an uninitialised local that they reset first; \<open>attr0\<close> is any initial
  value, and every field is set.
\<close>

definition attr0 :: file_attributes where
  "attr0 = \<lparr>attr_error = 0, attr_exists = 0, attr_writable = 0, attr_readable = 0, attr_executable = 0,
     attr_symbolic_link = 0, attr_regular = 0, attr_directory = 0, attr_timestamp = 0, attr_file_length = 0\<rparr>"

definition gnat_file_length :: "libc_stat \<Rightarrow> int \<Rightarrow> int" where
  "gnat_file_length L fd = fst (gnat_file_length_attr L fd [] (gnat_reset_attributes attr0))"

definition gnat_file_length_long :: "libc_stat \<Rightarrow> int \<Rightarrow> int" where
  "gnat_file_length_long L fd = fst (gnat_file_length_attr L fd [] (gnat_reset_attributes attr0))"

definition gnat_named_file_length :: "libc_stat \<Rightarrow> string \<Rightarrow> int" where
  "gnat_named_file_length L name = fst (gnat_file_length_attr L (- 1) name (gnat_reset_attributes attr0))"

definition gnat_file_time_name :: "libc_stat \<Rightarrow> string \<Rightarrow> int" where
  "gnat_file_time_name L name = fst (gnat_file_time_name_attr L name (gnat_reset_attributes attr0))"

definition gnat_file_time_fd :: "libc_stat \<Rightarrow> int \<Rightarrow> int" where
  "gnat_file_time_fd L fd = fst (gnat_file_time_fd_attr L fd (gnat_reset_attributes attr0))"

definition gnat_file_exists :: "libc_stat \<Rightarrow> string \<Rightarrow> int" where
  "gnat_file_exists L name = fst (gnat_file_exists_attr L name (gnat_reset_attributes attr0))"

definition gnat_is_regular_file :: "libc_stat \<Rightarrow> string \<Rightarrow> int" where
  "gnat_is_regular_file L name = fst (gnat_is_regular_file_attr L name (gnat_reset_attributes attr0))"

definition gnat_is_regular_file_fd :: "libc_stat \<Rightarrow> int \<Rightarrow> int" where
  "gnat_is_regular_file_fd L fd = (let (ret, e, buf) = sys_fstat L fd in of_bool (ret = 0 \<and> S_ISREG (st_mode buf)))"

definition gnat_is_directory :: "libc_stat \<Rightarrow> string \<Rightarrow> int" where
  "gnat_is_directory L name = fst (gnat_is_directory_attr L name (gnat_reset_attributes attr0))"

definition gnat_is_readable_file :: "libc_stat \<Rightarrow> string \<Rightarrow> int" where
  "gnat_is_readable_file L name = fst (gnat_is_readable_file_attr L name (gnat_reset_attributes attr0))"

definition gnat_is_writable_file :: "libc_stat \<Rightarrow> string \<Rightarrow> int" where
  "gnat_is_writable_file L name = fst (gnat_is_writable_file_attr L name (gnat_reset_attributes attr0))"

definition gnat_is_executable_file :: "libc_stat \<Rightarrow> string \<Rightarrow> int" where
  "gnat_is_executable_file L name = fst (gnat_is_executable_file_attr L name (gnat_reset_attributes attr0))"

definition gnat_is_symbolic_link :: "string \<Rightarrow> int" where
  "gnat_is_symbolic_link name = fst (gnat_is_symbolic_link_attr name (gnat_reset_attributes attr0))"

section \<open>Permissions\<close>

text \<open>\<open>chmod\<close> changes the file system \<open>w\<close>, which \<open>st\<close> reads.\<close>

type_synonym 'w fs_stat = "string \<Rightarrow> 'w \<Rightarrow> int \<times> int \<times> stat"
type_synonym 'w fs_chmod = "string \<Rightarrow> u32 \<Rightarrow> 'w \<Rightarrow> 'w"

definition gnat_set_writable :: "'w fs_stat \<Rightarrow> 'w fs_chmod \<Rightarrow> string \<Rightarrow> 'w \<Rightarrow> 'w" where
  "gnat_set_writable st chmod name w =
     (let (r, e, buf) = st name w in if r = 0 then chmod name (st_mode buf OR S_IWUSR) w else w)"

abbreviation (input) S_OWNER :: u32 where "S_OWNER \<equiv> 1"
abbreviation (input) S_GROUP :: u32 where "S_GROUP \<equiv> 2"
abbreviation (input) S_OTHERS :: u32 where "S_OTHERS \<equiv> 4"

definition gnat_set_executable :: "'w fs_stat \<Rightarrow> 'w fs_chmod \<Rightarrow> string \<Rightarrow> u32 \<Rightarrow> 'w \<Rightarrow> 'w" where
  "gnat_set_executable st chmod name mode w =
     (let (r, e, buf) = st name w in
      if r = 0
      then let m = st_mode buf;
               m = (if mode AND S_OWNER \<noteq> 0 then m OR S_IXUSR else m);
               m = (if mode AND S_GROUP \<noteq> 0 then m OR S_IXGRP else m);
               m = (if mode AND S_OTHERS \<noteq> 0 then m OR S_IXOTH else m)
           in chmod name m w
      else w)"

definition gnat_set_non_writable :: "'w fs_stat \<Rightarrow> 'w fs_chmod \<Rightarrow> string \<Rightarrow> 'w \<Rightarrow> 'w" where
  "gnat_set_non_writable st chmod name w =
     (let (r, e, buf) = st name w in if r = 0 then chmod name (st_mode buf AND 0xF7F) w else w)"

definition gnat_set_readable :: "'w fs_stat \<Rightarrow> 'w fs_chmod \<Rightarrow> string \<Rightarrow> 'w \<Rightarrow> 'w" where
  "gnat_set_readable st chmod name w =
     (let (r, e, buf) = st name w in if r = 0 then chmod name (st_mode buf OR S_IRUSR) w else w)"

definition gnat_set_non_readable :: "'w fs_stat \<Rightarrow> 'w fs_chmod \<Rightarrow> string \<Rightarrow> 'w \<Rightarrow> 'w" where
  "gnat_set_non_readable st chmod name w =
     (let (r, e, buf) = st name w in if r = 0 then chmod name (st_mode buf AND NOT S_IRUSR) w else w)"

section \<open>The attribute cache\<close>

text \<open>
  The interface of a cache filled on demand: every query of a sound cache gives the answer of a fresh
  query and leaves the cache sound. Then so does every sequence of queries.
\<close>

fun ask_seq :: "('q \<Rightarrow> 'c \<Rightarrow> 'a \<times> 'c) \<Rightarrow> 'q list \<Rightarrow> 'c \<Rightarrow> 'a list \<times> 'c" where
  "ask_seq ask [] c = ([], c)"
| "ask_seq ask (q # qs) c = (let (a, c) = ask q c; (as, c) = ask_seq ask qs c in (a # as, c))"

locale lazy_cache =
  fixes ask :: "'q \<Rightarrow> 'c \<Rightarrow> 'a \<times> 'c"
    and fresh :: "'q \<Rightarrow> 'a"
    and sound :: "'c \<Rightarrow> bool"
  assumes ask_answer: "sound c \<Longrightarrow> fst (ask q c) = fresh q"
    and ask_sound: "sound c \<Longrightarrow> sound (snd (ask q c))"
begin

lemma ask_seq_fresh:
  "sound c \<Longrightarrow> fst (ask_seq ask qs c) = map fresh qs \<and> sound (snd (ask_seq ask qs c))"
proof (induction qs arbitrary: c)
  case Nil
  then show ?case by simp
next
  case (Cons q qs)
  obtain a c' where q: "ask q c = (a, c')" by (metis surj_pair)
  obtain as c'' where qs: "ask_seq ask qs c' = (as, c'')" by (metis surj_pair)
  from q ask_answer [OF Cons.prems, of q] ask_sound [OF Cons.prems, of q] have "a = fresh q" "sound c'"
    by simp_all
  with Cons.IH [of c'] q qs show ?case by simp
qed

end

datatype attr_query = Q_Length | Q_Time | Q_Exists | Q_Regular | Q_Directory | Q_Readable | Q_Writable
  | Q_Executable | Q_Symlink

fun ask_attr :: "libc_stat \<Rightarrow> string \<Rightarrow> attr_query \<Rightarrow> file_attributes \<Rightarrow> int \<times> file_attributes" where
  "ask_attr L name Q_Length attr = gnat_file_length_attr L (- 1) name attr"
| "ask_attr L name Q_Time attr = gnat_file_time_name_attr L name attr"
| "ask_attr L name Q_Exists attr = gnat_file_exists_attr L name attr"
| "ask_attr L name Q_Regular attr = gnat_is_regular_file_attr L name attr"
| "ask_attr L name Q_Directory attr = gnat_is_directory_attr L name attr"
| "ask_attr L name Q_Readable attr = gnat_is_readable_file_attr L name attr"
| "ask_attr L name Q_Writable attr = gnat_is_writable_file_attr L name attr"
| "ask_attr L name Q_Executable attr = gnat_is_executable_file_attr L name attr"
| "ask_attr L name Q_Symlink attr = gnat_is_symbolic_link_attr name attr"

fun ask_fresh :: "libc_stat \<Rightarrow> string \<Rightarrow> attr_query \<Rightarrow> int" where
  "ask_fresh L name Q_Length = gnat_named_file_length L name"
| "ask_fresh L name Q_Time = gnat_file_time_name L name"
| "ask_fresh L name Q_Exists = gnat_file_exists L name"
| "ask_fresh L name Q_Regular = gnat_is_regular_file L name"
| "ask_fresh L name Q_Directory = gnat_is_directory L name"
| "ask_fresh L name Q_Readable = gnat_is_readable_file L name"
| "ask_fresh L name Q_Writable = gnat_is_writable_file L name"
| "ask_fresh L name Q_Executable = gnat_is_executable_file L name"
| "ask_fresh L name Q_Symlink = gnat_is_symbolic_link name"

definition attr_clean :: "u8 \<Rightarrow> file_attributes" where
  "attr_clean s = (gnat_reset_attributes attr0)\<lparr>attr_symbolic_link := s\<rparr>"

definition attr_full :: "libc_stat \<Rightarrow> string \<Rightarrow> u8 \<Rightarrow> file_attributes" where
  "attr_full L name s = (gnat_stat_to_attr L (- 1) name attr0)\<lparr>attr_symbolic_link := s\<rparr>"

definition attr_sound :: "libc_stat \<Rightarrow> string \<Rightarrow> file_attributes \<Rightarrow> bool" where
  "attr_sound L name attr \<longleftrightarrow> (\<exists>s \<in> {ATTR_UNSET, 0}. attr = attr_clean s \<or> attr = attr_full L name s)"

lemma stat_to_attr_full: "gnat_stat_to_attr L (- 1) name attr = attr_full L name (attr_symbolic_link attr)"
  by (rule file_attributes.equality)
    (simp_all add: gnat_stat_to_attr_def attr_full_def Let_def split: prod.split)

lemma attr_symbolic_link_full [simp]:
  "attr_symbolic_link (attr_clean s) = s" "attr_symbolic_link (attr_full L name s) = s"
  by (simp_all add: attr_clean_def attr_full_def)

lemma attr_clean_unset [simp]:
  "attr_file_length (attr_clean s) = - 1" "attr_timestamp (attr_clean s) = - 2"
  "attr_exists (attr_clean s) = ATTR_UNSET" "attr_regular (attr_clean s) = ATTR_UNSET"
  "attr_directory (attr_clean s) = ATTR_UNSET" "attr_readable (attr_clean s) = ATTR_UNSET"
  "attr_writable (attr_clean s) = ATTR_UNSET" "attr_executable (attr_clean s) = ATTR_UNSET"
  by (simp_all add: attr_clean_def gnat_reset_attributes_def)

lemmas attr_query_defs =
  gnat_file_length_attr_def gnat_file_time_name_attr_def gnat_file_exists_attr_def
  gnat_is_regular_file_attr_def gnat_is_directory_attr_def gnat_is_readable_file_attr_def
  gnat_is_writable_file_attr_def gnat_is_executable_file_attr_def

lemma reset_clean: "gnat_reset_attributes attr = attr_clean ATTR_UNSET"
  by (rule file_attributes.equality) (simp_all add: attr_clean_def gnat_reset_attributes_def)

lemma ask_attr_stat:
  assumes "q \<noteq> Q_Symlink" and "attr = attr_clean s \<or> attr = attr_full L name s"
  shows "ask_attr L name q attr = (fst (ask_attr L name q (attr_full L name s)), attr_full L name s)"
  using assms by (cases q) (auto simp: attr_query_defs stat_to_attr_full Let_def)

lemma ask_full_answer: "fst (ask_attr L name q (attr_full L name s)) = ask_fresh L name q" if "q \<noteq> Q_Symlink"
proof -
  have "fst (ask_attr L name q (attr_full L name s)) = fst (ask_attr L name q (attr_full L name s'))" for s'
    using that by (cases q; simp add: attr_query_defs stat_to_attr_full Let_def; simp add: attr_full_def)
  moreover have "fst (ask_attr L name q (attr_clean ATTR_UNSET)) = ask_fresh L name q"
    by (cases q) (simp_all add: reset_clean gnat_named_file_length_def gnat_file_time_name_def
        gnat_file_exists_def gnat_is_regular_file_def gnat_is_directory_def gnat_is_readable_file_def
        gnat_is_writable_file_def gnat_is_executable_file_def gnat_is_symbolic_link_def)
  ultimately show ?thesis using ask_attr_stat [OF that, of "attr_clean ATTR_UNSET"] by (metis fst_conv)
qed

lemma ask_attr_sound:
  assumes "attr_sound L name c"
  shows "fst (ask_attr L name q c) = ask_fresh L name q \<and> attr_sound L name (snd (ask_attr L name q c))"
proof -
  from assms obtain s where s: "s \<in> {ATTR_UNSET, 0}" and c: "c = attr_clean s \<or> c = attr_full L name s"
    by (auto simp: attr_sound_def)
  show ?thesis
  proof (cases "q = Q_Symlink")
    case False
    from ask_attr_stat [OF False c] ask_full_answer [OF False] s show ?thesis
      by (auto simp: attr_sound_def)
  next
    case True
    have "(attr_clean s)\<lparr>attr_symbolic_link := 0\<rparr> = attr_clean 0"
      "(attr_full L name s)\<lparr>attr_symbolic_link := 0\<rparr> = attr_full L name 0"
      by (simp_all add: attr_clean_def attr_full_def)
    with True s c show ?thesis
      by (auto simp: gnat_is_symbolic_link_attr_def gnat_is_symbolic_link_def reset_clean attr_sound_def
          ATTR_UNSET_def Let_def)
  qed
qed

interpretation attrs: lazy_cache "ask_attr L name" "ask_fresh L name" "attr_sound L name" for L name
  by unfold_locales (simp_all add: ask_attr_sound)

text \<open>What a query means, in terms of one \<open>stat\<close> of the file.\<close>

definition attr_spec :: "libc_stat \<Rightarrow> string \<Rightarrow> attr_query \<Rightarrow> int" where
  "attr_spec L name q =
     (let (e, buf) = gnat_stat L name; mode = st_mode buf
      in case q of
           Q_Length \<Rightarrow> if e = 0 \<and> S_ISREG mode then st_size buf else 0
         | Q_Time \<Rightarrow> if e = 0 then st_mtime buf else - 1
         | Q_Exists \<Rightarrow> of_bool (e = 0)
         | Q_Regular \<Rightarrow> of_bool (e = 0 \<and> S_ISREG mode)
         | Q_Directory \<Rightarrow> of_bool (e = 0 \<and> S_ISDIR mode)
         | Q_Readable \<Rightarrow> of_bool (e = 0 \<and> mode AND S_IRUSR \<noteq> 0)
         | Q_Writable \<Rightarrow> of_bool (e = 0 \<and> mode AND S_IWUSR \<noteq> 0)
         | Q_Executable \<Rightarrow> of_bool (e = 0 \<and> S_ISREG mode \<and> mode AND S_IXUSR \<noteq> 0)
         | Q_Symlink \<Rightarrow> 0)"

lemma attr_full_fields:
  "attr_file_length (attr_full L name s) = attr_spec L name Q_Length"
  "attr_timestamp (attr_full L name s) = attr_spec L name Q_Time"
  "uint (attr_exists (attr_full L name s)) = attr_spec L name Q_Exists"
  "uint (attr_regular (attr_full L name s)) = attr_spec L name Q_Regular"
  "uint (attr_directory (attr_full L name s)) = attr_spec L name Q_Directory"
  "uint (attr_readable (attr_full L name s)) = attr_spec L name Q_Readable"
  "uint (attr_writable (attr_full L name s)) = attr_spec L name Q_Writable"
  "of_bool (attr_regular (attr_full L name s) \<noteq> 0 \<and> attr_executable (attr_full L name s) \<noteq> 0) =
     attr_spec L name Q_Executable"
  by (auto simp: attr_full_def gnat_stat_to_attr_def attr_spec_def Let_def split: prod.split)

lemma stat_again:
  "(if b then gnat_stat_to_attr L (- 1) name (attr_full L name s) else attr_full L name s) = attr_full L name s"
  by (simp add: stat_to_attr_full)

lemma ask_fresh_spec: "ask_fresh L name q = attr_spec L name q"
proof (cases "q = Q_Symlink")
  case True
  then show ?thesis
    by (simp add: gnat_is_symbolic_link_def gnat_is_symbolic_link_attr_def reset_clean attr_spec_def
        split: prod.split)
next
  case False
  have "fst (ask_attr L name q (attr_full L name ATTR_UNSET)) = attr_spec L name q"
    using False by (cases q) (simp_all only: ask_attr.simps attr_query_defs Let_def stat_again fst_conv attr_full_fields simp_thms)
  with ask_full_answer [OF False] show ?thesis by simp
qed

text \<open>
  Property C37: the attribute cache is coherent. However the cached queries for a file are mixed,
  starting from reset attributes, each answers what the uncached query answers, which is what one
  \<open>stat\<close> of the file says, as long as the file does not change.
\<close>

theorem attribute_cache_coherent:
  "fst (ask_seq (ask_attr L name) qs (gnat_reset_attributes attr)) = map (attr_spec L name) qs \<and>
   map (ask_fresh L name) qs = map (attr_spec L name) qs"
proof -
  have "attr_sound L name (gnat_reset_attributes attr)" by (auto simp: reset_clean attr_sound_def)
  then show ?thesis by (simp add: attrs.ask_seq_fresh ask_fresh_spec)
qed

end
