(* ===== verification/Gnat_Paths.thy ===== *)
theory Gnat_Paths
  imports Gnat_Files
begin

text \<open>
  Path names of the GNAT runtime (\<^verbatim>\<open>adaint.c\<close>): absolute paths with a volume label, the search for a
  file along a path, the current directory and the directory walks, and the environment and the
  arguments (\<^verbatim>\<open>env.c\<close>, \<^verbatim>\<open>argv.c\<close>).
\<close>

section \<open>Absolute paths\<close>

fun abs_scan :: "string \<Rightarrow> int" where
  "abs_scan [] = 0"
| "abs_scan (c # cs) = (if c = CHR '':'' then 1 else if c = CHR ''/'' then 0 else abs_scan cs)"

text \<open>Characters behind the end of the string are NUL and do not end the scan.\<close>

definition gnat_is_absolute_path :: "string \<Rightarrow> int \<Rightarrow> int" where
  "gnat_is_absolute_path name len =
     (if (case name of [] \<Rightarrow> False | c # _ \<Rightarrow> c = CHR ''/'') then 1 else abs_scan (take (nat len) name))"

section \<open>Searching a path\<close>

definition DIR_SEPARATOR :: char where "DIR_SEPARATOR = CHR ''/''"
definition PATH_SEPARATOR :: char where "PATH_SEPARATOR = CHR '':''"

abbreviation (input) QUOTE :: char where "QUOTE \<equiv> CHR 0x22"

text \<open>
  \<open>None\<close> stands for an access outside a buffer, \<open>Some None\<close> for a null result. \<open>sz\<close> is the size of the
  buffer the candidates are built in, with their NUL. The predicate is the function pointer of the
  source.
\<close>

function locate_loop :: "(string \<Rightarrow> bool) \<Rightarrow> string \<Rightarrow> nat \<Rightarrow> string \<Rightarrow> string option option" where
  "locate_loop predicate file_name sz path_val =
     (let path_val = (case path_val of [] \<Rightarrow> [] | c # cs \<Rightarrow> if c = QUOTE then cs else c # cs);
          dir = takeWhile (\<lambda>c. c \<noteq> PATH_SEPARATOR) path_val;
          rest = dropWhile (\<lambda>c. c \<noteq> PATH_SEPARATOR) path_val;
          dir = (if dir = [] then ''.'' else dir);
          dir = (if last dir = QUOTE then butlast dir else dir)
      in if dir = [] then None
         else let file_path = dir @ (if last dir \<noteq> DIR_SEPARATOR then [DIR_SEPARATOR] else []) @ file_name
              in if length file_path + 1 > sz then None
                 else if predicate file_path then Some (Some file_path)
                 else case rest of [] \<Rightarrow> Some None | c # cs \<Rightarrow> locate_loop predicate file_name sz cs)"
  by auto
termination
proof (relation "measure (\<lambda>(_, _, _, p). length p)", simp, goal_cases)
  case (1 predicate file_name sz path_val p dir rest dir' dir'' file_path c cs)
  have "length (dropWhile (\<lambda>c. c \<noteq> PATH_SEPARATOR) p) \<le> length p" by (rule length_dropWhile_le)
  moreover have "length p \<le> length path_val" using 1(1) by (auto split: list.splits)
  moreover have "c # cs = dropWhile (\<lambda>c. c \<noteq> PATH_SEPARATOR) p" using 1(3,10) by simp
  then have "Suc (length cs) = length (dropWhile (\<lambda>c. c \<noteq> PATH_SEPARATOR) p)" by (metis length_Cons)
  ultimately show ?case by simp
qed

declare locate_loop.simps [simp del]

definition gnat_locate_file_with_predicate ::
  "string \<Rightarrow> string option \<Rightarrow> (string \<Rightarrow> bool) \<Rightarrow> string option option" where
  "gnat_locate_file_with_predicate file_name path_val predicate =
     (if file_name = [] then Some None
      else let file_path = (if hd file_name = QUOTE then tl file_name else file_name)
           in if file_path = [] then None
              else let file_path = (if last file_path = QUOTE then butlast file_path else file_path)
                   in if gnat_is_absolute_path file_path (int (length file_name)) \<noteq> 0
                      then Some (if predicate file_path then Some file_path else None)
                      else if DIR_SEPARATOR \<in> set file_name \<and> predicate file_name then Some (Some file_name)
                      else case path_val of None \<Rightarrow> Some None
                           | Some p \<Rightarrow> locate_loop predicate file_name (length p + length file_name + 2) p)"

definition gnat_locate_executable_file :: "libc_stat \<Rightarrow> string \<Rightarrow> string option \<Rightarrow> string option option" where
  "gnat_locate_executable_file L file_name path_val =
     gnat_locate_file_with_predicate file_name path_val (\<lambda>f. gnat_is_executable_file L f \<noteq> 0)"

definition gnat_locate_regular_file :: "libc_stat \<Rightarrow> string \<Rightarrow> string option \<Rightarrow> string option option" where
  "gnat_locate_regular_file L file_name path_val =
     gnat_locate_file_with_predicate file_name path_val (\<lambda>f. gnat_is_regular_file L f \<noteq> 0)"

text \<open>The executable suffix is empty in this build, so only the last branch is left.\<close>

definition gnat_locate_exec :: "libc_stat \<Rightarrow> string \<Rightarrow> string option \<Rightarrow> string option option" where
  "gnat_locate_exec L exec_name path_val = gnat_locate_executable_file L exec_name path_val"

definition gnat_locate_exec_on_path ::
  "libc_stat \<Rightarrow> (string \<Rightarrow> string option) \<Rightarrow> string \<Rightarrow> string option option" where
  "gnat_locate_exec_on_path L getenv exec_name =
     (let apath_val = (case getenv ''PATH'' of None \<Rightarrow> [] | Some p \<Rightarrow> p)
      in gnat_locate_exec L exec_name (Some apath_val))"

section \<open>The current directory\<close>

text \<open>\<open>getcwd\<close> stores at most \<open>len - 1\<close> characters. The result is the string stored and the new length.\<close>

definition gnat_get_current_dir :: "(int \<Rightarrow> string option) \<Rightarrow> int \<Rightarrow> (string option \<times> int) option" where
  "gnat_get_current_dir getcwd len =
     (case getcwd len of
        None \<Rightarrow> Some (None, 0)
      | Some dir \<Rightarrow>
          if dir = [] then None
          else let dir = (if last dir \<noteq> DIR_SEPARATOR then dir @ [DIR_SEPARATOR] else dir)
               in Some (Some dir, int (length dir)))"

section \<open>Directory walks\<close>

record 'w dir_hooks =
  aegir_opendir :: "string \<Rightarrow> 'w \<Rightarrow> int \<times> 'w"
  aegir_readdir :: "int \<Rightarrow> int \<Rightarrow> 'w \<Rightarrow> int \<times> string \<times> 'w"
  aegir_closedir :: "int \<Rightarrow> 'w \<Rightarrow> int \<times> 'w"

abbreviation (input) AKERNEL_DIRENT_BUFSZ :: int where "AKERNEL_DIRENT_BUFSZ \<equiv> 280"

text \<open>A directory stream is the slot plus one as a pointer; its slot is read back from the low 32 bits.\<close>

definition gnat_opendir :: "'w dir_hooks \<Rightarrow> string \<Rightarrow> 'w \<Rightarrow> u64 \<times> 'w" where
  "gnat_opendir h name w = (let (slot, w) = aegir_opendir h name w in (if slot < 0 then 0 else word_of_int (slot + 1), w))"

definition dir_slot :: "u64 \<Rightarrow> int" where
  "dir_slot dirp = int_of_u64 dirp - 1"

definition gnat_readdir :: "'w dir_hooks \<Rightarrow> u64 \<Rightarrow> 'w \<Rightarrow> (string \<times> int) option \<times> 'w" where
  "gnat_readdir h dirp w =
     (let (n, buf, w) = aegir_readdir h (dir_slot dirp) AKERNEL_DIRENT_BUFSZ w
      in (if n < 0 then None else Some (buf, n), w))"

definition gnat_closedir :: "'w dir_hooks \<Rightarrow> u64 \<Rightarrow> 'w \<Rightarrow> int \<times> 'w" where
  "gnat_closedir h dirp w = aegir_closedir h (dir_slot dirp) w"

definition gnat_readdir_is_thread_safe :: int where "gnat_readdir_is_thread_safe = 0"

section \<open>Environment and arguments\<close>

record 'w env_hooks =
  aegir_env_get :: "string \<Rightarrow> int \<Rightarrow> 'w \<Rightarrow> int \<times> string"
  aegir_env_set :: "string \<Rightarrow> string \<Rightarrow> 'w \<Rightarrow> 'w"
  aegir_env_unset :: "string \<Rightarrow> 'w \<Rightarrow> 'w"

text \<open>
  The buffer has 4096 bytes, one of which is left for the NUL; \<open>None\<close> is a store outside of it. The
  result is \<open>*len\<close> and \<open>*value\<close>.
\<close>

definition gnat_getenv :: "'w env_hooks \<Rightarrow> string \<Rightarrow> 'w \<Rightarrow> (int \<times> string option) option" where
  "gnat_getenv h name w =
     (let (n, buf) = aegir_env_get h name 4095 w
      in if n < 0 then Some (0, None) else if n > 4095 then None else Some (n, Some (take (nat n) buf)))"

definition gnat_setenv :: "'w env_hooks \<Rightarrow> string \<Rightarrow> string \<Rightarrow> 'w \<Rightarrow> 'w" where
  "gnat_setenv h name v w = aegir_env_set h name v w"

definition gnat_unsetenv :: "'w env_hooks \<Rightarrow> string \<Rightarrow> 'w \<Rightarrow> 'w" where
  "gnat_unsetenv h name w = aegir_env_unset h name w"

definition gnat_clearenv :: "'w \<Rightarrow> 'w" where
  "gnat_clearenv w = w"

text \<open>\<open>None\<close> as the vector is a null pointer; the outer \<open>None\<close> of a result is an access outside of it.\<close>

type_synonym argvec = "string list option"

definition gnat_arg_count :: "int \<Rightarrow> int" where
  "gnat_arg_count gnat_argc = gnat_argc"

definition vec_at :: "string list \<Rightarrow> int \<Rightarrow> string option" where
  "vec_at v i = (if 0 \<le> i \<and> i < int (length v) then Some (v ! nat i) else None)"

definition gnat_len_arg :: "argvec \<Rightarrow> int \<Rightarrow> int option" where
  "gnat_len_arg gnat_argv arg_num =
     (case gnat_argv of None \<Rightarrow> Some 0 | Some v \<Rightarrow> map_option (\<lambda>s. int (length s)) (vec_at v arg_num))"

definition fill_bytes :: "string \<Rightarrow> string \<Rightarrow> string option" where
  "fill_bytes a s = (if length s \<le> length a then Some (s @ drop (length s) a) else None)"

definition gnat_fill_arg :: "argvec \<Rightarrow> string \<Rightarrow> int \<Rightarrow> string option" where
  "gnat_fill_arg gnat_argv a i =
     (case gnat_argv of None \<Rightarrow> Some a | Some v \<Rightarrow> Option.bind (vec_at v i) (fill_bytes a))"

definition gnat_env_count :: "argvec \<Rightarrow> int option" where
  "gnat_env_count gnat_envp = map_option (\<lambda>v. int (length v)) gnat_envp"

definition gnat_len_env :: "argvec \<Rightarrow> int \<Rightarrow> int option" where
  "gnat_len_env gnat_envp env_num =
     (case gnat_envp of None \<Rightarrow> Some 0 | Some v \<Rightarrow> map_option (\<lambda>s. int (length s)) (vec_at v env_num))"

definition gnat_fill_env :: "argvec \<Rightarrow> string \<Rightarrow> int \<Rightarrow> string option" where
  "gnat_fill_env gnat_envp a i =
     (case gnat_envp of None \<Rightarrow> Some a | Some v \<Rightarrow> Option.bind (vec_at v i) (fill_bytes a))"

section \<open>What a search finds\<close>

text \<open>
  The reference: the path split at its separators, each directory joined with the file name; an empty
  directory is the current one. The search returns the first candidate that passes.
\<close>

fun split_on :: "char \<Rightarrow> string \<Rightarrow> string list" where
  "split_on sep [] = [[]]"
| "split_on sep (c # cs) =
     (if c = sep then [] # split_on sep cs
      else case split_on sep cs of [] \<Rightarrow> [[c]] | d # ds \<Rightarrow> (c # d) # ds)"

definition join_dir :: "string \<Rightarrow> string \<Rightarrow> string" where
  "join_dir d f = (if d = [] then ''./'' @ f else if last d = CHR ''/'' then d @ f else d @ ''/'' @ f)"

definition candidates :: "string \<Rightarrow> string \<Rightarrow> string list" where
  "candidates file_name path = map (\<lambda>d. join_dir d file_name) (split_on CHR '':'' path)"

lemma split_on_nonempty: "split_on sep cs \<noteq> []"
  by (cases cs) (auto split: list.splits)

lemma split_on_unfold:
  "split_on sep p = takeWhile (\<lambda>c. c \<noteq> sep) p #
     (case dropWhile (\<lambda>c. c \<noteq> sep) p of [] \<Rightarrow> [] | c # cs \<Rightarrow> split_on sep cs)"
  by (induction p) (auto split: list.splits)

lemma split_on_no_sep: "d \<in> set (split_on sep p) \<Longrightarrow> sep \<notin> set d"
proof (induction p arbitrary: d)
  case (Cons c cs)
  obtain e es where s: "split_on sep cs = e # es" using split_on_nonempty by (metis list.exhaust)
  with Cons show ?case by (auto split: if_splits)
qed simp

lemma locate_loop_step:
  assumes "QUOTE \<notin> set p"
  shows "locate_loop predicate file_name sz p =
    (let f = join_dir (takeWhile (\<lambda>c. c \<noteq> PATH_SEPARATOR) p) file_name
     in if length f + 1 > sz then None
        else if predicate f then Some (Some f)
        else case dropWhile (\<lambda>c. c \<noteq> PATH_SEPARATOR) p of [] \<Rightarrow> Some None
             | c # cs \<Rightarrow> locate_loop predicate file_name sz cs)"
proof -
  let ?d = "takeWhile (\<lambda>c. c \<noteq> PATH_SEPARATOR) p"
  have p: "(case p of [] \<Rightarrow> [] | c # cs \<Rightarrow> if c = QUOTE then cs else c # cs) = p"
    using assms by (auto split: list.splits)
  have "last (if ?d = [] then ''.'' else ?d) \<noteq> QUOTE"
  proof (cases "?d = []")
    case False
    have "last ?d \<in> set p" using set_takeWhileD [OF last_in_set [OF False]] by simp
    with assms False show ?thesis by auto
  qed simp
  then show ?thesis
    by (subst locate_loop.simps) (auto simp: p join_dir_def DIR_SEPARATOR_def Let_def)
qed

lemma join_dir_length: "length (join_dir d f) \<le> max 1 (length d) + 1 + length f"
  by (auto simp: join_dir_def)

lemma locate_loop_find:
  assumes "QUOTE \<notin> set p" and "length p \<le> n" and "n > 0"
  shows "locate_loop predicate file_name (n + length file_name + 2) p =
    Some (find predicate (candidates file_name p))"
  using assms(1,2)
proof (induction "length p" arbitrary: p rule: less_induct)
  case less
  let ?rest = "dropWhile (\<lambda>c. c \<noteq> PATH_SEPARATOR) p"
  let ?f = "join_dir (takeWhile (\<lambda>c. c \<noteq> PATH_SEPARATOR) p) file_name"
  have "length ?rest \<le> length p" "set ?rest \<subseteq> set p"
    by (rule length_dropWhile_le) (auto dest: set_dropWhileD)
  then have IH: "locate_loop predicate file_name (n + length file_name + 2) cs =
      Some (find predicate (candidates file_name cs))"
    if "?rest = c # cs" for c cs
    using less that by (intro less.hyps) auto
  have "length (takeWhile (\<lambda>c. c \<noteq> PATH_SEPARATOR) p) \<le> length p" by (rule length_takeWhile_le)
  then have fits: "\<not> length ?f + 1 > n + length file_name + 2"
    using join_dir_length [of "takeWhile (\<lambda>c. c \<noteq> PATH_SEPARATOR) p" file_name] less.prems(2) assms(3)
    by linarith
  have "candidates file_name p = ?f # (case ?rest of [] \<Rightarrow> [] | c # cs \<Rightarrow> candidates file_name cs)"
    unfolding candidates_def PATH_SEPARATOR_def
    by (subst split_on_unfold) (cases "dropWhile (\<lambda>c. c \<noteq> CHR '':'') p"; simp del: dropWhile_eq_Nil_conv)
  with IH fits show ?case
    by (subst locate_loop_step [OF less.prems(1)])
      (cases ?rest; simp add: Let_def del: dropWhile_eq_Nil_conv)
qed

lemma locate_path:
  assumes "QUOTE \<notin> set p" and "p \<noteq> []"
  shows "locate_loop predicate f (Suc (Suc (length p + length f))) p = Some (find predicate (candidates f p))"
  using locate_loop_find [OF assms(1) order_refl, of predicate f] assms(2) by simp

lemma abs_scan_relative: "CHR '':'' \<notin> set cs \<Longrightarrow> abs_scan cs = 0"
  by (induction cs) auto

lemma relative_name:
  assumes "f \<noteq> []" and "CHR '':'' \<notin> set f" and "hd f \<noteq> CHR ''/''"
  shows "gnat_is_absolute_path f n = 0"
  using assms by (cases f) (auto simp: gnat_is_absolute_path_def intro!: abs_scan_relative dest: in_set_takeD)

text \<open>
  Property C38: for a plain relative name and a nonempty path without quotes, the search stays within
  its buffers and returns the first candidate that passes the predicate, in the order of the path; a name with a directory part is
  tried as it is first.
\<close>

theorem locate_finds_first:
  assumes "f \<noteq> []" and "QUOTE \<notin> set f" and "CHR '':'' \<notin> set f" and "hd f \<noteq> CHR ''/''"
    and "QUOTE \<notin> set path" and "path \<noteq> []"
  shows "gnat_locate_file_with_predicate f (Some path) predicate =
    Some (find predicate ((if CHR ''/'' \<in> set f then [f] else []) @ candidates f path))"
proof -
  from assms(1,2) have "hd f \<noteq> QUOTE" "last f \<noteq> QUOTE" by (metis hd_in_set, metis last_in_set)
  with assms(1) relative_name [OF assms(1,3,4)] show ?thesis
    by (auto simp: gnat_locate_file_with_predicate_def DIR_SEPARATOR_def locate_path [OF assms(5,6)])
qed

theorem locate_finds_first_witness:
  "gnat_locate_file_with_predicate ''ls'' (Some ''bin/::sys'') (\<lambda>f. f = ''sys/ls'') = Some (Some ''sys/ls'')"
proof -
  have "candidates ''ls'' ''bin/::sys'' = [''bin/ls'', ''./ls'', ''sys/ls'']" by code_simp
  with locate_finds_first [of "''ls''" "''bin/::sys''" "\<lambda>f. f = ''sys/ls''"] show ?thesis by simp
qed

text \<open>
  Defect: the path is split at colons although the runtime's absolute paths start with
  a volume label and a colon. A search for a plain name never returns a path with a volume, so a
  directory such as \<open>BD0:System\<close> in the path is not searched.
\<close>

theorem locate_never_finds_volume:
  assumes "f \<noteq> []" and "QUOTE \<notin> set f" and "CHR '':'' \<notin> set f" and "hd f \<noteq> CHR ''/''"
    and "QUOTE \<notin> set path" and "path \<noteq> []"
    and "gnat_locate_file_with_predicate f (Some path) predicate = Some (Some r)"
  shows "CHR '':'' \<notin> set r"
proof -
  have f: "hd f \<noteq> QUOTE" "last f \<noteq> QUOTE" using assms(1,2) by (metis hd_in_set, metis last_in_set)
  have "r = f \<or> r \<in> set (candidates f path)"
    using assms(7) assms(1) relative_name [OF assms(1,3,4)] f
    by (auto simp: gnat_locate_file_with_predicate_def locate_path [OF assms(5,6)] find_Some_iff
        split: if_splits)
  then show ?thesis
    using assms(3) split_on_no_sep [of _ "CHR '':''" path]
    by (auto simp: candidates_def join_dir_def split: if_splits)
qed

theorem locate_never_finds_volume_witness:
  "gnat_is_absolute_path ''BD0:System/ls'' 14 = 1 \<and>
   gnat_locate_file_with_predicate ''ls'' (Some ''BD0:System'') (\<lambda>f. True) = Some (Some ''BD0/ls'') \<and>
   CHR '':'' \<notin> set ''BD0/ls''"
proof (intro conjI)
  show "gnat_is_absolute_path ''BD0:System/ls'' 14 = 1" by code_simp
  show r: "gnat_locate_file_with_predicate ''ls'' (Some ''BD0:System'') (\<lambda>f. True) = Some (Some ''BD0/ls'')"
    by code_simp
  show "CHR '':'' \<notin> set ''BD0/ls''"
    using locate_never_finds_volume [OF _ _ _ _ _ _ r] by simp
qed

text \<open>
  Defect: with an empty path the search writes one byte behind its buffer. The empty
  directory becomes \<open>./\<close>, so the candidate needs three bytes more than the name, and the buffer has
  two. \<open>__gnat_locate_exec_on_path\<close> searches the empty path whenever \<open>PATH\<close> is not set, which is a
  case its comment provides for.
\<close>

theorem locate_empty_path_overflows:
  assumes "f \<noteq> []" and "QUOTE \<notin> set f" and "CHR '':'' \<notin> set f" and "CHR ''/'' \<notin> set f"
    and "getenv ''PATH'' = None"
  shows "gnat_locate_exec_on_path L getenv f = None"
proof -
  from assms(1,2,4) have f: "hd f \<noteq> QUOTE" "last f \<noteq> QUOTE" "hd f \<noteq> CHR ''/''"
    by (metis hd_in_set, metis last_in_set, metis hd_in_set)
  have "locate_loop predicate f (length f + 2) [] = None" for predicate
    by (subst locate_loop_step) (simp_all add: join_dir_def)
  with assms f relative_name [OF assms(1,3) f(3)] show ?thesis
    by (simp add: gnat_locate_exec_on_path_def gnat_locate_exec_def gnat_locate_executable_file_def
        gnat_locate_file_with_predicate_def DIR_SEPARATOR_def)
qed

theorem locate_empty_path_overflows_witness:
  "gnat_locate_exec_on_path \<lparr>sys_stat = (\<lambda>n. (- 1, 2, undefined)), sys_fstat = (\<lambda>n. (- 1, 9, undefined))\<rparr>
     (\<lambda>v. None) ''ls'' = None"
  by (rule locate_empty_path_overflows) simp_all

section \<open>Directory streams\<close>

text \<open>A stream leads back to the slot it was opened with.\<close>

lemma dir_slot_of_slot:
  assumes "0 \<le> slot" and "slot < 2 ^ 31 - 1"
  shows "dir_slot (word_of_int (slot + 1)) = slot"
proof -
  have u: "uint (word_of_int (slot + 1) :: u64) = slot + 1"
    using assms by (simp add: uint_word_of_int del: of_int_add)
  then have "(word_of_int (slot + 1) :: u64) < 2 ^ 31"
    using assms(2) by (simp add: word_less_alt del: of_int_add)
  with u have "int_of_u64 (word_of_int (slot + 1)) = slot + 1" by (simp only: int_of_u64_small)
  then show ?thesis by (simp add: dir_slot_def)
qed

end
