(* ===== verification/Gnat_Os.thy ===== *)
theory Gnat_Os
  imports Gnat_Paths
begin

text \<open>
  The operations of \<^verbatim>\<open>adaint.c\<close> on files, locks, processes and times, in the configuration of this build, and the
  small files beside it (\<^verbatim>\<open>mkdir.c\<close>, \<^verbatim>\<open>errno.c\<close>, \<^verbatim>\<open>cal.c\<close>, \<^verbatim>\<open>targext.c\<close>). The C library's system calls are a parameter; a string
  is a C string without its NUL.
\<close>

section \<open>System calls\<close>

record os_stat =
  os_mode :: u32
  os_nlink :: nat
  os_size :: int
  os_mtime :: int
  os_mtime_ns :: int

text \<open>
  Each call returns its result and the world. \<open>px_stat\<close> stores nothing when it fails; \<open>px_junk\<close> is what an
  uninitialized buffer holds. \<open>px_fork\<close> returns the number of the process, 0 in the child.
\<close>

record 'w posix =
  px_open :: "string \<Rightarrow> u32 \<Rightarrow> 'w \<Rightarrow> int \<times> 'w"
  px_close :: "int \<Rightarrow> 'w \<Rightarrow> int \<times> 'w"
  px_lseek :: "int \<Rightarrow> int \<Rightarrow> int \<Rightarrow> 'w \<Rightarrow> int \<times> 'w"
  px_stat :: "string \<Rightarrow> 'w \<Rightarrow> int \<times> os_stat option \<times> 'w"
  px_junk :: os_stat
  px_access :: "string \<Rightarrow> int \<Rightarrow> 'w \<Rightarrow> int \<times> 'w"
  px_unlink :: "string \<Rightarrow> 'w \<Rightarrow> int \<times> 'w"
  px_rename_hook :: "string \<Rightarrow> string \<Rightarrow> 'w \<Rightarrow> int \<times> 'w"
  px_link :: "string \<Rightarrow> string \<Rightarrow> 'w \<Rightarrow> int \<times> 'w"
  px_symlink :: "string \<Rightarrow> string \<Rightarrow> 'w \<Rightarrow> int \<times> 'w"
  px_readlink :: "string \<Rightarrow> 'w \<Rightarrow> int \<times> 'w"
  px_chdir :: "string \<Rightarrow> 'w \<Rightarrow> int \<times> 'w"
  px_mkdir :: "string \<Rightarrow> u32 \<Rightarrow> 'w \<Rightarrow> int \<times> 'w"
  px_rmdir :: "string \<Rightarrow> 'w \<Rightarrow> int \<times> 'w"
  px_chmod :: "string \<Rightarrow> u32 \<Rightarrow> 'w \<Rightarrow> int \<times> 'w"
  px_utimensat :: "string \<Rightarrow> int \<Rightarrow> int \<Rightarrow> 'w \<Rightarrow> int \<times> 'w"
  px_fcntl :: "int \<Rightarrow> int \<Rightarrow> u32 \<Rightarrow> 'w \<Rightarrow> int \<times> 'w"
  px_dup :: "int \<Rightarrow> 'w \<Rightarrow> int \<times> 'w"
  px_dup2 :: "int \<Rightarrow> int \<Rightarrow> 'w \<Rightarrow> int \<times> 'w"
  px_fork :: "'w \<Rightarrow> int \<times> 'w"
  px_execv :: "string list \<Rightarrow> 'w \<Rightarrow> int \<times> 'w"
  px_waitpid :: "int \<Rightarrow> int \<Rightarrow> 'w \<Rightarrow> int \<times> int \<times> 'w"
  px_getpid :: int
  px_getppid :: int
  px_sysconf :: "int \<Rightarrow> int"
  px_mktemp :: "string \<Rightarrow> 'w \<Rightarrow> string option \<times> 'w"

section \<open>Opening files\<close>

text \<open>\<open>O_BINARY\<close> and \<open>O_TEXT\<close> are defined as 0, so the mode argument has no effect.\<close>

definition o_fmode :: "int \<Rightarrow> u32" where
  "o_fmode fmode = (if fmode \<noteq> 0 then 0 else 0)"

definition open_fd :: "int \<times> 'w \<Rightarrow> int \<times> 'w" where
  "open_fd r = (if fst r < 0 then - 1 else fst r, snd r)"

definition gnat_open_read :: "'w posix \<Rightarrow> string \<Rightarrow> int \<Rightarrow> 'w \<Rightarrow> int \<times> 'w" where
  "gnat_open_read P path fmode w = open_fd (px_open P path (0 OR o_fmode fmode) w)"

definition gnat_open_rw :: "'w posix \<Rightarrow> string \<Rightarrow> int \<Rightarrow> 'w \<Rightarrow> int \<times> 'w" where
  "gnat_open_rw P path fmode w = open_fd (px_open P path (2 OR o_fmode fmode) w)"

definition gnat_open_create :: "'w posix \<Rightarrow> string \<Rightarrow> int \<Rightarrow> 'w \<Rightarrow> int \<times> 'w" where
  "gnat_open_create P path fmode w = open_fd (px_open P path (1 OR 0x200 OR 0x400 OR o_fmode fmode) w)"

definition gnat_create_output_file :: "'w posix \<Rightarrow> string \<Rightarrow> 'w \<Rightarrow> int \<times> 'w" where
  "gnat_create_output_file P path w = open_fd (px_open P path (1 OR 0x200 OR 0x400 OR 0) w)"

definition gnat_create_output_file_new :: "'w posix \<Rightarrow> string \<Rightarrow> 'w \<Rightarrow> int \<times> 'w" where
  "gnat_create_output_file_new P path w = open_fd (px_open P path (1 OR 0x200 OR 0x400 OR 0 OR 0x800) w)"

definition gnat_open_append :: "'w posix \<Rightarrow> string \<Rightarrow> int \<Rightarrow> 'w \<Rightarrow> int \<times> 'w" where
  "gnat_open_append P path fmode w = open_fd (px_open P path (1 OR 0x200 OR 0x8 OR o_fmode fmode) w)"

definition gnat_open_new :: "'w posix \<Rightarrow> string \<Rightarrow> int \<Rightarrow> 'w \<Rightarrow> int \<times> 'w" where
  "gnat_open_new P path fmode w = open_fd (px_open P path (1 OR 0x200 OR 0x800 OR o_fmode fmode) w)"

text \<open>The second component is what the path buffer holds.\<close>

definition gnat_open_new_temp :: "'w posix \<Rightarrow> int \<Rightarrow> 'w \<Rightarrow> int \<times> string option \<times> 'w" where
  "gnat_open_new_temp P fmode w =
     (case px_mktemp P ''GNAT-XXXXXX'' w of (None, w) \<Rightarrow> (- 1, None, w)
      | (Some path, w) \<Rightarrow> let (fd, w) = open_fd (px_open P path (1 OR 0x200 OR 0x800 OR o_fmode fmode) w)
                         in (fd, Some path, w))"

definition gnat_open :: "'w posix \<Rightarrow> string \<Rightarrow> u32 \<Rightarrow> 'w \<Rightarrow> int \<times> 'w" where
  "gnat_open P path fmode w = open_fd (px_open P path fmode w)"

text \<open>The offset of \<open>lseek\<close> cut to an \<open>int\<close>.\<close>

definition gnat_lseek :: "'w posix \<Rightarrow> int \<Rightarrow> int \<Rightarrow> int \<Rightarrow> 'w \<Rightarrow> int \<times> 'w" where
  "gnat_lseek P fd offset whence w =
     (let (r, w) = px_lseek P fd offset whence w in (int_of_u64 (word_of_int r), w))"

section \<open>Names\<close>

definition gnat_unlink :: "'w posix \<Rightarrow> string \<Rightarrow> 'w \<Rightarrow> int \<times> 'w" where
  "gnat_unlink P path w = px_unlink P path w"

definition gnat_rename :: "'w posix \<Rightarrow> string \<Rightarrow> string \<Rightarrow> 'w \<Rightarrow> int \<times> 'w" where
  "gnat_rename P from to w = px_rename_hook P from to w"

definition gnat_chdir :: "'w posix \<Rightarrow> string \<Rightarrow> 'w \<Rightarrow> int \<times> 'w" where
  "gnat_chdir P path w = px_chdir P path w"

definition gnat_rmdir :: "'w posix \<Rightarrow> string \<Rightarrow> 'w \<Rightarrow> int \<times> 'w" where
  "gnat_rmdir P path w = px_rmdir P path w"

definition gnat_mkdir :: "'w posix \<Rightarrow> string \<Rightarrow> 'w \<Rightarrow> int \<times> 'w" where
  "gnat_mkdir P dir_name w = px_mkdir P dir_name 0x1FF w"

definition gnat_readlink :: "'w posix \<Rightarrow> string \<Rightarrow> 'w \<Rightarrow> int \<times> 'w" where
  "gnat_readlink P path w = px_readlink P path w"

definition gnat_symlink :: "'w posix \<Rightarrow> string \<Rightarrow> string \<Rightarrow> 'w \<Rightarrow> int \<times> 'w" where
  "gnat_symlink P oldpath newpath w = px_symlink P oldpath newpath w"

definition gnat_is_read_accessible_file :: "'w posix \<Rightarrow> string \<Rightarrow> 'w \<Rightarrow> int \<times> 'w" where
  "gnat_is_read_accessible_file P name w = (let (r, w) = px_access P name 4 w in (of_bool (r = 0), w))"

definition gnat_is_write_accessible_file :: "'w posix \<Rightarrow> string \<Rightarrow> 'w \<Rightarrow> int \<times> 'w" where
  "gnat_is_write_accessible_file P name w = (let (r, w) = px_access P name 2 w in (of_bool (r = 0), w))"

text \<open>Copying time stamps (modes 0 and 1) and permissions (modes 1 and 2).\<close>

definition gnat_copy_attribs :: "'w posix \<Rightarrow> string \<Rightarrow> string \<Rightarrow> int \<Rightarrow> 'w \<Rightarrow> int \<times> 'w" where
  "gnat_copy_attribs P from to mode w =
     (case px_stat P from w of (r, buf, w) \<Rightarrow>
        if r = - 1 then (- 1, w)
        else let fbuf = (case buf of None \<Rightarrow> px_junk P | Some b \<Rightarrow> b);
                 (r, w) = (if mode \<noteq> 2 then px_utimensat P to (os_mtime fbuf) (os_mtime_ns fbuf) w else (0, w))
             in if r = - 1 then (- 1, w)
                else let (r, w) = (if mode \<noteq> 0 then px_chmod P to (os_mode fbuf) w else (0, w))
                     in if r = - 1 then (- 1, w) else (0, w))"

text \<open>The file system keeps no time stamps.\<close>

definition gnat_set_file_time_name :: "string \<Rightarrow> int \<Rightarrow> 'w \<Rightarrow> 'w" where
  "gnat_set_file_time_name name time_stamp w = w"

definition gnat_os_filename :: "string \<Rightarrow> string \<times> int \<times> int" where
  "gnat_os_filename filename = (filename, int (length filename), 0)"

section \<open>Locking a file\<close>

fun decimal_digits :: "nat \<Rightarrow> string" where
  "decimal_digits n = (if n < 10 then [char_of (48 + n)] else decimal_digits (n div 10) @ [char_of (48 + n mod 10)])"

declare decimal_digits.simps [simp del]

definition long_decimal :: "int \<Rightarrow> string" where
  "long_decimal i = (if i < 0 then CHR ''-'' # decimal_digits (nat (- i)) else decimal_digits (nat i))"

definition lock_path :: "string \<Rightarrow> string \<Rightarrow> string" where
  "lock_path dir file = dir @ [DIR_SEPARATOR] @ file"

definition lock_temp :: "'w posix \<Rightarrow> string \<Rightarrow> string" where
  "lock_temp P dir =
     dir @ [DIR_SEPARATOR] @ ''TMP-'' @ long_decimal (px_getpid P) @ ''-'' @ long_decimal (px_getppid P)"

text \<open>\<open>None\<close> is a name that does not fit into its buffer of 256 bytes.\<close>

definition gnat_try_lock :: "'w posix \<Rightarrow> string \<Rightarrow> string \<Rightarrow> 'w \<Rightarrow> (int \<times> 'w) option" where
  "gnat_try_lock P dir file w =
     (let full_path = lock_path dir file; temp_file = lock_temp P dir
      in if length full_path \<ge> 256 \<or> length temp_file \<ge> 256 then None
         else let (fd, w) = px_open P temp_file (0x200 OR 1) w
              in if fd < 0 then Some (0, w)
                 else let (r, w) = px_close P fd w;
                          (r, w) = px_link P temp_file full_path w;
                          (r, buf, w) = px_stat P temp_file w;
                          (r, w) = px_unlink P temp_file w
                      in Some (of_bool (os_nlink (case buf of None \<Rightarrow> px_junk P | Some b \<Rightarrow> b) = 2), w))"

section \<open>Processes\<close>

text \<open>A spawn returns to the parent; the child ends in \<open>_exit\<close> when the program cannot be executed.\<close>

datatype spawned = Returned int | Exited int

definition gnat_portable_spawn :: "'w posix \<Rightarrow> string list \<Rightarrow> 'w \<Rightarrow> spawned \<times> 'w" where
  "gnat_portable_spawn P args w =
     (let (pid, w) = px_fork P w
      in if pid < 0 then (Returned (- 1), w)
         else if pid = 0 then (let (r, w) = px_execv P args w in (Exited 1, w))
         else let (finished, status, w) = px_waitpid P pid 0 w
              in if finished \<noteq> pid \<or> status mod 256 \<noteq> 0 then (Returned (- 1), w)
                 else (Returned (status div 256 mod 256), w))"

definition gnat_portable_no_block_spawn :: "'w posix \<Rightarrow> string list \<Rightarrow> 'w \<Rightarrow> spawned \<times> 'w" where
  "gnat_portable_no_block_spawn P args w =
     (let (pid, w) = px_fork P w
      in if pid = 0 then (let (r, w) = px_execv P args w in (Exited 1, w)) else (Returned pid, w))"

text \<open>The process and its status, of which 16 bits are kept.\<close>

definition gnat_portable_wait :: "'w posix \<Rightarrow> 'w \<Rightarrow> int \<times> int \<times> 'w" where
  "gnat_portable_wait P w =
     (let (pid, status, w) = px_waitpid P (- 1) 0 w in (pid, status mod 2 ^ 16, w))"

definition gnat_portable_no_block_wait :: "'w posix \<Rightarrow> 'w \<Rightarrow> int \<times> int \<times> 'w" where
  "gnat_portable_no_block_wait P w =
     (let (pid, status, w) = px_waitpid P (- 1) 1 w in (pid, status mod 2 ^ 16, w))"

definition gnat_current_process_id :: "'w posix \<Rightarrow> int" where
  "gnat_current_process_id P = px_getpid P"

definition gnat_dup :: "'w posix \<Rightarrow> int \<Rightarrow> 'w \<Rightarrow> int \<times> 'w" where
  "gnat_dup P oldfd w = px_dup P oldfd w"

definition gnat_dup2 :: "'w posix \<Rightarrow> int \<Rightarrow> int \<Rightarrow> 'w \<Rightarrow> int \<times> 'w" where
  "gnat_dup2 P oldfd newfd w = px_dup2 P oldfd newfd w"

definition gnat_number_of_cpus :: "'w posix \<Rightarrow> int" where
  "gnat_number_of_cpus P = int_of_u64 (word_of_int (px_sysconf P 10))"

text \<open>\<open>F_GETFD\<close> is 1, \<open>F_SETFD\<close> 2 and \<open>FD_CLOEXEC\<close> 1.\<close>

definition gnat_set_close_on_exec :: "'w posix \<Rightarrow> int \<Rightarrow> int \<Rightarrow> 'w \<Rightarrow> int \<times> 'w" where
  "gnat_set_close_on_exec P fd close_on_exec_p w =
     (let (flags, w) = px_fcntl P fd 1 0 w
      in if flags < 0 then (flags, w)
         else px_fcntl P fd 2 (if close_on_exec_p \<noteq> 0 then word_of_int flags OR 1 else word_of_int flags AND NOT 1) w)"

text \<open>\<open>kill\<close> is the C library's; a tree of processes is its root alone.\<close>

definition gnat_kill :: "(int \<Rightarrow> int \<Rightarrow> 'w \<Rightarrow> int \<times> 'w) \<Rightarrow> int \<Rightarrow> int \<Rightarrow> 'w \<Rightarrow> 'w" where
  "gnat_kill kill pid sig w = snd (kill pid sig w)"

definition gnat_killprocesstree :: "(int \<Rightarrow> int \<Rightarrow> 'w \<Rightarrow> int \<times> 'w) \<Rightarrow> int \<Rightarrow> int \<Rightarrow> 'w \<Rightarrow> 'w" where
  "gnat_killprocesstree kill pid sig_num w = gnat_kill kill pid sig_num w"

section \<open>Properties of the host\<close>

definition gnat_get_maximum_file_name_length :: int where "gnat_get_maximum_file_name_length = - 1"
definition gnat_get_env_vars_case_sensitive :: int where "gnat_get_env_vars_case_sensitive = 1"
definition gnat_get_default_identifier_character_set :: char where
  "gnat_get_default_identifier_character_set = CHR ''1''"
definition gnat_binder_supports_auto_init :: int where "gnat_binder_supports_auto_init = 1"
definition gnat_sals_init_using_constructors :: int where "gnat_sals_init_using_constructors = 1"

text \<open>The cache is -1 until the first call; the result and the cache after the call.\<close>

definition gnat_get_file_names_case_sensitive :: "(string \<Rightarrow> string option) \<Rightarrow> int \<Rightarrow> int \<times> int" where
  "gnat_get_file_names_case_sensitive getenv cache =
     (let cache = (if cache = - 1
                   then (case getenv ''GNAT_FILE_NAME_CASE_SENSITIVE'' of
                           Some [c] \<Rightarrow> if c = CHR ''0'' \<or> c = CHR ''1'' then of_char c - 48 else 1
                         | _ \<Rightarrow> 1)
                   else cache)
      in (cache, cache))"

definition HOST_OBJECT_SUFFIX :: string where "HOST_OBJECT_SUFFIX = ''.o''"
definition HOST_EXECUTABLE_SUFFIX :: string where "HOST_EXECUTABLE_SUFFIX = ''''"

definition gnat_get_object_suffix_ptr :: "int \<times> string" where
  "gnat_get_object_suffix_ptr = (int (length HOST_OBJECT_SUFFIX), HOST_OBJECT_SUFFIX)"

definition gnat_get_executable_suffix_ptr :: "int \<times> string" where
  "gnat_get_executable_suffix_ptr = (int (length HOST_EXECUTABLE_SUFFIX), HOST_EXECUTABLE_SUFFIX)"

definition gnat_get_debuggable_suffix_ptr :: "int \<times> string" where
  "gnat_get_debuggable_suffix_ptr = (int (length HOST_EXECUTABLE_SUFFIX), HOST_EXECUTABLE_SUFFIX)"

definition gnat_target_object_extension :: string where "gnat_target_object_extension = ''.o''"
definition gnat_target_executable_extension :: string where "gnat_target_executable_extension = ''''"
definition gnat_target_debuggable_extension :: string where "gnat_target_debuggable_extension = ''''"

text \<open>File names are canonical as they are.\<close>

definition gnat_to_canonical_file_list_init :: "string \<Rightarrow> int \<Rightarrow> int" where
  "gnat_to_canonical_file_list_init dirspec onlydirs = 0"
definition gnat_to_canonical_file_list_next :: string where "gnat_to_canonical_file_list_next = ''''"
definition gnat_to_canonical_dir_spec :: "string \<Rightarrow> int \<Rightarrow> string" where
  "gnat_to_canonical_dir_spec dirspec prefixflag = dirspec"
definition gnat_to_canonical_file_spec :: "string \<Rightarrow> string" where "gnat_to_canonical_file_spec filespec = filespec"
definition gnat_to_canonical_path_spec :: "string \<Rightarrow> string" where "gnat_to_canonical_path_spec pathspec = pathspec"
definition gnat_to_host_dir_spec :: "string \<Rightarrow> int \<Rightarrow> string" where
  "gnat_to_host_dir_spec dirspec prefixflag = dirspec"
definition gnat_to_host_file_spec :: "string \<Rightarrow> string" where "gnat_to_host_file_spec filespec = filespec"

text \<open>The C variable \<open>errno\<close>.\<close>

definition get_errno :: "int \<Rightarrow> int" where "get_errno errno = errno"
definition set_errno :: "int \<Rightarrow> int \<Rightarrow> int" where "set_errno err errno = err"

end
