(* ===== verification/Gnat_Time.thy ===== *)
theory Gnat_Time
  imports Gnat_Os
begin

text \<open>
  The time functions of the runtime: the operating system's time as a date and back (\<^verbatim>\<open>__gnat_to_gm_time\<close>,
  \<^verbatim>\<open>__gnat_to_os_time\<close>), the current time as text, the time of a file in the form Ada's calendar uses
  (\<^verbatim>\<open>__gnat_file_time\<close>), the offset of the time zone (\<^verbatim>\<open>sysdep.c\<close>) and the conversions of \<^verbatim>\<open>cal.c\<close>. The C library's \<open>gmtime\<close>,
  \<open>mktime\<close> and \<open>localtime\<close> are arguments of the functions that call them. The Gregorian calendar of the first section is a
  specification: the property of the file times counts their days with it.
\<close>

section \<open>The Gregorian calendar\<close>

definition is_leap :: "int \<Rightarrow> bool" where
  "is_leap y = (4 dvd y \<and> (\<not> 100 dvd y \<or> 400 dvd y))"

definition year_days :: "int \<Rightarrow> nat" where
  "year_days y = (if is_leap y then 366 else 365)"

definition month_lengths :: "int \<Rightarrow> nat list" where
  "month_lengths y = [31, if is_leap y then 29 else 28, 31, 30, 31, 30, 31, 31, 30, 31, 30, 31]"

text \<open>Day numbers count from the first of January 1970; 400 years repeat after 146097 days.\<close>

definition cycle_years :: "nat list" where
  "cycle_years = map (\<lambda>y. year_days (int y)) [1970..<2370]"

definition day_of_civil :: "int \<Rightarrow> nat \<Rightarrow> int" where
  "day_of_civil y m =
     146097 * ((y - 1970) div 400) + int (sum_list (take (nat ((y - 1970) mod 400)) cycle_years))
       + int (sum_list (take m (month_lengths y)))"

section \<open>Dates of the runtime\<close>

record tm =
  tm_sec :: int
  tm_min :: int
  tm_hour :: int
  tm_mday :: int
  tm_mon :: int
  tm_year :: int
  tm_isdst :: int

definition gnat_current_time :: "int \<Rightarrow> int" where
  "gnat_current_time now = now"

text \<open>
  The six fields as the caller's variables: year, month, day, hours, minutes, seconds. What \<open>mktime\<close> returns on failure, -1, is
  passed on as it is.
\<close>

definition gnat_to_gm_time :: "(int \<Rightarrow> tm option) \<Rightarrow> int \<Rightarrow> int \<times> int \<times> int \<times> int \<times> int \<times> int" where
  "gnat_to_gm_time gmtime p_time =
     (case gmtime p_time of
        Some res \<Rightarrow> (tm_year res, tm_mon res, tm_mday res, tm_hour res, tm_min res, tm_sec res)
      | None \<Rightarrow> (0, 0, 0, 0, 0, 0))"

definition gnat_to_os_time :: "(tm \<Rightarrow> int) \<Rightarrow> int \<times> int \<times> int \<times> int \<times> int \<times> int \<Rightarrow> int" where
  "gnat_to_os_time mktime f =
     (case f of (year, month, day, hours, mins, secs) \<Rightarrow>
        mktime \<lparr>tm_sec = secs, tm_min = mins, tm_hour = hours, tm_mday = day, tm_mon = month, tm_year = year,
          tm_isdst = - 1\<rparr>)"

text \<open>
  \<open>strftime\<close> with the format of the runtime; it stores nothing useful when the text and its NUL do not fit into 22
  bytes (\<open>None\<close>). The result is the buffer's first 22 bytes, the only ones the function writes.
\<close>

definition two_digits :: "int \<Rightarrow> string" where
  "two_digits i = [char_of (48 + nat (i div 10 mod 10)), char_of (48 + nat (i mod 10))]"

definition year_digits :: "int \<Rightarrow> string" where
  "year_digits y = (if 0 \<le> y \<and> y < 10000 then two_digits (y div 100) @ two_digits (y mod 100) else long_decimal y)"

definition iso_text :: "tm \<Rightarrow> string" where
  "iso_text v =
     year_digits (1900 + tm_year v) @ ''-'' @ two_digits (1 + tm_mon v) @ ''-'' @ two_digits (tm_mday v) @ '' ''
       @ two_digits (tm_hour v) @ '':'' @ two_digits (tm_min v) @ '':'' @ two_digits (tm_sec v)"

definition gnat_current_time_string :: "(int \<Rightarrow> tm) \<Rightarrow> int \<Rightarrow> string option" where
  "gnat_current_time_string localtime now =
     (let s = iso_text (localtime now)
      in if length s < 22 then Some (take 22 (take 19 s @ ''.00'')) else None)"

definition gnat_invalid_tzoff :: int where "gnat_invalid_tzoff = 259273"

definition gnat_localtime_tzoff :: "int \<Rightarrow> int \<Rightarrow> int" where
  "gnat_localtime_tzoff timer is_historic = 0"

section \<open>Time of a file\<close>

definition LLONG_MIN :: int where "LLONG_MIN = - (2 ^ 63)"

text \<open>The built-in checked operations: \<open>None\<close> is an overflow of \<open>long long\<close>.\<close>

definition llong :: "int \<Rightarrow> int option" where
  "llong x = (if LLONG_MIN \<le> x \<and> x < 2 ^ 63 then Some x else None)"

definition ada_epoch_offset :: int where
  "ada_epoch_offset = (136 * 365 + 44 * 366) * 86400"

text \<open>The parameter \<open>stat\<close> gives the call's result and the buffer as it leaves it.\<close>

definition gnat_file_time :: "(string \<Rightarrow> int \<times> os_stat) \<Rightarrow> string option \<Rightarrow> int" where
  "gnat_file_time stat name =
     (case name of None \<Rightarrow> LLONG_MIN
      | Some name \<Rightarrow>
          let (r, sb) = stat name
          in if r \<noteq> 0 then LLONG_MIN
             else (case llong (os_mtime sb - ada_epoch_offset) of None \<Rightarrow> LLONG_MIN
                   | Some result \<Rightarrow>
                       (case llong (result * 1000000000) of None \<Rightarrow> LLONG_MIN
                        | Some result \<Rightarrow>
                            (case llong (result + os_mtime_ns sb) of None \<Rightarrow> LLONG_MIN | Some result \<Rightarrow> result))))"

section \<open>Durations\<close>

record timeval =
  tv_sec :: int
  tv_usec :: int

definition gnat_timeval_to_duration :: "timeval \<Rightarrow> int \<times> int" where
  "gnat_timeval_to_duration t = (tv_sec t, tv_usec t)"

definition gnat_duration_to_timeval :: "int \<Rightarrow> int \<Rightarrow> timeval" where
  "gnat_duration_to_timeval sec usec = \<lparr>tv_sec = sec, tv_usec = usec\<rparr>"

section \<open>Properties\<close>

text \<open>The offset of the file times is the time at which the year 2150 begins.\<close>

lemma ada_epoch_offset_date: "ada_epoch_offset = 86400 * day_of_civil 2150 0"
  by (simp add: ada_epoch_offset_def day_of_civil_def cycle_years_def year_days_def is_leap_def)

lemma llong_nonneg_stamp:
  fixes t ns :: int
  assumes "0 \<le> t" "0 \<le> ns" "t < 2 ^ 63"
  shows "llong (t - ada_epoch_offset) = Some (t - ada_epoch_offset)"
    "llong ((t - ada_epoch_offset) * 1000000000) =
       (if (t - ada_epoch_offset) * 1000000000 < 2 ^ 63 then Some ((t - ada_epoch_offset) * 1000000000) else None)"
    "llong ((t - ada_epoch_offset) * 1000000000 + ns) =
       (if (t - ada_epoch_offset) * 1000000000 + ns < 2 ^ 63
        then Some ((t - ada_epoch_offset) * 1000000000 + ns) else None)"
  using assms by (auto simp: llong_def LLONG_MIN_def ada_epoch_offset_def)

text \<open>
  Property C26: the time of a file is exact or refused. For a file whose time stamp is not before 1970, the result is the
  number of nanoseconds from the first of January 2150, counted with the leap years between, when that number fits into
  64 bits; in every other case, a missing file and a null name among them, it is \<open>LLONG_MIN\<close>, which no stamp has.
\<close>

theorem file_time_exact_or_refused:
  assumes stat: "stat name = (r, sb)"
    and stamp: "0 \<le> os_mtime sb" "os_mtime sb < 2 ^ 63" "0 \<le> os_mtime_ns sb"
    and ns: "ns = (os_mtime sb - 86400 * day_of_civil 2150 0) * 1000000000 + os_mtime_ns sb"
  shows "gnat_file_time stat (Some name) = (if r = 0 \<and> ns < 2 ^ 63 then ns else LLONG_MIN)
    \<and> gnat_file_time stat None = LLONG_MIN \<and> LLONG_MIN < ns"
proof -
  have ns': "ns = (os_mtime sb - ada_epoch_offset) * 1000000000 + os_mtime_ns sb"
    by (simp only: ns ada_epoch_offset_date)
  have "LLONG_MIN < ns" using stamp by (simp add: ns' LLONG_MIN_def ada_epoch_offset_def)
  moreover have "gnat_file_time stat (Some name) = (if r = 0 \<and> ns < 2 ^ 63 then ns else LLONG_MIN)"
    using llong_nonneg_stamp [OF stamp(1,3,2)] stamp(3) by (simp add: gnat_file_time_def stat ns')
  ultimately show ?thesis by (simp add: gnat_file_time_def)
qed

theorem file_time_exact_or_refused_witness:
  "gnat_file_time (\<lambda>name. (0, \<lparr>os_mode = 0, os_nlink = 1, os_size = 0, os_mtime = 5680281601, os_mtime_ns = 7\<rparr>))
     (Some ''Sys:a'') = 1000000007"
proof -
  have "86400 * day_of_civil 2150 0 = 5680281600"
    by (simp add: ada_epoch_offset_def flip: ada_epoch_offset_date)
  then show ?thesis
    using file_time_exact_or_refused
      [of "\<lambda>name. (0, \<lparr>os_mode = 0, os_nlink = 1, os_size = 0, os_mtime = 5680281601, os_mtime_ns = 7\<rparr>)"
        "''Sys:a''" 0 "\<lparr>os_mode = 0, os_nlink = 1, os_size = 0, os_mtime = 5680281601, os_mtime_ns = 7\<rparr>" 1000000007]
    by simp
qed

text \<open>
  The current time as text fills its 22 bytes for the years 0 to 9999, the subseconds being always zero; a terminating
  NUL is not among the bytes written.
\<close>

lemma current_time_string_fills:
  assumes "localtime now = v" "0 \<le> 1900 + tm_year v" "1900 + tm_year v < 10000"
  shows "gnat_current_time_string localtime now = Some (iso_text v @ ''.00'') \<and> length (iso_text v @ ''.00'') = 22"
proof -
  have "length (iso_text v) = 19" using assms by (simp add: iso_text_def year_digits_def two_digits_def)
  then show ?thesis by (simp add: gnat_current_time_string_def assms(1))
qed

end
