(* ===== verification/Gnat_Streams.thy ===== *)
theory Gnat_Streams
  imports Gnat_Os
begin

text \<open>
  The C streams of the runtime: \<^verbatim>\<open>cstreams.c\<close> and the parts of \<^verbatim>\<open>sysdep.c\<close> this build compiles (immediate input, file modes,
  error classes), with \<^verbatim>\<open>__gnat_fopen\<close> and its neighbours of \<^verbatim>\<open>adaint.c\<close>. The C library's streams are a parameter.
\<close>

section \<open>Streams of the C library\<close>

text \<open>\<open>io_fgetc\<close> returns the character or EOF, which is -1.\<close>

record ('f, 'w) stdio =
  io_fopen :: "string \<Rightarrow> string \<Rightarrow> 'w \<Rightarrow> 'f option \<times> 'w"
  io_freopen :: "string \<Rightarrow> string \<Rightarrow> 'f \<Rightarrow> 'w \<Rightarrow> 'f option \<times> 'w"
  io_fputc :: "int \<Rightarrow> 'f \<Rightarrow> 'w \<Rightarrow> int \<times> 'w"
  io_fgetc :: "'f \<Rightarrow> 'w \<Rightarrow> int \<times> 'w"
  io_feof :: "'f \<Rightarrow> 'w \<Rightarrow> int"
  io_ferror :: "'f \<Rightarrow> 'w \<Rightarrow> int"
  io_fileno :: "'f \<Rightarrow> 'w \<Rightarrow> int"
  io_fseek :: "'f \<Rightarrow> int \<Rightarrow> int \<Rightarrow> 'w \<Rightarrow> int \<times> 'w"
  io_ftell :: "'f \<Rightarrow> 'w \<Rightarrow> int"
  io_stdin :: 'f
  io_stdout :: 'f
  io_stderr :: 'f

definition gnat_fputwc :: "('f, 'w) stdio \<Rightarrow> int \<Rightarrow> 'f \<Rightarrow> 'w \<Rightarrow> int \<times> 'w" where
  "gnat_fputwc io c stream w = io_fputc io c stream w"

definition gnat_fopen :: "('f, 'w) stdio \<Rightarrow> string \<Rightarrow> string \<Rightarrow> int \<Rightarrow> 'w \<Rightarrow> 'f option \<times> 'w" where
  "gnat_fopen io path mode encoding w = io_fopen io path mode w"

definition gnat_freopen :: "('f, 'w) stdio \<Rightarrow> string \<Rightarrow> string \<Rightarrow> 'f \<Rightarrow> int \<Rightarrow> 'w \<Rightarrow> 'f option \<times> 'w" where
  "gnat_freopen io path mode stream encoding w = io_freopen io path mode stream w"

definition gnat_feof :: "('f, 'w) stdio \<Rightarrow> 'f \<Rightarrow> 'w \<Rightarrow> int" where "gnat_feof io = io_feof io"
definition gnat_ferror :: "('f, 'w) stdio \<Rightarrow> 'f \<Rightarrow> 'w \<Rightarrow> int" where "gnat_ferror io = io_ferror io"
definition gnat_fileno :: "('f, 'w) stdio \<Rightarrow> 'f \<Rightarrow> 'w \<Rightarrow> int" where "gnat_fileno io = io_fileno io"
definition gnat_constant_stderr :: "('f, 'w) stdio \<Rightarrow> 'f" where "gnat_constant_stderr io = io_stderr io"
definition gnat_constant_stdin :: "('f, 'w) stdio \<Rightarrow> 'f" where "gnat_constant_stdin io = io_stdin io"
definition gnat_constant_stdout :: "('f, 'w) stdio \<Rightarrow> 'f" where "gnat_constant_stdout io = io_stdout io"

text \<open>An offset is 64 bits wide; \<open>off_t\<close> has the width \<open>bits\<close>.\<close>

definition off_t :: "nat \<Rightarrow> int \<Rightarrow> int" where
  "off_t bits x = signed_take_bit (bits - 1) x"

definition gnat_ftell64 :: "('f, 'w) stdio \<Rightarrow> 'f \<Rightarrow> 'w \<Rightarrow> int" where
  "gnat_ftell64 io stream w = io_ftell io stream w"

definition gnat_fseek64 :: "nat \<Rightarrow> ('f, 'w) stdio \<Rightarrow> 'f \<Rightarrow> int \<Rightarrow> int \<Rightarrow> 'w \<Rightarrow> int \<times> 'w" where
  "gnat_fseek64 bits io stream offset origin w =
     (if off_t bits offset = offset then io_fseek io stream (off_t bits offset) origin w else (- 1, w))"

section \<open>Names\<close>

text \<open>
  The full name of a file: a relative name behind the current directory, which \<open>getcwd\<close> gives for a buffer of the given
  size. The outer option is the overflow of the caller's buffer, which holds \<open>cap\<close> bytes, the inner one a null pointer.
\<close>

definition gnat_full_name :: "nat \<Rightarrow> nat \<Rightarrow> (nat \<Rightarrow> string option) \<Rightarrow> string \<Rightarrow> string option option" where
  "gnat_full_name max_path_len cap getcwd nam =
     (if nam = [] \<or> hd nam \<noteq> CHR ''/''
      then (case getcwd max_path_len of None \<Rightarrow> Some None
            | Some p \<Rightarrow> let full = (if p \<noteq> [] \<and> hd p = CHR ''/'' then p @ ''/'' else p) @ nam
                       in if length full < cap then Some (Some full) else None)
      else if length nam < cap then Some (Some nam) else None)"

text \<open>A named pipe: the file type of the mode is \<open>S_IFIFO\<close>.\<close>

definition gnat_is_fifo :: "'w posix \<Rightarrow> string \<Rightarrow> 'w \<Rightarrow> int \<times> 'w" where
  "gnat_is_fifo P path w =
     (case px_stat P path w of (status, buf, w) \<Rightarrow>
        if status = 0
        then (of_bool (os_mode (case buf of None \<Rightarrow> px_junk P | Some b \<Rightarrow> b) AND 0xF000 = 0x1000), w)
        else (0, w))"

section \<open>Immediate input\<close>

text \<open>The character, the end-of-file flag and the availability flag.\<close>

definition getc_immediate_common :: "('f, 'w) stdio \<Rightarrow> 'f \<Rightarrow> int \<Rightarrow> 'w \<Rightarrow> (int \<times> int \<times> int) \<times> 'w" where
  "getc_immediate_common io stream waiting w =
     (let (ch, w) = io_fgetc io stream w
      in if io_feof io stream w \<noteq> 0 then ((ch, 1, 0), w) else ((ch, 0, 1), w))"

definition getc_immediate :: "('f, 'w) stdio \<Rightarrow> 'f \<Rightarrow> 'w \<Rightarrow> (int \<times> int) \<times> 'w" where
  "getc_immediate io stream w =
     (let ((ch, end_of_file, avail), w) = getc_immediate_common io stream 1 w in ((ch, end_of_file), w))"

definition getc_immediate_nowait :: "('f, 'w) stdio \<Rightarrow> 'f \<Rightarrow> 'w \<Rightarrow> (int \<times> int \<times> int) \<times> 'w" where
  "getc_immediate_nowait io stream w = getc_immediate_common io stream 0 w"

section \<open>Modes and error classes\<close>

definition gnat_text_translation_required :: int where "gnat_text_translation_required = 0"
definition gnat_set_binary_mode :: "int \<Rightarrow> 'w \<Rightarrow> 'w" where "gnat_set_binary_mode handle w = w"
definition gnat_set_text_mode :: "int \<Rightarrow> 'w \<Rightarrow> 'w" where "gnat_set_text_mode handle w = w"
definition gnat_set_mode :: "int \<Rightarrow> int \<Rightarrow> 'w \<Rightarrow> 'w" where "gnat_set_mode handle mode w = w"

definition gnat_ttyname :: "(int \<Rightarrow> string option) \<Rightarrow> int \<Rightarrow> string option" where
  "gnat_ttyname ttyname filedes = ttyname filedes"

text \<open>\<open>ENOENT\<close> is 2.\<close>

definition gnat_is_file_not_found_error :: "int \<Rightarrow> int" where
  "gnat_is_file_not_found_error errno_val = (if errno_val = 2 then 1 else 0)"

definition gnat_name_case_equivalence :: int where "gnat_name_case_equivalence = 1"

end
