(* ===== verification/Aegir_Tables.thy ===== *)
theory Aegir_Tables
  imports Aegir_Prelude
begin

text \<open>
  The grow-on-demand tables behind file descriptors and directory streams
  (\<^verbatim>\<open>aegir_user-tables.adb\<close>) and the address window they share
  (\<^verbatim>\<open>aegir_user-table_arena.adb\<close>). Addresses, sizes and indices are natural numbers: the window
  ends below \<open>2\<^sup>3\<^sup>1\<close>, so no address computation wraps. The memory system calls are parameters.
\<close>

section \<open>The window\<close>

text \<open>\<open>mem_alloc pages\<close> returns a capability, \<open>mem_map cap va off len\<close> zero on success.\<close>

record 'k kernel_ops =
  mem_alloc :: "nat \<Rightarrow> 'k \<Rightarrow> nat option \<times> 'k"
  mem_map :: "nat \<Rightarrow> nat \<Rightarrow> nat \<Rightarrow> nat \<Rightarrow> 'k \<Rightarrow> nat \<times> 'k"
  cap_delete :: "nat \<Rightarrow> 'k \<Rightarrow> 'k"

definition Arena_Base :: nat where "Arena_Base = 0x70000000"
definition Arena_End :: nat where "Arena_End = 0x7FF00000"
definition Chunk_Bytes :: nat where "Chunk_Bytes = 64 * 4096"

text \<open>The cursor (0 before the first call) and the kernel.\<close>

definition reserve :: "'k kernel_ops \<Rightarrow> nat \<Rightarrow> nat \<times> 'k \<Rightarrow> nat \<times> nat \<times> 'k" where
  "reserve K pages a =
     (let (next_va, k) = a; next_va = (if next_va = 0 then Arena_Base else next_va)
      in if pages = 0 \<or> pages > (Arena_End - next_va) div 4096 then (0, next_va, k)
         else case mem_alloc K pages k of (None, k) \<Rightarrow> (0, next_va, k)
              | (Some cap, k) \<Rightarrow>
                  (case mem_map K cap next_va 0 (pages * 4096) k of (r, k) \<Rightarrow>
                     if r \<noteq> 0 then (0, next_va, cap_delete K cap k)
                     else (next_va, next_va + pages * 4096, k)))"

section \<open>Tables\<close>

definition Max_Chunks :: nat where "Max_Chunks = 60"

record chunk_table =
  t_chunks :: "nat list"
  t_high :: nat

definition table_init :: chunk_table where
  "table_init = \<lparr>t_chunks = replicate Max_Chunks 0, t_high = 0\<rparr>"

text \<open>The geometry of a table whose elements have the given size in bits.\<close>

definition elem_bytes :: "nat \<Rightarrow> nat" where
  "elem_bytes bits = ((bits + 7) div 8 + 7) div 8 * 8"

definition slots_per_chunk :: "nat \<Rightarrow> nat" where
  "slots_per_chunk bits = Chunk_Bytes div elem_bytes bits"

definition tab_append ::
  "'k kernel_ops \<Rightarrow> nat \<Rightarrow> chunk_table \<Rightarrow> nat \<times> 'k \<Rightarrow> nat \<times> chunk_table \<times> nat \<times> 'k" where
  "tab_append K bits t a =
     (if slots_per_chunk bits = 0 then (0, t, a)
      else let new_idx = t_high t + 1; c = (new_idx - 1) div slots_per_chunk bits
           in if c + 1 > Max_Chunks then (0, t, a)
              else if t_chunks t ! c = 0 then
                (case reserve K (Chunk_Bytes div 4096) a of (va, a) \<Rightarrow>
                   if va = 0 then (0, t, a)
                   else (new_idx, t\<lparr>t_chunks := (t_chunks t)[c := va], t_high := new_idx\<rparr>, a))
              else (new_idx, t\<lparr>t_high := new_idx\<rparr>, a))"

definition tab_ref :: "nat \<Rightarrow> chunk_table \<Rightarrow> nat \<Rightarrow> nat option" where
  "tab_ref bits t i =
     (if i = 0 \<or> i > t_high t then None
      else Some (t_chunks t ! ((i - 1) div slots_per_chunk bits)
                 + (i - 1) mod slots_per_chunk bits * elem_bytes bits))"

definition tab_last :: "chunk_table \<Rightarrow> nat" where
  "tab_last t = t_high t"

section \<open>Several tables in one window\<close>

text \<open>
  A process has one table per instance of the generic package, all drawing on one window. A step is an
  append to one of them.
\<close>

record 'k table_space =
  ts_arena :: "nat \<times> 'k"
  ts_tabs :: "nat \<Rightarrow> chunk_table"

definition ts_append :: "'k kernel_ops \<Rightarrow> (nat \<Rightarrow> nat) \<Rightarrow> nat \<Rightarrow> 'k table_space \<Rightarrow> 'k table_space" where
  "ts_append K bits n s =
     (case tab_append K (bits n) (ts_tabs s n) (ts_arena s) of (i, t, a) \<Rightarrow>
        s\<lparr>ts_arena := a, ts_tabs := (ts_tabs s)(n := t)\<rparr>)"

definition ts_init :: "'k \<Rightarrow> 'k table_space" where
  "ts_init k = \<lparr>ts_arena = (0, k), ts_tabs = (\<lambda>n. table_init)\<rparr>"

abbreviation chunk :: "'k table_space \<Rightarrow> nat \<Rightarrow> nat \<Rightarrow> nat" where
  "chunk s n c \<equiv> t_chunks (ts_tabs s n) ! c"

text \<open>The cursor stays in the window, chunks lie below it and apart, and allocated indices have a chunk.\<close>

definition ts_cursor :: "'k table_space \<Rightarrow> bool" where
  "ts_cursor s \<longleftrightarrow> fst (ts_arena s) = 0 \<or> (Arena_Base \<le> fst (ts_arena s) \<and> fst (ts_arena s) \<le> Arena_End)"

definition ts_chunks :: "'k table_space \<Rightarrow> bool" where
  "ts_chunks s \<longleftrightarrow>
     (\<forall>n c. c < Max_Chunks \<and> chunk s n c \<noteq> 0 \<longrightarrow>
        Arena_Base \<le> chunk s n c \<and> chunk s n c + Chunk_Bytes \<le> fst (ts_arena s)) \<and>
     (\<forall>n c m d. c < Max_Chunks \<and> d < Max_Chunks \<and> chunk s n c \<noteq> 0 \<and> chunk s m d \<noteq> 0 \<and> (n, c) \<noteq> (m, d) \<longrightarrow>
        chunk s n c + Chunk_Bytes \<le> chunk s m d \<or> chunk s m d + Chunk_Bytes \<le> chunk s n c)"

definition ts_indices :: "(nat \<Rightarrow> nat) \<Rightarrow> 'k table_space \<Rightarrow> bool" where
  "ts_indices bits s \<longleftrightarrow>
     (\<forall>n. length (t_chunks (ts_tabs s n)) = Max_Chunks \<and>
        (\<forall>i < t_high (ts_tabs s n). slots_per_chunk (bits n) > 0 \<and> i div slots_per_chunk (bits n) < Max_Chunks \<and>
           chunk s n (i div slots_per_chunk (bits n)) \<noteq> 0))"

definition ts_wf :: "(nat \<Rightarrow> nat) \<Rightarrow> 'k table_space \<Rightarrow> bool" where
  "ts_wf bits s \<longleftrightarrow> ts_cursor s \<and> ts_chunks s \<and> ts_indices bits s"

lemmas arena_consts = Arena_Base_def Arena_End_def Chunk_Bytes_def

lemma arena_base: "0 < Arena_Base" "Arena_Base \<le> Arena_End"
  by (simp_all add: arena_consts)

lemma ts_wf_init: "ts_wf bits (ts_init k)"
  by (auto simp: ts_wf_def ts_cursor_def ts_chunks_def ts_indices_def ts_init_def table_init_def)

text \<open>A successful reservation is the range from the old cursor to the new one.\<close>

lemma pages_fit:
  assumes "\<not> p > (Arena_End - u) div 4096" and "u \<le> Arena_End"
  shows "u + p * 4096 \<le> Arena_End"
proof -
  have "p * 4096 \<le> (Arena_End - u) div 4096 * 4096" by (rule mult_le_mono1) (use assms(1) in \<open>simp only: not_less\<close>)
  also have "\<dots> \<le> Arena_End - u" by (rule div_times_less_eq_dividend)
  finally show ?thesis using assms(2) by linarith
qed

lemma reserve_cases:
  assumes "reserve K p (v, k) = (va, v', k')"
    and "v = 0 \<or> (Arena_Base \<le> v \<and> v \<le> Arena_End)" and "u = (if v = 0 then Arena_Base else v)"
  obtains (fail) "va = 0" and "v' = u" | (ok) "va = u" and "v' = u + p * 4096" and "v' \<le> Arena_End"
proof -
  have u: "u \<le> Arena_End" using assms(2,3) arena_base by auto
  define full where "full \<longleftrightarrow> p = 0 \<or> p > (Arena_End - u) div 4096"
  have r: "(if full then (0, u, k)
      else case mem_alloc K p k of (None, k) \<Rightarrow> (0, u, k)
           | (Some cap, k) \<Rightarrow> (case mem_map K cap u 0 (p * 4096) k of (r, k) \<Rightarrow>
                if r \<noteq> 0 then (0, u, cap_delete K cap k) else (u, u + p * 4096, k))) = (va, v', k')"
    using assms(1) unfolding reserve_def Let_def full_def prod.case assms(3) [symmetric] .
  show thesis
  proof (cases full)
    case False
    have "u + p * 4096 \<le> Arena_End"
      by (rule pages_fit) (use False u in \<open>simp_all only: full_def de_Morgan_disj simp_thms\<close>)
    then have le: "v' \<le> Arena_End" if "v' = u + p * 4096" using that by simp
    show ?thesis
    proof (cases "va = u \<and> v' = u + p * 4096")
      case True
      then show ?thesis using ok le by simp
    next
      case other: False
      with r False have "va = 0 \<and> v' = u" by (auto split: if_splits prod.splits option.splits)
      then show ?thesis using fail by simp
    qed
  qed (use r fail in simp)
qed

inductive ts_run :: "'k kernel_ops \<Rightarrow> (nat \<Rightarrow> nat) \<Rightarrow> 'k table_space \<Rightarrow> 'k table_space \<Rightarrow> bool" for K bits where
  ts_stop: "ts_run K bits s s"
| ts_more: "ts_run K bits s s' \<Longrightarrow> ts_run K bits s (ts_append K bits n s')"

text \<open>The three ways an append can end.\<close>

lemma tab_append_cases:
  assumes "tab_append K b t (v, k) = (i, t', v', k')"
    and "v = 0 \<or> (Arena_Base \<le> v \<and> v \<le> Arena_End)"
  obtains (full) "i = 0" and "t' = t" and "v' = v \<or> (v = 0 \<and> v' = Arena_Base)"
    | (room) "i = Suc (t_high t)" and "t' = t\<lparr>t_high := Suc (t_high t)\<rparr>" and "v' = v"
        and "0 < slots_per_chunk b" and "t_high t div slots_per_chunk b < Max_Chunks"
        and "t_chunks t ! (t_high t div slots_per_chunk b) \<noteq> 0"
    | (grow) va where "i = Suc (t_high t)"
        and "t' = t\<lparr>t_chunks := (t_chunks t)[t_high t div slots_per_chunk b := va], t_high := Suc (t_high t)\<rparr>"
        and "va = (if v = 0 then Arena_Base else v)" and "v' = va + Chunk_Bytes" and "v' \<le> Arena_End"
        and "0 < slots_per_chunk b" and "t_high t div slots_per_chunk b < Max_Chunks"
        and "t_chunks t ! (t_high t div slots_per_chunk b) = 0"
proof (cases "slots_per_chunk b = 0 \<or> \<not> t_high t div slots_per_chunk b < Max_Chunks
    \<or> t_chunks t ! (t_high t div slots_per_chunk b) \<noteq> 0")
  case True
  with assms(1) show ?thesis using full room by (auto simp: tab_append_def Let_def split: if_splits)
next
  case False
  obtain va w k'' where r: "reserve K (Chunk_Bytes div 4096) (v, k) = (va, w, k'')" by (metis prod.exhaust)
  from r assms(2) refl show ?thesis
  proof (cases rule: reserve_cases)
    case fail
    with False assms(1) r show ?thesis using full by (auto simp: tab_append_def Let_def split: if_splits)
  next
    case ok
    then have "va \<noteq> 0" using assms(2) by (auto simp: arena_consts)
    with ok False assms(1) r show ?thesis
      using grow [of va] by (auto simp: tab_append_def Let_def Chunk_Bytes_def split: if_splits)
  qed
qed

text \<open>The table a step touches, and the others.\<close>

lemma ts_append_cases:
  assumes "ts_wf bits s" and "fst (ts_arena s) = v" and "t = ts_tabs s n"
  obtains (full) v' where "ts_tabs (ts_append K bits n s) = ts_tabs s"
      and "fst (ts_arena (ts_append K bits n s)) = v'" and "v' = v \<or> (v = 0 \<and> v' = Arena_Base)"
    | (room) "ts_tabs (ts_append K bits n s) = (ts_tabs s)(n := t\<lparr>t_high := Suc (t_high t)\<rparr>)"
        and "fst (ts_arena (ts_append K bits n s)) = v" and "0 < slots_per_chunk (bits n)"
        and "t_high t div slots_per_chunk (bits n) < Max_Chunks"
        and "t_chunks t ! (t_high t div slots_per_chunk (bits n)) \<noteq> 0"
    | (grow) va where "ts_tabs (ts_append K bits n s) = (ts_tabs s)
          (n := t\<lparr>t_chunks := (t_chunks t)[t_high t div slots_per_chunk (bits n) := va], t_high := Suc (t_high t)\<rparr>)"
        and "va = (if v = 0 then Arena_Base else v)"
        and "fst (ts_arena (ts_append K bits n s)) = va + Chunk_Bytes" and "va + Chunk_Bytes \<le> Arena_End"
        and "0 < slots_per_chunk (bits n)" and "t_high t div slots_per_chunk (bits n) < Max_Chunks"
        and "t_chunks t ! (t_high t div slots_per_chunk (bits n)) = 0"
proof -
  obtain k where a: "ts_arena s = (v, k)" using assms(2) by (cases "ts_arena s") auto
  obtain i t' v' k' where r: "tab_append K (bits n) t (v, k) = (i, t', v', k')" by (metis prod.exhaust)
  have v: "v = 0 \<or> (Arena_Base \<le> v \<and> v \<le> Arena_End)" using assms(1,2) by (simp add: ts_wf_def ts_cursor_def)
  have s: "ts_tabs (ts_append K bits n s) = (ts_tabs s)(n := t')" "fst (ts_arena (ts_append K bits n s)) = v'"
    using r a assms(3) by (simp_all add: ts_append_def)
  from r v show thesis
    by (cases rule: tab_append_cases) (use s assms(3) full room grow in auto)
qed

lemma ts_wf_append:
  assumes "ts_wf bits s"
  shows "ts_wf bits (ts_append K bits n s)"
  using assms refl refl
proof (cases rule: ts_append_cases [where K = K and n = n])
  case (full v')
  with assms show ?thesis
    by (auto simp: ts_wf_def ts_cursor_def ts_chunks_def ts_indices_def arena_consts)
next
  case room
  with assms show ?thesis
    by (auto simp: ts_wf_def ts_cursor_def ts_chunks_def ts_indices_def less_Suc_eq)
next
  case (grow va)
  let ?s = "ts_append K bits n s" and ?c = "t_high (ts_tabs s n) div slots_per_chunk (bits n)"
  from assms have len: "length (t_chunks (ts_tabs s n)) = Max_Chunks" by (simp add: ts_wf_def ts_indices_def)
  have new: "chunk ?s m d = (if m = n \<and> d = ?c then va else chunk s m d)" for m d
    using grow(1,6) len by (simp add: nth_list_update)
  have below: "chunk s m d + Chunk_Bytes \<le> va" if "d < Max_Chunks" "chunk s m d \<noteq> 0" for m d
    using assms that grow(2) unfolding ts_wf_def ts_chunks_def by (fastforce simp: arena_consts)
  have "ts_cursor ?s" using grow(2-4) assms by (auto simp: ts_cursor_def ts_wf_def)
  moreover have "ts_chunks ?s"
    unfolding ts_chunks_def new grow(3)
  proof (intro conjI allI impI)
    fix m d
    assume "d < Max_Chunks \<and> (if m = n \<and> d = ?c then va else chunk s m d) \<noteq> 0"
    then show "Arena_Base \<le> (if m = n \<and> d = ?c then va else chunk s m d)"
      using assms grow(2) unfolding ts_wf_def ts_chunks_def ts_cursor_def by auto
    show "(if m = n \<and> d = ?c then va else chunk s m d) + Chunk_Bytes \<le> va + Chunk_Bytes"
      if "d < Max_Chunks \<and> (if m = n \<and> d = ?c then va else chunk s m d) \<noteq> 0"
      using below [of d m] that by (cases "m = n \<and> d = ?c") auto
  next
    fix m d m' d'
    show "(if m = n \<and> d = ?c then va else chunk s m d) + Chunk_Bytes \<le> (if m' = n \<and> d' = ?c then va else chunk s m' d') \<or>
      (if m' = n \<and> d' = ?c then va else chunk s m' d') + Chunk_Bytes \<le> (if m = n \<and> d = ?c then va else chunk s m d)"
      if "d < Max_Chunks \<and> d' < Max_Chunks \<and> (if m = n \<and> d = ?c then va else chunk s m d) \<noteq> 0 \<and>
        (if m' = n \<and> d' = ?c then va else chunk s m' d') \<noteq> 0 \<and> (m, d) \<noteq> (m', d')"
      using that below [of d m] below [of d' m'] assms unfolding ts_wf_def ts_chunks_def by (auto split: if_splits)
  qed
  moreover have "ts_indices bits ?s"
    using assms grow len by (auto simp: ts_wf_def ts_indices_def less_Suc_eq nth_list_update arena_base)
  ultimately show ?thesis by (simp add: ts_wf_def)
qed

lemma ts_run_wf: "ts_run K bits s s' \<Longrightarrow> ts_wf bits s \<Longrightarrow> ts_wf bits s'"
  by (induction rule: ts_run.induct) (auto intro: ts_wf_append)

section \<open>Elements lie apart and stay in place\<close>

text \<open>An element lies within its chunk, and two of one chunk do not overlap.\<close>

lemma slot_in_chunk:
  assumes "0 < slots_per_chunk b"
  shows "i mod slots_per_chunk b * elem_bytes b + elem_bytes b \<le> Chunk_Bytes"
proof -
  have "(i mod slots_per_chunk b + 1) * elem_bytes b \<le> slots_per_chunk b * elem_bytes b"
    using mod_less_divisor [OF assms, of i] by (intro mult_le_mono1) simp
  also have "\<dots> \<le> Chunk_Bytes" by (simp add: slots_per_chunk_def)
  finally show ?thesis by simp
qed

lemma slots_apart: "(x :: nat) < y \<Longrightarrow> x * e + e \<le> y * e"
  by (metis Suc_leI add.commute mult_Suc mult_le_mono1)

lemma tab_ref_Some:
  assumes "ts_wf bits s" and "tab_ref (bits n) (ts_tabs s n) i = Some a"
  obtains c where "c = (i - 1) div slots_per_chunk (bits n)" and "c < Max_Chunks" and "chunk s n c \<noteq> 0"
    and "a = chunk s n c + (i - 1) mod slots_per_chunk (bits n) * elem_bytes (bits n)"
    and "a + elem_bytes (bits n) \<le> chunk s n c + Chunk_Bytes" and "0 < i" and "i \<le> t_high (ts_tabs s n)"
proof -
  from assms(2) have i: "0 < i" "i \<le> t_high (ts_tabs s n)"
    and a: "a = chunk s n ((i - 1) div slots_per_chunk (bits n))
      + (i - 1) mod slots_per_chunk (bits n) * elem_bytes (bits n)"
    by (auto simp: tab_ref_def split: if_splits)
  then have "i - 1 < t_high (ts_tabs s n)" by simp
  with assms(1) have "0 < slots_per_chunk (bits n)" "(i - 1) div slots_per_chunk (bits n) < Max_Chunks"
    "chunk s n ((i - 1) div slots_per_chunk (bits n)) \<noteq> 0"
    unfolding ts_wf_def ts_indices_def by blast+
  with that [OF refl _ _ a] i slot_in_chunk [of "bits n" "i - 1"] show thesis by (simp add: a)
qed

lemma ts_append_ref:
  assumes "ts_wf bits s" and "tab_ref (bits n) (ts_tabs s n) i = Some a"
  shows "tab_ref (bits n) (ts_tabs (ts_append K bits m s) n) i = Some a"
proof -
  obtain c where c: "c = (i - 1) div slots_per_chunk (bits n)" "chunk s n c \<noteq> 0"
      "a = chunk s n c + (i - 1) mod slots_per_chunk (bits n) * elem_bytes (bits n)" "0 < i" "i \<le> t_high (ts_tabs s n)"
    using assms by (elim tab_ref_Some)
  have upd: "(t_chunks (ts_tabs s n))[d := v] ! c = chunk s n c" if "chunk s n d = 0" for d v
    using c(2) that by (metis nth_list_update_neq)
  from assms(1) refl refl show ?thesis
    by (cases rule: ts_append_cases [where K = K and n = m])
      (use c upd in \<open>auto simp: tab_ref_def simp flip: c(1)\<close>)
qed

lemma ts_run_ref:
  assumes "ts_run K bits s s'" and "ts_wf bits s" and "tab_ref (bits n) (ts_tabs s n) i = Some a"
  shows "tab_ref (bits n) (ts_tabs s' n) i = Some a"
  using assms by (induction rule: ts_run.induct) (auto intro: ts_append_ref ts_run_wf)

lemma refs_apart:
  assumes "ts_wf bits s"
    and a: "tab_ref (bits n) (ts_tabs s n) i = Some a" and b: "tab_ref (bits m) (ts_tabs s m) j = Some b"
    and "(n, i) \<noteq> (m, j)"
  shows "a + elem_bytes (bits n) \<le> b \<or> b + elem_bytes (bits m) \<le> a"
proof -
  obtain c where c: "c = (i - 1) div slots_per_chunk (bits n)" "c < Max_Chunks" "chunk s n c \<noteq> 0"
      "a = chunk s n c + (i - 1) mod slots_per_chunk (bits n) * elem_bytes (bits n)"
      "a + elem_bytes (bits n) \<le> chunk s n c + Chunk_Bytes" "0 < i"
    using assms(1) a by (elim tab_ref_Some)
  obtain d where d: "d = (j - 1) div slots_per_chunk (bits m)" "d < Max_Chunks" "chunk s m d \<noteq> 0"
      "b = chunk s m d + (j - 1) mod slots_per_chunk (bits m) * elem_bytes (bits m)"
      "b + elem_bytes (bits m) \<le> chunk s m d + Chunk_Bytes" "0 < j"
    using assms(1) b by (elim tab_ref_Some)
  show ?thesis
  proof (cases "(n, c) = (m, d)")
    case True
    with assms(4) have "i - 1 \<noteq> j - 1" using c(6) d(6) by auto
    with True c(1) d(1) have "(i - 1) mod slots_per_chunk (bits n) \<noteq> (j - 1) mod slots_per_chunk (bits n)"
      by (metis div_mult_mod_eq prod.inject)
    then show ?thesis
      using True c(4) d(4) slots_apart [of _ _ "elem_bytes (bits n)"] by (auto simp: neq_iff)
  next
    case False
    then have "chunk s n c + Chunk_Bytes \<le> chunk s m d \<or> chunk s m d + Chunk_Bytes \<le> chunk s n c"
      using assms(1) c(2,3) d(2,3) unfolding ts_wf_def ts_chunks_def by blast
    with c(4,5) d(4,5) show ?thesis by linarith
  qed
qed

text \<open>
  Property C25: whatever the order in which the tables of a process grow, an element keeps its address
  for good, lies within the window, and no two elements overlap, be they of one table or of two.
\<close>

theorem table_elements_disjoint_stable:
  assumes "ts_run K bits (ts_init k) s" and "ts_run K bits s s'"
    and "tab_ref (bits n) (ts_tabs s n) i = Some a"
  shows "tab_ref (bits n) (ts_tabs s' n) i = Some a \<and>
    Arena_Base \<le> a \<and> a + elem_bytes (bits n) \<le> Arena_End \<and>
    (\<forall>m j b. tab_ref (bits m) (ts_tabs s' m) j = Some b \<and> (n, i) \<noteq> (m, j) \<longrightarrow>
       a + elem_bytes (bits n) \<le> b \<or> b + elem_bytes (bits m) \<le> a)"
proof (intro conjI allI impI)
  have wf: "ts_wf bits s" using assms(1) ts_wf_init by (rule ts_run_wf)
  with assms(2) have wf': "ts_wf bits s'" by (rule ts_run_wf)
  show r: "tab_ref (bits n) (ts_tabs s' n) i = Some a" using assms(2) wf assms(3) by (rule ts_run_ref)
  obtain c where c: "c < Max_Chunks" "chunk s n c \<noteq> 0"
      "a = chunk s n c + (i - 1) mod slots_per_chunk (bits n) * elem_bytes (bits n)"
      "a + elem_bytes (bits n) \<le> chunk s n c + Chunk_Bytes"
    using wf assms(3) by (elim tab_ref_Some)
  from wf c(1,2) have "Arena_Base \<le> chunk s n c" "chunk s n c + Chunk_Bytes \<le> Arena_End"
    unfolding ts_wf_def ts_chunks_def ts_cursor_def by (fastforce simp: Chunk_Bytes_def)+
  with c(3,4) show "Arena_Base \<le> a" "a + elem_bytes (bits n) \<le> Arena_End" by linarith+
  show "a + elem_bytes (bits n) \<le> b \<or> b + elem_bytes (bits m) \<le> a"
    if "tab_ref (bits m) (ts_tabs s' m) j = Some b \<and> (n, i) \<noteq> (m, j)" for m j b
    using refs_apart [OF wf' r] that by blast
qed

definition free_kernel :: "unit kernel_ops" where
  "free_kernel = \<lparr>mem_alloc = (\<lambda>p k. (Some 1, k)), mem_map = (\<lambda>c va off len k. (0, k)), cap_delete = (\<lambda>c k. k)\<rparr>"

lemmas table_eval =
  ts_append_def tab_append_def tab_ref_def ts_init_def table_init_def reserve_def free_kernel_def elem_bytes_def
  slots_per_chunk_def Max_Chunks_def arena_consts

theorem table_elements_disjoint_stable_witness:
  "(let bits = (\<lambda>n. 2304); s = ts_append free_kernel bits 0 (ts_init ()); s' = ts_append free_kernel bits 1 s
    in tab_ref 2304 (ts_tabs s' 0) 1 = Some 0x70000000 \<and> tab_ref 2304 (ts_tabs s' 1) 1 = Some 0x70040000)"
proof -
  let ?bits = "\<lambda>n :: nat. 2304 :: nat"
  let ?s = "ts_append free_kernel ?bits 0 (ts_init ())"
  let ?s' = "ts_append free_kernel ?bits 1 ?s"
  have run: "ts_run free_kernel ?bits (ts_init ()) ?s" "ts_run free_kernel ?bits ?s ?s'"
    by (intro ts_run.intros)+
  have "tab_ref 2304 (ts_tabs ?s 0) 1 = Some 0x70000000" by (simp add: table_eval)
  with table_elements_disjoint_stable [OF run, where n = 0 and i = 1 and a = "0x70000000"]
  have "tab_ref 2304 (ts_tabs ?s' 0) 1 = Some 0x70000000" by blast
  moreover have "tab_ref 2304 (ts_tabs ?s' 1) 1 = Some 0x70040000" by (simp add: table_eval)
  ultimately show ?thesis unfolding Let_def by blast
qed

end
