(* ===== verification/Gloss_Files.thy ===== *)
theory Gloss_Files
  imports Aegir_Tables
begin

text \<open>
  The file half of the system call layer under the C library (\<^verbatim>\<open>aegir_user-gloss.adb\<close>) with the client of the
  file protocol it uses (\<^verbatim>\<open>aegir_user-files.adb\<close>): descriptors, paths and the current directory,
  open, close, read, write, seek and the stat family. The file server and the arena are parameters. File
  contents and names are character lists; offsets and sizes are \<open>U64\<close>, kept as natural numbers with the
  reduction modulo \<open>2\<^sup>6\<^sup>4\<close> written out where the code adds. Lines printed for debugging are left out.
\<close>

section \<open>The file protocol\<close>

abbreviation (input) Status_Ok :: nat where "Status_Ok \<equiv> 0"
abbreviation (input) Status_Not_Found :: nat where "Status_Not_Found \<equiv> 1"
abbreviation (input) Status_Not_Ready :: nat where "Status_Not_Ready \<equiv> 2"
abbreviation (input) Status_Bad_Args :: nat where "Status_Bad_Args \<equiv> 3"
abbreviation (input) Status_Out_Of_Range :: nat where "Status_Out_Of_Range \<equiv> 4"

datatype path_op = Op_Delete | Op_Truncate | Op_Mkdir | Op_Rmdir | Op_Close

text \<open>
  What a request answers, the world afterwards included: the status, then the size and whether the path is
  a directory, the bytes read or the number of bytes written. A request that cannot be staged or sent
  answers like any other failure. The last two components are the arena behind the descriptor table and
  the console.
\<close>

record 'w server =
  srv_open :: "string \<Rightarrow> 'w \<Rightarrow> nat \<times> nat \<times> 'w"
  srv_stat :: "string \<Rightarrow> 'w \<Rightarrow> nat \<times> nat \<times> bool \<times> 'w"
  srv_read :: "string \<Rightarrow> nat \<Rightarrow> nat \<Rightarrow> 'w \<Rightarrow> nat \<times> string \<times> 'w"
  srv_write :: "string \<Rightarrow> nat \<Rightarrow> string \<Rightarrow> 'w \<Rightarrow> nat \<times> nat \<times> 'w"
  srv_path_op :: "path_op \<Rightarrow> string \<Rightarrow> 'w \<Rightarrow> nat \<times> 'w"
  srv_rename :: "string \<Rightarrow> string \<Rightarrow> 'w \<Rightarrow> nat \<times> 'w"
  srv_read_dir :: "string \<Rightarrow> nat \<Rightarrow> 'w \<Rightarrow> nat \<times> string \<times> 'w"
  srv_assign_list :: "nat \<Rightarrow> 'w \<Rightarrow> nat \<times> string \<times> 'w"
  srv_tab_append :: "'w \<Rightarrow> bool \<times> 'w"
  srv_console :: "nat \<Rightarrow> string \<Rightarrow> 'w \<Rightarrow> 'w"

section \<open>State\<close>

record fd_rec =
  fd_used :: bool
  fd_readable :: bool
  fd_writable :: bool
  fd_offset :: nat
  fd_size :: nat
  fd_path :: string

record dir_rec =
  dir_used :: bool
  dir_path :: string
  dir_next :: nat

text \<open>\<open>errno\<close>, the endpoints and whether they were bound, the default volume, the descriptor table
  (descriptor \<open>i\<close> is the element \<open>i - 1\<close>), the directory streams and the world.\<close>

record 'w gloss =
  g_errno :: int
  g_bound :: bool
  g_files_ep :: nat
  g_console_ep :: nat
  g_volume :: string
  g_fds :: "fd_rec list"
  g_dirs :: "dir_rec list"
  g_world :: 'w

definition fd_none :: fd_rec where
  "fd_none = \<lparr>fd_used = False, fd_readable = False, fd_writable = False, fd_offset = 0, fd_size = 0, fd_path = []\<rparr>"

definition gloss_init :: "'w \<Rightarrow> 'w gloss" where
  "gloss_init w = \<lparr>g_errno = 0, g_bound = False, g_files_ep = 0, g_console_ep = 0, g_volume = ''RD0'',
                   g_fds = [], g_dirs = [], g_world = w\<rparr>"

abbreviation FD_Last :: "'w gloss \<Rightarrow> nat" where "FD_Last g \<equiv> length (g_fds g)"
abbreviation FDs :: "'w gloss \<Rightarrow> int \<Rightarrow> fd_rec" where "FDs g fd \<equiv> g_fds g ! (nat fd - 1)"

definition set_fd :: "int \<Rightarrow> fd_rec \<Rightarrow> 'w gloss \<Rightarrow> 'w gloss" where
  "set_fd fd r g = g\<lparr>g_fds := (g_fds g)[nat fd - 1 := r]\<rparr>"

definition Fail :: "int \<Rightarrow> 'w gloss \<Rightarrow> 'w gloss" where
  "Fail e g = g\<lparr>g_errno := e\<rparr>"

definition Ensure_Bound :: "'w gloss \<Rightarrow> 'w gloss" where
  "Ensure_Bound g =
     (if g_bound g then g
      else g\<lparr>g_bound := True, g_files_ep := (if g_files_ep g = 0 then 2 else g_files_ep g),
             g_console_ep := (if g_console_ep g = 0 then 1 else g_console_ep g)\<rparr>)"

section \<open>The client\<close>

definition Max_Path :: nat where "Max_Path = 255"
definition Buf_Bytes :: nat where "Buf_Bytes = 8 * 4096"

text \<open>The name on the wire; empty when it does not fit.\<close>

definition Qualified :: "'w gloss \<Rightarrow> string \<Rightarrow> string" where
  "Qualified g name =
     (if CHR '':'' \<in> set name then (if length name \<le> Max_Path then name else [])
      else if length (g_volume g) + 1 + length name \<le> Max_Path then g_volume g @ '':'' @ name else [])"

definition Files_Open :: "'w server \<Rightarrow> string \<Rightarrow> 'w gloss \<Rightarrow> nat \<times> nat \<times> 'w gloss" where
  "Files_Open S name g =
     (if g_files_ep g = 0 \<or> Qualified g name = [] then (Status_Bad_Args, 0, g)
      else let (st, sz, w) = srv_open S (Qualified g name) (g_world g)
           in (st, if st = Status_Ok then sz else 0, g\<lparr>g_world := w\<rparr>))"

definition Files_Stat_Ex :: "'w server \<Rightarrow> string \<Rightarrow> 'w gloss \<Rightarrow> nat \<times> nat \<times> bool \<times> 'w gloss" where
  "Files_Stat_Ex S name g =
     (if g_files_ep g = 0 \<or> Qualified g name = [] then (Status_Bad_Args, 0, False, g)
      else let (st, sz, is_dir, w) = srv_stat S (Qualified g name) (g_world g)
           in (st, if st = Status_Ok then sz else 0, st = Status_Ok \<and> is_dir, g\<lparr>g_world := w\<rparr>))"

definition Files_Stat :: "'w server \<Rightarrow> string \<Rightarrow> 'w gloss \<Rightarrow> nat \<times> nat \<times> 'w gloss" where
  "Files_Stat S name g = (let (st, sz, is_dir, g) = Files_Stat_Ex S name g in (st, sz, g))"

definition Files_Read :: "'w server \<Rightarrow> string \<Rightarrow> nat \<Rightarrow> nat \<Rightarrow> 'w gloss \<Rightarrow> nat \<times> string \<times> 'w gloss" where
  "Files_Read S name off len g =
     (if g_files_ep g = 0 \<or> Qualified g name = [] \<or> len = 0 then (Status_Bad_Args, [], g)
      else let (st, dat, w) = srv_read S (Qualified g name) off (min len Buf_Bytes) (g_world g)
           in (st, if st = Status_Ok then dat else [], g\<lparr>g_world := w\<rparr>))"

definition Files_Write :: "'w server \<Rightarrow> string \<Rightarrow> nat \<Rightarrow> string \<Rightarrow> 'w gloss \<Rightarrow> nat \<times> nat \<times> 'w gloss" where
  "Files_Write S name off dat g =
     (if g_files_ep g = 0 \<or> Qualified g name = [] \<or> dat = [] then (Status_Bad_Args, 0, g)
      else let (st, n, w) = srv_write S (Qualified g name) off (take Buf_Bytes dat) (g_world g)
           in (st, if st = Status_Ok then n else 0, g\<lparr>g_world := w\<rparr>))"

definition Files_Path_Op :: "'w server \<Rightarrow> path_op \<Rightarrow> string \<Rightarrow> 'w gloss \<Rightarrow> nat \<times> 'w gloss" where
  "Files_Path_Op S op name g =
     (if g_files_ep g = 0 \<or> Qualified g name = [] then (Status_Bad_Args, g)
      else let (st, w) = srv_path_op S op (Qualified g name) (g_world g) in (st, g\<lparr>g_world := w\<rparr>))"

definition Files_Rename :: "'w server \<Rightarrow> string \<Rightarrow> string \<Rightarrow> 'w gloss \<Rightarrow> nat \<times> 'w gloss" where
  "Files_Rename S from to g =
     (if g_files_ep g = 0 \<or> Qualified g from = [] \<or> Qualified g to = [] then (Status_Bad_Args, g)
      else let (st, w) = srv_rename S (Qualified g from) (Qualified g to) (g_world g) in (st, g\<lparr>g_world := w\<rparr>))"

text \<open>An entry name has at most 24 characters on the wire, and no more than the caller's buffer.\<close>

definition Files_Read_Dir ::
  "'w server \<Rightarrow> string \<Rightarrow> nat \<Rightarrow> nat \<Rightarrow> 'w gloss \<Rightarrow> nat \<times> string \<times> 'w gloss" where
  "Files_Read_Dir S name i bufsz g =
     (if g_files_ep g = 0 \<or> Qualified g name = [] then (Status_Bad_Args, [], g)
      else let (st, nm, w) = srv_read_dir S (Qualified g name) i (g_world g)
           in (st, if st = Status_Ok then take (min 24 bufsz) (takeWhile (\<lambda>c. c \<noteq> CHR 0x00) nm) else [],
               g\<lparr>g_world := w\<rparr>))"

section \<open>Paths\<close>

definition Get_CWD :: "'w server \<Rightarrow> 'w gloss \<Rightarrow> string \<times> 'w gloss" where
  "Get_CWD S g =
     (let (st, sz, g) = Files_Open S ''ENV:CWD'' g
      in if st = Status_Ok then
           (let (st, dat, g) = Files_Read S ''ENV:CWD'' 0 (min sz 256) g
            in if st = Status_Ok \<and> dat \<noteq> [] then (dat, g) else (''Sys:'', g))
         else (''Sys:'', g))"

definition Qualify :: "'w server \<Rightarrow> string \<Rightarrow> 'w gloss \<Rightarrow> string \<times> 'w gloss" where
  "Qualify S p g =
     (if CHR '':'' \<in> set p then (p, g)
      else let (cwd, g) = Get_CWD S g
           in (if last cwd = CHR '':'' then cwd @ p else cwd @ ''/'' @ p, g))"

section \<open>Open and close\<close>

abbreviation (input) O_WRONLY :: u32 where "O_WRONLY \<equiv> 1"
abbreviation (input) O_RDWR :: u32 where "O_RDWR \<equiv> 2"
abbreviation (input) O_ACCMODE :: u32 where "O_ACCMODE \<equiv> 3"
abbreviation (input) O_APPEND :: u32 where "O_APPEND \<equiv> 0x8"
abbreviation (input) O_CREAT :: u32 where "O_CREAT \<equiv> 0x200"
abbreviation (input) O_TRUNC :: u32 where "O_TRUNC \<equiv> 0x400"
abbreviation (input) O_EXCL :: u32 where "O_EXCL \<equiv> 0x800"

abbreviation (input) G_EPERM :: int where "G_EPERM \<equiv> 1"
abbreviation (input) G_ENOENT :: int where "G_ENOENT \<equiv> 2"
abbreviation (input) G_EIO :: int where "G_EIO \<equiv> 5"
abbreviation (input) G_EBADF :: int where "G_EBADF \<equiv> 9"
abbreviation (input) G_EAGAIN :: int where "G_EAGAIN \<equiv> 11"
abbreviation (input) G_EEXIST :: int where "G_EEXIST \<equiv> 17"
abbreviation (input) G_EINVAL :: int where "G_EINVAL \<equiv> 22"
abbreviation (input) G_EMFILE :: int where "G_EMFILE \<equiv> 24"
abbreviation (input) G_EFBIG :: int where "G_EFBIG \<equiv> 27"

text \<open>A new descriptor slot: its index, or 0.\<close>

definition FD_Append :: "'w server \<Rightarrow> 'w gloss \<Rightarrow> nat \<times> 'w gloss" where
  "FD_Append S g =
     (let (room, w) = srv_tab_append S (g_world g)
      in if room then (FD_Last g + 1, g\<lparr>g_fds := g_fds g @ [fd_none], g_world := w\<rparr>) else (0, g\<lparr>g_world := w\<rparr>))"

text \<open>The padding loop: the number of slots still missing below descriptor 3 is the fuel.\<close>

fun FD_Pad :: "'w server \<Rightarrow> nat \<Rightarrow> 'w gloss \<Rightarrow> bool \<times> 'w gloss" where
  "FD_Pad S 0 g = (True, g)"
| "FD_Pad S (Suc n) g = (let (i, g) = FD_Append S g in if i = 0 then (False, g) else FD_Pad S n g)"

definition FD_Slot :: "'w server \<Rightarrow> 'w gloss \<Rightarrow> nat \<times> 'w gloss" where
  "FD_Slot S g =
     (case find (\<lambda>i. \<not> fd_used (g_fds g ! (i - 1))) [3..<FD_Last g + 1] of
        Some i \<Rightarrow> (i, g)
      | None \<Rightarrow> let (padded, g) = FD_Pad S (2 - FD_Last g) g in if padded then FD_Append S g else (0, g))"

definition create_errno :: "nat \<Rightarrow> int" where
  "create_errno st =
     (if st = Status_Bad_Args then G_EINVAL else if st = Status_Out_Of_Range then G_EFBIG
      else if st = Status_Not_Ready then G_EAGAIN else G_EIO)"

text \<open>Creation: one byte is written and the file truncated again; the two statuses.\<close>

definition create_file :: "'w server \<Rightarrow> string \<Rightarrow> 'w gloss \<Rightarrow> nat \<times> nat \<times> 'w gloss" where
  "create_file S p g =
     (let (wst, n, g) = Files_Write S p 0 [CHR 0x00] g
      in if wst = Status_Ok then let (tst, g) = Files_Path_Op S Op_Truncate p g in (wst, tst, g)
         else (wst, wst, g))"

definition open_slot :: "'w server \<Rightarrow> string \<Rightarrow> u32 \<Rightarrow> nat \<Rightarrow> nat \<Rightarrow> 'w gloss \<Rightarrow> int \<times> 'w gloss" where
  "open_slot S p flags slot sz g =
     (let (sz, g) = (if flags AND O_TRUNC \<noteq> 0 \<and> flags AND O_ACCMODE \<noteq> 0
                     then let (st, g) = Files_Path_Op S Op_Truncate p g in (if st = Status_Ok then 0 else sz, g)
                     else (sz, g))
      in (int slot, set_fd (int slot)
            \<lparr>fd_used = True, fd_readable = flags AND O_ACCMODE \<noteq> O_WRONLY, fd_writable = flags AND O_ACCMODE \<noteq> 0,
             fd_offset = (if flags AND O_APPEND \<noteq> 0 then sz else 0), fd_size = sz, fd_path = p\<rparr> g))"

definition Gloss_Open :: "'w server \<Rightarrow> string \<Rightarrow> u32 \<Rightarrow> 'w gloss \<Rightarrow> int \<times> 'w gloss" where
  "Gloss_Open S path flags g =
     (let (p, g) = Qualify S path g
      in if p = [] \<or> length p > 256 then (- 1, Fail G_EINVAL g)
         else let (slot, g) = FD_Slot S g
           in if slot = 0 then (- 1, Fail G_EMFILE g)
              else let (st, sz, g) = Files_Open S p (Ensure_Bound g); existed = (st = Status_Ok)
                in if \<not> existed \<and> flags AND O_CREAT \<noteq> 0 then
                     (let (wst, tst, g) = create_file S p g
                      in if wst \<noteq> Status_Ok \<or> tst \<noteq> Status_Ok
                         then (- 1, Fail (create_errno (if wst \<noteq> Status_Ok then wst else tst)) g)
                         else let (st, sz, g) = Files_Open S p g
                              in if st \<noteq> Status_Ok then (- 1, Fail G_ENOENT g) else open_slot S p flags slot sz g)
                   else if st \<noteq> Status_Ok then (- 1, Fail G_ENOENT g)
                   else if flags AND O_CREAT \<noteq> 0 \<and> flags AND O_EXCL \<noteq> 0 then (- 1, Fail G_EEXIST g)
                   else open_slot S p flags slot sz g)"

text \<open>Whether a descriptor behind the console's three is open.\<close>

definition fd_open :: "'w gloss \<Rightarrow> int \<Rightarrow> bool" where
  "fd_open g fd \<longleftrightarrow> fd \<le> int (FD_Last g) \<and> fd_used (FDs g fd)"

definition Gloss_Close :: "'w server \<Rightarrow> int \<Rightarrow> 'w gloss \<Rightarrow> int \<times> 'w gloss" where
  "Gloss_Close S fd g =
     (if fd < 3 then (0, g)
      else if \<not> fd_open g fd then (- 1, Fail G_EBADF g)
      else let (st, g) = Files_Path_Op S Op_Close (fd_path (FDs g fd)) g
           in (0, set_fd fd ((FDs g fd)\<lparr>fd_used := False\<rparr>) g))"

section \<open>Read, write and seek\<close>

text \<open>The conversion to \<open>int\<close>; \<open>None\<close> is a failed range check.\<close>

definition C_Int :: "nat \<Rightarrow> int option" where
  "C_Int n = (if n < 2 ^ 31 then Some (int n) else None)"

definition Gloss_Read :: "'w server \<Rightarrow> int \<Rightarrow> nat \<Rightarrow> 'w gloss \<Rightarrow> int option \<times> string \<times> 'w gloss" where
  "Gloss_Read S fd n g =
     (let g = Ensure_Bound g
      in if fd < 3 then (Some 0, [], g)
         else if \<not> fd_open g fd \<or> \<not> fd_readable (FDs g fd) then (Some (- 1), [], Fail G_EBADF g)
         else let f = FDs g fd; (st, dat, g) = Files_Read S (fd_path f) (fd_offset f) n g
              in if st = Status_Out_Of_Range then (Some 0, [], g)
                 else if st \<noteq> Status_Ok then (Some (- 1), [], Fail G_ENOENT g)
                 else (C_Int (length dat), dat,
                       set_fd fd (f\<lparr>fd_offset := (fd_offset f + length dat) mod 2 ^ 64\<rparr>) g))"

text \<open>Console output in pieces of 1024 bytes.\<close>

function Write_Console :: "'w server \<Rightarrow> string \<Rightarrow> 'w gloss \<Rightarrow> 'w gloss" where
  "Write_Console S dat g =
     (if dat = [] then g
      else Write_Console S (drop 1024 dat)
             (g\<lparr>g_world := srv_console S (g_console_ep g) (take 1024 dat) (g_world g)\<rparr>))"
  by auto
termination by (relation "measure (\<lambda>(S, dat, g). length dat)") auto

declare Write_Console.simps [simp del]

definition write_errno :: "nat \<Rightarrow> int" where
  "write_errno st =
     (if st = Status_Not_Found then G_ENOENT else if st = Status_Bad_Args then G_EINVAL
      else if st = Status_Not_Ready then G_EAGAIN else if st = Status_Out_Of_Range then G_EFBIG else G_EIO)"

text \<open>The loop over the rest of the data; \<open>don\<close> bytes are written already.\<close>

function write_loop :: "'w server \<Rightarrow> int \<Rightarrow> nat \<Rightarrow> string \<Rightarrow> 'w gloss \<Rightarrow> int option \<times> 'w gloss" where
  "write_loop S fd don dat g =
     (if dat = [] then (C_Int don, g)
      else let f = FDs g fd; (st, n, g) = Files_Write S (fd_path f) (fd_offset f) (take 0x8000 dat) g
           in if st \<noteq> Status_Ok \<or> n = 0
              then (if don = 0 then Some (- 1) else C_Int don, Fail (write_errno st) g)
              else let off = (fd_offset f + n) mod 2 ^ 64
                   in write_loop S fd (don + n) (drop n dat)
                        (set_fd fd (f\<lparr>fd_offset := off, fd_size := max (fd_size f) off\<rparr>) g))"
  by auto
termination by (relation "measure (\<lambda>(S, fd, don, dat, g). length dat)") auto

declare write_loop.simps [simp del]

definition Gloss_Write :: "'w server \<Rightarrow> int \<Rightarrow> string \<Rightarrow> 'w gloss \<Rightarrow> int option \<times> 'w gloss" where
  "Gloss_Write S fd dat g =
     (let g = Ensure_Bound g
      in if fd = 1 \<or> fd = 2 then (C_Int (length dat), Write_Console S dat g)
         else if fd < 3 \<or> \<not> fd_open g fd \<or> \<not> fd_writable (FDs g fd) then (Some (- 1), Fail G_EBADF g)
         else write_loop S fd 0 dat g)"

text \<open>The offset is a \<open>U64\<close>: a negative one arrives as its complement.\<close>

definition Gloss_Lseek :: "'w server \<Rightarrow> int \<Rightarrow> nat \<Rightarrow> int \<Rightarrow> 'w gloss \<Rightarrow> nat \<times> 'w gloss" where
  "Gloss_Lseek S fd off whence g =
     (if fd < 3 \<or> \<not> fd_open g fd then (2 ^ 64 - 1, Fail G_EBADF g)
      else let f = FDs g fd
        in if whence = 0 then (off mod 2 ^ 64, set_fd fd (f\<lparr>fd_offset := off mod 2 ^ 64\<rparr>) g)
           else if whence = 1 then
             (let o' = (fd_offset f + off) mod 2 ^ 64 in (o', set_fd fd (f\<lparr>fd_offset := o'\<rparr>) g))
           else if whence = 2 then
             (let (st, sz, g) = Files_Stat S (fd_path f) g;
                  sz = (if st = Status_Ok then sz else fd_size f);
                  o' = (sz + off) mod 2 ^ 64
              in (o', set_fd fd (f\<lparr>fd_size := sz, fd_offset := o'\<rparr>) g))
           else (2 ^ 64 - 1, Fail G_EINVAL g))"

section \<open>The stat family\<close>

record gloss_stat =
  gs_mode :: u32
  gs_nlink :: nat
  gs_size :: nat
  gs_mtime :: nat
  gs_blocks :: nat

definition Fill_Stat :: "nat \<Rightarrow> bool \<Rightarrow> bool \<Rightarrow> gloss_stat" where
  "Fill_Stat sz is_tty is_dir =
     \<lparr>gs_mode = (if is_tty then 0x2000 else if is_dir then 0x4000 else 0x8000) + 0x1C0, gs_nlink = 1,
      gs_size = sz, gs_mtime = 0, gs_blocks = (sz + 511) mod 2 ^ 64 div 512\<rparr>"

text \<open>\<open>None\<close> is the failed range check of a negative descriptor.\<close>

definition Gloss_Fstat :: "'w server \<Rightarrow> int \<Rightarrow> 'w gloss \<Rightarrow> (int \<times> gloss_stat option \<times> 'w gloss) option" where
  "Gloss_Fstat S fd g =
     (if 0 \<le> fd \<and> fd < 3 then Some (0, Some (Fill_Stat 0 True False), g)
      else if fd > int (FD_Last g) then Some (- 1, None, Fail G_EBADF g)
      else if fd < 0 then None
      else if \<not> fd_used (FDs g fd) then Some (- 1, None, Fail G_EBADF g)
      else let f = FDs g fd; (st, sz, g) = Files_Stat S (fd_path f) g;
               sz = (if st = Status_Ok then sz else fd_size f)
           in Some (0, Some (Fill_Stat sz False False), set_fd fd (f\<lparr>fd_size := sz\<rparr>) g))"

definition Gloss_Stat :: "'w server \<Rightarrow> string \<Rightarrow> 'w gloss \<Rightarrow> int \<times> gloss_stat option \<times> 'w gloss" where
  "Gloss_Stat S path g =
     (let (p, g) = Qualify S path g; (st, sz, is_dir, g) = Files_Stat_Ex S p (Ensure_Bound g)
      in if st = Status_Ok then (0, Some (Fill_Stat sz False is_dir), g)
         else let (st, nm, g) = Files_Read_Dir S p 0 32 g
              in if st = Status_Ok then (0, Some (Fill_Stat 0 False True), g) else (- 1, None, Fail G_ENOENT g))"

definition Gloss_Isatty :: "int \<Rightarrow> int" where
  "Gloss_Isatty fd = (if 0 \<le> fd \<and> fd < 3 then 1 else 0)"

definition Gloss_Fcntl :: "int \<Rightarrow> 'w gloss \<Rightarrow> int \<times> 'w gloss" where
  "Gloss_Fcntl fd g = (if fd < 3 \<or> fd_open g fd then (0, g) else (- 1, Fail G_EBADF g))"

section \<open>Operations on names\<close>

text \<open>The shape the removing and creating operations share.\<close>

definition name_op :: "'w server \<Rightarrow> path_op \<Rightarrow> string \<Rightarrow> 'w gloss \<Rightarrow> int \<times> 'w gloss" where
  "name_op S op path g =
     (let (p, g) = Qualify S path (Ensure_Bound g); (st, g) = Files_Path_Op S op p g
      in if st \<noteq> Status_Ok then (- 1, Fail G_ENOENT g) else (0, g))"

definition Gloss_Unlink :: "'w server \<Rightarrow> string \<Rightarrow> 'w gloss \<Rightarrow> int \<times> 'w gloss" where
  "Gloss_Unlink S path g = name_op S Op_Delete path g"

definition Gloss_Mkdir :: "'w server \<Rightarrow> string \<Rightarrow> 'w gloss \<Rightarrow> int \<times> 'w gloss" where
  "Gloss_Mkdir S path g = name_op S Op_Mkdir path g"

definition Gloss_Rmdir :: "'w server \<Rightarrow> string \<Rightarrow> 'w gloss \<Rightarrow> int \<times> 'w gloss" where
  "Gloss_Rmdir S path g = name_op S Op_Rmdir path g"

definition Gloss_Rename :: "'w server \<Rightarrow> string \<Rightarrow> string \<Rightarrow> 'w gloss \<Rightarrow> int \<times> 'w gloss" where
  "Gloss_Rename S old new g =
     (let (p, g) = Qualify S old (Ensure_Bound g); (q, g) = Qualify S new g; (st, g) = Files_Rename S p q g
      in if st \<noteq> Status_Ok then (- 1, Fail G_EPERM g) else (0, g))"

definition Gloss_Access :: "'w server \<Rightarrow> string \<Rightarrow> 'w gloss \<Rightarrow> int \<times> 'w gloss" where
  "Gloss_Access S path g =
     (let (p, g) = Qualify S path (Ensure_Bound g); (st, sz, g) = Files_Stat S p g
      in if st \<noteq> Status_Ok then (- 1, Fail G_ENOENT g) else (0, g))"

text \<open>The result is the buffer, without its NUL; \<open>None\<close> is the null pointer.\<close>

definition Gloss_Getcwd :: "'w server \<Rightarrow> nat \<Rightarrow> 'w gloss \<Rightarrow> string option \<times> 'w gloss" where
  "Gloss_Getcwd S sz g =
     (let (cwd, g) = Get_CWD S (Ensure_Bound g)
      in if sz < length cwd + 1 then (None, Fail G_EINVAL g) else (Some cwd, g))"

section \<open>The current directory and the environment\<close>

text \<open>The directory behind \<open>ENV:\<close> is created on first use; at most 16 assigns are looked at.\<close>

definition parent_of :: "string \<Rightarrow> string option" where
  "parent_of t = (if CHR ''/'' \<in> set t then Some (rev (tl (dropWhile (\<lambda>c. c \<noteq> CHR ''/'') (rev t)))) else None)"

definition make_env_dirs :: "'w server \<Rightarrow> string \<Rightarrow> 'w gloss \<Rightarrow> 'w gloss" where
  "make_env_dirs S t g =
     (let g = (case parent_of t of None \<Rightarrow> g | Some d \<Rightarrow> snd (Files_Path_Op S Op_Mkdir d g))
      in snd (Files_Path_Op S Op_Mkdir t g))"

fun scan_assigns :: "'w server \<Rightarrow> nat list \<Rightarrow> 'w gloss \<Rightarrow> 'w gloss" where
  "scan_assigns S [] g = g"
| "scan_assigns S (i # is) g =
     (if g_files_ep g = 0 then g
      else let (st, txt, w) = srv_assign_list S i (g_world g); g = g\<lparr>g_world := w\<rparr>;
               txt = take 40 (takeWhile (\<lambda>c. c \<noteq> CHR 0x00) txt)
           in if st \<noteq> Status_Ok then g
              else if length txt \<ge> 6 \<and> take 5 txt = ''ENV: '' then make_env_dirs S (drop 5 txt) g
              else scan_assigns S is g)"

definition Ensure_Env_Dir :: "'w server \<Rightarrow> 'w gloss \<Rightarrow> 'w gloss" where
  "Ensure_Env_Dir S g =
     (let (st, sz, g) = Files_Stat S ''ENV:'' g
      in if st \<noteq> Status_Not_Found then g else scan_assigns S [0..<16] g)"

definition Set_Env :: "'w server \<Rightarrow> string \<Rightarrow> string \<Rightarrow> 'w gloss \<Rightarrow> nat \<times> 'w gloss" where
  "Set_Env S name v g =
     (let g = Ensure_Env_Dir S g; (st, g) = Files_Path_Op S Op_Truncate (''ENV:'' @ name) g;
          (st, n, g) = Files_Write S (''ENV:'' @ name) 0 v g
      in (st, g))"

definition Set_CWD :: "'w server \<Rightarrow> string \<Rightarrow> 'w gloss \<Rightarrow> nat \<times> 'w gloss" where
  "Set_CWD S v g = (if v = [] \<or> length v > 256 then (Status_Bad_Args, g) else Set_Env S ''CWD'' v g)"

definition Gloss_Chdir :: "'w server \<Rightarrow> string \<Rightarrow> 'w gloss \<Rightarrow> int \<times> 'w gloss" where
  "Gloss_Chdir S path g =
     (let (p, g) = Qualify S path g; (st, g) = Set_CWD S p (Ensure_Bound g)
      in if st \<noteq> Status_Ok then (- 1, Fail G_ENOENT g) else (0, g))"

definition Aegir_Env_Get :: "'w server \<Rightarrow> string \<Rightarrow> nat \<Rightarrow> 'w gloss \<Rightarrow> int \<times> string \<times> 'w gloss" where
  "Aegir_Env_Get S name bufsz g =
     (let p = ''ENV:'' @ name; (st, sz, g) = Files_Open S p (Ensure_Bound g)
      in if st \<noteq> Status_Ok then (- 1, [], g)
         else let (st, dat, g) = Files_Read S p 0 (min sz bufsz) g
              in if st \<noteq> Status_Ok \<or> dat = [] then (- 1, [], g) else (int (length dat), dat, g))"

definition Aegir_Env_Set :: "'w server \<Rightarrow> string \<Rightarrow> string \<Rightarrow> 'w gloss \<Rightarrow> int \<times> 'w gloss" where
  "Aegir_Env_Set S name v g =
     (let p = ''ENV:'' @ name; g = Ensure_Bound g
      in if length v > 1024 then (- 1, Fail G_EINVAL g)
         else let (st, g) = Files_Path_Op S Op_Truncate p g; (st, n, g) = Files_Write S p 0 v g
              in if st \<noteq> Status_Ok then (- 1, Fail G_EPERM g) else (0, g))"

definition Aegir_Env_Unset :: "'w server \<Rightarrow> string \<Rightarrow> 'w gloss \<Rightarrow> int \<times> 'w gloss" where
  "Aegir_Env_Unset S name g =
     (let (st, g) = Files_Path_Op S Op_Delete (''ENV:'' @ name) (Ensure_Bound g)
      in if st \<noteq> Status_Ok \<and> st \<noteq> Status_Not_Found then (- 1, Fail G_EPERM g) else (0, g))"

section \<open>Directory streams\<close>

definition dir_none :: dir_rec where
  "dir_none = \<lparr>dir_used = False, dir_path = [], dir_next = 0\<rparr>"

definition Aegir_Opendir :: "'w server \<Rightarrow> string \<Rightarrow> 'w gloss \<Rightarrow> int \<times> 'w gloss" where
  "Aegir_Opendir S name g =
     (let (p, g) = Qualify S name g; g = Ensure_Bound g; d = \<lparr>dir_used = True, dir_path = p, dir_next = 0\<rparr>
      in if p = [] \<or> length p > 256 then (- 1, g)
         else case find (\<lambda>i. \<not> dir_used (g_dirs g ! i)) [0..<length (g_dirs g)] of
                Some i \<Rightarrow> (int i, g\<lparr>g_dirs := (g_dirs g)[i := d]\<rparr>)
              | None \<Rightarrow> (let (room, w) = srv_tab_append S (g_world g); g = g\<lparr>g_world := w\<rparr>
                         in if room then (int (length (g_dirs g)), g\<lparr>g_dirs := g_dirs g @ [d]\<rparr>) else (- 1, g)))"

definition Aegir_Readdir :: "'w server \<Rightarrow> int \<Rightarrow> int \<Rightarrow> 'w gloss \<Rightarrow> int \<times> string \<times> 'w gloss" where
  "Aegir_Readdir S d bufsz g =
     (if d < 0 \<or> d \<ge> int (length (g_dirs g)) then (- 1, [], g)
      else let r = g_dirs g ! nat d
        in if \<not> dir_used r then (- 1, [], g)
           else let (st, nm, g) = Files_Read_Dir S (dir_path r) (dir_next r) 256 g
                in if st \<noteq> Status_Ok \<or> nm = [] \<or> int (length nm) + 1 > bufsz then (- 1, [], g)
                   else (int (length nm), nm,
                         g\<lparr>g_dirs := (g_dirs g)[nat d := r\<lparr>dir_next := (dir_next r + 1) mod 2 ^ 64\<rparr>]\<rparr>))"

definition Aegir_Closedir :: "int \<Rightarrow> 'w gloss \<Rightarrow> int \<times> 'w gloss" where
  "Aegir_Closedir d g =
     (if d < 0 \<or> d \<ge> int (length (g_dirs g)) then (- 1, g)
      else (0, g\<lparr>g_dirs := (g_dirs g)[nat d := (g_dirs g ! nat d)\<lparr>dir_used := False\<rparr>]\<rparr>))"

end
