(* ===== verification/Gloss_Table.thy ===== *)
theory Gloss_Table
  imports Gloss_Files
begin

text \<open>
  The descriptor table of the system call layer: requests to the file server leave it alone, every
  operation keeps it well-formed, and \<open>_open\<close> hands out the lowest free descriptor.
\<close>

section \<open>Requests leave the process alone\<close>

named_theorems gloss_simps \<open>fields an operation of the system call layer leaves alone\<close>

text \<open>Only the world may differ.\<close>

definition served :: "'w gloss \<Rightarrow> 'w gloss \<Rightarrow> bool" where
  "served g g' \<longleftrightarrow> (\<exists>w. g' = g\<lparr>g_world := w\<rparr>)"

lemma served_refl [simp]: "served g g"
  unfolding served_def by (rule exI [of _ "g_world g"]) simp

lemma served_world [simp]: "served g (g\<lparr>g_world := w\<rparr>)"
  by (auto simp: served_def)

lemma served_trans: "served g g' \<Longrightarrow> served g' g'' \<Longrightarrow> served g g''"
  by (auto simp: served_def)

lemma served_fields [dest?]:
  assumes "served g g'"
  shows "g_errno g' = g_errno g" "g_bound g' = g_bound g" "g_files_ep g' = g_files_ep g"
    "g_console_ep g' = g_console_ep g" "g_volume g' = g_volume g" "g_fds g' = g_fds g" "g_dirs g' = g_dirs g"
  using assms by (auto simp: served_def)

lemma Files_served:
  "Files_Open S p g = (st, sz, g') \<Longrightarrow> served g g'"
  "Files_Stat_Ex S p g = (st, sz, d, g') \<Longrightarrow> served g g'"
  "Files_Stat S p g = (st, sz, g') \<Longrightarrow> served g g'"
  "Files_Read S p off n g = (st, dat, g') \<Longrightarrow> served g g'"
  "Files_Write S p off dat g = (st, n, g') \<Longrightarrow> served g g'"
  "Files_Path_Op S op p g = (st, g') \<Longrightarrow> served g g'"
  "Files_Rename S p q g = (st, g') \<Longrightarrow> served g g'"
  "Files_Read_Dir S p i b g = (st, dat, g') \<Longrightarrow> served g g'"
  by (auto simp: Files_Open_def Files_Stat_Ex_def Files_Stat_def Files_Read_def Files_Write_def
      Files_Path_Op_def Files_Rename_def Files_Read_Dir_def Let_def split: if_splits prod.splits)

lemma Get_CWD_served: "Get_CWD S g = (c, g') \<Longrightarrow> served g g'"
  by (auto simp: Get_CWD_def Let_def split: if_splits prod.splits
      dest!: Files_served intro: served_trans)

lemma Qualify_served: "Qualify S p g = (q, g') \<Longrightarrow> served g g'"
  by (auto simp: Qualify_def Let_def split: if_splits prod.splits dest!: Get_CWD_served)

lemma create_file_served: "create_file S p g = (wst, tst, g') \<Longrightarrow> served g g'"
  by (auto simp: create_file_def Let_def split: if_splits prod.splits
      dest!: Files_served intro: served_trans)

lemma Ensure_Bound_fields [simp]:
  "g_errno (Ensure_Bound g) = g_errno g" "g_volume (Ensure_Bound g) = g_volume g"
  "g_fds (Ensure_Bound g) = g_fds g" "g_dirs (Ensure_Bound g) = g_dirs g" "g_world (Ensure_Bound g) = g_world g"
  "g_bound (Ensure_Bound g)"
  by (simp_all add: Ensure_Bound_def)

lemma Fail_fields [simp]:
  "g_bound (Fail e g) = g_bound g" "g_files_ep (Fail e g) = g_files_ep g" "g_console_ep (Fail e g) = g_console_ep g"
  "g_volume (Fail e g) = g_volume g" "g_fds (Fail e g) = g_fds g" "g_dirs (Fail e g) = g_dirs g"
  "g_world (Fail e g) = g_world g" "g_errno (Fail e g) = e"
  by (simp_all add: Fail_def)

lemma set_fd_fields [simp]:
  "g_errno (set_fd fd r g) = g_errno g" "g_bound (set_fd fd r g) = g_bound g"
  "g_files_ep (set_fd fd r g) = g_files_ep g" "g_console_ep (set_fd fd r g) = g_console_ep g"
  "g_volume (set_fd fd r g) = g_volume g" "g_fds (set_fd fd r g) = (g_fds g)[nat fd - 1 := r]"
  "g_dirs (set_fd fd r g) = g_dirs g" "g_world (set_fd fd r g) = g_world g"
  by (simp_all add: set_fd_def)

section \<open>Taking a slot\<close>

text \<open>The table grown by empty slots.\<close>

definition grown :: "nat \<Rightarrow> 'w gloss \<Rightarrow> 'w gloss \<Rightarrow> bool" where
  "grown k g g' \<longleftrightarrow> (\<exists>w. g' = g\<lparr>g_fds := g_fds g @ replicate k fd_none, g_world := w\<rparr>)"

lemma grown_0 [simp]: "grown 0 g g"
  unfolding grown_def by (rule exI [of _ "g_world g"]) simp

lemma grown_trans: "grown k g g' \<Longrightarrow> grown m g' g'' \<Longrightarrow> grown (k + m) g g''"
  by (auto simp: grown_def replicate_add)

lemma grown_fields:
  assumes "grown k g g'"
  shows "g_errno g' = g_errno g" "g_bound g' = g_bound g" "g_files_ep g' = g_files_ep g"
    "g_console_ep g' = g_console_ep g" "g_volume g' = g_volume g" "g_dirs g' = g_dirs g"
    "g_fds g' = g_fds g @ replicate k fd_none"
  using assms by (auto simp: grown_def)

lemma FD_Append_cases:
  assumes "FD_Append S g = (i, g')"
  obtains "i = 0" "grown 0 g g'" | "i = FD_Last g + 1" "grown 1 g g'"
  using assms by (auto simp: FD_Append_def grown_def split: prod.splits if_splits)

lemma FD_Pad_grown:
  assumes "FD_Pad S n g = (ok, g')"
  shows "\<exists>k \<le> n. grown k g g' \<and> (ok \<longrightarrow> k = n)"
  using assms
proof (induction n arbitrary: g)
  case 0
  then show ?case by auto
next
  case (Suc n)
  obtain i h where a: "FD_Append S g = (i, h)" by (metis prod.exhaust)
  then show ?case
  proof (cases rule: FD_Append_cases)
    case 1
    with a Suc.prems show ?thesis by auto
  next
    case 2
    with a Suc.prems have "FD_Pad S n h = (ok, g')" by simp
    from Suc.IH [OF this] obtain k where "k \<le> n" "grown k h g'" "ok \<longrightarrow> k = n" by blast
    with 2 show ?thesis using grown_trans [of 1 g h k g'] by (intro exI [of _ "Suc k"]) auto
  qed
qed

lemma FD_Slot_cases:
  assumes "FD_Slot S g = (slot, g')"
  obtains (none) k where "slot = 0" and "grown k g g'"
    | (some) k where "grown k g g'" and "3 \<le> slot" and "slot \<le> FD_Last g'"
        and "\<not> fd_used (g_fds g' ! (slot - 1))" and "\<And>i. 3 \<le> i \<Longrightarrow> i < slot \<Longrightarrow> fd_used (g_fds g ! (i - 1))"
        and "slot \<le> FD_Last g \<or> (slot = FD_Last g' \<and> slot = max 3 (FD_Last g + 1))"
proof (cases "find (\<lambda>i. \<not> fd_used (g_fds g ! (i - 1))) [3..<FD_Last g + 1]")
  case (Some i)
  with assms have g': "slot = i" "g' = g" by (simp_all add: FD_Slot_def)
  from find_upt_Some [OF Some] have "3 \<le> i" "i < FD_Last g + 1" "\<not> fd_used (g_fds g ! (i - 1))"
    "\<And>j. 3 \<le> j \<Longrightarrow> j < i \<Longrightarrow> fd_used (g_fds g ! (j - 1))" by simp_all
  with g' show ?thesis by (intro some [of 0]) simp_all
next
  case None
  obtain ok h where p: "FD_Pad S (2 - FD_Last g) g = (ok, h)" by (metis prod.exhaust)
  obtain k where k: "k \<le> 2 - FD_Last g" "grown k g h" "ok \<longrightarrow> k = 2 - FD_Last g"
    using FD_Pad_grown [OF p] by blast
  show ?thesis
  proof (cases ok)
    case False
    with None p assms have "slot = 0" "g' = h" by (simp_all add: FD_Slot_def)
    with k(2) show ?thesis by (intro none [of k]) simp_all
  next
    case True
    with None p assms have "FD_Append S h = (slot, g')" by (simp add: FD_Slot_def)
    then show ?thesis
    proof (cases rule: FD_Append_cases)
      case 1
      then show ?thesis using grown_trans [OF k(2) 1(2)] by (intro none [of "k + 0"])
    next
      case 2
      have last: "FD_Last h = max 2 (FD_Last g)" using k True by (auto simp: grown_fields [OF k(2)])
      have g': "grown (k + 1) g g'" using k(2) 2(2) by (rule grown_trans)
      have used: "fd_used (g_fds g ! (i - 1))" if "3 \<le> i" "i \<le> FD_Last g" for i
        using None that unfolding find_upt_None by simp
      have l': "FD_Last g' = FD_Last h + 1" and n: "g_fds g' ! FD_Last h = fd_none"
        using grown_fields(7) [OF 2(2)] by simp_all
      show ?thesis
        using 2(1) last used l' n by (intro some [OF g']) (simp_all add: fd_none_def max_def split: if_splits)
    qed
  qed
qed

section \<open>Well-formed states\<close>

text \<open>The server's sizes are \<open>U64\<close> values.\<close>

definition u64_server :: "'w server \<Rightarrow> bool" where
  "u64_server S \<longleftrightarrow> (\<forall>q w. fst (snd (srv_open S q w)) < 2 ^ 64) \<and> (\<forall>q w. fst (snd (srv_stat S q w)) < 2 ^ 64)"

definition fd_ok :: "fd_rec \<Rightarrow> bool" where
  "fd_ok r \<longleftrightarrow> fd_used r \<longrightarrow>
     (fd_readable r \<or> fd_writable r) \<and> fd_path r \<noteq> [] \<and> length (fd_path r) \<le> 256 \<and>
     fd_offset r < 2 ^ 64 \<and> fd_size r < 2 ^ 64"

definition dir_ok :: "dir_rec \<Rightarrow> bool" where
  "dir_ok d \<longleftrightarrow> dir_used d \<longrightarrow> dir_path d \<noteq> [] \<and> length (dir_path d) \<le> 256 \<and> dir_next d < 2 ^ 64"

definition gloss_wf :: "'w gloss \<Rightarrow> bool" where
  "gloss_wf g \<longleftrightarrow>
     list_all fd_ok (g_fds g) \<and> list_all dir_ok (g_dirs g) \<and>
     (\<forall>i < FD_Last g. i < 2 \<longrightarrow> \<not> fd_used (g_fds g ! i)) \<and>
     (g_bound g \<longrightarrow> g_files_ep g \<noteq> 0 \<and> g_console_ep g \<noteq> 0)"

lemma gloss_wf_init: "gloss_wf (gloss_init w)"
  by (simp add: gloss_wf_def gloss_init_def)

lemma gloss_wf_served: "served g g' \<Longrightarrow> gloss_wf g \<Longrightarrow> gloss_wf g'"
  by (auto simp: served_def gloss_wf_def)

lemma gloss_wf_Fail [simp]: "gloss_wf (Fail e g) = gloss_wf g"
  by (simp add: gloss_wf_def)

lemma gloss_wf_Ensure_Bound: "gloss_wf g \<Longrightarrow> gloss_wf (Ensure_Bound g)"
  by (auto simp: gloss_wf_def Ensure_Bound_def)

lemma fd_none_ok [simp]: "fd_ok fd_none" "\<not> fd_used fd_none"
  by (simp_all add: fd_ok_def fd_none_def)

lemma nth_update_if: "xs[k := r] ! i = (if k = i \<and> i < length xs then r else xs ! i)"
  by (metis list_update_beyond not_le nth_list_update_eq nth_list_update_neq)

lemma gloss_wf_grown: "grown k g g' \<Longrightarrow> gloss_wf g \<Longrightarrow> gloss_wf g'"
  by (auto simp: grown_def gloss_wf_def list_all_iff nth_append split: if_splits)

lemma gloss_wf_set_fd:
  assumes "gloss_wf g" and "fd_ok r" and "3 \<le> fd \<or> \<not> fd_used r"
  shows "gloss_wf (set_fd fd r g)"
  using assms unfolding gloss_wf_def
  by (auto simp: list_all_iff nth_update_if dest!: set_update_subset_insert [THEN subsetD] split: if_splits)

lemma gloss_wf_dirs:
  assumes "gloss_wf g" and "list_all dir_ok ds"
  shows "gloss_wf (g\<lparr>g_dirs := ds\<rparr>)"
  using assms by (simp add: gloss_wf_def)

lemma fd_ok_at:
  assumes "gloss_wf g" and "3 \<le> fd" and "fd_open g fd"
  shows "fd_ok (FDs g fd)"
  using assms by (auto simp: gloss_wf_def fd_open_def list_all_length)

lemma Files_Open_size: "Files_Open S p g = (st, sz, g') \<Longrightarrow> u64_server S \<Longrightarrow> sz < 2 ^ 64"
  by (auto simp: Files_Open_def u64_server_def Let_def split: if_splits prod.splits) (metis fst_conv snd_conv)

lemma Files_Stat_size: "Files_Stat S p g = (st, sz, g') \<Longrightarrow> u64_server S \<Longrightarrow> sz < 2 ^ 64"
  by (auto simp: Files_Stat_def Files_Stat_Ex_def u64_server_def Let_def split: if_splits prod.splits)
    (metis fst_conv snd_conv)

lemma accmode: "flags AND O_ACCMODE \<noteq> O_WRONLY \<or> flags AND O_ACCMODE \<noteq> (0 :: u32)"
  by auto

lemma open_slot_wf:
  assumes "open_slot S p flags slot sz g = (fd, g')" and "gloss_wf g" and "3 \<le> slot" and "sz < 2 ^ 64"
    and "p \<noteq> []" and "length p \<le> 256"
  shows "gloss_wf g'"
proof -
  obtain sz' h where h: "served g h" "sz' < 2 ^ 64"
    "g' = set_fd (int slot) \<lparr>fd_used = True, fd_readable = flags AND O_ACCMODE \<noteq> O_WRONLY,
       fd_writable = flags AND O_ACCMODE \<noteq> 0, fd_offset = (if flags AND O_APPEND \<noteq> 0 then sz' else 0),
       fd_size = sz', fd_path = p\<rparr> h"
  proof (cases "flags AND O_TRUNC \<noteq> 0 \<and> flags AND O_ACCMODE \<noteq> 0")
    case True
    obtain st h where "Files_Path_Op S Op_Truncate p g = (st, h)" by (metis prod.exhaust)
    with True assms(1,4) that [of h "if st = Status_Ok then 0 else sz"] show thesis
      by (auto simp: open_slot_def Let_def dest: Files_served(6))
  next
    case False
    with assms(1,4) that [of g sz] show thesis by (auto simp: open_slot_def Let_def)
  qed
  with gloss_wf_served [OF h(1) assms(2)] assms(3,5,6) accmode [of flags] show ?thesis
    by (auto intro!: gloss_wf_set_fd simp: fd_ok_def)
qed

section \<open>What \<open>_open\<close> does to the table\<close>

text \<open>
  Up to the point where the slot is filled, \<open>_open\<close> only appends empty slots, binds the endpoints and
  talks to the server.
\<close>

definition prepared :: "nat \<Rightarrow> 'w gloss \<Rightarrow> 'w gloss \<Rightarrow> bool" where
  "prepared k g h \<longleftrightarrow> g_fds h = g_fds g @ replicate k fd_none \<and> (gloss_wf g \<longrightarrow> gloss_wf h)"

lemma prepared_served: "prepared k g h \<Longrightarrow> served h h' \<Longrightarrow> prepared k g h'"
  unfolding prepared_def using gloss_wf_served served_fields(6) by metis

lemma prepared_Fail: "prepared k g h \<Longrightarrow> prepared k g (Fail e h)"
  by (simp add: prepared_def)

lemma Gloss_Open_cases:
  assumes "Gloss_Open S path flags g = (fd, g')"
  obtains (fail) k where "fd = - 1" and "prepared k g g'"
    | (ok) k slot h p sz where "prepared k g h" and "open_slot S p flags slot sz h = (fd, g')"
        and "3 \<le> slot" and "slot \<le> FD_Last h" and "\<not> fd_used (g_fds h ! (slot - 1))"
        and "\<And>i. 3 \<le> i \<Longrightarrow> i < slot \<Longrightarrow> fd_used (g_fds g ! (i - 1))"
        and "slot \<le> FD_Last g \<or> (slot = FD_Last h \<and> slot = max 3 (FD_Last g + 1))"
        and "p \<noteq> []" and "length p \<le> 256" and "u64_server S \<Longrightarrow> sz < 2 ^ 64"
proof -
  obtain p g1 where q: "Qualify S path g = (p, g1)" by (metis prod.exhaust)
  obtain slot g2 where s: "FD_Slot S g1 = (slot, g2)" by (metis prod.exhaust)
  obtain st sz g3 where o: "Files_Open S p (Ensure_Bound g2) = (st, sz, g3)" by (metis prod.exhaust)
  obtain wst tst g4 where c: "create_file S p g3 = (wst, tst, g4)" by (metis prod.exhaust)
  obtain st5 sz5 g5 where r: "Files_Open S p g4 = (st5, sz5, g5)" by (metis prod.exhaust)
  note steps = q s o c r
  have p1: "prepared 0 g g1" using Qualify_served [OF q] by (auto simp: prepared_def served_fields intro: gloss_wf_served)
  have grow: "\<exists>k. grown k g1 g2 \<and> (slot \<noteq> 0 \<longrightarrow> 3 \<le> slot \<and> slot \<le> FD_Last g2 \<and> \<not> fd_used (g_fds g2 ! (slot - 1)) \<and>
      (\<forall>i. 3 \<le> i \<and> i < slot \<longrightarrow> fd_used (g_fds g1 ! (i - 1))) \<and>
      (slot \<le> FD_Last g1 \<or> (slot = FD_Last g2 \<and> slot = max 3 (FD_Last g1 + 1))))"
    using s by (cases rule: FD_Slot_cases) blast+
  then obtain k where k: "grown k g1 g2"
    and slot: "slot \<noteq> 0 \<Longrightarrow> 3 \<le> slot \<and> slot \<le> FD_Last g2 \<and> \<not> fd_used (g_fds g2 ! (slot - 1)) \<and>
      (\<forall>i. 3 \<le> i \<and> i < slot \<longrightarrow> fd_used (g_fds g1 ! (i - 1))) \<and>
      (slot \<le> FD_Last g1 \<or> (slot = FD_Last g2 \<and> slot = max 3 (FD_Last g1 + 1)))" by blast
  have p2: "prepared k g g2"
    using p1 k by (auto simp: prepared_def grown_fields intro: gloss_wf_grown)
  then have "prepared k g (Ensure_Bound g2)" by (auto simp: prepared_def intro: gloss_wf_Ensure_Bound)
  then have p3: "prepared k g g3" using Files_served(1) [OF o] by (rule prepared_served)
  then have p4: "prepared k g g4" using create_file_served [OF c] by (rule prepared_served)
  then have p5: "prepared k g g5" using Files_served(1) [OF r] by (rule prepared_served)
  have fds: "g_fds g1 = g_fds g" "g_fds h = g_fds g2" if "prepared k g h" for h
    using p1 p2 that by (simp_all add: prepared_def)
  have okI: thesis if "slot \<noteq> 0" "prepared k g h" "p \<noteq> []" "length p \<le> 256"
      "open_slot S p flags slot n h = (fd, g')" "u64_server S \<Longrightarrow> n < 2 ^ 64" for h n
    using ok [OF that(2,5)] slot that fds [OF that(2)] by auto
  show thesis
    using assms steps fail [of 0] fail [of k] p1 p2 p3 p4 p5 okI [of g3 sz] okI [of g5 sz5]
      Files_Open_size [OF o] Files_Open_size [OF r]
    by (auto simp: Gloss_Open_def Let_def prepared_Fail split: if_splits)
qed

lemma Gloss_Open_wf:
  assumes "Gloss_Open S path flags g = (fd, g')" and "u64_server S" and "gloss_wf g"
  shows "gloss_wf g'"
  using assms(1)
proof (cases rule: Gloss_Open_cases)
  case (fail k)
  with assms(3) show ?thesis by (simp add: prepared_def)
next
  case (ok k slot h p sz)
  then show ?thesis using assms(2,3) by (intro open_slot_wf [OF ok(2)]) (auto simp: prepared_def)
qed

lemma open_slot_result:
  assumes "open_slot S p flags slot sz g = (fd, g')"
  obtains sz' where "fd = int slot" and "g_fds g' = (g_fds g)[slot - 1 :=
      \<lparr>fd_used = True, fd_readable = flags AND O_ACCMODE \<noteq> O_WRONLY, fd_writable = flags AND O_ACCMODE \<noteq> 0,
       fd_offset = (if flags AND O_APPEND \<noteq> 0 then sz' else 0), fd_size = sz', fd_path = p\<rparr>]"
proof (cases "flags AND O_TRUNC \<noteq> 0 \<and> flags AND O_ACCMODE \<noteq> 0")
  case True
  obtain st h where "Files_Path_Op S Op_Truncate p g = (st, h)" by (metis prod.exhaust)
  with True assms that show thesis
    by (auto simp: open_slot_def Let_def served_fields(6) [OF Files_served(6)])
next
  case False
  with assms that show thesis by (auto simp: open_slot_def Let_def)
qed

lemma fd_open_grown:
  assumes "g_fds h = g_fds g @ replicate k fd_none" and "3 \<le> i"
  shows "fd_open h i \<longleftrightarrow> fd_open g i"
proof (cases "i \<le> int (FD_Last g)")
  case True
  then have "nat i - 1 < FD_Last g" using assms(2) by linarith
  with True assms(1) show ?thesis by (simp add: fd_open_def nth_append)
next
  case False
  then have "\<not> nat i - 1 < FD_Last g" using assms(2) by linarith
  moreover have "nat i - 1 - FD_Last g < k" if "i \<le> int (FD_Last g) + int k" using False that assms(2) by linarith
  ultimately show ?thesis using False assms(1) by (auto simp: fd_open_def nth_append)
qed

text \<open>
  A successful \<open>_open\<close> returns the lowest descriptor from 3 on that is not in use, the
  descriptor is in use afterwards and was not before, and no other descriptor changes; a failing one
  returns -1 and changes none.
\<close>

theorem open_lowest_free:
  assumes "Gloss_Open S path flags g = (fd, g')"
  shows "(fd = - 1 \<and> (\<forall>i. fd_open g' i = fd_open g i \<or> i < 3)) \<or>
    (3 \<le> fd \<and> \<not> fd_open g fd \<and> fd_open g' fd \<and> (\<forall>i. 3 \<le> i \<and> i < fd \<longrightarrow> fd_open g i) \<and>
     (\<forall>i. 3 \<le> i \<and> i \<noteq> fd \<and> fd_open g i \<longrightarrow> fd_open g' i \<and> FDs g' i = FDs g i) \<and>
     (\<forall>i. 3 \<le> i \<and> i \<noteq> fd \<and> fd_open g' i \<longrightarrow> fd_open g i))"
  using assms(1)
proof (cases rule: Gloss_Open_cases)
  case (fail k)
  then have "fd_open g' i = fd_open g i" if "3 \<le> i" for i
    using that fd_open_grown by (metis prepared_def)
  with fail(1) show ?thesis by (metis not_le)
next
  case (ok k slot h p sz)
  obtain r where r: "fd = int slot" "g_fds g' = (g_fds h)[slot - 1 := r]" "fd_used r"
    using ok(2) by (elim open_slot_result) simp
  have h: "g_fds h = g_fds g @ replicate k fd_none" using ok(1) by (simp add: prepared_def)
  have old: "fd_open h i \<longleftrightarrow> fd_open g i" if "3 \<le> i" for i
    using h that by (rule fd_open_grown)
  have new: "fd_open g' i \<longleftrightarrow> i = fd \<or> fd_open g i" if "3 \<le> i" for i
  proof (cases "i = fd")
    case True
    with ok(3,4) r show ?thesis by (simp add: fd_open_def)
  next
    case False
    with that r(1) ok(3) have "(g_fds h)[slot - 1 := r] ! (nat i - 1) = g_fds h ! (nat i - 1)"
      by (intro nth_list_update_neq) linarith
    with False r(2) old [OF that] show ?thesis by (simp add: fd_open_def)
  qed
  have below: "fd_open g i" if "3 \<le> i" "i < fd" for i
  proof -
    have "3 \<le> nat i" "nat i < slot" using that r(1) by linarith+
    with ok(6) have "fd_used (FDs g i)" .
    moreover have "i \<le> int (FD_Last g)" using ok(7) that r(1) by linarith
    ultimately show ?thesis by (simp add: fd_open_def)
  qed
  have same: "FDs g' i = FDs g i" if "3 \<le> i" "i \<noteq> fd" "fd_open g i" for i
  proof -
    have "nat i - 1 \<noteq> slot - 1" "nat i - 1 < FD_Last g"
      using that r(1) ok(3) unfolding fd_open_def by linarith+
    then show ?thesis by (simp add: r(2) h nth_append)
  qed
  have "\<not> fd_open g fd" using old [of fd] ok(3-5) r(1) by (simp add: fd_open_def)
  moreover have "3 \<le> fd" using ok(3) r(1) by simp
  ultimately show ?thesis using new below same by blast
qed

section \<open>Every operation keeps the state well-formed\<close>

lemma gloss_wf_Write_Console: "gloss_wf g \<Longrightarrow> gloss_wf (Write_Console S dat g)"
proof (induction S dat g rule: Write_Console.induct)
  case (1 S dat g)
  show ?case
  proof (cases "dat = []")
    case False
    with 1 have "gloss_wf (Write_Console S (drop 1024 dat)
        (g\<lparr>g_world := srv_console S (g_console_ep g) (take 1024 dat) (g_world g)\<rparr>))"
      by (metis gloss_wf_served served_world)
    with False show ?thesis by (subst Write_Console.simps) simp
  qed (use 1 in \<open>simp add: Write_Console.simps\<close>)
qed

lemma Gloss_Close_wf:
  assumes "gloss_wf g"
  shows "gloss_wf (snd (Gloss_Close S fd g))"
proof -
  obtain st h where c: "Files_Path_Op S Op_Close (fd_path (FDs g fd)) g = (st, h)" by (metis prod.exhaust)
  have "gloss_wf h" using Files_served(6) [OF c] assms by (rule gloss_wf_served)
  then have "gloss_wf (set_fd fd ((FDs h fd)\<lparr>fd_used := False\<rparr>) h)"
    by (intro gloss_wf_set_fd) (simp_all add: fd_ok_def)
  with assms c show ?thesis by (simp add: Gloss_Close_def)
qed

lemma fd_ok_size: "fd_ok r \<Longrightarrow> n < 2 ^ 64 \<Longrightarrow> fd_ok (r\<lparr>fd_size := n\<rparr>)"
  by (simp add: fd_ok_def)

lemma Gloss_Read_wf:
  assumes "gloss_wf g"
  shows "gloss_wf (snd (snd (Gloss_Read S fd n g)))"
proof -
  let ?g = "Ensure_Bound g"
  have wf: "gloss_wf ?g" using assms by (rule gloss_wf_Ensure_Bound)
  obtain st dat h where r: "Files_Read S (fd_path (FDs ?g fd)) (fd_offset (FDs ?g fd)) n ?g = (st, dat, h)"
    by (metis prod.exhaust)
  have h: "gloss_wf h" "FDs h fd = FDs ?g fd"
    using gloss_wf_served [OF Files_served(4) [OF r] wf] served_fields(6) [OF Files_served(4) [OF r]] by simp_all
  show ?thesis
    using wf h r fd_ok_at [OF wf, of fd]
    by (auto simp: Gloss_Read_def Let_def intro!: gloss_wf_set_fd) (simp add: fd_ok_def)
qed

lemma write_loop_wf:
  "gloss_wf g \<Longrightarrow> 3 \<le> fd \<Longrightarrow> fd_open g fd \<Longrightarrow> gloss_wf (snd (write_loop S fd don dat g))"
proof (induction S fd don dat g rule: write_loop.induct)
  case (1 S fd don dat g)
  obtain st n h where w: "Files_Write S (fd_path (FDs g fd)) (fd_offset (FDs g fd)) (take 0x8000 dat) g = (st, n, h)"
    by (metis prod.exhaust)
  note s = Files_served(5) [OF w]
  let ?off = "(fd_offset (FDs g fd) + n) mod 2 ^ 64"
  let ?r = "(FDs g fd)\<lparr>fd_offset := ?off, fd_size := max (fd_size (FDs g fd)) ?off\<rparr>"
  have h: "gloss_wf h" "g_fds h = g_fds g" using s 1(2) gloss_wf_served served_fields(6) by metis+
  have ok: "fd_ok (FDs g fd)" "fd_used (FDs g fd)" using fd_ok_at [OF 1(2-4)] 1(4) by (simp_all add: fd_open_def)
  then have r: "fd_ok ?r" "fd_used ?r" by (simp_all add: fd_ok_def)
  have next_wf: "gloss_wf (set_fd fd ?r h)" using h(1) r(1) 1(3) by (intro gloss_wf_set_fd) simp_all
  have next_open: "fd_open (set_fd fd ?r h) fd" using 1(3,4) r(2) h(2) by (auto simp: fd_open_def nth_update_if)
  show ?case
  proof (cases "dat = [] \<or> st \<noteq> Status_Ok \<or> n = 0")
    case True
    then show ?thesis using w h(1) 1(2) by (subst write_loop.simps) (auto simp: Let_def)
  next
    case False
    then have "gloss_wf (snd (write_loop S fd (don + n) (drop n dat) (set_fd fd ?r h)))"
      using 1(1) [OF _ refl w [symmetric] refl refl _ refl next_wf 1(3) next_open] by simp
    with False w show ?thesis by (subst write_loop.simps) (simp add: Let_def)
  qed
qed

lemma Gloss_Write_wf: "gloss_wf g \<Longrightarrow> gloss_wf (snd (Gloss_Write S fd dat g))"
  by (auto simp: Gloss_Write_def Let_def intro!: gloss_wf_Write_Console write_loop_wf gloss_wf_Ensure_Bound)

lemma Gloss_Lseek_wf:
  assumes "gloss_wf g" and "u64_server S"
  shows "gloss_wf (snd (Gloss_Lseek S fd off whence g))"
proof -
  obtain st sz h where s: "Files_Stat S (fd_path (FDs g fd)) g = (st, sz, h)" by (metis prod.exhaust)
  have h: "gloss_wf h" using Files_served(3) [OF s] assms(1) by (rule gloss_wf_served)
  note sz = Files_Stat_size [OF s assms(2)]
  have "gloss_wf (set_fd fd ((FDs g fd)\<lparr>fd_size := n, fd_offset := m\<rparr>) h)"
    if "fd_open g fd" "3 \<le> fd" "n = sz \<or> n = fd_size (FDs g fd)" "m < 2 ^ 64" for n m
    using h that sz fd_ok_at [OF assms(1) that(2,1)] by (intro gloss_wf_set_fd) (auto simp: fd_ok_def)
  moreover have "gloss_wf (set_fd fd ((FDs g fd)\<lparr>fd_offset := m\<rparr>) g)"
    if "fd_open g fd" "3 \<le> fd" "m < 2 ^ 64" for m
    using assms(1) that fd_ok_at [OF assms(1) that(2,1)] by (intro gloss_wf_set_fd) (auto simp: fd_ok_def)
  ultimately show ?thesis using assms(1) s by (auto simp: Gloss_Lseek_def Let_def)
qed

lemma Gloss_Fstat_wf:
  assumes "gloss_wf g" and "u64_server S" and "Gloss_Fstat S fd g = Some (r, buf, g')"
  shows "gloss_wf g'"
proof -
  obtain st sz h where s: "Files_Stat S (fd_path (FDs g fd)) g = (st, sz, h)" by (metis prod.exhaust)
  have h: "gloss_wf h" using Files_served(3) [OF s] assms(1) by (rule gloss_wf_served)
  note sz = Files_Stat_size [OF s assms(2)]
  have "gloss_wf (set_fd fd ((FDs g fd)\<lparr>fd_size := n\<rparr>) h)"
    if "fd_open g fd" "3 \<le> fd" "n = sz \<or> n = fd_size (FDs g fd)" for n
    using h that sz fd_ok_at [OF assms(1) that(2,1)] by (intro gloss_wf_set_fd) (auto simp: fd_ok_def)
  from this [of sz] this [of "fd_size (FDs g fd)"] assms(1,3) s show ?thesis
    by (auto simp: Gloss_Fstat_def Let_def fd_open_def split: if_splits)
qed

text \<open>An operation that binds the endpoints, talks to the server and perhaps sets \<open>errno\<close>.\<close>

definition settled :: "'w gloss \<Rightarrow> 'w gloss \<Rightarrow> bool" where
  "settled g g' \<longleftrightarrow> g_fds g' = g_fds g \<and> g_dirs g' = g_dirs g \<and> (gloss_wf g \<longrightarrow> gloss_wf g')"

lemma settled_served: "served g g' \<Longrightarrow> settled g g'"
  unfolding settled_def using gloss_wf_served served_fields by metis

lemma settled_refl [simp]: "settled g g" by (simp add: settled_def)

lemma settled_trans: "settled g g' \<Longrightarrow> settled g' g'' \<Longrightarrow> settled g g''" by (simp add: settled_def)

lemma settled_Ensure_Bound [simp]: "settled g (Ensure_Bound g)"
  by (simp add: settled_def gloss_wf_Ensure_Bound)

lemma settled_Fail [simp]: "settled g (Fail e g)" by (simp add: settled_def)

lemmas settled_ops = Files_served [THEN settled_served] Qualify_served [THEN settled_served] Get_CWD_served [THEN settled_served]

lemma Gloss_names_settled:
  "Gloss_Stat S path g = (r, buf, g') \<Longrightarrow> settled g g'"
  "name_op S op path g = (r, g') \<Longrightarrow> settled g g'"
  "Gloss_Rename S old new g = (r, g') \<Longrightarrow> settled g g'"
  "Gloss_Access S path g = (r, g') \<Longrightarrow> settled g g'"
  "Gloss_Getcwd S sz g = (c, g') \<Longrightarrow> settled g g'"
  by (auto simp: Gloss_Stat_def name_op_def Gloss_Rename_def Gloss_Access_def Gloss_Getcwd_def Let_def
      settled_def gloss_wf_Ensure_Bound split: prod.splits if_splits dest!: settled_ops)

lemma path_op_settled: "settled g (snd (Files_Path_Op S op p g))"
  by (metis prod.collapse settled_ops(6))

lemma make_env_dirs_settled: "settled g (make_env_dirs S t g)"
  unfolding make_env_dirs_def Let_def
  by (cases "parent_of t") (auto intro: path_op_settled settled_trans [OF path_op_settled path_op_settled])

lemma scan_assigns_settled: "settled g (scan_assigns S is g)"
proof (induction "is" arbitrary: g)
  case (Cons i js)
  obtain st tx w where a: "srv_assign_list S i (g_world g) = (st, tx, w)" by (metis prod.exhaust)
  have "settled g (g\<lparr>g_world := w\<rparr>)" by (simp add: settled_served)
  with a show ?case
    using Cons [of "g\<lparr>g_world := w\<rparr>"] make_env_dirs_settled [of "g\<lparr>g_world := w\<rparr>" S] settled_trans
    by (auto simp: Let_def)
qed simp

lemma Ensure_Env_Dir_settled: "settled g (Ensure_Env_Dir S g)"
  using scan_assigns_settled settled_trans
  by (fastforce simp: Ensure_Env_Dir_def Let_def split: prod.splits dest!: settled_ops)

lemma Set_CWD_settled: "Set_CWD S v g = (st, g') \<Longrightarrow> settled g g'"
  using Ensure_Env_Dir_settled [of g S]
  by (auto simp: Set_CWD_def Set_Env_def Let_def settled_def split: prod.splits if_splits dest!: settled_ops)

lemma Gloss_env_settled:
  "Gloss_Chdir S path g = (r, g') \<Longrightarrow> settled g g'"
  "Aegir_Env_Get S nm b g = (r, dat, g') \<Longrightarrow> settled g g'"
  "Aegir_Env_Set S nm v g = (r, g') \<Longrightarrow> settled g g'"
  "Aegir_Env_Unset S nm g = (r, g') \<Longrightarrow> settled g g'"
  by (auto simp: Gloss_Chdir_def Aegir_Env_Get_def Aegir_Env_Set_def Aegir_Env_Unset_def Let_def
      settled_def gloss_wf_Ensure_Bound split: prod.splits if_splits dest!: settled_ops Set_CWD_settled)

lemma Gloss_Fcntl_settled: "Gloss_Fcntl fd g = (r, g') \<Longrightarrow> settled g g'"
  by (auto simp: Gloss_Fcntl_def split: if_splits)

lemma list_all_update: "list_all P xs \<Longrightarrow> P x \<Longrightarrow> list_all P (xs[i := x])"
  by (simp add: list_all_length nth_update_if)

lemma Aegir_Opendir_wf:
  assumes "gloss_wf g"
  shows "gloss_wf (snd (Aegir_Opendir S nm g))"
proof -
  obtain p g1 where q: "Qualify S nm g = (p, g1)" by (metis prod.exhaust)
  obtain room w where a: "srv_tab_append S (g_world (Ensure_Bound g1)) = (room, w)" by (metis prod.exhaust)
  let ?g = "Ensure_Bound g1" and ?d = "\<lparr>dir_used = True, dir_path = p, dir_next = 0\<rparr>"
  have wf: "gloss_wf ?g" using assms q by (metis gloss_wf_Ensure_Bound settled_def settled_ops(9))
  then have wf': "gloss_wf (?g\<lparr>g_world := w\<rparr>)" and dirs: "list_all dir_ok (g_dirs g1)"
    by (metis gloss_wf_served served_world, simp add: gloss_wf_def)
  have "dir_ok ?d" if "p \<noteq> []" "length p \<le> 256" using that by (simp add: dir_ok_def)
  with q a wf wf' dirs gloss_wf_dirs [OF wf] gloss_wf_dirs [OF wf', of "g_dirs g1 @ [?d]"] show ?thesis
    by (auto simp: Aegir_Opendir_def Let_def list_all_update split: option.splits)
qed

lemma Aegir_Readdir_wf:
  assumes "gloss_wf g"
  shows "gloss_wf (snd (snd (Aegir_Readdir S d b g)))"
proof -
  let ?r = "g_dirs g ! nat d"
  obtain st nm h where r: "Files_Read_Dir S (dir_path ?r) (dir_next ?r) 256 g = (st, nm, h)" by (metis prod.exhaust)
  have h: "gloss_wf h" "g_dirs h = g_dirs g"
    using Files_served(8) [OF r] assms gloss_wf_served served_fields(7) by metis+
  then have dirs: "list_all dir_ok (g_dirs h)" by (simp add: gloss_wf_def)
  have "gloss_wf (h\<lparr>g_dirs := (g_dirs h)[nat d := ?r\<lparr>dir_next := n mod 2 ^ 64\<rparr>]\<rparr>)"
    if "0 \<le> d" "d < int (length (g_dirs g))" for n
  proof -
    have "dir_ok ?r" using that h(2) dirs by (auto simp: list_all_length)
    then show ?thesis using h(1) dirs by (intro gloss_wf_dirs list_all_update) (simp_all add: dir_ok_def)
  qed
  from this [of "dir_next ?r + 1"] assms h(1) r show ?thesis by (auto simp: Aegir_Readdir_def Let_def)
qed

lemma Aegir_Closedir_wf:
  assumes "gloss_wf g"
  shows "gloss_wf (snd (Aegir_Closedir d g))"
proof -
  have "list_all dir_ok (g_dirs g)" using assms by (simp add: gloss_wf_def)
  then have "gloss_wf (g\<lparr>g_dirs := (g_dirs g)[nat d := (g_dirs g ! nat d)\<lparr>dir_used := False\<rparr>]\<rparr>)"
    using assms by (intro gloss_wf_dirs list_all_update) (simp_all add: dir_ok_def)
  with assms show ?thesis by (simp add: Aegir_Closedir_def)
qed

section \<open>Sequences of calls\<close>

inductive gloss_call :: "'w server \<Rightarrow> 'w gloss \<Rightarrow> 'w gloss \<Rightarrow> bool" for S where
  "Gloss_Open S path flags g = (r, g') \<Longrightarrow> gloss_call S g g'"
| "Gloss_Close S fd g = (r, g') \<Longrightarrow> gloss_call S g g'"
| "Gloss_Read S fd n g = (c, dat, g') \<Longrightarrow> gloss_call S g g'"
| "Gloss_Write S fd dat g = (c, g') \<Longrightarrow> gloss_call S g g'"
| "Gloss_Lseek S fd off whence g = (n, g') \<Longrightarrow> gloss_call S g g'"
| "Gloss_Fstat S fd g = Some (r, buf, g') \<Longrightarrow> gloss_call S g g'"
| "Gloss_Stat S path g = (r, buf, g') \<Longrightarrow> gloss_call S g g'"
| "Gloss_Fcntl fd g = (r, g') \<Longrightarrow> gloss_call S g g'"
| "name_op S op path g = (r, g') \<Longrightarrow> gloss_call S g g'"
| "Gloss_Rename S old new g = (r, g') \<Longrightarrow> gloss_call S g g'"
| "Gloss_Access S path g = (r, g') \<Longrightarrow> gloss_call S g g'"
| "Gloss_Getcwd S n g = (cwd, g') \<Longrightarrow> gloss_call S g g'"
| "Gloss_Chdir S path g = (r, g') \<Longrightarrow> gloss_call S g g'"
| "Aegir_Env_Get S nm n g = (r, dat, g') \<Longrightarrow> gloss_call S g g'"
| "Aegir_Env_Set S nm v g = (r, g') \<Longrightarrow> gloss_call S g g'"
| "Aegir_Env_Unset S nm g = (r, g') \<Longrightarrow> gloss_call S g g'"
| "Aegir_Opendir S nm g = (r, g') \<Longrightarrow> gloss_call S g g'"
| "Aegir_Readdir S d b g = (r, dat, g') \<Longrightarrow> gloss_call S g g'"
| "Aegir_Closedir d g = (r, g') \<Longrightarrow> gloss_call S g g'"

lemma settled_wf: "settled g g' \<Longrightarrow> gloss_wf g \<Longrightarrow> gloss_wf g'"
  by (simp add: settled_def)

lemma gloss_call_wf:
  assumes "gloss_call S g g'" and "u64_server S" and "gloss_wf g"
  shows "gloss_wf g'"
  using assms
  by (induction rule: gloss_call.induct)
    (metis snd_conv Gloss_Open_wf Gloss_Close_wf Gloss_Read_wf Gloss_Write_wf Gloss_Lseek_wf Gloss_Fstat_wf
      Gloss_names_settled Gloss_env_settled Gloss_Fcntl_settled settled_wf Aegir_Opendir_wf Aegir_Readdir_wf Aegir_Closedir_wf)+

text \<open>
  Property C22: after any sequence of calls from the initial state the descriptor and directory tables are
  well-formed: descriptors below 3 are never handed out, an open one has an access mode, a path of 1 to 256
  characters and a 64-bit offset and size, an open directory stream has such a path, and once the
  endpoints are bound they stay bound.
\<close>

theorem gloss_state_typed:
  assumes "u64_server S" and "(gloss_call S)\<^sup>*\<^sup>* (gloss_init w) g"
  shows "gloss_wf g"
  using assms(2)
  by (induction rule: rtranclp_induct) (auto intro: gloss_wf_init gloss_call_wf [OF _ assms(1)])

section \<open>A server in memory\<close>

text \<open>
  An instance of the parameter that behaves as the protocol documents for plain files: open and stat
  answer the size, reads are clamped at the end and out of range behind it, a write creates the file and
  does not leave holes, and there are no directories.
\<close>

type_synonym mem_fs = "string \<Rightarrow> string option"

definition mem_size :: "string \<Rightarrow> nat" where "mem_size c = length c mod 2 ^ 64"

definition mem_write :: "string \<Rightarrow> nat \<Rightarrow> string \<Rightarrow> mem_fs \<Rightarrow> nat \<times> nat \<times> mem_fs" where
  "mem_write q off d w =
     (let c = (case w q of None \<Rightarrow> [] | Some c \<Rightarrow> c)
      in if off > length c then (Status_Out_Of_Range, 0, w)
         else (Status_Ok, length d, w(q \<mapsto> take off c @ d @ drop (off + length d) c)))"

definition mem_path_op :: "path_op \<Rightarrow> string \<Rightarrow> mem_fs \<Rightarrow> nat \<times> mem_fs" where
  "mem_path_op op q w =
     (case op of Op_Close \<Rightarrow> (Status_Ok, w) | Op_Mkdir \<Rightarrow> (Status_Bad_Args, w) | Op_Rmdir \<Rightarrow> (Status_Bad_Args, w)
      | Op_Delete \<Rightarrow> if w q = None then (Status_Not_Found, w) else (Status_Ok, w(q := None))
      | Op_Truncate \<Rightarrow> if w q = None then (Status_Not_Found, w) else (Status_Ok, w(q \<mapsto> [])))"

definition mem_server :: "mem_fs server" where
  "mem_server =
     \<lparr>srv_open = (\<lambda>q w. case w q of None \<Rightarrow> (Status_Not_Found, 0, w) | Some c \<Rightarrow> (Status_Ok, mem_size c, w)),
      srv_stat = (\<lambda>q w. case w q of None \<Rightarrow> (Status_Not_Found, 0, False, w) | Some c \<Rightarrow> (Status_Ok, mem_size c, False, w)),
      srv_read = (\<lambda>q off n w. case w q of None \<Rightarrow> (Status_Not_Found, [], w)
        | Some c \<Rightarrow> if off \<ge> length c then (Status_Out_Of_Range, [], w) else (Status_Ok, take n (drop off c), w)),
      srv_write = mem_write,
      srv_path_op = mem_path_op,
      srv_rename = (\<lambda>p q w. if w p = None \<or> w q \<noteq> None then (Status_Bad_Args, w) else (Status_Ok, w(q := w p, p := None))),
      srv_read_dir = (\<lambda>q i w. (Status_Not_Found, [], w)),
      srv_assign_list = (\<lambda>i w. (Status_Not_Found, [], w)),
      srv_tab_append = (\<lambda>w. (True, w)),
      srv_console = (\<lambda>ep d w. w)\<rparr>"

lemma mem_u64_server: "u64_server mem_server"
  by (auto simp: u64_server_def mem_server_def mem_size_def split: option.splits)

lemma FD_Pad_2: "FD_Pad S 2 g = FD_Pad S (Suc (Suc 0)) g"
  by (simp add: numeral_2_eq_2)

lemmas mem_eval =
  Gloss_Open_def Qualify_def Get_CWD_def Files_Open_def Files_Read_def Files_Write_def Files_Path_Op_def Qualified_def
  Files_Stat_def Files_Stat_Ex_def create_file_def open_slot_def FD_Slot_def FD_Append_def Ensure_Bound_def
  set_fd_def fd_none_def gloss_init_def mem_server_def mem_write_def mem_path_op_def mem_size_def Max_Path_def
  Buf_Bytes_def FD_Pad_2 Let_def

theorem gloss_state_typed_witness:
  "u64_server mem_server \<and> gloss_wf (snd (Gloss_Open mem_server ''BD0:a'' 0x201 (gloss_init Map.empty)))"
  using gloss_state_typed [OF mem_u64_server r_into_rtranclp, OF gloss_call.intros(1), OF prod.collapse [symmetric]]
    mem_u64_server by blast

theorem open_lowest_free_witness:
  "\<exists>g. Gloss_Open mem_server ''BD0:a'' 0x201 (gloss_init Map.empty) = (3, g) \<and> fd_open g 3"
proof -
  obtain g where g: "Gloss_Open mem_server ''BD0:a'' 0x201 (gloss_init Map.empty) = (3, g)"
    by (simp add: mem_eval)
  then show ?thesis using open_lowest_free [OF g] by auto
qed

end
