(* ===== verification/Gloss_Spec.thy ===== *)
theory Gloss_Spec
  imports Gloss_Table "HOL-Library.Sublist"
begin

text \<open>
  What the file operations of the system call layer do to a file: the contract of a plain file at the
  server, the effect of \<open>_write\<close>, reading back, exclusive creation, and the cases where the layer departs
  from what its callers are told.
\<close>

section \<open>Plain files\<close>

text \<open>The contents with a piece overwritten from an offset on.\<close>

definition overlay :: "nat \<Rightarrow> string \<Rightarrow> string \<Rightarrow> string" where
  "overlay off d c = take off c @ d @ drop (off + length d) c"

lemma overlay_Nil [simp]: "overlay off [] c = c"
  by (simp add: overlay_def)

lemma overlay_length: "off \<le> length c \<Longrightarrow> length (overlay off d c) = max (length c) (off + length d)"
  by (simp add: overlay_def)

lemma overlay_overlay:
  "off \<le> length c \<Longrightarrow> overlay (off + length d) e (overlay off d c) = overlay off (d @ e) c"
  by (simp add: overlay_def ac_simps)

lemma overlay_at: "off \<le> length c \<Longrightarrow> take (length d) (drop off (overlay off d c)) = d"
  by (simp add: overlay_def)

text \<open>
  What the contents may be after a write of \<open>d\<close> at \<open>off\<close> of which \<open>n\<close> bytes are reported as written: those bytes are stored, the
  file is as it was before \<open>off\<close> and behind the range of the request and has not shrunk. Inside the range, behind the bytes
  reported, nothing is promised: \<^verbatim>\<open>fat32.adb\<close> fails with a count of 0 when some sectors of the range are already overwritten.
\<close>

definition stored :: "nat \<Rightarrow> nat \<Rightarrow> string \<Rightarrow> string \<Rightarrow> string \<Rightarrow> bool" where
  "stored off n d c c' \<longleftrightarrow> n \<le> length d \<and> take (off + n) c' = take off c @ take n d \<and>
     drop (off + length d) c' = drop (off + length d) c \<and> length c \<le> length c' \<and> length c' \<le> max (length c) (off + length d)"

lemma stored_all:
  assumes "stored off (length d) d c c'"
  shows "c' = overlay off d c"
proof -
  have "c' = take (off + length d) c' @ drop (off + length d) c'" by simp
  also have "\<dots> = (take off c @ d) @ drop (off + length d) c" using assms by (simp add: stored_def)
  finally show ?thesis by (simp add: overlay_def)
qed

lemma stored_overlay: "off \<le> length c \<Longrightarrow> stored off (length d) d c (overlay off d c)"
  by (auto simp: stored_def overlay_def)

lemma stored_none: "off \<le> length c \<Longrightarrow> stored off 0 d c c"
  by (simp add: stored_def)

lemma stored_length:
  assumes "stored off n d c c'" and "off \<le> length c"
  shows "off + n \<le> length c'"
proof -
  have "length (take (off + n) c') = off + n" using assms by (simp add: stored_def)
  then show ?thesis by (metis length_take min.cobounded1)
qed

lemma drop_further: "drop a xs = drop a ys \<Longrightarrow> a \<le> b \<Longrightarrow> drop b xs = drop b ys"
  by (metis drop_drop le_add_diff_inverse2)

lemma stored_wider: "stored off 0 (take k d) c c' \<Longrightarrow> stored off 0 d c c'"
  by (auto simp: stored_def intro: drop_further [of "off + min (length d) k"])

lemma stored_more:
  assumes "stored off n (take k d) c c1" and "stored (off + n) m (drop n d) c1 c2"
  shows "stored off (n + m) d c c2"
proof -
  have n: "n \<le> length d" "n \<le> k" "take n (take k d) = take n d" using assms(1) by (auto simp: stored_def min_absorb2)
  have m: "m \<le> length d - n" "off + n + (length d - n) = off + length d" using assms(2) n(1) by (auto simp: stored_def)
  have "take (off + (n + m)) c2 = take off c @ take (n + m) d"
    using assms n(3) by (simp add: stored_def take_add add.assoc)
  moreover have "drop (off + length d) c2 = drop (off + length d) c"
  proof -
    have "drop (off + length (take k d)) c1 = drop (off + length (take k d)) c" using assms(1) by (simp add: stored_def)
    from drop_further [OF this] have "drop (off + length d) c1 = drop (off + length d) c" by simp
    then show ?thesis using assms(2) m(2) by (simp add: stored_def)
  qed
  moreover have "length c \<le> length c2" "length c2 \<le> max (length c) (off + length d)"
    using assms m(2) unfolding stored_def by (simp_all add: max_def min_def split: if_splits)
  ultimately show ?thesis using n(1) m(1) by (simp add: stored_def)
qed

text \<open>
  The contract of a plain file that no one else writes to: \<open>cont\<close> reads its contents off the world. An open or a read leaves
  them alone, whatever the status. Open answers the size when it succeeds; a read that succeeds gives a beginning of the
  bytes asked for, possibly shorter or empty, and the answer out of range means that there are none; a write leaves what \<open>stored\<close>
  says for the number of bytes it reports, none if it fails. Any call may fail with any status. Growing the descriptor table
  has nothing to do with the file.
\<close>

definition plain_open :: "'w server \<Rightarrow> string \<Rightarrow> ('w \<Rightarrow> string option) \<Rightarrow> bool" where
  "plain_open S q cont \<longleftrightarrow>
     (\<forall>w c. cont w = Some c \<longrightarrow> (case srv_open S q w of (st, sz, w') \<Rightarrow>
        (st = Status_Ok \<longrightarrow> sz = length c mod 2 ^ 64) \<and> cont w' = Some c)) \<and>
     (\<forall>w. cont (snd (srv_tab_append S w)) = cont w)"

text \<open>A server that is ready: it answers every open of the file with success.\<close>

definition opens_ok :: "'w server \<Rightarrow> string \<Rightarrow> ('w \<Rightarrow> string option) \<Rightarrow> bool" where
  "opens_ok S q cont \<longleftrightarrow> (\<forall>w. cont w \<noteq> None \<longrightarrow> fst (srv_open S q w) = Status_Ok)"

definition plain_read :: "'w server \<Rightarrow> string \<Rightarrow> ('w \<Rightarrow> string option) \<Rightarrow> bool" where
  "plain_read S q cont \<longleftrightarrow>
     (\<forall>w c off n. cont w = Some c \<and> 0 < n \<longrightarrow>
        (case srv_read S q off n w of (st, b, w') \<Rightarrow>
           (st = Status_Ok \<longrightarrow> prefix b (take n (drop off c))) \<and> (st = Status_Out_Of_Range \<longrightarrow> length c \<le> off) \<and>
           cont w' = Some c))"

definition plain_write :: "'w server \<Rightarrow> string \<Rightarrow> ('w \<Rightarrow> string option) \<Rightarrow> bool" where
  "plain_write S q cont \<longleftrightarrow>
     (\<forall>w c off d. cont w = Some c \<and> d \<noteq> [] \<and> off \<le> length c \<longrightarrow>
        (case srv_write S q off d w of (st, n, w') \<Rightarrow>
           \<exists>c'. cont w' = Some c' \<and> stored off (if st = Status_Ok then n else 0) d c c'))"

lemma mem_plain:
  "plain_open mem_server q (\<lambda>w. w q)" "plain_read mem_server q (\<lambda>w. w q)" "plain_write mem_server q (\<lambda>w. w q)"
  "opens_ok mem_server q (\<lambda>w. w q)"
proof -
  show "plain_write mem_server q (\<lambda>w. w q)"
    using stored_overlay by (auto simp: plain_write_def mem_server_def mem_write_def overlay_def)
qed (auto simp: plain_open_def plain_read_def opens_ok_def mem_server_def mem_size_def split: option.splits)

section \<open>Writing\<close>

text \<open>A descriptor ready for transfers with the file \<open>q\<close> at the server.\<close>

definition backed :: "'w gloss \<Rightarrow> int \<Rightarrow> string \<Rightarrow> bool" where
  "backed g fd q \<longleftrightarrow> 3 \<le> fd \<and> fd_open g fd \<and> g_files_ep g \<noteq> 0 \<and> q \<noteq> [] \<and> Qualified g (fd_path (FDs g fd)) = q"

lemma Qualified_cong: "g_volume g' = g_volume g \<Longrightarrow> Qualified g' p = Qualified g p"
  by (simp add: Qualified_def)

lemma Qualified_simps [simp]:
  "Qualified (g\<lparr>g_world := w\<rparr>) = Qualified g" "Qualified (Fail e g) = Qualified g"
  "Qualified (set_fd fd r g) = Qualified g" "Qualified (Ensure_Bound g) = Qualified g"
  by (rule ext, rule Qualified_cong, simp)+

lemma backed_simps [simp]:
  "backed (g\<lparr>g_world := w\<rparr>) fd q = backed g fd q" "backed (Fail e g) fd q = backed g fd q"
  by (simp_all add: backed_def fd_open_def)

lemma backed_step:
  assumes "backed g fd q" and "g' = set_fd fd r (g\<lparr>g_world := w\<rparr>)" and "fd_used r" and "fd_path r = fd_path (FDs g fd)"
  shows "backed g' fd q" and "FDs g' fd = r" and "g_world g' = w"
proof -
  have i: "nat fd - 1 < FD_Last g" using assms(1) unfolding backed_def fd_open_def by linarith
  then show r: "FDs g' fd = r" by (simp add: assms(2))
  then show "backed g' fd q" using assms(1,3,4) by (simp add: backed_def fd_open_def assms(2))
  show "g_world g' = w" by (simp add: assms(2))
qed

lemma Files_Write_plain:
  assumes "plain_write S q cont" and "backed g fd q" and "cont (g_world g) = Some c" and "off \<le> length c"
    and "d \<noteq> []" and "length d \<le> Buf_Bytes" and "Files_Write S (fd_path (FDs g fd)) off d g = (st, n, g')"
  shows "\<exists>w c'. g' = g\<lparr>g_world := w\<rparr> \<and> (st \<noteq> Status_Ok \<longrightarrow> n = 0) \<and> cont w = Some c' \<and> stored off n d c c'"
proof -
  obtain st' n' w where w: "srv_write S q off d (g_world g) = (st', n', w)" by (metis prod.exhaust)
  obtain c' where "cont w = Some c'" "stored off (if st' = Status_Ok then n' else 0) d c c'"
    using assms(1) [unfolded plain_write_def, rule_format, of "g_world g" c d off] assms(3-5) w by auto
  moreover have "(st', if st' = Status_Ok then n' else 0, g\<lparr>g_world := w\<rparr>) = (st, n, g')"
    using assms(2,5-7) w by (simp add: Files_Write_def backed_def split: if_splits)
  ultimately show ?thesis by (cases "st' = Status_Ok") auto
qed

text \<open>
  What the loop establishes, started on the data \<open>d\<close> at offset \<open>off\<close> of the contents \<open>c\<close> with \<open>don\<close> bytes written before: some
  first \<open>n\<close> bytes of the data are in the file, the offset is behind them, and the result counts them.
\<close>

definition written ::
  "('w \<Rightarrow> string option) \<Rightarrow> string \<Rightarrow> int \<Rightarrow> nat \<Rightarrow> string \<Rightarrow> nat \<Rightarrow> bool \<Rightarrow> string \<Rightarrow> int option \<Rightarrow> 'w gloss \<Rightarrow> bool" where
  "written cont q fd don d off rd c r g \<longleftrightarrow>
     (\<exists>n \<le> length d. r = Some (if n < length d \<and> don + n = 0 then - 1 else int (don + n)) \<and>
        (\<exists>c'. cont (g_world g) = Some c' \<and> stored off n d c c') \<and> backed g fd q \<and> fd_offset (FDs g fd) = off + n \<and>
        fd_readable (FDs g fd) = rd)"

lemma written_more:
  assumes "written cont q fd (don + n) (drop n d) (off + n) rd c1 r g"
    and "stored off n (take k d) c c1" and "0 < n"
  shows "written cont q fd don d off rd c r g"
proof -
  obtain m c2 where m: "m \<le> length (drop n d)" "r = Some (int (don + n + m))" "cont (g_world g) = Some c2"
      "stored (off + n) m (drop n d) c1 c2" "backed g fd q" "fd_offset (FDs g fd) = off + n + m" "fd_readable (FDs g fd) = rd"
    using assms(1,3) by (auto simp: written_def simp del: of_nat_add)
  have "n \<le> length d" using assms(2) by (simp add: stored_def)
  with m assms(3) stored_more [OF assms(2) m(4)] show ?thesis
    unfolding written_def by (intro exI [of _ "n + m"]) (auto simp: add.assoc)
qed

text \<open>One chunk: the write either stores nothing and the loop ends, or it stores bytes and the loop goes on behind them.\<close>

lemma write_loop_chunk:
  assumes "plain_write S q cont" and "backed g fd q" and "cont (g_world g) = Some c" and "fd_offset (FDs g fd) \<le> length c"
    and "fd_offset (FDs g fd) + length d < 2 ^ 64" and "d \<noteq> []"
  obtains
    (stop) st v where "write_loop S fd don d g = (if don = 0 then Some (- 1) else C_Int don, Fail (write_errno st) (g\<lparr>g_world := v\<rparr>))"
      "\<exists>c'. cont v = Some c' \<and> stored (fd_offset (FDs g fd)) 0 d c c'"
  | (more) st n h r c' where "Files_Write S (fd_path (FDs g fd)) (fd_offset (FDs g fd)) (take 0x8000 d) g = (st, n, h)"
      "st = Status_Ok" "0 < n" "n \<le> length d" "(fd_offset (FDs g fd) + n) mod 2 ^ 64 = fd_offset (FDs g fd) + n"
      "r = (FDs g fd)\<lparr>fd_offset := fd_offset (FDs g fd) + n, fd_size := max (fd_size (FDs g fd)) (fd_offset (FDs g fd) + n)\<rparr>"
      "write_loop S fd don d g = write_loop S fd (don + n) (drop n d) (set_fd fd r h)" "backed (set_fd fd r h) fd q"
      "FDs (set_fd fd r h) fd = r" "cont (g_world (set_fd fd r h)) = Some c'" "stored (fd_offset (FDs g fd)) n (take 0x8000 d) c c'"
proof -
  let ?f = "FDs g fd" and ?d = "take 0x8000 d"
  obtain st n h where w: "Files_Write S (fd_path ?f) (fd_offset ?f) ?d g = (st, n, h)" by (metis prod.exhaust)
  have fit: "length ?d \<le> Buf_Bytes" "?d \<noteq> []" using assms(6) by (simp_all add: Buf_Bytes_def)
  obtain v c' where h: "h = g\<lparr>g_world := v\<rparr>" "st \<noteq> Status_Ok \<longrightarrow> n = 0" "cont v = Some c'" "stored (fd_offset ?f) n ?d c c'"
    using Files_Write_plain [OF assms(1-4) fit(2,1) w] by blast
  show thesis
  proof (cases "n = 0")
    case True
    then have "write_loop S fd don d g = (if don = 0 then Some (- 1) else C_Int don, Fail (write_errno st) h)"
      using assms(6) w by (subst write_loop.simps) simp
    then show thesis using h(1,3,4) True stored_wider [of "fd_offset ?f" "0x8000" d c c'] by (intro stop) auto
  next
    case False
    let ?r = "?f\<lparr>fd_offset := fd_offset ?f + n, fd_size := max (fd_size ?f) (fd_offset ?f + n)\<rparr>"
    have n: "n \<le> length d" using h(4) by (simp add: stored_def)
    have off: "(fd_offset ?f + n) mod 2 ^ 64 = fd_offset ?f + n" using assms(5) n by (intro mod_less) linarith
    have "fd_used ?f" using assms(2) by (simp add: backed_def fd_open_def)
    then have "set_fd fd ?r h = set_fd fd ?r (g\<lparr>g_world := v\<rparr>)" "fd_used ?r" "fd_path ?r = fd_path ?f"
      by (simp_all only: h(1)) simp_all
    note step = backed_step [OF assms(2) this]
    have "write_loop S fd don d g = write_loop S fd (don + n) (drop n d) (set_fd fd ?r h)"
      using assms(6) w False h(2) off by (subst write_loop.simps) (simp add: Let_def)
    then show thesis using w False h(2-4) n off step by (intro more [of st n h ?r c']) simp_all
  qed
qed

lemma write_loop_written:
  assumes "plain_write S q cont" and "write_loop S fd don d g = (r, g')"
    and "backed g fd q" and "cont (g_world g) = Some c" and "fd_offset (FDs g fd) \<le> length c"
    and "fd_offset (FDs g fd) + length d < 2 ^ 64" and "don + length d < 2 ^ 31"
  shows "written cont q fd don d (fd_offset (FDs g fd)) (fd_readable (FDs g fd)) c r g'"
  using assms
proof (induction S fd don d g arbitrary: c rule: write_loop.induct)
  case (1 S fd don d g)
  let ?f = "FDs g fd" and ?d = "take 0x8000 d"
  show ?case
  proof (cases "d = []")
    case True
    then have "write_loop S fd don d g = (C_Int don, g)" by (simp add: write_loop.simps)
    with True 1(3-6,8) stored_none [OF 1(6), of d] show ?thesis by (simp add: written_def C_Int_def)
  next
    case False
    show ?thesis
    proof (cases rule: write_loop_chunk [OF 1(2,4-7) False, of don, case_names stop more])
      case (stop st v)
      with 1(3,4,8) False show ?thesis unfolding written_def by (intro exI [of _ 0]) (auto simp: C_Int_def)
    next
      case (more st n h f c')
      have rec: "write_loop S fd (don + n) (drop n d) (set_fd fd f h) = (r, g')" using 1(3) more(7) by simp
      have "fd_offset ?f + n \<le> length c'" by (rule stored_length [OF more(11) 1(6)])
      then have "written cont q fd (don + n) (drop n d) (fd_offset (FDs (set_fd fd f h) fd))
          (fd_readable (FDs (set_fd fd f h) fd)) c' r g'"
        using 1(7,8) more
        by (intro 1(1) [OF False refl more(1) [symmetric] refl refl _ more(5) [symmetric] 1(2) rec [unfolded more(6)] more(8) [unfolded more(6)],
            folded more(6)]) simp_all
      then have "written cont q fd (don + n) (drop n d) (fd_offset ?f + n) (fd_readable ?f) c' r g'"
        unfolding more(9) by (simp add: more(6))
      from written_more [OF this more(11,3)] show ?thesis .
    qed
  qed
qed

lemma backed_Ensure_Bound: "backed g fd q \<Longrightarrow> backed (Ensure_Bound g) fd q"
  by (simp add: backed_def fd_open_def) (simp add: Ensure_Bound_def)

lemma Gloss_Write_plain:
  assumes "plain_write S q cont" and "backed g fd q" and "fd_writable (FDs g fd)"
    and "cont (g_world g) = Some c" and "fd_offset (FDs g fd) \<le> length c"
    and "fd_offset (FDs g fd) + length d < 2 ^ 64" and "length d < 2 ^ 31"
    and "Gloss_Write S fd d g = (r, g')"
  obtains n c' where "n \<le> length d" and "r = Some (if n = 0 \<and> d \<noteq> [] then - 1 else int n)"
    and "cont (g_world g') = Some c'" and "stored (fd_offset (FDs g fd)) n d c c'" and "backed g' fd q"
    and "fd_offset (FDs g' fd) = fd_offset (FDs g fd) + n" and "fd_readable (FDs g' fd) = fd_readable (FDs g fd)"
proof -
  have "write_loop S fd 0 d (Ensure_Bound g) = (r, g')"
    using assms(2,3,8) by (auto simp: Gloss_Write_def backed_def fd_open_def)
  from write_loop_written [OF assms(1) this backed_Ensure_Bound [OF assms(2)]] assms(4-7)
  obtain n c' where n: "n \<le> length d" "r = Some (if n < length d \<and> n = 0 then - 1 else int n)"
    "cont (g_world g') = Some c'" "stored (fd_offset (FDs g fd)) n d c c'" "backed g' fd q"
    "fd_offset (FDs g' fd) = fd_offset (FDs g fd) + n" "fd_readable (FDs g' fd) = fd_readable (FDs g fd)"
    by (auto simp: written_def)
  from n(2) have "r = Some (if n = 0 \<and> d \<noteq> [] then - 1 else int n)" by auto
  with n that show thesis by blast
qed

text \<open>A write that reports everything has stored everything.\<close>

lemma Gloss_Write_complete:
  assumes "plain_write S q cont" and "backed g fd q" and "fd_writable (FDs g fd)"
    and "cont (g_world g) = Some c" and "fd_offset (FDs g fd) \<le> length c"
    and "fd_offset (FDs g fd) + length d < 2 ^ 64" and "length d < 2 ^ 31"
    and "Gloss_Write S fd d g = (Some (int (length d)), g')"
  shows "cont (g_world g') = Some (overlay (fd_offset (FDs g fd)) d c)" and "backed g' fd q"
    and "fd_readable (FDs g' fd) = fd_readable (FDs g fd)"
proof -
  obtain n c' where n: "Some (int (length d)) = Some (if n = 0 \<and> d \<noteq> [] then - 1 else int n)"
    "cont (g_world g') = Some c'" "stored (fd_offset (FDs g fd)) n d c c'" "backed g' fd q"
    "fd_readable (FDs g' fd) = fd_readable (FDs g fd)"
    by (rule Gloss_Write_plain [OF assms])
  from n(1) have "n = length d" by (simp split: if_splits)
  with n stored_all [of "fd_offset (FDs g fd)" d c c']
  show "cont (g_world g') = Some (overlay (fd_offset (FDs g fd)) d c)" "backed g' fd q"
    "fd_readable (FDs g' fd) = fd_readable (FDs g fd)" by simp_all
qed

text \<open>
  Property C20: a write of less than 2 GiB to a plain file through an open, writable descriptor whose offset is not behind the end.
  The result is a number of bytes \<open>n\<close>, with -1 for none of a request that is not empty; the first \<open>n\<close> bytes of the data are in
  the file from the offset of the descriptor on, everything before the offset and behind the range of the request is as it was, the
  file has not shrunk, the offset has moved by \<open>n\<close>, and when \<open>n\<close> is all the file is exactly the old one overwritten or extended
  by the data. The server may fail at any time, and then the bytes of the range behind those reported are not specified.
\<close>

theorem gloss_write_reports_written:
  assumes "plain_write S q cont" and "backed g fd q" and "fd_writable (FDs g fd)"
    and "cont (g_world g) = Some c" and "fd_offset (FDs g fd) \<le> length c"
    and "fd_offset (FDs g fd) + length d < 2 ^ 64" and "length d < 2 ^ 31"
    and "Gloss_Write S fd d g = (r, g')"
  shows "\<exists>n c'. n \<le> length d \<and> r = Some (if n = 0 \<and> d \<noteq> [] then - 1 else int n) \<and>
    cont (g_world g') = Some c' \<and> stored (fd_offset (FDs g fd)) n d c c' \<and>
    fd_offset (FDs g' fd) = fd_offset (FDs g fd) + n \<and>
    (n = length d \<longrightarrow> c' = overlay (fd_offset (FDs g fd)) d c)"
proof -
  obtain n c' where "n \<le> length d" "r = Some (if n = 0 \<and> d \<noteq> [] then - 1 else int n)"
    "cont (g_world g') = Some c'" "stored (fd_offset (FDs g fd)) n d c c'"
    "fd_offset (FDs g' fd) = fd_offset (FDs g fd) + n"
    using assms by (rule Gloss_Write_plain)
  then show ?thesis using stored_all [of "fd_offset (FDs g fd)" d c c'] by (intro exI [of _ n] exI [of _ c'] conjI) auto
qed

text \<open>A process with one open descriptor, for the instances.\<close>

definition demo_fd :: fd_rec where
  "demo_fd = \<lparr>fd_used = True, fd_readable = True, fd_writable = True, fd_offset = 2, fd_size = 5, fd_path = ''BD0:a''\<rparr>"

definition demo_gloss :: "mem_fs gloss" where
  "demo_gloss = \<lparr>g_errno = 0, g_bound = True, g_files_ep = 2, g_console_ep = 1, g_volume = ''RD0'',
     g_fds = [fd_none, fd_none, demo_fd], g_dirs = [], g_world = [''BD0:a'' \<mapsto> ''hello'']\<rparr>"

lemma demo_fds [simp]: "g_fds demo_gloss ! 2 = demo_fd" "FD_Last demo_gloss = 3"
  by (simp_all add: demo_gloss_def)

lemma demo_simps [simp]:
  "backed demo_gloss 3 ''BD0:a''" "fd_writable demo_fd" "fd_readable demo_fd" "fd_offset demo_fd = 2"
  "g_world demo_gloss ''BD0:a'' = Some ''hello''" "gloss_wf demo_gloss" "Ensure_Bound demo_gloss = demo_gloss"
  by (simp_all add: backed_def fd_open_def demo_gloss_def demo_fd_def Qualified_def Max_Path_def Ensure_Bound_def
      gloss_wf_def fd_ok_def fd_none_def less_2_cases_iff)

lemma demo_write:
  "Gloss_Write mem_server 3 ''XYZW'' demo_gloss = (Some 4, set_fd 3 (demo_fd\<lparr>fd_offset := 6, fd_size := 6\<rparr>)
     (demo_gloss\<lparr>g_world := [''BD0:a'' \<mapsto> ''heXYZW'']\<rparr>))"
  using demo_simps
  by (simp add: Gloss_Write_def backed_def)
    (subst write_loop.simps, simp add: mem_eval, subst write_loop.simps, simp add: mem_eval C_Int_def demo_gloss_def demo_fd_def)

theorem gloss_write_reports_written_witness:
  "\<exists>g. Gloss_Write mem_server 3 ''XYZW'' demo_gloss = (Some 4, g) \<and> g_world g ''BD0:a'' = Some ''heXYZW''"
proof -
  obtain g where g: "Gloss_Write mem_server 3 ''XYZW'' demo_gloss = (Some 4, g)" using demo_write by blast
  have p: "fd_writable (FDs demo_gloss 3)" "fd_offset (FDs demo_gloss 3) \<le> length ''hello''"
      "fd_offset (FDs demo_gloss 3) + length ''XYZW'' < 2 ^ 64" "length ''XYZW'' < 2 ^ 31"
    by simp_all
  obtain n c' where n: "Some 4 = Some (if n = 0 \<and> ''XYZW'' \<noteq> [] then - 1 else int n)" "g_world g ''BD0:a'' = Some c'"
      "n = length ''XYZW'' \<longrightarrow> c' = overlay (fd_offset (FDs demo_gloss 3)) ''XYZW'' ''hello''"
    using gloss_write_reports_written [OF mem_plain(3) demo_simps(1) p(1) demo_simps(5) p(2-4) g]
    by (elim exE conjE) (rule that)
  from n(1) have "n = length ''XYZW''" by (simp split: if_splits)
  with n(3) have "c' = ''heXYZW''" by (simp add: overlay_def)
  with n(2) g show ?thesis by (intro exI [of _ g] conjI) simp_all
qed

section \<open>Reading back\<close>

text \<open>A read passes on what the server answers.\<close>

lemma Gloss_Read_plain:
  assumes "plain_read S q cont" and "backed g fd q" and "fd_readable (FDs g fd)" and "cont (g_world g) = Some c"
    and "0 < n" and "n \<le> Buf_Bytes" and "Gloss_Read S fd n g = (r, dat, g')"
    and "srv_read S q (fd_offset (FDs g fd)) n (g_world g) = (st, b, w)"
  shows "r = Some (if st = Status_Ok then int (length b) else if st = Status_Out_Of_Range then 0 else - 1)"
    and "dat = (if st = Status_Ok then b else [])" and "prefix dat (take n (drop (fd_offset (FDs g fd)) c))"
proof -
  let ?off = "fd_offset (FDs g fd)"
  have w: "prefix b (take n (drop ?off c))" if "st = Status_Ok"
    using assms(1) [unfolded plain_read_def, rule_format, of "g_world g" c n ?off] assms(4,5,8) that by simp
  have bk: "g_files_ep (Ensure_Bound g) \<noteq> 0" "\<not> fd < 3" "fd_open (Ensure_Bound g) fd"
      "Qualified (Ensure_Bound g) (fd_path (FDs g fd)) = q" "q \<noteq> []"
    using backed_Ensure_Bound [OF assms(2)] by (simp_all add: backed_def)
  have small: "length b < 2 ^ 31" if "st = Status_Ok"
    using prefix_length_le [OF w [OF that]] assms(6) by (simp add: Buf_Bytes_def)
  show r: "r = Some (if st = Status_Ok then int (length b) else if st = Status_Out_Of_Range then 0 else - 1)"
    and dat: "dat = (if st = Status_Ok then b else [])"
    using assms(3,5-8) bk small
    by (auto simp: Gloss_Read_def Files_Read_def C_Int_def Let_def min_absorb1 split: if_splits)
  show "prefix dat (take n (drop ?off c))" using w dat by (cases "st = Status_Ok") simp_all
qed

text \<open>
  Property C29: after a complete write of 1 to 32768 bytes to a plain file, through a descriptor open for both whose offset is not
  behind the end, and a seek back to where the write started, a read of as many bytes returns what the server answers to it: the
  bytes it gives, with their number, 0 when it says out of range and -1 when it fails; and these bytes are always a beginning of
  what was written, all of it when there are as many.
\<close>

theorem write_seek_read_roundtrip:
  assumes "plain_write S q cont" and "plain_read S q cont" and "backed g fd q"
    and "fd_writable (FDs g fd)" and "fd_readable (FDs g fd)"
    and "cont (g_world g) = Some c" and "fd_offset (FDs g fd) = off" and "off \<le> length c"
    and "off + length d < 2 ^ 64" and "d \<noteq> []" and "length d \<le> 32768"
    and "Gloss_Write S fd d g = (Some (int (length d)), g1)"
    and "Gloss_Lseek S fd off 0 g1 = (pos, g2)"
    and "Gloss_Read S fd (length d) g2 = (r, dat, g3)"
    and "srv_read S q off (length d) (g_world g2) = (st, b, w)"
  shows "pos = off \<and> r = Some (if st = Status_Ok then int (length b) else if st = Status_Out_Of_Range then 0 else - 1) \<and>
    dat = (if st = Status_Ok then b else []) \<and> prefix dat d \<and> (length dat = length d \<longrightarrow> dat = d)"
proof -
  have n: "cont (g_world g1) = Some (overlay off d c)" "backed g1 fd q" "fd_readable (FDs g1 fd)"
    using Gloss_Write_complete [OF assms(1,3,4,6) _ _ _ assms(12)] assms(5,7-9,11) by simp_all
  let ?r = "(FDs g1 fd)\<lparr>fd_offset := off\<rparr>"
  have "off mod 2 ^ 64 = off" using assms(9) by simp
  then have seek: "pos = off" "g2 = set_fd fd ?r (g1\<lparr>g_world := g_world g1\<rparr>)"
    using assms(13) n(2) by (auto simp: Gloss_Lseek_def backed_def)
  have "fd_used ?r" "fd_path ?r = fd_path (FDs g1 fd)" using n(2) by (simp_all add: backed_def fd_open_def)
  note step = backed_step [OF n(2) seek(2) this]
  have off: "fd_offset (FDs g2 fd) = off" using step(2) by simp
  have "r = Some (if st = Status_Ok then int (length b) else if st = Status_Out_Of_Range then 0 else - 1)"
      "dat = (if st = Status_Ok then b else [])" "prefix dat (take (length d) (drop off (overlay off d c)))"
    using Gloss_Read_plain [OF assms(2) step(1) _ _ _ _ assms(14), of "overlay off d c" st b w]
      step(2,3) n(1,3) off assms(10,11,15) by (simp_all add: Buf_Bytes_def)
  moreover have "take (length d) (drop off (overlay off d c)) = d" by (rule overlay_at [OF assms(8)])
  ultimately have "prefix dat d" by simp
  then have "length dat = length d \<longrightarrow> dat = d" by (metis not_equal_is_parallel parallelE)
  with \<open>prefix dat d\<close> \<open>r = _\<close> \<open>dat = _\<close> seek(1) show ?thesis by (intro conjI)
qed

theorem write_seek_read_roundtrip_witness:
  "(let (r, g1) = Gloss_Write mem_server 3 ''XYZW'' demo_gloss; (pos, g2) = Gloss_Lseek mem_server 3 2 0 g1;
        (r', dat, g3) = Gloss_Read mem_server 3 (length ''XYZW'') g2
    in pos = 2 \<and> r' = Some 4 \<and> dat = ''XYZW'')"
proof -
  define g1 where "g1 = set_fd 3 (demo_fd\<lparr>fd_offset := 6, fd_size := 6\<rparr>) (demo_gloss\<lparr>g_world := [''BD0:a'' \<mapsto> ''heXYZW'']\<rparr>)"
  have "Some 4 = Some (int (length ''XYZW''))" by simp
  then have w: "Gloss_Write mem_server 3 ''XYZW'' demo_gloss = (Some (int (length ''XYZW'')), g1)"
    unfolding demo_write g1_def by (rule arg_cong)
  obtain pos g2 where l: "Gloss_Lseek mem_server 3 2 0 g1 = (pos, g2)" by (metis prod.exhaust)
  then have "g_world g2 = g_world g1" by (auto simp: Gloss_Lseek_def Let_def split: if_splits)
  also have "\<dots> = [''BD0:a'' \<mapsto> ''heXYZW'']" by (simp add: g1_def)
  finally have s: "srv_read mem_server ''BD0:a'' 2 (length ''XYZW'') (g_world g2) = (Status_Ok, ''XYZW'', g_world g2)"
    by (simp add: mem_server_def)
  obtain r' dat g3 where r: "Gloss_Read mem_server 3 (length ''XYZW'') g2 = (r', dat, g3)" by (metis prod.exhaust)
  have p: "fd_writable (FDs demo_gloss 3)" "fd_readable (FDs demo_gloss 3)" "fd_offset (FDs demo_gloss 3) = 2"
      "2 \<le> length ''hello''" "2 + length ''XYZW'' < 2 ^ 64" "''XYZW'' \<noteq> []" "length ''XYZW'' \<le> 32768"
    by simp_all
  have "pos = 2 \<and> r' = Some (if Status_Ok = Status_Ok then int (length ''XYZW'') else if Status_Ok = Status_Out_Of_Range then 0 else - 1) \<and>
      dat = (if Status_Ok = Status_Ok then ''XYZW'' else []) \<and> prefix dat ''XYZW'' \<and> (length dat = length ''XYZW'' \<longrightarrow> dat = ''XYZW'')"
    by (rule write_seek_read_roundtrip [OF mem_plain(3,2) demo_simps(1) p(1,2) demo_simps(5) p(3-7) w l r s])
  then have "pos = 2" "r' = Some (int (length ''XYZW''))" "dat = ''XYZW''" by (simp_all only: if_True simp_thms)
  then have "pos = 2 \<and> r' = Some 4 \<and> dat = ''XYZW''" by simp
  then show ?thesis by (simp only: w l r Let_def prod.case)
qed

section \<open>Opening a file that exists\<close>

lemma FD_Append_cont:
  assumes "\<forall>w. cont (snd (srv_tab_append S w)) = cont w" and "FD_Append S g = (i, g')"
  shows "cont (g_world g') = cont (g_world g)"
proof -
  obtain room w where a: "srv_tab_append S (g_world g) = (room, w)" by (metis prod.exhaust)
  then have "cont w = cont (g_world g)" using assms(1) by (metis snd_conv)
  with a assms(2) show ?thesis by (auto simp: FD_Append_def split: if_splits)
qed

lemma FD_Pad_cont:
  assumes "\<forall>w. cont (snd (srv_tab_append S w)) = cont w"
  shows "FD_Pad S n g = (ok, g') \<Longrightarrow> cont (g_world g') = cont (g_world g)"
proof (induction n arbitrary: g)
  case (Suc n)
  obtain i h where a: "FD_Append S g = (i, h)" by (metis prod.exhaust)
  with Suc FD_Append_cont [OF assms a] show ?case by (auto split: if_splits)
qed simp

lemma FD_Slot_cont:
  assumes "\<forall>w. cont (snd (srv_tab_append S w)) = cont w" and "FD_Slot S g = (slot, g')"
  shows "cont (g_world g') = cont (g_world g)"
  using assms(2) FD_Pad_cont [OF assms(1)] FD_Append_cont [OF assms(1)]
  by (auto simp: FD_Slot_def split: option.splits prod.splits if_splits)

text \<open>A name with a volume that fits goes to the server as it is.\<close>

definition wired :: "string \<Rightarrow> bool" where
  "wired p \<longleftrightarrow> CHR '':'' \<in> set p \<and> length p \<le> Max_Path"

lemma wired_simps [simp]:
  assumes "wired p"
  shows "Qualify S p g = (p, g)" and "Qualified g p = p" and "p \<noteq> []" and "\<not> length p > 256"
  using assms by (auto simp: wired_def Qualify_def Qualified_def Max_Path_def)

lemma Ensure_Bound_ep: "gloss_wf g \<Longrightarrow> g_files_ep (Ensure_Bound g) \<noteq> 0"
  by (auto simp: Ensure_Bound_def gloss_wf_def)

lemma plain_open_ok:
  assumes "plain_open S p cont" and "opens_ok S p cont" and "cont w = Some c" and "length c < 2 ^ 64"
  shows "\<exists>w'. srv_open S p w = (Status_Ok, length c, w') \<and> cont w' = Some c"
proof -
  obtain st sz w' where o: "srv_open S p w = (st, sz, w')" by (metis prod.exhaust)
  moreover have "st = Status_Ok" using assms(2,3) o unfolding opens_ok_def by (metis fst_conv option.distinct(1))
  ultimately show ?thesis using assms(1,3,4) unfolding plain_open_def by fastforce
qed

lemma Gloss_Open_existing:
  assumes "plain_open S p cont" and "opens_ok S p cont" and "wired p" and "cont (g_world g) = Some c" and "gloss_wf g" and "length c < 2 ^ 64"
  obtains (full) h where "Gloss_Open S p flags g = (- 1, Fail G_EMFILE h)" and "cont (g_world h) = Some c"
    | (excl) h where "Gloss_Open S p flags g = (- 1, Fail G_EEXIST h)" and "cont (g_world h) = Some c"
        and "flags AND O_CREAT \<noteq> 0 \<and> flags AND O_EXCL \<noteq> 0"
    | (ok) slot h where "Gloss_Open S p flags g = open_slot S p flags slot (length c) h"
        and "cont (g_world h) = Some c" and "3 \<le> slot" and "slot \<le> FD_Last h" and "g_files_ep h \<noteq> 0"
        and "\<not> (flags AND O_CREAT \<noteq> 0 \<and> flags AND O_EXCL \<noteq> 0)"
proof -
  obtain slot h where s: "FD_Slot S g = (slot, h)" by (metis prod.exhaust)
  have h: "cont (g_world h) = Some c" using FD_Slot_cont [OF _ s, of cont] assms(1,4) by (simp add: plain_open_def)
  then obtain w where w: "srv_open S p (g_world h) = (Status_Ok, length c, w)" "cont w = Some c"
    using plain_open_ok [OF assms(1,2) h assms(6)] by blast
  let ?h = "(Ensure_Bound h)\<lparr>g_world := w\<rparr>"
  have wf: "gloss_wf h" using s by (cases rule: FD_Slot_cases) (auto intro: gloss_wf_grown assms(5))
  then have ep: "g_files_ep ?h \<noteq> 0" using Ensure_Bound_ep [OF wf] by simp
  have o: "Files_Open S p (Ensure_Bound h) = (Status_Ok, length c, ?h)"
    using assms(3) w(1) Ensure_Bound_ep [OF wf] by (simp add: Files_Open_def)
  consider "slot = 0" | "3 \<le> slot" "slot \<le> FD_Last h" using s by (cases rule: FD_Slot_cases) auto
  then show thesis
  proof cases
    case 1
    with assms(3) s h show ?thesis by (intro full [of h]) (simp_all add: Gloss_Open_def)
  next
    case 2
    then have "Gloss_Open S p flags g =
        (if flags AND O_CREAT \<noteq> 0 \<and> flags AND O_EXCL \<noteq> 0 then (- 1, Fail G_EEXIST ?h)
         else open_slot S p flags slot (length c) ?h)"
      using assms(3) s o by (simp add: Gloss_Open_def)
    then show ?thesis using 2 w(2) ep excl [of ?h] ok [of slot ?h] by (auto split: if_splits)
  qed
qed

text \<open>
  While the server is ready, opening an existing plain file with both \<open>O_CREAT\<close> and \<open>O_EXCL\<close> fails and leaves its contents as
  they are, whatever the other flags.
\<close>

lemma open_excl_refused:
  assumes "plain_open S p cont" and "opens_ok S p cont" and "wired p" and "cont (g_world g) = Some c" and "gloss_wf g" and "length c < 2 ^ 64"
    and "flags AND O_CREAT \<noteq> 0" and "flags AND O_EXCL \<noteq> 0"
  shows "\<exists>g'. Gloss_Open S p flags g = (- 1, g') \<and> (g_errno g' = G_EEXIST \<or> g_errno g' = G_EMFILE) \<and>
    cont (g_world g') = Some c"
  using assms(1-6)
proof (cases rule: Gloss_Open_existing [where flags = flags])
  case (ok slot h)
  with assms(7,8) show ?thesis by simp
qed auto

lemma wired_demo: "wired ''BD0:a''" by (simp add: wired_def Max_Path_def)

text \<open>
  Defect: a file opened for appending is only positioned at its end when it is opened. When the file
  grew since, a write goes over what was added, although a note in \<^verbatim>\<open>sysdep.c\<close> states that all writes
  are forced to the then current end of the file.
\<close>

theorem append_overwrites_growth:
  assumes "plain_open S p cont" and "opens_ok S p cont" and "plain_write S p cont" and "wired p" and "gloss_wf g"
    and "cont (g_world g) = Some c" and "length c + length d < 2 ^ 64" and "length d < 2 ^ 31"
    and "Gloss_Open S p (O_WRONLY OR O_CREAT OR O_APPEND) g = (fd, g1)" and "fd \<noteq> - 1"
    and "cont w = Some (c @ x)"
    and "Gloss_Write S fd d (g1\<lparr>g_world := w\<rparr>) = (Some (int (length d)), g2)"
  shows "cont (g_world g2) = Some (c @ d @ drop (length d) x)"
proof -
  have lt: "length c < 2 ^ 64" using assms(7) by simp
  obtain slot h where h: "open_slot S p 0x209 slot (length c) h = (fd, g1)" "3 \<le> slot" "slot \<le> FD_Last h" "g_files_ep h \<noteq> 0"
    using assms(1,2,4,6,5) lt by (cases rule: Gloss_Open_existing [where flags = "0x209"]) (use assms(9,10) in auto)
  then have g1: "fd = int slot" "g1 = set_fd (int slot) \<lparr>fd_used = True, fd_readable = False, fd_writable = True,
      fd_offset = length c, fd_size = length c, fd_path = p\<rparr> h"
    by (auto simp: open_slot_def)
  have b: "backed (g1\<lparr>g_world := w\<rparr>) fd p" and f: "FDs g1 fd = \<lparr>fd_used = True, fd_readable = False, fd_writable = True,
      fd_offset = length c, fd_size = length c, fd_path = p\<rparr>"
    using h(2-4) assms(4) g1 by (auto simp: backed_def fd_open_def)
  have "cont (g_world g2) = Some (overlay (fd_offset (FDs (g1\<lparr>g_world := w\<rparr>) fd)) d (c @ x))"
    by (rule Gloss_Write_complete(1) [OF assms(3) b _ _ _ _ _ assms(12)]) (use assms(7,8,11) f in auto)
  then show ?thesis using f by (simp add: overlay_def)
qed

lemma demo_append:
  "Gloss_Open mem_server ''BD0:a'' 0x209 demo_gloss =
     (4, demo_gloss\<lparr>g_fds := [fd_none, fd_none, demo_fd, \<lparr>fd_used = True, fd_readable = False, fd_writable = True,
        fd_offset = 5, fd_size = 5, fd_path = ''BD0:a''\<rparr>]\<rparr>)"
  by (simp add: mem_eval demo_gloss_def demo_fd_def)

theorem append_overwrites_growth_witness:
  "(let (fd, g1) = Gloss_Open mem_server ''BD0:a'' 0x209 demo_gloss;
        (r, g2) = Gloss_Write mem_server fd ''AB'' (g1\<lparr>g_world := [''BD0:a'' \<mapsto> ''hello you'']\<rparr>)
    in fd = 4 \<and> r = Some 2 \<and> g_world g2 ''BD0:a'' = Some ''helloABou'')"
proof -
  obtain g1 where g1: "Gloss_Open mem_server ''BD0:a'' (O_WRONLY OR O_CREAT OR O_APPEND) demo_gloss = (4, g1)"
      "g1 = demo_gloss\<lparr>g_fds := [fd_none, fd_none, demo_fd, \<lparr>fd_used = True, fd_readable = False, fd_writable = True,
        fd_offset = 5, fd_size = 5, fd_path = ''BD0:a''\<rparr>]\<rparr>"
    using demo_append by simp
  obtain r g2 where w: "Gloss_Write mem_server 4 ''AB'' (g1\<lparr>g_world := [''BD0:a'' \<mapsto> ''hello you'']\<rparr>) = (r, g2)"
    by (metis prod.exhaust)
  have r: "r = Some (int (length ''AB''))"
    using w unfolding g1(2)
    by (simp add: Gloss_Write_def fd_open_def demo_gloss_def Ensure_Bound_def)
      (subst (asm) write_loop.simps, simp add: mem_eval, subst (asm) write_loop.simps, simp add: C_Int_def)
  have "g_world g2 ''BD0:a'' = Some (''hello'' @ ''AB'' @ drop (length ''AB'') '' you'')"
    by (rule append_overwrites_growth [OF mem_plain(1,4,3) wired_demo demo_simps(6,5) _ _ g1(1) _ _ w [unfolded r]]) simp_all
  with g1(1) w r show ?thesis by simp
qed

section \<open>Relative names before the endpoints are bound\<close>

lemma Get_CWD_unbound: "g_files_ep g = 0 \<Longrightarrow> Get_CWD S g = (''Sys:'', g)"
  by (simp add: Get_CWD_def Files_Open_def)

text \<open>
  Defect: \<open>_open\<close>, \<open>_stat\<close>, \<open>chdir\<close> and the opening of a directory look up the current directory
  before they bind the endpoint of the file server, so in a program that has not bound it itself the
  first of these calls takes a relative name to be one below \<open>Sys:\<close>, whatever the current directory is.
\<close>

theorem first_call_ignores_cwd:
  assumes "CHR '':'' \<notin> set name" and "g_files_ep g = 0"
  shows "Gloss_Open S name flags g = Gloss_Open S (''Sys:'' @ name) flags g \<and>
    Gloss_Stat S name g = Gloss_Stat S (''Sys:'' @ name) g \<and>
    Gloss_Chdir S name g = Gloss_Chdir S (''Sys:'' @ name) g \<and>
    Aegir_Opendir S name g = Aegir_Opendir S (''Sys:'' @ name) g"
proof -
  have "Qualify S name g = Qualify S (''Sys:'' @ name) g"
    using assms by (simp add: Qualify_def Get_CWD_unbound)
  then show ?thesis
    by (simp add: Gloss_Open_def Gloss_Stat_def Gloss_Chdir_def Aegir_Opendir_def)
qed

theorem first_call_ignores_cwd_witness:
  "fst (Gloss_Open mem_server ''x'' 0 (gloss_init [''ENV:CWD'' \<mapsto> ''BD0:Work'', ''BD0:Work/x'' \<mapsto> ''data''])) = - 1 \<and>
   fst (Gloss_Open mem_server ''x'' 0 (Ensure_Bound (gloss_init [''ENV:CWD'' \<mapsto> ''BD0:Work'', ''BD0:Work/x'' \<mapsto> ''data'']))) = 3"
proof
  let ?g = "gloss_init [''ENV:CWD'' \<mapsto> ''BD0:Work'', ''BD0:Work/x'' \<mapsto> ''data'']"
  have "Gloss_Open mem_server ''x'' 0 ?g = Gloss_Open mem_server (''Sys:'' @ ''x'') 0 ?g"
    using first_call_ignores_cwd [of "''x''" ?g mem_server 0] by (simp add: gloss_init_def)
  also have "fst \<dots> = - 1" by (simp add: mem_eval)
  finally show "fst (Gloss_Open mem_server ''x'' 0 ?g) = - 1" .
  show "fst (Gloss_Open mem_server ''x'' 0 (Ensure_Bound ?g)) = 3" by (simp add: mem_eval)
qed

text \<open>Afterwards, or in a program that bound the endpoint, the same name is one below the current directory.\<close>

lemma later_call_uses_cwd:
  assumes "CHR '':'' \<notin> set name" and "g_files_ep g \<noteq> 0"
    and "srv_open S ''ENV:CWD'' (g_world g) = (Status_Ok, length cwd, w)"
    and "srv_read S ''ENV:CWD'' 0 (length cwd) w = (Status_Ok, cwd, w')" and "cwd \<noteq> []" and "length cwd \<le> 256"
  shows "fst (Qualify S name g) = (if last cwd = CHR '':'' then cwd @ name else cwd @ ''/'' @ name)"
proof -
  have "Qualified g ''ENV:CWD'' = ''ENV:CWD''" by (simp add: Qualified_def Max_Path_def)
  with assms(2-6) have "fst (Get_CWD S g) = cwd"
    by (simp add: Get_CWD_def Files_Open_def Files_Read_def Buf_Bytes_def min_absorb1 Qualified_def)
  with assms(1) show ?thesis by (cases "Get_CWD S g") (simp add: Qualify_def)
qed

section \<open>Arguments at the boundary\<close>

text \<open>
  Defect: a read of no bytes from an open file fails with \<open>ENOENT\<close> instead of returning 0,
  because the client of the file protocol refuses a length of 0.
\<close>

theorem read_nothing_fails:
  assumes "3 \<le> fd" and "fd_open g fd" and "fd_readable (FDs g fd)"
  shows "Gloss_Read S fd 0 g = (Some (- 1), [], Fail G_ENOENT (Ensure_Bound g))"
  using assms by (simp add: Gloss_Read_def Files_Read_def fd_open_def)

text \<open>
  Defect: of the operations on a descriptor only writing and seeking answer \<open>EBADF\<close> to a
  negative one as they do to an unused one: closing it and \<open>_fcntl\<close> report success, reading
  reports the end of the file, and \<open>_fstat\<close> fails the range check of its table access.
\<close>

theorem negative_descriptor:
  assumes "fd < 0"
  shows "Gloss_Close S fd g = (0, g) \<and> Gloss_Fcntl fd g = (0, g) \<and> Gloss_Read S fd n g = (Some 0, [], Ensure_Bound g) \<and>
    Gloss_Fstat S fd g = None \<and> fst (Gloss_Write S fd d g) = Some (- 1) \<and> fst (Gloss_Lseek S fd off wh g) = 2 ^ 64 - 1"
  using assms by (simp add: Gloss_Close_def Gloss_Fcntl_def Gloss_Read_def Gloss_Fstat_def Gloss_Write_def Gloss_Lseek_def)

end
