(* ===== verification/Gloss_Sys.thy ===== *)
theory Gloss_Sys
  imports Gloss_Files
begin

text \<open>
  The rest of the system call layer (\<^verbatim>\<open>aegir_user-gloss.adb\<close>): the heap arena behind \<open>malloc\<close>, the wall clock,
  the command line, and the calls that are not implemented.
\<close>

section \<open>The heap arena\<close>

definition Sbrk_Base :: nat where "Sbrk_Base = 0x52000000"
definition Sbrk_Chunk_Pgs :: nat where "Sbrk_Chunk_Pgs = 64"
definition Sbrk_Max_Chunk :: nat where "Sbrk_Max_Chunk = 16"
definition Page_Bytes :: nat where "Page_Bytes = 4096"

record 'k sbrk_state =
  sb_caps :: "nat list"
  sb_mapped :: nat
  sb_break :: nat
  sb_errno :: int
  sb_kern :: 'k

definition sbrk_init :: "'k \<Rightarrow> 'k sbrk_state" where
  "sbrk_init k = \<lparr>sb_caps = replicate Sbrk_Max_Chunk 0, sb_mapped = 0, sb_break = 0, sb_errno = 0, sb_kern = k\<rparr>"

text \<open>One more page: whether it could be mapped.\<close>

definition sbrk_page :: "'k kernel_ops \<Rightarrow> 'k sbrk_state \<Rightarrow> bool \<times> 'k sbrk_state" where
  "sbrk_page K s =
     (let page = sb_mapped s div Page_Bytes; c = page div Sbrk_Chunk_Pgs; in_chunk = page mod Sbrk_Chunk_Pgs
      in if c \<ge> Sbrk_Max_Chunk then (False, s)
         else let (ok, s) = (if sb_caps s ! c = 0 then
                               (case mem_alloc K Sbrk_Chunk_Pgs (sb_kern s) of
                                  (None, k) \<Rightarrow> (False, s\<lparr>sb_kern := k\<rparr>)
                                | (Some cap, k) \<Rightarrow> (True, s\<lparr>sb_caps := (sb_caps s)[c := cap], sb_kern := k\<rparr>))
                             else (True, s))
              in if \<not> ok then (False, s)
                 else let (r, k) = mem_map K (sb_caps s ! c) (Sbrk_Base + sb_mapped s) (in_chunk * Page_Bytes) Page_Bytes (sb_kern s)
                      in if r \<noteq> 0 then (False, s\<lparr>sb_kern := k\<rparr>)
                         else (True, s\<lparr>sb_mapped := sb_mapped s + Page_Bytes, sb_kern := k\<rparr>))"

lemma sbrk_page_mapped: "sbrk_page K s = (True, s') \<Longrightarrow> sb_mapped s' = sb_mapped s + Page_Bytes"
  by (auto simp: sbrk_page_def Let_def split: if_splits prod.splits option.splits)

function sbrk_grow :: "'k kernel_ops \<Rightarrow> nat \<Rightarrow> 'k sbrk_state \<Rightarrow> bool \<times> 'k sbrk_state" where
  "sbrk_grow K need s =
     (if need > sb_mapped s then (case sbrk_page K s of (True, s) \<Rightarrow> sbrk_grow K need s | (False, s) \<Rightarrow> (False, s))
      else (True, s))"
  by auto
termination
  by (relation "measure (\<lambda>(K, need, s). need - sb_mapped s)")
    (auto simp: Page_Bytes_def dest!: sym [of "(True, _)"] sbrk_page_mapped)

declare sbrk_grow.simps [simp del]

text \<open>The old break, or \<open>None\<close> for the address -1, with \<open>errno\<close> set to \<open>ENOMEM\<close>.\<close>

abbreviation (input) G_ENOMEM :: int where "G_ENOMEM \<equiv> 12"

definition Gloss_Sbrk :: "'k kernel_ops \<Rightarrow> int \<Rightarrow> 'k sbrk_state \<Rightarrow> nat option \<times> 'k sbrk_state" where
  "Gloss_Sbrk K incr s =
     (if incr < 0 then (None, s\<lparr>sb_errno := G_ENOMEM\<rparr>)
      else let need = sb_break s + nat incr; (ok, s) = sbrk_grow K need s
           in if ok then (Some (Sbrk_Base + sb_break s), s\<lparr>sb_break := need\<rparr>)
              else (None, s\<lparr>sb_errno := G_ENOMEM\<rparr>))"

fun sbrk_calls :: "'k kernel_ops \<Rightarrow> int list \<Rightarrow> 'k sbrk_state \<Rightarrow> nat option list \<times> 'k sbrk_state" where
  "sbrk_calls K [] s = ([], s)"
| "sbrk_calls K (i # is) s =
     (let (r, s) = Gloss_Sbrk K i s; (rs, s) = sbrk_calls K is s in (r # rs, s))"

text \<open>
  The kernel's promise about mappings: a mapping that succeeds is there, and neither call takes one away.
\<close>

definition maps_pages :: "'k kernel_ops \<Rightarrow> ('k \<Rightarrow> nat \<Rightarrow> bool) \<Rightarrow> bool" where
  "maps_pages K pg \<longleftrightarrow>
     (\<forall>n k va. pg k va \<longrightarrow> pg (snd (mem_alloc K n k)) va) \<and>
     (\<forall>cap v off k va. pg k va \<longrightarrow> pg (snd (mem_map K cap v off Page_Bytes k)) va) \<and>
     (\<forall>cap v off k. fst (mem_map K cap v off Page_Bytes k) = 0 \<longrightarrow> pg (snd (mem_map K cap v off Page_Bytes k)) v)"

definition sbrk_ok :: "('k \<Rightarrow> nat \<Rightarrow> bool) \<Rightarrow> 'k sbrk_state \<Rightarrow> bool" where
  "sbrk_ok pg s \<longleftrightarrow> length (sb_caps s) = Sbrk_Max_Chunk \<and> sb_break s \<le> sb_mapped s \<and>
     sb_mapped s \<le> Sbrk_Max_Chunk * Sbrk_Chunk_Pgs * Page_Bytes \<and> sb_mapped s mod Page_Bytes = 0 \<and>
     (\<forall>i. i * Page_Bytes < sb_mapped s \<longrightarrow> pg (sb_kern s) (Sbrk_Base + i * Page_Bytes))"

lemmas sbrk_consts = Sbrk_Base_def Sbrk_Chunk_Pgs_def Sbrk_Max_Chunk_def Page_Bytes_def

text \<open>What growing keeps: pages stay mapped and the break does not move.\<close>

definition sbrk_kept :: "('k \<Rightarrow> nat \<Rightarrow> bool) \<Rightarrow> 'k sbrk_state \<Rightarrow> 'k sbrk_state \<Rightarrow> bool" where
  "sbrk_kept pg s s' \<longleftrightarrow> (\<forall>va. pg (sb_kern s) va \<longrightarrow> pg (sb_kern s') va) \<and> sb_break s' = sb_break s"

lemma sbrk_kept_trans: "sbrk_kept pg s s' \<Longrightarrow> sbrk_kept pg s' s'' \<Longrightarrow> sbrk_kept pg s s''"
  by (simp add: sbrk_kept_def)

lemma sbrk_page_cases:
  assumes "sbrk_page K s = (ok, s')" and "maps_pages K pg"
  obtains (fail) "\<not> ok" and "sb_mapped s' = sb_mapped s" and "length (sb_caps s') = length (sb_caps s)" and "sbrk_kept pg s s'"
    | (page) "ok" and "sb_mapped s' = sb_mapped s + Page_Bytes" and "length (sb_caps s') = length (sb_caps s)"
        and "sbrk_kept pg s s'" and "pg (sb_kern s') (Sbrk_Base + sb_mapped s)"
        and "sb_mapped s div Page_Bytes div Sbrk_Chunk_Pgs < Sbrk_Max_Chunk"
proof -
  let ?c = "sb_mapped s div Page_Bytes div Sbrk_Chunk_Pgs"
  have law: "mem_alloc K n k = (x, k') \<Longrightarrow> pg k va \<Longrightarrow> pg k' va"
    "mem_map K cap v off Page_Bytes k = (r, k') \<Longrightarrow> pg k va \<Longrightarrow> pg k' va"
    "mem_map K cap v off Page_Bytes k = (0, k') \<Longrightarrow> pg k' v" for n k x k' va cap v off r
    using assms(2) unfolding maps_pages_def by (metis snd_conv fst_conv)+
  show thesis
  proof (cases "?c \<ge> Sbrk_Max_Chunk")
    case True
    with assms(1) fail show ?thesis by (simp add: sbrk_page_def Let_def sbrk_kept_def)
  next
    case False
    then have "(ok \<longrightarrow> sb_mapped s' = sb_mapped s + Page_Bytes \<and> pg (sb_kern s') (Sbrk_Base + sb_mapped s)) \<and>
        (\<not> ok \<longrightarrow> sb_mapped s' = sb_mapped s) \<and> length (sb_caps s') = length (sb_caps s) \<and> sbrk_kept pg s s'"
      using assms(1) law
      by (auto simp: sbrk_page_def Let_def sbrk_kept_def split: if_splits prod.splits option.splits)
    with False show ?thesis using fail page by (cases ok) simp_all
  qed
qed

lemma sbrk_page_ok:
  assumes "sbrk_page K s = (ok, s')" and "maps_pages K pg" and "sbrk_ok pg s"
  shows "sbrk_ok pg s' \<and> sbrk_kept pg s s'"
  using assms(1,2)
proof (cases rule: sbrk_page_cases)
  case fail
  with assms(3) show ?thesis by (auto simp: sbrk_ok_def sbrk_kept_def)
next
  case page
  obtain n where n: "sb_mapped s = n * Page_Bytes"
    using assms(3) by (metis sbrk_ok_def mod_0_imp_dvd dvd_div_mult_self)
  with page(6) have "n < Sbrk_Max_Chunk * Sbrk_Chunk_Pgs"
    by (simp add: Page_Bytes_def div_less_iff_less_mult Sbrk_Chunk_Pgs_def Sbrk_Max_Chunk_def)
  then have lim: "sb_mapped s' \<le> Sbrk_Max_Chunk * Sbrk_Chunk_Pgs * Page_Bytes"
    using page(2) n by (simp add: sbrk_consts)
  have "pg (sb_kern s') (Sbrk_Base + i * Page_Bytes)" if "i * Page_Bytes < sb_mapped s'" for i
  proof (cases "i = n")
    case True
    with page(5) n show ?thesis by simp
  next
    case False
    with that page(2) n have "i * Page_Bytes < sb_mapped s" by (simp add: Page_Bytes_def)
    with assms(3) page(4) show ?thesis unfolding sbrk_ok_def sbrk_kept_def by blast
  qed
  with lim page n assms(3) show ?thesis by (auto simp: sbrk_ok_def sbrk_kept_def)
qed

lemma sbrk_grow_ok:
  assumes "sbrk_grow K need s = (ok, s')" and "maps_pages K pg" and "sbrk_ok pg s"
  shows "sbrk_ok pg s' \<and> sbrk_kept pg s s' \<and> (ok \<longrightarrow> need \<le> sb_mapped s')"
  using assms
proof (induction K need s rule: sbrk_grow.induct)
  case (1 K need s)
  obtain b h where p: "sbrk_page K s = (b, h)" by (metis prod.exhaust)
  show ?case
  proof (cases "need > sb_mapped s \<and> b")
    case True
    with 1(2) p have "sbrk_grow K need h = (ok, s')" by (simp add: sbrk_grow.simps [of K need s])
    with 1(1) [OF _ p [symmetric]] True 1(3) sbrk_page_ok [OF p 1(3,4)] show ?thesis
      by (auto intro: sbrk_kept_trans)
  next
    case False
    then show ?thesis
      using 1(2-4) p sbrk_page_ok [OF p 1(3,4)]
      by (subst (asm) sbrk_grow.simps) (auto simp: sbrk_kept_def split: if_splits)
  qed
qed

text \<open>A call that succeeds returns the old break, and everything up to the new one is mapped.\<close>

lemma Gloss_Sbrk_ok:
  assumes "Gloss_Sbrk K incr s = (r, s')" and "maps_pages K pg" and "sbrk_ok pg s"
  shows "sbrk_ok pg s' \<and> (\<forall>va. pg (sb_kern s) va \<longrightarrow> pg (sb_kern s') va) \<and>
    (r = None \<and> sb_break s' = sb_break s \<or>
     r = Some (Sbrk_Base + sb_break s) \<and> 0 \<le> incr \<and> sb_break s' = sb_break s + nat incr)"
proof (cases "incr < 0")
  case True
  with assms(1,3) show ?thesis by (auto simp: Gloss_Sbrk_def sbrk_ok_def)
next
  case False
  obtain ok h where g: "sbrk_grow K (sb_break s + nat incr) s = (ok, h)" by (metis prod.exhaust)
  from sbrk_grow_ok [OF g assms(2,3)] False assms(1) g show ?thesis
    by (cases ok) (auto simp: Gloss_Sbrk_def Let_def sbrk_ok_def sbrk_kept_def)
qed

text \<open>The bytes the calls of a sequence were given.\<close>

fun granted :: "int list \<Rightarrow> nat option list \<Rightarrow> nat" where
  "granted (i # is) (r # rs) = (if r = None then 0 else nat i) + granted is rs"
| "granted _ _ = 0"

lemma granted_take:
  "length rs = length incs \<Longrightarrow> j < length incs \<Longrightarrow> rs ! j \<noteq> None \<Longrightarrow>
   granted (take j incs) (take j rs) + nat (incs ! j) \<le> granted incs rs"
proof (induction incs rs arbitrary: j rule: granted.induct)
  case (1 i js r rs)
  then show ?case by (cases j) auto
qed auto

lemma sbrk_calls_ranges:
  assumes "sbrk_calls K incs s = (rs, s')" and "maps_pages K pg" and "sbrk_ok pg s"
  shows "sbrk_ok pg s' \<and> length rs = length incs \<and> sb_break s' = sb_break s + granted incs rs \<and>
    (\<forall>j < length incs. \<forall>a. rs ! j = Some a \<longrightarrow> a = Sbrk_Base + sb_break s + granted (take j incs) (take j rs))"
  using assms
proof (induction incs arbitrary: s rs)
  case Nil
  then show ?case by auto
next
  case (Cons i incs)
  obtain r h where r: "Gloss_Sbrk K i s = (r, h)" by (metis prod.exhaust)
  obtain rs' h' where rs: "sbrk_calls K incs h = (rs', h')" by (metis prod.exhaust)
  from Cons.prems(1) r rs have eq: "rs = r # rs'" "s' = h'" by simp_all
  note step = Gloss_Sbrk_ok [OF r Cons.prems(2,3)]
  from Cons.IH [OF rs [folded eq(2)] Cons.prems(2)] step eq(2)
  have IH: "sbrk_ok pg h' \<and> length rs' = length incs \<and> sb_break h' = sb_break h + granted incs rs' \<and>
      (\<forall>j < length incs. \<forall>a. rs' ! j = Some a \<longrightarrow> a = Sbrk_Base + sb_break h + granted (take j incs) (take j rs'))"
    by simp
  have "rs ! j = Some a \<longrightarrow> a = Sbrk_Base + sb_break s + granted (take j (i # incs)) (take j rs)"
    if "j < length (i # incs)" for j a
    using that IH step eq(1) by (cases j) auto
  with IH step eq show ?case by auto
qed

text \<open>
  Property C24: successful calls of \<open>_sbrk\<close> hand out adjoining ranges of the arena, each starting where the one
  before ended and none reaching beyond 4 MiB; the pages under everything handed out are mapped when the
  call returns, and a failing call changes nothing a later one returns.
\<close>

theorem sbrk_hands_out_mapped_ranges:
  assumes "maps_pages K pg" and "sbrk_calls K incs (sbrk_init k) = (rs, s)"
    and "j < length incs" and "rs ! j = Some a"
  shows "a = Sbrk_Base + granted (take j incs) (take j rs) \<and>
    a + nat (incs ! j) \<le> Sbrk_Base + granted incs rs \<and> granted incs rs \<le> 0x400000 \<and>
    (\<forall>i. i * Page_Bytes < granted incs rs \<longrightarrow> pg (sb_kern s) (Sbrk_Base + i * Page_Bytes))"
proof -
  have init: "sbrk_ok pg (sbrk_init k)" by (simp add: sbrk_ok_def sbrk_init_def)
  note r = sbrk_calls_ranges [OF assms(2,1) init]
  have b: "sb_break s = granted incs rs" and ok: "sbrk_ok pg s" using r by (simp_all add: sbrk_init_def)
  have a: "a = Sbrk_Base + granted (take j incs) (take j rs)" using r assms(3,4) by (simp add: sbrk_init_def)
  have "granted (take j incs) (take j rs) + nat (incs ! j) \<le> granted incs rs"
    using assms(3,4) r by (auto intro: granted_take)
  moreover have "granted incs rs \<le> sb_mapped s" "sb_mapped s \<le> 0x400000"
    using ok b by (auto simp: sbrk_ok_def sbrk_consts)
  ultimately show ?thesis using a ok b by (auto simp: sbrk_ok_def)
qed

text \<open>A kernel that records the pages it mapped and refuses the third.\<close>

definition page_kernel :: "nat list kernel_ops" where
  "page_kernel = \<lparr>mem_alloc = (\<lambda>p k. (Some 7, k)),
     mem_map = (\<lambda>c va off len k. if length k < 2 then (0, va # k) else (1, k)), cap_delete = (\<lambda>c k. k)\<rparr>"

lemma page_kernel_maps: "maps_pages page_kernel (\<lambda>k va. va \<in> set k)"
  by (auto simp: maps_pages_def page_kernel_def split: if_splits)

lemma sbrk_grow_steps:
  "need \<le> sb_mapped s \<Longrightarrow> sbrk_grow K need s = (True, s)"
  "sb_mapped s < need \<Longrightarrow> fst (sbrk_page K s) \<Longrightarrow> sbrk_grow K need s = sbrk_grow K need (snd (sbrk_page K s))"
  "sb_mapped s < need \<Longrightarrow> \<not> fst (sbrk_page K s) \<Longrightarrow> sbrk_grow K need s = (False, snd (sbrk_page K s))"
  by (subst sbrk_grow.simps, auto split: prod.splits bool.splits)+

lemma page_kernel_calls:
  "sbrk_calls page_kernel [100, 5000, 9000, 8] (sbrk_init []) =
     ([Some 0x52000000, Some 0x52000064, None, Some 0x520013EC],
      \<lparr>sb_caps = 7 # replicate 15 0, sb_mapped = 8192, sb_break = 5108, sb_errno = 12, sb_kern = [0x52001000, 0x52000000]\<rparr>)"
proof -
  have "replicate Sbrk_Max_Chunk (0 :: nat) = 0 # replicate 15 0" by (simp add: Sbrk_Max_Chunk_def flip: replicate_Suc)
  then show ?thesis
    by (simp add: Gloss_Sbrk_def sbrk_grow_steps sbrk_page_def sbrk_init_def page_kernel_def sbrk_consts Let_def)
qed

theorem sbrk_hands_out_mapped_ranges_witness:
  "sbrk_calls page_kernel [100, 5000, 9000, 8] (sbrk_init []) =
     ([Some 0x52000000, Some 0x52000064, None, Some 0x520013EC],
      \<lparr>sb_caps = 7 # replicate 15 0, sb_mapped = 8192, sb_break = 5108, sb_errno = 12, sb_kern = [0x52001000, 0x52000000]\<rparr>) \<and>
   (0x52001000 :: nat) \<in> set [0x52001000, 0x52000000]"
  using sbrk_hands_out_mapped_ranges [OF page_kernel_maps page_kernel_calls, where j = 1] page_kernel_calls by simp

section \<open>The command line\<close>

text \<open>
  The arguments page, split at blanks: at most 64 words of at most 127 characters; the empty string stands
  for the name of the program.
\<close>

function arg_words :: "nat \<Rightarrow> string \<Rightarrow> string list" where
  "arg_words n s =
     (let s = dropWhile (\<lambda>c. c = CHR '' '') s
      in if n > 64 \<or> s = [] then []
         else take 127 (takeWhile (\<lambda>c. c \<noteq> CHR '' '') s) # arg_words (n + 1) (dropWhile (\<lambda>c. c \<noteq> CHR '' '') s))"
  by auto
termination by (relation "measure (\<lambda>(n, s). 65 - n)") auto

declare arg_words.simps [simp del]

definition Aegir_Init_Args :: "string \<Rightarrow> int \<times> string list" where
  "Aegir_Init_Args s = (let ws = arg_words 1 s in (1 + int (length ws), [] # ws))"

text \<open>The reference: the maximal runs without blanks.\<close>

fun blank_words :: "string \<Rightarrow> string list" where
  "blank_words [] = []"
| "blank_words (c # cs) =
     (if c = CHR '' '' then blank_words cs
      else case cs of [] \<Rightarrow> [[c]]
           | d # ds \<Rightarrow> if d = CHR '' '' then [c] # blank_words cs
                      else case blank_words cs of [] \<Rightarrow> [[c]] | w # ws \<Rightarrow> (c # w) # ws)"

lemma blank_words_skip: "blank_words s = blank_words (dropWhile (\<lambda>c. c = CHR '' '') s)"
  by (induction s) simp_all

lemma blank_words_nonempty: "c \<noteq> CHR '' '' \<Longrightarrow> blank_words (c # cs) \<noteq> []"
  by (auto split: list.splits)

lemma blank_words_first:
  assumes "c \<noteq> CHR '' ''"
  shows "blank_words (c # cs) = (c # takeWhile (\<lambda>c. c \<noteq> CHR '' '') cs) # blank_words (dropWhile (\<lambda>c. c \<noteq> CHR '' '') cs)"
  using assms
proof (induction cs arbitrary: c)
  case (Cons d ds)
  then show ?case by (cases "d = CHR '' ''") auto
qed simp

lemma arg_words_blank: "arg_words n s = map (take 127) (take (65 - n) (blank_words s))"
proof (induction n s rule: arg_words.induct)
  case (1 n s)
  define t where "t = dropWhile (\<lambda>c. c = CHR '' '') s"
  have skip: "blank_words s = blank_words t" unfolding t_def by (rule blank_words_skip)
  have unfold: "arg_words n s = (if n > 64 \<or> t = [] then [] else take 127 (takeWhile (\<lambda>c. c \<noteq> CHR '' '') t) #
      arg_words (n + 1) (dropWhile (\<lambda>c. c \<noteq> CHR '' '') t))"
    unfolding t_def by (subst arg_words.simps) (simp only: Let_def)
  show ?case
  proof (cases "n > 64 \<or> t = []")
    case True
    with skip unfold show ?thesis by auto
  next
    case False
    then obtain c cs where s: "t = c # cs" by (cases t) auto
    then have c: "c \<noteq> CHR '' ''" using hd_dropWhile [of "\<lambda>c. c = CHR '' ''" s] by (simp add: t_def)
    have n: "65 - n = Suc (65 - (n + 1))" using False by linarith
    have IH: "arg_words (n + 1) (dropWhile (\<lambda>c. c \<noteq> CHR '' '') t) =
        map (take 127) (take (65 - (n + 1)) (blank_words (dropWhile (\<lambda>c. c \<noteq> CHR '' '') t)))"
      using 1 [OF t_def] False by simp
    have "blank_words t = takeWhile (\<lambda>c. c \<noteq> CHR '' '') t # blank_words (dropWhile (\<lambda>c. c \<noteq> CHR '' '') t)"
      using blank_words_first [OF c] c s by simp
    then show ?thesis using False unfold IH unfolding skip n by simp
  qed
qed

text \<open>
  The argument vector is the empty name followed by the first 64 words of the arguments page,
  each cut to 127 characters, and the argument count is its length.
\<close>

theorem init_args_are_words:
  "Aegir_Init_Args s = (int (length (snd (Aegir_Init_Args s))), [] # map (take 127) (take 64 (blank_words s)))"
  by (simp add: Aegir_Init_Args_def arg_words_blank Let_def)

section \<open>The wall clock\<close>

text \<open>
  The parameters are the board's clock (0 seconds when there is none), the semihosting answer, the bytes of the
  build's epoch file and the tick counter.
\<close>

record 'k clock_hw =
  hw_read_clock :: "'k \<Rightarrow> nat \<times> nat \<times> 'k"
  hw_sh_time :: "'k \<Rightarrow> int \<times> 'k"
  hw_epoch_file :: "'k \<Rightarrow> string option \<times> 'k"
  hw_rdtime :: "'k \<Rightarrow> nat \<times> 'k"

record 'k wall_clock =
  wc_seeded :: bool
  wc_epoch :: nat
  wc_ticks :: nat
  wc_kern :: 'k

definition Tick_Hz :: nat where "Tick_Hz = 10000000"

fun epoch_digits :: "nat \<Rightarrow> bool \<Rightarrow> string \<Rightarrow> nat \<times> bool" where
  "epoch_digits acc got [] = (acc, got)"
| "epoch_digits acc got (c # cs) =
     (if of_char c < (48 :: nat) \<or> of_char c > (57 :: nat) then (acc, got)
      else epoch_digits ((acc * 10 + (of_char c - 48)) mod 2 ^ 64) True cs)"

definition Seed_Clock :: "'k clock_hw \<Rightarrow> 'k wall_clock \<Rightarrow> 'k wall_clock" where
  "Seed_Clock H s =
     (let (sh, k) = hw_sh_time H (wc_kern s);
          (epoch, k) = (if sh > 0 then (nat sh, k)
                        else let (file, k) = hw_epoch_file H k;
                                 (acc, got) = epoch_digits 0 False (case file of None \<Rightarrow> [] | Some f \<Rightarrow> take 32 f)
                             in (if got then acc else wc_epoch s, k));
          (ticks, k) = hw_rdtime H k
      in s\<lparr>wc_epoch := epoch, wc_ticks := ticks, wc_seeded := True, wc_kern := k\<rparr>)"

text \<open>The seconds and microseconds stored; the result is always 0.\<close>

definition Gloss_Gettimeofday :: "'k clock_hw \<Rightarrow> 'k wall_clock \<Rightarrow> (nat \<times> nat) \<times> 'k wall_clock" where
  "Gloss_Gettimeofday H s =
     (let (secs, ns, k) = hw_read_clock H (wc_kern s); s = s\<lparr>wc_kern := k\<rparr>
      in if secs \<noteq> 0 then ((secs, ns div 1000), s)
         else let s = (if wc_seeded s then s else Seed_Clock H s);
                  (t, k) = hw_rdtime H (wc_kern s);
                  elapsed = (t + 2 ^ 64 - wc_ticks s) mod 2 ^ 64
              in (((wc_epoch s + elapsed div Tick_Hz) mod 2 ^ 64, (elapsed mod Tick_Hz) * 1000000 div Tick_Hz),
                  s\<lparr>wc_kern := k\<rparr>))"

text \<open>
  Without a board clock the time is the seed plus the elapsed ticks, to the microsecond: a tick is a tenth of
  one, so no two calls disagree and the clock does not run backwards while the counter does not.
\<close>

theorem synthesized_time_exact:
  assumes "hw_read_clock H (wc_kern s) = (0, ns, k)" and "wc_seeded s" and "hw_rdtime H k = (t, k')"
    and "wc_ticks s \<le> t" and "t < 2 ^ 64" and "wc_epoch s + t div Tick_Hz < 2 ^ 64"
    and "Gloss_Gettimeofday H s = ((secs, us), s')"
  shows "secs * 1000000 + us = wc_epoch s * 1000000 + (t - wc_ticks s) div 10 \<and> us < 1000000"
proof -
  let ?e = "t - wc_ticks s"
  have e: "(t + 2 ^ 64 - wc_ticks s) mod 2 ^ 64 = ?e"
    using assms(4,5) by (metis Nat.diff_add_assoc2 add.commute less_imp_diff_less mod_add_self1 mod_less)
  have "?e div Tick_Hz \<le> t div Tick_Hz" by (intro div_le_mono) simp
  then have "(wc_epoch s + ?e div Tick_Hz) mod 2 ^ 64 = wc_epoch s + ?e div Tick_Hz" using assms(6) by simp
  with assms(1-3,7) e have "secs = wc_epoch s + ?e div Tick_Hz" "us = (?e mod Tick_Hz) * 1000000 div Tick_Hz"
    by (auto simp: Gloss_Gettimeofday_def Let_def)
  moreover have "(?e mod Tick_Hz) * 1000000 div Tick_Hz = ?e mod Tick_Hz div 10"
    by (simp add: Tick_Hz_def)
  moreover have "?e div Tick_Hz * 1000000 + ?e mod Tick_Hz div 10 = ?e div 10" "?e mod Tick_Hz div 10 < 1000000"
    using div_mult2_eq [of ?e 10 1000000] mod_mult2_eq [of ?e 10 1000000] div_mult_mod_eq [of "?e div 10" 1000000]
    by (simp_all add: Tick_Hz_def)
  ultimately show ?thesis by (simp add: algebra_simps)
qed

section \<open>What is not implemented\<close>

abbreviation (input) ENOSYS :: int where "ENOSYS \<equiv> 88"

definition not_implemented :: "'w gloss \<Rightarrow> int \<times> 'w gloss" where
  "not_implemented g = (- 1, Fail ENOSYS g)"

definition Gloss_Fork :: "'w gloss \<Rightarrow> int \<times> 'w gloss" where "Gloss_Fork = not_implemented"
definition Gloss_Kill :: "int \<Rightarrow> int \<Rightarrow> 'w gloss \<Rightarrow> int \<times> 'w gloss" where "Gloss_Kill pid sig = not_implemented"
definition Gloss_Execv :: "string \<Rightarrow> string list \<Rightarrow> 'w gloss \<Rightarrow> int \<times> 'w gloss" where
  "Gloss_Execv path argv = not_implemented"
definition Gloss_Link :: "string \<Rightarrow> string \<Rightarrow> 'w gloss \<Rightarrow> int \<times> 'w gloss" where "Gloss_Link old new = not_implemented"
definition Gloss_Dup :: "int \<Rightarrow> 'w gloss \<Rightarrow> int \<times> 'w gloss" where "Gloss_Dup fd = not_implemented"
definition Gloss_Dup2 :: "int \<Rightarrow> int \<Rightarrow> 'w gloss \<Rightarrow> int \<times> 'w gloss" where "Gloss_Dup2 old new = not_implemented"
definition Gloss_Readlink :: "string \<Rightarrow> 'w gloss \<Rightarrow> int \<times> 'w gloss" where "Gloss_Readlink path = not_implemented"
definition Gloss_Symlink :: "string \<Rightarrow> string \<Rightarrow> 'w gloss \<Rightarrow> int \<times> 'w gloss" where
  "Gloss_Symlink old new = not_implemented"

text \<open>The status is stored as 0 before the call fails.\<close>

definition Gloss_Waitpid :: "int \<Rightarrow> int \<Rightarrow> 'w gloss \<Rightarrow> int \<times> int \<times> 'w gloss" where
  "Gloss_Waitpid pid options g = (let (r, g) = not_implemented g in (r, 0, g))"

definition Gloss_Getpid :: int where "Gloss_Getpid = 1"
definition Gloss_Getppid :: int where "Gloss_Getppid = 1"
definition Gloss_Chmod :: "string \<Rightarrow> u32 \<Rightarrow> int" where "Gloss_Chmod path mode = 0"
definition Gloss_Utimensat :: "string \<Rightarrow> int" where "Gloss_Utimensat path = 0"
definition Gloss_Sysconf :: "int \<Rightarrow> int" where "Gloss_Sysconf name = 4096"
definition Gloss_Ttyname :: "int \<Rightarrow> string" where "Gloss_Ttyname fd = ''console''"

definition Gloss_Execve :: "string \<Rightarrow> string list \<Rightarrow> string list \<Rightarrow> 'w gloss \<Rightarrow> int \<times> 'w gloss" where
  "Gloss_Execve path argv envp = not_implemented"

definition Gloss_Wait :: "'w gloss \<Rightarrow> int \<times> int \<times> 'w gloss" where
  "Gloss_Wait g = (let (r, g) = not_implemented g in (r, 0, g))"

text \<open>The four times are stored as 0; the value converted from a long double is always 0.\<close>

definition Gloss_Times :: "nat list \<times> nat" where "Gloss_Times = (replicate 4 0, 0)"
definition Trunc_TF_Stub :: int where "Trunc_TF_Stub = 0"

text \<open>
  The names without and with an underscore: \<open>mkdir\<close> calls \<open>_mkdir\<close>, and \<open>_chdir\<close> has the body of \<open>chdir\<close>.
\<close>

definition Gloss_Mkdir_Alias :: "'w server \<Rightarrow> string \<Rightarrow> 'w gloss \<Rightarrow> int \<times> 'w gloss" where
  "Gloss_Mkdir_Alias S path g = Gloss_Mkdir S path g"

definition Gloss_Stub_Path :: "'w server \<Rightarrow> string \<Rightarrow> 'w gloss \<Rightarrow> int \<times> 'w gloss" where
  "Gloss_Stub_Path S path g =
     (let (p, g) = Qualify S path g; (st, g) = Set_CWD S p (Ensure_Bound g)
      in if st \<noteq> Status_Ok then (- 1, Fail G_ENOENT g) else (0, g))"

text \<open>
  The calls \<open>_exit\<close> makes, in order; it does not return. The status is converted to an unsigned number, and the conversion
  raises for a negative one, which is the last entry then.
\<close>

datatype exit_call = Close_Redirect | Process_Exit nat | Range_Check_Fails

definition Gloss_Exit :: "bool \<Rightarrow> int \<Rightarrow> exit_call list" where
  "Gloss_Exit redirected code =
     (if redirected then [Close_Redirect] else []) @ [if code < 0 then Range_Check_Fails else Process_Exit (nat code)]"

lemma exit_reaches_kernel:
  "last (Gloss_Exit redirected code) = Process_Exit (nat code) \<longleftrightarrow> 0 \<le> code"
  by (auto simp: Gloss_Exit_def)

end
