(* ===== verification/Gnat_Gloss.thy ===== *)
theory Gnat_Gloss
  imports Gnat_Streams Gloss_Spec Gloss_Sys
begin

text \<open>
  The runtime's host interface on the system call layer it runs on: the calls of \<^verbatim>\<open>adaint.c\<close>, \<^verbatim>\<open>env.c\<close> and \<^verbatim>\<open>cstreams.c\<close>
  with the operations of \<^verbatim>\<open>aegir_user-gloss.adb\<close> as their parameter. The file server stays a parameter.
\<close>

section \<open>The layer as the C library's calls\<close>

definition os_of_gloss :: "gloss_stat \<Rightarrow> os_stat" where
  "os_of_gloss s = \<lparr>os_mode = gs_mode s, os_nlink = gs_nlink s, os_size = sint (word_of_nat (gs_size s) :: u64),
                    os_mtime = int (gs_mtime s), os_mtime_ns = 0\<rparr>"

text \<open>\<open>mk\<close> is the C library's \<open>mktemp\<close> and \<open>junk\<close> an uninitialized buffer; an offset is passed as its 64 bits.\<close>

definition gloss_posix ::
  "'w server \<Rightarrow> (string \<Rightarrow> 'w gloss \<Rightarrow> string option \<times> 'w gloss) \<Rightarrow> os_stat \<Rightarrow> 'w gloss posix" where
  "gloss_posix S mk junk =
     \<lparr>px_open = Gloss_Open S,
      px_close = Gloss_Close S,
      px_lseek = (\<lambda>fd off whence g. let (r, g) = Gloss_Lseek S fd (nat (off mod 2 ^ 64)) whence g
                                   in (sint (word_of_nat r :: u64), g)),
      px_stat = (\<lambda>name g. let (r, s, g) = Gloss_Stat S name g in (r, map_option os_of_gloss s, g)),
      px_junk = junk,
      px_access = (\<lambda>name mode. Gloss_Access S name),
      px_unlink = Gloss_Unlink S,
      px_rename_hook = Gloss_Rename S,
      px_link = Gloss_Link,
      px_symlink = Gloss_Symlink,
      px_readlink = Gloss_Readlink,
      px_chdir = Gloss_Chdir S,
      px_mkdir = (\<lambda>name mode. Gloss_Mkdir S name),
      px_rmdir = Gloss_Rmdir S,
      px_chmod = (\<lambda>name mode g. (Gloss_Chmod name mode, g)),
      px_utimensat = (\<lambda>name sec ns g. (Gloss_Utimensat name, g)),
      px_fcntl = (\<lambda>fd cmd arg. Gloss_Fcntl fd),
      px_dup = Gloss_Dup,
      px_dup2 = Gloss_Dup2,
      px_fork = Gloss_Fork,
      px_execv = (\<lambda>args. Gloss_Execv (hd args) args),
      px_waitpid = Gloss_Waitpid,
      px_getpid = Gloss_Getpid,
      px_getppid = Gloss_Getppid,
      px_sysconf = Gloss_Sysconf,
      px_mktemp = mk\<rparr>"

definition gloss_env :: "'w server \<Rightarrow> 'w gloss env_hooks" where
  "gloss_env S =
     \<lparr>aegir_env_get = (\<lambda>name n g. let (r, buf, g) = Aegir_Env_Get S name (nat n) g in (r, buf)),
      aegir_env_set = (\<lambda>name v g. snd (Aegir_Env_Set S name v g)),
      aegir_env_unset = (\<lambda>name g. snd (Aegir_Env_Unset S name g))\<rparr>"

definition gloss_dirs :: "'w server \<Rightarrow> 'w gloss dir_hooks" where
  "gloss_dirs S = \<lparr>aegir_opendir = Aegir_Opendir S, aegir_readdir = Aegir_Readdir S, aegir_closedir = Aegir_Closedir\<rparr>"

section \<open>Processes and locks\<close>

text \<open>
  There are no processes. Every way of starting one reports failure without executing the child's
  branch, waiting for one fails with status 0, and the only effect of each is \<open>errno\<close>.
\<close>

theorem no_processes:
  "gnat_portable_spawn (gloss_posix S mk junk) args g = (Returned (- 1), Fail ENOSYS g) \<and>
   gnat_portable_no_block_spawn (gloss_posix S mk junk) args g = (Returned (- 1), Fail ENOSYS g) \<and>
   gnat_portable_wait (gloss_posix S mk junk) g = (- 1, 0, Fail ENOSYS g) \<and>
   gnat_portable_no_block_wait (gloss_posix S mk junk) g = (- 1, 0, Fail ENOSYS g)"
  by (simp add: gnat_portable_spawn_def gnat_portable_no_block_spawn_def gnat_portable_wait_def
      gnat_portable_no_block_wait_def gloss_posix_def Gloss_Fork_def Gloss_Waitpid_def not_implemented_def)

text \<open>Every name of \<open>sysconf\<close> is answered with the page size, the number of processors too.\<close>

lemma number_of_cpus_is_page_size: "gnat_number_of_cpus (gloss_posix S mk junk) = 4096"
  by (simp add: gnat_number_of_cpus_def gloss_posix_def Gloss_Sysconf_def int_of_u64_def signed_ucast_eq)

lemma try_lock_by_nlink:
  assumes "gnat_try_lock P dir file w = Some (r, w')"
    and "\<And>name v q s v'. px_stat P name v = (q, s, v') \<Longrightarrow> os_nlink (case s of None \<Rightarrow> px_junk P | Some b \<Rightarrow> b) \<noteq> 2"
  shows "r = 0"
proof -
  obtain fd w1 where o: "px_open P (lock_temp P dir) (0x200 OR 1) w = (fd, w1)" by fastforce
  obtain w2 where c: "snd (px_close P fd w1) = w2" by simp
  obtain w3 where l: "snd (px_link P (lock_temp P dir) (lock_path dir file) w2) = w3" by simp
  obtain q s w4 where t: "px_stat P (lock_temp P dir) w3 = (q, s, w4)" by (metis prod_cases3)
  show ?thesis
    using assms(1) assms(2) [OF t] o c l t
    by (auto simp: gnat_try_lock_def Let_def split: prod.splits if_splits)
qed

lemma Gloss_Stat_nlink:
  assumes "Gloss_Stat S name g = (r, Some s, g')"
  shows "gs_nlink s = 1"
  using assms by (auto simp: Gloss_Stat_def Fill_Stat_def Let_def split: prod.splits if_splits)

text \<open>
  Defect: \<^verbatim>\<open>__gnat_try_lock\<close> never takes a lock. It decides by the link count of its temporary file being 2,
  but hard links cannot be made here and every file reports a count of 1, so it returns 0 even when nobody
  holds the lock (unless the stat fails and an uninitialized buffer happens to hold 2).
\<close>

theorem try_lock_never_succeeds:
  assumes "gnat_try_lock (gloss_posix S mk junk) dir file g = Some (r, g')" and "os_nlink junk \<noteq> 2"
  shows "r = 0"
proof (rule try_lock_by_nlink [OF assms(1)])
  fix name v q s v'
  assume "px_stat (gloss_posix S mk junk) name v = (q, s, v')"
  then show "os_nlink (case s of None \<Rightarrow> px_junk (gloss_posix S mk junk) | Some b \<Rightarrow> b) \<noteq> 2"
    using assms(2) Gloss_Stat_nlink [of S name v q _ v']
    by (auto simp: gloss_posix_def os_of_gloss_def split: option.splits prod.splits)
qed


text \<open>The lock file \<open>BD0:lock\<close> does not exist, and yet it is not taken.\<close>

definition blank_stat :: os_stat where
  "blank_stat = \<lparr>os_mode = 0, os_nlink = 0, os_size = 0, os_mtime = 0, os_mtime_ns = 0\<rparr>"

lemma char_of_49: "char_of (49 :: nat) = CHR ''1''"
  by code_simp

lemma lock_temp_demo: "lock_temp (gloss_posix S mk junk) ''BD0:'' = ''BD0:/TMP-1-1''"
  by (simp add: lock_temp_def gloss_posix_def Gloss_Getpid_def Gloss_Getppid_def long_decimal_def decimal_digits.simps
      DIR_SEPARATOR_def char_of_49)

lemma try_lock_demo:
  "\<exists>r g. gnat_try_lock (gloss_posix mem_server mk blank_stat) ''BD0:'' ''lock'' (gloss_init Map.empty) = Some (r, g)"
  by (simp add: gnat_try_lock_def lock_temp_demo lock_path_def DIR_SEPARATOR_def Let_def split: prod.splits)

theorem try_lock_never_succeeds_witness:
  "\<exists>g. gnat_try_lock (gloss_posix mem_server (\<lambda>t g. (Some t, g)) blank_stat) ''BD0:'' ''lock'' (gloss_init Map.empty)
     = Some (0, g)"
  using try_lock_demo [of "\<lambda>t g. (Some t, g)"] try_lock_never_succeeds [where junk = blank_stat]
  by (metis blank_stat_def os_stat.select_convs(2) zero_neq_numeral)

section \<open>Opening a new file\<close>

text \<open>
  Property C27: while the file server is ready, that is, answers the open of the file with success (\<open>opens_ok\<close>), the runtime's two
  ways of creating a file that must be new never touch an existing one: on a name with its volume that the server has as a plain
  file, \<^verbatim>\<open>__gnat_open_new\<close> and \<^verbatim>\<open>__gnat_create_output_file_new\<close> (which asks for truncation as well) return -1 with \<open>EEXIST\<close>, or
  \<open>EMFILE\<close> without a free descriptor, and the contents stay. The condition is needed: a server that answers not ready loses the file
  (\<open>busy_server_loses_file\<close>).
\<close>

theorem create_new_keeps_file:
  assumes "plain_open S p cont" and "opens_ok S p cont" and "wired p" and "cont (g_world g) = Some c" and "gloss_wf g"
    and "length c < 2 ^ 64"
    and "r \<in> {gnat_open_new (gloss_posix S mk junk) p fmode g,
      gnat_create_output_file_new (gloss_posix S mk junk) p g}"
  shows "fst r = - 1 \<and> (g_errno (snd r) = G_EEXIST \<or> g_errno (snd r) = G_EMFILE) \<and> cont (g_world (snd r)) = Some c"
proof -
  have "r = Gloss_Open S p 0xA01 g \<or> r = Gloss_Open S p 0xE01 g"
    using assms(7) open_excl_refused [OF assms(1-6), of "0xA01"] open_excl_refused [OF assms(1-6), of "0xE01"]
    by (auto simp: gnat_open_new_def gnat_create_output_file_new_def open_fd_def gloss_posix_def o_fmode_def)
  then show ?thesis
    using open_excl_refused [OF assms(1-6), of "0xA01"] open_excl_refused [OF assms(1-6), of "0xE01"] by auto
qed

theorem create_new_keeps_file_witness:
  "fst (gnat_create_output_file_new (gloss_posix mem_server (\<lambda>t g. (Some t, g)) blank_stat) ''BD0:a'' demo_gloss) = - 1 \<and>
   g_world (snd (gnat_create_output_file_new (gloss_posix mem_server (\<lambda>t g. (Some t, g)) blank_stat) ''BD0:a'' demo_gloss))
     ''BD0:a'' = Some ''hello''"
  using create_new_keeps_file [OF mem_plain(1,4) wired_demo demo_simps(5,6), where mk = "\<lambda>t g. (Some t, g)" and junk = blank_stat,
      OF _ insertI2 [OF insertI1]]
  by simp

text \<open>
  Defect: every failure of the open is taken for a missing file. On a server that answers its first open with not ready and is
  a plain file server otherwise, the exclusive creation of an existing file succeeds and empties it.
\<close>

definition busy_server :: "mem_fs server" where
  "busy_server = mem_server\<lparr>srv_open := (\<lambda>q w. if w ''busy'' \<noteq> None then (Status_Not_Ready, 0, w(''busy'' := None))
     else srv_open mem_server q w)\<rparr>"

lemma busy_plain: "plain_open busy_server ''BD0:a'' (\<lambda>w. w ''BD0:a'')"
  by (auto simp: plain_open_def busy_server_def mem_server_def mem_size_def split: option.splits)

theorem busy_server_loses_file:
  "plain_open busy_server ''BD0:a'' (\<lambda>w. w ''BD0:a'') \<and>
   fst (gnat_create_output_file_new (gloss_posix busy_server mk junk) ''BD0:a''
     (demo_gloss\<lparr>g_world := [''BD0:a'' \<mapsto> ''hello'', ''busy'' \<mapsto> []]\<rparr>)) = 4 \<and>
   g_world (snd (gnat_create_output_file_new (gloss_posix busy_server mk junk) ''BD0:a''
     (demo_gloss\<lparr>g_world := [''BD0:a'' \<mapsto> ''hello'', ''busy'' \<mapsto> []]\<rparr>))) ''BD0:a'' = Some []"
  using busy_plain
  by (simp add: gnat_create_output_file_new_def open_fd_def gloss_posix_def mem_eval busy_server_def demo_gloss_def demo_fd_def)

end
