(* ===== verification/Gnat_Env.thy ===== *)
theory Gnat_Env
  imports Gnat_Gloss
begin

text \<open>
  Environment variables, directory walks and full names, from the runtime's C functions down to the requests to the file
  server: the environment is a finite map, a walk lists a directory, and which names the runtime records for
  the files it opens.
\<close>

section \<open>The environment as a map\<close>







section \<open>Variables as files\<close>










lemma Ensure_Bound_frame [simp]:
  "g_world (Ensure_Bound g) = g_world g" "g_bound (Ensure_Bound g)"
  by (auto simp: Ensure_Bound_def)








section \<open>Directory walks\<close>

text \<open>A walk of at most \<open>n\<close> reads over a directory stream, and the names it returns.\<close>

fun dir_walk :: "'w dir_hooks \<Rightarrow> nat \<Rightarrow> u64 \<Rightarrow> 'w \<Rightarrow> string list \<times> 'w" where
  "dir_walk h 0 dirp w = ([], w)"
| "dir_walk h (Suc n) dirp w =
     (case gnat_readdir h dirp w of (None, w) \<Rightarrow> ([], w)
      | (Some (name, len), w) \<Rightarrow> let (names, w) = dir_walk h n dirp w in (name # names, w))"

text \<open>The server lists the entries \<open>es\<close> of the directory \<open>q\<close>, by index; their names fit the protocol's field.\<close>

definition lists_dir :: "'w server \<Rightarrow> string \<Rightarrow> string list \<Rightarrow> bool" where
  "lists_dir S q es \<longleftrightarrow>
     (\<forall>i w. \<exists>w'. srv_read_dir S q i w = (if i < length es then (Status_Ok, es ! i, w') else (Status_Not_Found, [], w'))) \<and>
     (\<forall>e \<in> set es. e \<noteq> [] \<and> length e \<le> 24 \<and> CHR 0x00 \<notin> set e)"

text \<open>The stream in slot \<open>d\<close> stands before entry \<open>k\<close> of the directory \<open>p\<close>.\<close>

definition walking :: "'w gloss \<Rightarrow> nat \<Rightarrow> string \<Rightarrow> nat \<Rightarrow> bool" where
  "walking g d p k \<longleftrightarrow> d < length (g_dirs g) \<and> g_dirs g ! d = \<lparr>dir_used = True, dir_path = p, dir_next = k\<rparr> \<and>
     g_files_ep g \<noteq> 0"

lemma takeWhile_no_nul: "CHR 0x00 \<notin> set e \<Longrightarrow> takeWhile (\<lambda>c. c \<noteq> CHR 0x00) e = e"
  by (auto simp: takeWhile_eq_all_conv)

lemma readdir_step:
  assumes "lists_dir S p es" "length es < 2 ^ 64" "wired p" "walking g d p k" "d < 2 ^ 31 - 1"
  shows "k < length es \<Longrightarrow> \<exists>g'. gnat_readdir (gloss_dirs S) (word_of_int (int d + 1)) g =
      (Some (es ! k, int (length (es ! k))), g') \<and> walking g' d p (Suc k) \<and> length (g_dirs g') = length (g_dirs g)"
    and "\<not> k < length es \<Longrightarrow> fst (gnat_readdir (gloss_dirs S) (word_of_int (int d + 1)) g) = None"
proof -
  obtain w where w: "srv_read_dir S p k (g_world g) =
      (if k < length es then (Status_Ok, es ! k, w) else (Status_Not_Found, [], w))"
    using assms(1) unfolding lists_dir_def by blast
  have d: "d < length (g_dirs g)" "g_dirs g ! d = \<lparr>dir_used = True, dir_path = p, dir_next = k\<rparr>" "g_files_ep g \<noteq> 0"
    using assms(4) by (simp_all add: walking_def)
  have p: "Qualified g p = p" "p \<noteq> []" using assms(3) by simp_all
  have read: "gnat_readdir (gloss_dirs S) (word_of_int (int d + 1)) g =
      (let (n, buf, g) = Aegir_Readdir S (int d) 280 g in (if n < 0 then None else Some (buf, n), g))"
    using assms(5) by (simp add: gnat_readdir_def gloss_dirs_def dir_slot_of_slot [OF of_nat_0_le_iff, of d, simplified])
  show "\<exists>g'. gnat_readdir (gloss_dirs S) (word_of_int (int d + 1)) g =
      (Some (es ! k, int (length (es ! k))), g') \<and> walking g' d p (Suc k) \<and> length (g_dirs g') = length (g_dirs g)"
    if k: "k < length es"
  proof -
    have e: "es ! k \<noteq> []" "length (es ! k) \<le> 24" "CHR 0x00 \<notin> set (es ! k)"
      using assms(1) k unfolding lists_dir_def by auto
    have "(Suc k) mod 2 ^ 64 = Suc k" using k assms(2) by simp
    then show ?thesis
      unfolding read using d w k e p
      by (simp add: Aegir_Readdir_def Files_Read_Dir_def takeWhile_no_nul walking_def)
  qed
  show "fst (gnat_readdir (gloss_dirs S) (word_of_int (int d + 1)) g) = None" if "\<not> k < length es"
    unfolding read using d w that p by (simp add: Aegir_Readdir_def Files_Read_Dir_def)
qed

lemma walk_from:
  assumes "lists_dir S p es" "length es < 2 ^ 64" "wired p" "d < 2 ^ 31 - 1"
  shows "walking g d p k \<Longrightarrow> length es - k < n \<Longrightarrow>
    fst (dir_walk (gloss_dirs S) n (word_of_int (int d + 1)) g) = drop k es"
proof (induction n arbitrary: g k)
  case (Suc n)
  note step = readdir_step [OF assms(1-3) Suc.prems(1) assms(4)]
  show ?case
  proof (cases "k < length es")
    case True
    then obtain g' where g': "gnat_readdir (gloss_dirs S) (word_of_int (int d + 1)) g =
        (Some (es ! k, int (length (es ! k))), g')" "walking g' d p (Suc k)"
      using step(1) by blast
    have "fst (dir_walk (gloss_dirs S) n (word_of_int (int d + 1)) g') = drop (Suc k) es"
      using Suc.IH [OF g'(2)] Suc.prems(2) True by linarith
    then show ?thesis using g'(1) Cons_nth_drop_Suc [OF True] by (auto split: prod.splits)
  next
    case False
    then show ?thesis using step(2) by (auto split: prod.splits)
  qed
qed simp

text \<open>
  Property C23: a walk lists a directory. A stream that \<^verbatim>\<open>__gnat_opendir\<close> opened on a directory whose entries the file
  server enumerates returns from \<^verbatim>\<open>__gnat_readdir\<close> every entry once and in order, then a null pointer: enough reads
  give exactly the list, and closing the stream succeeds.
\<close>

theorem directory_walk_lists:
  assumes "lists_dir S p es" and "length es < 2 ^ 64" and "wired p" and "gloss_wf g" and "length (g_dirs g) < 2 ^ 31 - 1"
    and "gnat_opendir (gloss_dirs S) p g = (dirp, g')" and "dirp \<noteq> 0" and "length es < n"
  shows "fst (dir_walk (gloss_dirs S) n dirp g') = es \<and> fst (gnat_closedir (gloss_dirs S) dirp g') = 0"
proof -
  obtain d where d: "dirp = word_of_int (int d + 1)" "d \<le> length (g_dirs g)" "walking g' d p 0"
    using assms(3,6,7) Ensure_Bound_ep [OF assms(4)]
    by (auto simp: gnat_opendir_def gloss_dirs_def Aegir_Opendir_def Let_def walking_def nth_append find_Some_iff
        split: option.splits prod.splits if_splits)
  have small: "d < 2 ^ 31 - 1" using d(2) assms(5) by simp
  have "fst (gnat_closedir (gloss_dirs S) dirp g') = 0"
    using d(3) small by (simp add: d(1) gnat_closedir_def gloss_dirs_def dir_slot_of_slot [OF of_nat_0_le_iff, of d, simplified]
        Aegir_Closedir_def walking_def)
  moreover have "fst (dir_walk (gloss_dirs S) n dirp g') = es"
    using walk_from [OF assms(1-3) small d(3), of n] assms(8) by (simp add: d(1))
  ultimately show ?thesis by simp
qed

definition two_entries :: "mem_fs server" where
  "two_entries = mem_server\<lparr>srv_read_dir := (\<lambda>q i w. if i < 2 then (Status_Ok, [''a'', ''lib''] ! i, w) else (Status_Not_Found, [], w))\<rparr>"

lemma two_entries_lists: "lists_dir two_entries ''BD0:d'' [''a'', ''lib'']"
  by (simp add: lists_dir_def two_entries_def)

lemma two_entries_opendir:
  "gnat_opendir (gloss_dirs two_entries) ''BD0:d'' (gloss_init Map.empty) =
     (1, (Ensure_Bound (gloss_init Map.empty))\<lparr>g_dirs := [\<lparr>dir_used = True, dir_path = ''BD0:d'', dir_next = 0\<rparr>]\<rparr>)"
  by (simp add: gnat_opendir_def gloss_dirs_def Aegir_Opendir_def Qualify_def Let_def gloss_init_def two_entries_def
      mem_server_def Ensure_Bound_def)

theorem directory_walk_lists_witness:
  "fst (dir_walk (gloss_dirs two_entries) 3 1 (snd (gnat_opendir (gloss_dirs two_entries) ''BD0:d'' (gloss_init Map.empty))))
     = [''a'', ''lib'']"
  unfolding two_entries_opendir snd_conv
  by (rule directory_walk_lists [OF two_entries_lists _ _ gloss_wf_init _ two_entries_opendir, THEN conjunct1])
    (simp_all add: wired_def Max_Path_def gloss_init_def)

section \<open>Recorded names\<close>

text \<open>
  A file of the Ada library is opened by the name given and recorded under its full name; deleting the file and changing
  its mode use the recorded one. \<open>full_name_of\<close> is what \<^verbatim>\<open>__gnat_full_name\<close> stores with the layer's \<open>getcwd\<close>.
\<close>

definition full_name_of :: "'w server \<Rightarrow> nat \<Rightarrow> nat \<Rightarrow> string \<Rightarrow> 'w gloss \<Rightarrow> string option option" where
  "full_name_of S max_path_len cap nam g = gnat_full_name max_path_len cap (\<lambda>n. fst (Gloss_Getcwd S n g)) nam"

lemma Get_CWD_nonempty: "fst (Get_CWD S g) \<noteq> []"
  by (auto simp: Get_CWD_def Let_def split: prod.splits)

text \<open>
  Property C28 (defect): the name recorded for an opened file is the current directory followed by the name, without the
  separator and also for a name that starts with a volume. It names the file that was opened only when the name has no
  volume and the current directory is the root of one.
\<close>

theorem full_name_names_opened_file_iff:
  assumes "g_bound g" and "nam \<noteq> []" and "hd nam \<noteq> CHR ''/''" and "hd (fst (Get_CWD S g)) \<noteq> CHR ''/''"
    and "length (fst (Get_CWD S g)) < max_path_len" and "length (fst (Get_CWD S g)) + length nam < cap"
  shows "full_name_of S max_path_len cap nam g = Some (Some (fst (Get_CWD S g) @ nam)) \<and>
    (full_name_of S max_path_len cap nam g = Some (Some (fst (Qualify S nam g))) \<longleftrightarrow>
     CHR '':'' \<notin> set nam \<and> last (fst (Get_CWD S g)) = CHR '':'')"
proof -
  obtain cwd g' where c: "Get_CWD S g = (cwd, g')" by fastforce
  have "Ensure_Bound g = g" using assms(1) by (simp add: Ensure_Bound_def)
  then have "full_name_of S max_path_len cap nam g = Some (Some (cwd @ nam))"
    using assms(2-6) c by (simp add: full_name_of_def gnat_full_name_def Gloss_Getcwd_def)
  then show ?thesis using Get_CWD_nonempty [of S g] c by (auto simp: Qualify_def)
qed

theorem full_name_names_opened_file_iff_witness:
  "(let g = Ensure_Bound (gloss_init [''ENV:CWD'' \<mapsto> ''BD0:Work'', ''BD0:Work/x'' \<mapsto> ''data''])
    in full_name_of mem_server 1024 1025 ''x'' g = Some (Some ''BD0:Workx'') \<and> fst (Qualify mem_server ''x'' g) = ''BD0:Work/x'')"
proof -
  let ?g = "Ensure_Bound (gloss_init [''ENV:CWD'' \<mapsto> ''BD0:Work'', ''BD0:Work/x'' \<mapsto> ''data''])"
  have c: "Get_CWD mem_server ?g = (''BD0:Work'', ?g)" by (simp add: mem_eval)
  then have "full_name_of mem_server 1024 1025 ''x'' ?g = Some (Some ''BD0:Workx'')"
    using full_name_names_opened_file_iff [of ?g "''x''" mem_server 1024 1025] by simp
  with c show ?thesis by (simp add: Qualify_def)
qed

end
