(* ===== verification/Kernel_Frames.thy ===== *)
theory Kernel_Frames
  imports Aegir_Prelude
begin

text \<open>
  The kernel's physical frame allocator, \<open>src/src/kernel/kernel-physical_memory.adb\<close>: a bump pointer that steps over
  reserved ranges and an intrusive free list whose links live in the free frames themselves. The package's variables are the
  fields of \<open>pmm\<close>, with the physical memory the physmap reaches as one more field: \<open>phys_mem\<close> gives the 64-bit word
  at every byte address the kernel uses. Values of \<open>U64\<close> are natural numbers and every addition, multiplication and
  subtraction of the source is written out with its wrap-around.

  The two loops over the free list run until a null link, so on a cyclic list they do not end: they are partial functions, and
  that they return is proved from the invariant. The theory ends with the interface \<open>frame_source\<close>, which is what the
  rest of the kernel may rely on, and its interpretation on the allocator.
\<close>

subsection \<open>Arithmetic and state\<close>

definition wrap64 :: "nat \<Rightarrow> nat" where
  "wrap64 n = n mod 2 ^ 64"

definition sub64 :: "nat \<Rightarrow> nat \<Rightarrow> nat" where
  "sub64 a b = wrap64 (a + 2 ^ 64 - b)"

definition Page_Size :: nat where
  "Page_Size = 4096"

definition Max_Reserved :: nat where
  "Max_Reserved = 8"

datatype pmm_status = Pmm_Ok | Out_Of_Memory | Invalid_Range | Not_Initialized | Too_Many_Ranges

record reserved_range =
  res_base :: nat
  res_last :: nat

record pmm =
  Base_Frame :: nat
  Next_Frame :: nat
  Limit :: nat
  Free_List_Head :: nat
  Free_List_Count :: nat
  Is_Ready :: bool
  Reserved :: "reserved_range list"
  phys_mem :: "nat \<Rightarrow> nat"

definition Align_Up :: "nat \<Rightarrow> nat \<Rightarrow> nat" where
  "Align_Up v a = wrap64 (wrap64 (v + a - 1) div a * a)"

definition poke :: "nat \<Rightarrow> nat \<Rightarrow> pmm \<Rightarrow> pmm" where
  "poke a v s = s\<lparr>phys_mem := (phys_mem s)(a := v)\<rparr>"

subsection \<open>Operations\<close>

definition Valid_Frame :: "pmm \<Rightarrow> nat \<Rightarrow> bool" where
  "Valid_Frame s f \<longleftrightarrow> Base_Frame s \<le> f \<and> f < Next_Frame s \<and> f mod Page_Size = 0"

partial_function (option) Is_In_Free_List :: "(nat \<Rightarrow> nat) \<Rightarrow> nat \<Rightarrow> nat \<Rightarrow> bool option" where
  [code]: "Is_In_Free_List m cur f =
     (if cur = 0 then Some False else if cur = f then Some True else Is_In_Free_List m (m cur) f)"

definition Pmm_Initialize :: "nat \<Rightarrow> nat \<Rightarrow> pmm \<Rightarrow> pmm_status \<times> pmm" where
  "Pmm_Initialize first_free last_byte s =
     (let base = Align_Up first_free Page_Size;
          lim = last_byte - last_byte mod Page_Size;
          s = s\<lparr>Base_Frame := base, Next_Frame := base, Limit := lim, Free_List_Head := 0, Free_List_Count := 0\<rparr>
      in if lim \<le> base then (Invalid_Range, s\<lparr>Is_Ready := False\<rparr>) else (Pmm_Ok, s\<lparr>Is_Ready := True\<rparr>))"

definition Reserve :: "nat \<Rightarrow> nat \<Rightarrow> pmm \<Rightarrow> pmm_status \<times> pmm" where
  "Reserve base len s =
     (let first_page = base - base mod Page_Size; last_page = Align_Up (wrap64 (base + len)) Page_Size
      in if len = 0 then (Pmm_Ok, s)
         else if length (Reserved s) = Max_Reserved then (Too_Many_Ranges, s)
         else (Pmm_Ok, s\<lparr>Reserved := Reserved s @ [\<lparr>res_base = first_page, res_last = last_page\<rparr>]\<rparr>))"

text \<open>
  The inner loop of \<open>Skip_Reserved\<close> stops at the first range that overlaps the run, and the outer one restarts it behind that
  range. Each restart moves the candidate past the end of one more range, so it ends whatever the ranges are.
\<close>

definition overlaps :: "nat \<Rightarrow> nat \<Rightarrow> reserved_range \<Rightarrow> bool" where
  "overlaps c pages r \<longleftrightarrow> c < res_last r \<and> res_base r < wrap64 (c + wrap64 (pages * Page_Size))"

function Skip_Reserved :: "reserved_range list \<Rightarrow> nat \<Rightarrow> nat \<Rightarrow> nat" where
  "Skip_Reserved rs c pages =
     (case find (overlaps c pages) rs of None \<Rightarrow> c | Some r \<Rightarrow> Skip_Reserved rs (res_last r) pages)"
  by pat_completeness auto

termination
proof (relation "measure (\<lambda>(rs, c, pages). length (filter (\<lambda>r. c < res_last r) rs))")
  fix rs c pages r
  assume "find (overlaps c pages) rs = Some r"
  then have r: "r \<in> set rs" "c < res_last r" by (auto simp: find_Some_iff overlaps_def)
  have "filter (\<lambda>x. res_last r < res_last x) rs = filter (\<lambda>x. res_last r < res_last x) (filter (\<lambda>x. c < res_last x) rs)"
    using r(2) by (auto intro: filter_cong)
  moreover have "length (filter (\<lambda>x. res_last r < res_last x) (filter (\<lambda>x. c < res_last x) rs)) <
      length (filter (\<lambda>x. c < res_last x) rs)"
    by (rule length_filter_less [of r]) (use r in auto)
  ultimately show "((rs, res_last r, pages), rs, c, pages) \<in>
      measure (\<lambda>(rs, c, pages). length (filter (\<lambda>r. c < res_last r) rs))"
    by simp
qed simp

declare Skip_Reserved.simps [simp del]

definition Allocate_Frame :: "pmm \<Rightarrow> pmm_status \<times> nat \<times> pmm" where
  "Allocate_Frame s =
     (if \<not> Is_Ready s then (Not_Initialized, 0, s)
      else if Free_List_Head s \<noteq> 0 then
        let f = Free_List_Head s
        in (Pmm_Ok, f, poke f 0 (s\<lparr>Free_List_Head := phys_mem s f, Free_List_Count := sub64 (Free_List_Count s) 1\<rparr>))
      else
        let n = Skip_Reserved (Reserved s) (Next_Frame s) 1; s = s\<lparr>Next_Frame := n\<rparr>
        in if Limit s < wrap64 (n + Page_Size) then (Out_Of_Memory, 0, s)
           else (Pmm_Ok, n, s\<lparr>Next_Frame := wrap64 (n + Page_Size)\<rparr>))"

definition Allocate_Contiguous :: "nat \<Rightarrow> pmm \<Rightarrow> pmm_status \<times> nat \<times> pmm" where
  "Allocate_Contiguous pages s =
     (if \<not> Is_Ready s then (Not_Initialized, 0, s)
      else
        let n = Skip_Reserved (Reserved s) (Next_Frame s) pages; s = s\<lparr>Next_Frame := n\<rparr>
        in if Limit s < wrap64 (n + wrap64 (pages * Page_Size)) then (Out_Of_Memory, 0, s)
           else (Pmm_Ok, n, s\<lparr>Next_Frame := wrap64 (n + wrap64 (pages * Page_Size))\<rparr>))"

definition Deallocate_Frame :: "nat \<Rightarrow> pmm \<Rightarrow> (pmm_status \<times> pmm) option" where
  "Deallocate_Frame f s =
     (if \<not> Is_Ready s then Some (Not_Initialized, s)
      else if \<not> Valid_Frame s f then Some (Invalid_Range, s)
      else case Is_In_Free_List (phys_mem s) (Free_List_Head s) f of
        None \<Rightarrow> None
      | Some True \<Rightarrow> Some (Invalid_Range, s)
      | Some False \<Rightarrow>
          if wrap64 (f + Page_Size) = Next_Frame s then Some (Pmm_Ok, s\<lparr>Next_Frame := f\<rparr>)
          else Some (Pmm_Ok, (poke f (Free_List_Head s) s)
                 \<lparr>Free_List_Head := f, Free_List_Count := wrap64 (Free_List_Count s + 1)\<rparr>))"

definition Mark :: "pmm \<Rightarrow> nat" where
  "Mark s = Next_Frame s"

partial_function (option) rewind_loop ::
  "nat \<Rightarrow> (nat \<Rightarrow> nat) \<Rightarrow> nat \<Rightarrow> nat \<Rightarrow> nat \<Rightarrow> ((nat \<Rightarrow> nat) \<times> nat \<times> nat) option" where
  [code]: "rewind_loop to m old new_head new_count =
     (if old = 0 then Some (m, new_head, new_count)
      else if old < to then rewind_loop to (m(old := new_head)) (m old) old (wrap64 (new_count + 1))
      else rewind_loop to (m(old := 0)) (m old) new_head new_count)"

definition Rewind :: "nat \<Rightarrow> pmm \<Rightarrow> (pmm_status \<times> pmm) option" where
  "Rewind to s =
     (if \<not> Is_Ready s then Some (Not_Initialized, s)
      else if Next_Frame s < to \<or> to mod Page_Size \<noteq> 0 then Some (Invalid_Range, s)
      else case rewind_loop to (phys_mem s) (Free_List_Head s) 0 0 of
        None \<Rightarrow> None
      | Some (m, h, n) \<Rightarrow>
          Some (Pmm_Ok, s\<lparr>phys_mem := m, Free_List_Head := h, Free_List_Count := n, Next_Frame := to\<rparr>))"

definition Free_Bytes :: "pmm \<Rightarrow> nat" where
  "Free_Bytes s =
     (if \<not> Is_Ready s then 0
      else wrap64 ((if Next_Frame s < Limit s then Limit s - Next_Frame s else 0) + wrap64 (Free_List_Count s * Page_Size)))"

definition Free_Frame_Count :: "pmm \<Rightarrow> nat" where
  "Free_Frame_Count s = (if \<not> Is_Ready s then 0 else Free_Bytes s div Page_Size)"

definition Next_Free_Frame :: "pmm \<Rightarrow> nat" where
  "Next_Free_Frame s = (if Free_List_Head s \<noteq> 0 then Free_List_Head s else Next_Frame s)"

subsection \<open>The invariant\<close>

text \<open>
  \<open>pmm_inv s L\<close>: the allocator is initialised, its free list is a null-terminated list of distinct frames, disjoint from the
  set \<open>L\<close> of frames in use, and every frame of either kind is page aligned, lies between the base and the bump pointer and
  below the limit, and is in no reserved range. Physical addresses have 56 bits on this machine, which keeps every sum the
  allocator computes from wrapping.
\<close>

definition Phys_Top :: nat where
  "Phys_Top = 2 ^ 56"

definition range_ok :: "reserved_range \<Rightarrow> bool" where
  "range_ok r \<longleftrightarrow> res_base r mod Page_Size = 0 \<and> res_last r mod Page_Size = 0 \<and> res_last r \<le> Phys_Top"

definition in_range :: "nat \<Rightarrow> reserved_range \<Rightarrow> bool" where
  "in_range f r \<longleftrightarrow> res_base r \<le> f \<and> f < res_last r"

definition frame_ok :: "pmm \<Rightarrow> nat \<Rightarrow> bool" where
  "frame_ok s f \<longleftrightarrow> Base_Frame s \<le> f \<and> f < Next_Frame s \<and> f + Page_Size \<le> Limit s \<and> f mod Page_Size = 0 \<and>
     (\<forall>r \<in> set (Reserved s). \<not> in_range f r)"

primrec links :: "(nat \<Rightarrow> nat) \<Rightarrow> nat \<Rightarrow> nat list \<Rightarrow> bool" where
  "links m h [] \<longleftrightarrow> h = 0"
| "links m h (x # xs) \<longleftrightarrow> h = x \<and> x \<noteq> 0 \<and> links m (m x) xs"

definition bounds_ok :: "pmm \<Rightarrow> bool" where
  "bounds_ok s \<longleftrightarrow> Is_Ready s \<and> 0 < Base_Frame s \<and> Next_Frame s mod Page_Size = 0 \<and> Base_Frame s \<le> Next_Frame s \<and>
     Next_Frame s \<le> Phys_Top \<and> Limit s \<le> Phys_Top \<and> (\<forall>r \<in> set (Reserved s). range_ok r)"

definition free_list :: "pmm \<Rightarrow> nat list \<Rightarrow> bool" where
  "free_list s fs \<longleftrightarrow> links (phys_mem s) (Free_List_Head s) fs \<and> distinct fs \<and> Free_List_Count s = length fs"

definition pmm_inv :: "pmm \<Rightarrow> nat set \<Rightarrow> bool" where
  "pmm_inv s L \<longleftrightarrow> bounds_ok s \<and> (\<exists>fs. free_list s fs \<and> set fs \<inter> L = {} \<and> (\<forall>f \<in> set fs \<union> L. frame_ok s f))"

lemma Page_Size_pos [simp]: "0 < Page_Size" "Page_Size \<noteq> 0"
  by (simp_all add: Page_Size_def)

lemma wrap64_small: "n \<le> Phys_Top + Phys_Top \<Longrightarrow> wrap64 n = n"
  by (simp add: wrap64_def Phys_Top_def)

lemma sub64_pred: "0 < n \<Longrightarrow> n \<le> Phys_Top \<Longrightarrow> sub64 n 1 = n - 1"
  by (simp add: sub64_def wrap64_def Phys_Top_def mod_if)

lemma Page_le_Top: "Page_Size \<le> Phys_Top"
  by (simp add: Page_Size_def Phys_Top_def)

lemma page_gap:
  assumes "a mod Page_Size = 0" and "b mod Page_Size = 0" and "a < b"
  shows "a + Page_Size \<le> b"
proof -
  obtain i j where "a = Page_Size * i" "b = Page_Size * j" using assms(1,2) by (metis mod_0_imp_dvd dvd_def)
  with assms(3) have "Page_Size * Suc i \<le> Page_Size * j" by (intro mult_le_mono2) (simp add: Suc_le_eq)
  then show ?thesis using \<open>a = _\<close> \<open>b = _\<close> by simp
qed

lemma links_cong: "(\<And>x. x \<in> set xs \<Longrightarrow> m' x = m x) \<Longrightarrow> links m' h xs = links m h xs"
  by (induction xs arbitrary: h) auto

lemma links_upd [simp]: "a \<notin> set xs \<Longrightarrow> links (m(a := v)) h xs = links m h xs"
  by (rule links_cong) auto

lemma links_if [simp]: "a \<notin> set xs \<Longrightarrow> links (\<lambda>b. if b = a then v else m b) h xs = links m h xs"
  by (rule links_cong) auto

lemma Is_In_Free_List_links: "links m h xs \<Longrightarrow> Is_In_Free_List m h f = Some (f \<in> set xs)"
proof (induction xs arbitrary: h)
  case Nil
  then show ?case by (subst Is_In_Free_List.simps) simp
next
  case (Cons x xs)
  then show ?case by (subst Is_In_Free_List.simps) auto
qed

lemma free_list_member: "free_list s fs \<Longrightarrow> Is_In_Free_List (phys_mem s) (Free_List_Head s) f = Some (f \<in> set fs)"
  unfolding free_list_def by (simp only: Is_In_Free_List_links)

lemma free_list_unique:
  assumes "free_list s fs" and "free_list s gs"
  shows "set gs = set fs"
  using free_list_member [OF assms(1)] free_list_member [OF assms(2)] by auto

lemma frames_few:
  assumes "distinct fs" and "\<forall>f \<in> set fs. f < Phys_Top"
  shows "length fs \<le> Phys_Top"
proof -
  have "card (set fs) \<le> card {..<Phys_Top}" using assms(2) by (intro card_mono) auto
  then show ?thesis using assms(1) by (simp add: distinct_card)
qed

lemma frame_ok_bounds:
  assumes "bounds_ok s" and "frame_ok s f"
  shows "0 < f" "f + Page_Size \<le> Next_Frame s" "f + Page_Size \<le> Phys_Top" "f < Phys_Top"
proof -
  show "0 < f" "f + Page_Size \<le> Phys_Top" "f < Phys_Top"
    using assms Page_Size_pos(1) by (auto simp: bounds_ok_def frame_ok_def simp del: Page_Size_pos)
  show "f + Page_Size \<le> Next_Frame s" using assms by (intro page_gap) (simp_all add: bounds_ok_def frame_ok_def)
qed

lemma Skip_Reserved_stop: "find (overlaps c pages) rs = None \<Longrightarrow> Skip_Reserved rs c pages = c"
  by (simp add: Skip_Reserved.simps [of rs c])

lemma Skip_Reserved_step: "find (overlaps c pages) rs = Some r \<Longrightarrow> Skip_Reserved rs c pages = Skip_Reserved rs (res_last r) pages"
  by (simp add: Skip_Reserved.simps [of rs c])

text \<open>What \<open>Skip_Reserved\<close> returns: an aligned run behind the candidate that overlaps no reserved range.\<close>

lemma Skip_Reserved_spec:
  assumes "\<forall>r \<in> set rs. range_ok r" and "c \<le> Phys_Top" and "c mod Page_Size = 0"
  shows "c \<le> Skip_Reserved rs c pages" "Skip_Reserved rs c pages \<le> Phys_Top" "Skip_Reserved rs c pages mod Page_Size = 0"
    "\<forall>r \<in> set rs. \<not> overlaps (Skip_Reserved rs c pages) pages r"
proof -
  have "c \<le> Skip_Reserved rs c pages \<and> Skip_Reserved rs c pages \<le> Phys_Top \<and> Skip_Reserved rs c pages mod Page_Size = 0 \<and>
      (\<forall>r \<in> set rs. \<not> overlaps (Skip_Reserved rs c pages) pages r)"
    using assms
  proof (induction rs c pages rule: Skip_Reserved.induct)
    case (1 rs c pages)
    show ?case
    proof (cases "find (overlaps c pages) rs")
      case None
      then show ?thesis using 1(3,4) by (simp add: Skip_Reserved_stop find_None_iff)
    next
      case (Some r)
      then have "r \<in> set rs" "c < res_last r" by (auto simp: find_Some_iff overlaps_def)
      with 1(1) [OF Some 1(2)] 1(2) show ?thesis
        unfolding Skip_Reserved_step [OF Some] by (auto simp: range_ok_def)
    qed
  qed
  then show "c \<le> Skip_Reserved rs c pages" "Skip_Reserved rs c pages \<le> Phys_Top" "Skip_Reserved rs c pages mod Page_Size = 0"
    "\<forall>r \<in> set rs. \<not> overlaps (Skip_Reserved rs c pages) pages r" by simp_all
qed

lemma bounds_skip:
  assumes "bounds_ok s"
  shows "Next_Frame s \<le> Skip_Reserved (Reserved s) (Next_Frame s) pages" "Skip_Reserved (Reserved s) (Next_Frame s) pages \<le> Phys_Top"
    "Skip_Reserved (Reserved s) (Next_Frame s) pages mod Page_Size = 0"
    "\<forall>r \<in> set (Reserved s). \<not> overlaps (Skip_Reserved (Reserved s) (Next_Frame s) pages) pages r"
  using assms Skip_Reserved_spec unfolding bounds_ok_def by auto

lemma overlaps_page: "c \<le> Phys_Top \<Longrightarrow> overlaps c 1 r \<longleftrightarrow> c < res_last r \<and> res_base r < c + Page_Size"
  using Page_le_Top by (simp add: overlaps_def wrap64_small)

lemma page_overlap:
  assumes "range_ok r" and "c mod Page_Size = 0" and "c \<le> Phys_Top"
  shows "overlaps c 1 r \<longleftrightarrow> in_range c r"
proof -
  have "res_base r < c + Page_Size \<longleftrightarrow> res_base r \<le> c"
    using page_gap [of c "res_base r"] assms(1,2) Page_Size_pos(1) unfolding range_ok_def by linarith
  then show ?thesis unfolding overlaps_page [OF assms(3)] in_range_def by blast
qed

text \<open>A single page never loses memory: every frame it steps over is reserved.\<close>

lemma Skip_Reserved_tight:
  assumes "\<forall>r \<in> set rs. range_ok r" and "c \<le> Phys_Top" and "c mod Page_Size = 0"
    and "c \<le> f" and "f < Skip_Reserved rs c 1"
  shows "\<exists>r \<in> set rs. in_range f r"
  using assms
proof (induction rs c "1::nat" rule: Skip_Reserved.induct)
  case (1 rs c)
  show ?case
  proof (cases "find (overlaps c 1) rs")
    case None
    with 1(5,6) show ?thesis by (simp add: Skip_Reserved_stop)
  next
    case (Some r)
    then have r: "r \<in> set rs" "overlaps c 1 r" unfolding find_Some_iff by (metis nth_mem)+
    then have "in_range c r" using page_overlap [of r c] 1(2-4) by metis
    show ?thesis
    proof (cases "f < res_last r")
      case True
      with \<open>in_range c r\<close> 1(5) r(1) show ?thesis by (intro bexI [of _ r]) (auto simp: in_range_def)
    next
      case False
      moreover have "res_last r \<le> Phys_Top" "res_last r mod Page_Size = 0" using 1(2) r(1) by (simp_all add: range_ok_def)
      ultimately show ?thesis using 1(1) [OF Some 1(2)] 1(6) unfolding Skip_Reserved_step [OF Some] by (meson not_less)
    qed
  qed
qed

subsection \<open>Every operation keeps the invariant\<close>

lemma pmm_invE:
  assumes "pmm_inv s L"
  obtains fs where "bounds_ok s" "free_list s fs" "set fs \<inter> L = {}" "\<forall>f \<in> set fs \<union> L. frame_ok s f" "length fs \<le> Phys_Top"
proof -
  obtain fs where fs: "bounds_ok s" "free_list s fs" "set fs \<inter> L = {}" "\<forall>f \<in> set fs \<union> L. frame_ok s f"
    using assms unfolding pmm_inv_def by blast
  then have "\<forall>f \<in> set fs. f < Phys_Top" using frame_ok_bounds(4) by blast
  then have "length fs \<le> Phys_Top" using fs(2) frames_few unfolding free_list_def by blast
  with fs that show thesis by blast
qed

lemma pmm_invI:
  "bounds_ok s \<Longrightarrow> free_list s fs \<Longrightarrow> set fs \<inter> L = {} \<Longrightarrow> \<forall>f \<in> set fs \<union> L. frame_ok s f \<Longrightarrow> pmm_inv s L"
  unfolding pmm_inv_def by blast

lemma pmm_inv_live:
  assumes "pmm_inv s L" and "f \<in> L"
  shows "0 < f" "f mod Page_Size = 0" "f + Page_Size \<le> Next_Frame s" "frame_ok s f"
proof -
  show f: "frame_ok s f" using assms by (auto elim: pmm_invE)
  have "bounds_ok s" using assms by (auto elim: pmm_invE)
  then show "0 < f" "f + Page_Size \<le> Next_Frame s" using frame_ok_bounds f by blast+
  show "f mod Page_Size = 0" using f by (simp add: frame_ok_def)
qed

text \<open>The two ways \<open>Allocate_Frame\<close> succeeds, and the way it fails.\<close>

lemma Allocate_Frame_list:
  assumes "pmm_inv s L" and "Free_List_Head s \<noteq> 0"
  shows "\<exists>s'. Allocate_Frame s = (Pmm_Ok, Free_List_Head s, s') \<and> Free_List_Head s \<notin> L \<and> pmm_inv s' (insert (Free_List_Head s) L) \<and>
    phys_mem s' = (phys_mem s)(Free_List_Head s := 0)"
proof -
  let ?h = "Free_List_Head s"
  obtain fs where fs: "bounds_ok s" "free_list s fs" "set fs \<inter> L = {}" "\<forall>f \<in> set fs \<union> L. frame_ok s f" "length fs \<le> Phys_Top"
    using assms(1) by (rule pmm_invE)
  then obtain gs where gs: "fs = ?h # gs" using assms(2) by (cases fs) (auto simp: free_list_def)
  let ?s = "poke ?h 0 (s\<lparr>Free_List_Head := phys_mem s ?h, Free_List_Count := sub64 (Free_List_Count s) 1\<rparr>)"
  have "pmm_inv ?s (insert ?h L)"
  proof (rule pmm_invI [of _ gs])
    show "bounds_ok ?s" using fs(1) by (simp add: bounds_ok_def poke_def)
    show "free_list ?s gs" using fs(2,5) gs sub64_pred [of "length fs"] by (simp add: free_list_def poke_def)
    show "set gs \<inter> insert ?h L = {}" using fs(2,3) gs by (auto simp: free_list_def)
    show "\<forall>f \<in> set gs \<union> insert ?h L. frame_ok ?s f" using fs(4) gs by (auto simp: frame_ok_def poke_def)
  qed
  moreover have "?h \<notin> L" using fs(3) gs by auto
  moreover have "Is_Ready s" using fs(1) by (simp add: bounds_ok_def)
  ultimately show ?thesis using assms(2) by (simp add: Allocate_Frame_def Let_def) (simp add: poke_def)
qed

lemma frame_ok_bump: "frame_ok s f \<Longrightarrow> Next_Frame s \<le> n \<Longrightarrow> frame_ok (s\<lparr>Next_Frame := n\<rparr>) f"
  by (auto simp: frame_ok_def)

lemma pmm_inv_bump:
  assumes "pmm_inv s L" and "Next_Frame s \<le> n" and "n \<le> Phys_Top" and "n mod Page_Size = 0"
  shows "pmm_inv (s\<lparr>Next_Frame := n\<rparr>) L"
proof -
  obtain fs where fs: "bounds_ok s" "free_list s fs" "set fs \<inter> L = {}" "\<forall>f \<in> set fs \<union> L. frame_ok s f"
    using assms(1) by (rule pmm_invE)
  show ?thesis
  proof (rule pmm_invI [OF _ _ fs(3)])
    show "bounds_ok (s\<lparr>Next_Frame := n\<rparr>)" using fs(1) assms(2-4) by (simp add: bounds_ok_def)
    show "free_list (s\<lparr>Next_Frame := n\<rparr>) fs" using fs(2) by (simp add: free_list_def)
    show "\<forall>f \<in> set fs \<union> L. frame_ok (s\<lparr>Next_Frame := n\<rparr>) f" using fs(4) assms(2) frame_ok_bump by blast
  qed
qed

lemma pmm_inv_insert:
  assumes "pmm_inv s L" and "\<forall>f \<in> F. frame_ok s f" and "\<forall>fs. free_list s fs \<longrightarrow> set fs \<inter> F = {}"
  shows "pmm_inv s (L \<union> F)"
  using assms unfolding pmm_inv_def by (metis Int_Un_distrib Un_empty UnE UnCI)

text \<open>
  The run of \<open>pages\<close> frames the bump pointer hands out: none of its frames was in use or free before, none is reserved.
\<close>

definition run :: "nat \<Rightarrow> nat \<Rightarrow> nat set" where
  "run n pages = {f. n \<le> f \<and> f < n + pages * Page_Size \<and> f mod Page_Size = 0}"

lemma bump_run:
  assumes "pmm_inv s L" and "n = Skip_Reserved (Reserved s) (Next_Frame s) pages" and "pages * Page_Size \<le> Phys_Top"
    and "n + pages * Page_Size \<le> Limit s"
  shows "pmm_inv (s\<lparr>Next_Frame := n + pages * Page_Size\<rparr>) (L \<union> run n pages)" "run n pages \<inter> L = {}"
proof -
  obtain fs where fs: "bounds_ok s" "free_list s fs" "set fs \<inter> L = {}" "\<forall>f \<in> set fs \<union> L. frame_ok s f"
    using assms(1) by (rule pmm_invE)
  note b = fs(1) [unfolded bounds_ok_def]
  note skip = bounds_skip [OF fs(1), of pages, folded assms(2)]
  let ?s = "s\<lparr>Next_Frame := n + pages * Page_Size\<rparr>"
  have above: "\<forall>f \<in> run n pages. \<forall>g. frame_ok s g \<longrightarrow> g < f" using skip(1) by (auto simp: run_def frame_ok_def)
  then show "run n pages \<inter> L = {}" using fs(4) by blast
  have "frame_ok ?s f" if "f \<in> run n pages" for f
  proof -
    have f: "n \<le> f" "f < n + pages * Page_Size" "f mod Page_Size = 0" using that by (auto simp: run_def)
    have "(n + pages * Page_Size) mod Page_Size = 0" using skip(3) by simp
    then have "f + Page_Size \<le> n + pages * Page_Size" using f(2,3) by (intro page_gap)
    moreover have "\<not> in_range f r" if "r \<in> set (Reserved s)" for r
    proof -
      have "\<not> (n < res_last r \<and> res_base r < n + pages * Page_Size)"
        using skip(2,4) that assms(3) by (auto simp: overlaps_def wrap64_small)
      then show ?thesis using f(1,2) by (auto simp: in_range_def)
    qed
    ultimately show ?thesis using f b skip(1) assms(4) by (auto simp: frame_ok_def)
  qed
  moreover have "pmm_inv ?s L"
    using assms(1,4) skip b by (intro pmm_inv_bump) auto
  moreover have "\<forall>gs. free_list ?s gs \<longrightarrow> set gs \<inter> run n pages = {}"
  proof (intro allI impI)
    fix gs assume "free_list ?s gs"
    then have "free_list s gs" by (simp add: free_list_def)
    then have "set gs = set fs" using free_list_unique fs(2) by blast
    then show "set gs \<inter> run n pages = {}" using fs(4) above by blast
  qed
  ultimately show "pmm_inv ?s (L \<union> run n pages)" by (intro pmm_inv_insert) auto
qed

lemma run_1:
  assumes "n mod Page_Size = 0"
  shows "run n 1 = {n}"
proof -
  have "f = n" if "n \<le> f" "f < n + Page_Size" "f mod Page_Size = 0" for f
    using page_gap [OF assms that(3)] that(1,2) by linarith
  then show ?thesis using assms by (auto simp: run_def)
qed

lemma Allocate_Frame_bump:
  assumes "pmm_inv s L" and "Free_List_Head s = 0" and "n = Skip_Reserved (Reserved s) (Next_Frame s) 1"
  shows "Allocate_Frame s =
      (if n + Page_Size \<le> Limit s then (Pmm_Ok, n, s\<lparr>Next_Frame := n + Page_Size\<rparr>) else (Out_Of_Memory, 0, s\<lparr>Next_Frame := n\<rparr>))"
    and "n + Page_Size \<le> Limit s \<Longrightarrow> n \<notin> L \<and> pmm_inv (s\<lparr>Next_Frame := n + Page_Size\<rparr>) (insert n L)"
    and "pmm_inv (s\<lparr>Next_Frame := n\<rparr>) L"
proof -
  have b: "bounds_ok s" using assms(1) by (rule pmm_invE)
  note skip = bounds_skip [OF b, of 1, folded assms(3)]
  have "wrap64 (n + Page_Size) = n + Page_Size" using skip(2) Page_le_Top by (intro wrap64_small) simp
  moreover have "Is_Ready s" using b by (simp add: bounds_ok_def)
  ultimately show "Allocate_Frame s =
      (if n + Page_Size \<le> Limit s then (Pmm_Ok, n, s\<lparr>Next_Frame := n + Page_Size\<rparr>) else (Out_Of_Memory, 0, s\<lparr>Next_Frame := n\<rparr>))"
    using assms(2) unfolding Allocate_Frame_def Let_def by (simp add: assms(3) del: One_nat_def)
  show "pmm_inv (s\<lparr>Next_Frame := n\<rparr>) L" using assms(1) skip by (intro pmm_inv_bump)
  assume "n + Page_Size \<le> Limit s"
  then show "n \<notin> L \<and> pmm_inv (s\<lparr>Next_Frame := n + Page_Size\<rparr>) (insert n L)"
    using bump_run [OF assms(1,3)] Page_le_Top run_1 [OF skip(3)] by (simp del: One_nat_def)
qed

lemma Allocate_Frame_ok:
  assumes "pmm_inv s L" and "Allocate_Frame s = (Pmm_Ok, f, s')"
  shows "f \<notin> L" "pmm_inv s' (insert f L)" "\<forall>a. a \<noteq> f \<longrightarrow> phys_mem s' a = phys_mem s a"
proof -
  have "f \<notin> L \<and> pmm_inv s' (insert f L) \<and> (\<forall>a. a \<noteq> f \<longrightarrow> phys_mem s' a = phys_mem s a)"
  proof (cases "Free_List_Head s = 0")
    case True
    then show ?thesis using Allocate_Frame_bump [OF assms(1) True refl] assms(2) by (auto split: if_splits)
  next
    case False
    then show ?thesis using Allocate_Frame_list [OF assms(1) False] assms(2) by auto
  qed
  then show "f \<notin> L" "pmm_inv s' (insert f L)" "\<forall>a. a \<noteq> f \<longrightarrow> phys_mem s' a = phys_mem s a" by auto
qed

lemma Allocate_Frame_fail:
  assumes "pmm_inv s L" and "Allocate_Frame s = (st, f, s')" and "st \<noteq> Pmm_Ok"
  shows "st = Out_Of_Memory" "f = 0" "pmm_inv s' L" "phys_mem s' = phys_mem s" "Free_List_Head s = 0"
proof -
  have h: "Free_List_Head s = 0" using Allocate_Frame_list [OF assms(1)] assms(2,3) by auto
  then show "Free_List_Head s = 0" .
  show "st = Out_Of_Memory" "f = 0" "pmm_inv s' L" "phys_mem s' = phys_mem s"
    using Allocate_Frame_bump [OF assms(1) h refl] assms(2,3) by (auto split: if_splits)
qed

lemma Deallocate_live:
  assumes "pmm_inv s L" and "f \<in> L"
  shows "\<exists>s'. Deallocate_Frame f s = Some (Pmm_Ok, s') \<and> pmm_inv s' (L - {f}) \<and> (\<forall>a. a \<noteq> f \<longrightarrow> phys_mem s' a = phys_mem s a)"
proof -
  obtain fs where fs: "bounds_ok s" "free_list s fs" "set fs \<inter> L = {}" "\<forall>g \<in> set fs \<union> L. frame_ok s g" "length fs \<le> Phys_Top"
    using assms(1) by (rule pmm_invE)
  have f: "frame_ok s f" "f \<notin> set fs" using fs(3,4) assms(2) by auto
  have valid: "Is_Ready s" "Valid_Frame s f" using fs(1) f(1) by (simp_all add: bounds_ok_def frame_ok_def Valid_Frame_def)
  have out: "Is_In_Free_List (phys_mem s) (Free_List_Head s) f = Some False"
    using f(2) by (simp add: free_list_member [OF fs(2)])
  have w: "wrap64 (f + Page_Size) = f + Page_Size"
    using frame_ok_bounds(3) [OF fs(1) f(1)] by (intro wrap64_small) simp
  show ?thesis
  proof (cases "f + Page_Size = Next_Frame s")
    case True
    have "pmm_inv (s\<lparr>Next_Frame := f\<rparr>) (L - {f})"
    proof (rule pmm_invI)
      show "bounds_ok (s\<lparr>Next_Frame := f\<rparr>)" using fs(1) f(1) True by (auto simp: bounds_ok_def frame_ok_def)
      show "free_list (s\<lparr>Next_Frame := f\<rparr>) fs" using fs(2) by (simp add: free_list_def)
      show "set fs \<inter> (L - {f}) = {}" using fs(3) by blast
      have "g < f" if "frame_ok s g" "g \<noteq> f" for g
        using frame_ok_bounds(2) [OF fs(1) that(1)] that(2) True by linarith
      then show "\<forall>g \<in> set fs \<union> (L - {f}). frame_ok (s\<lparr>Next_Frame := f\<rparr>) g"
        using fs(4) f(2) by (auto simp: frame_ok_def)
    qed
    then show ?thesis using valid out w True by (simp add: Deallocate_Frame_def)
  next
    case False
    let ?s = "(poke f (Free_List_Head s) s)\<lparr>Free_List_Head := f, Free_List_Count := wrap64 (Free_List_Count s + 1)\<rparr>"
    have "pmm_inv ?s (L - {f})"
    proof (rule pmm_invI)
      show "bounds_ok ?s" using fs(1) by (simp add: bounds_ok_def poke_def)
      have "wrap64 (length fs + 1) = length fs + 1" using fs(5) Page_le_Top Page_Size_pos(1) by (intro wrap64_small) linarith
      then show "free_list ?s (f # fs)"
        using fs(2) f(2) frame_ok_bounds(1) [OF fs(1) f(1)] by (simp add: free_list_def poke_def)
      show "set (f # fs) \<inter> (L - {f}) = {}" using fs(3) by auto
      show "\<forall>g \<in> set (f # fs) \<union> (L - {f}). frame_ok ?s g" using fs(4) f(1) by (auto simp: frame_ok_def poke_def)
    qed
    then show ?thesis using valid out w False by (simp add: Deallocate_Frame_def) (simp add: poke_def)
  qed
qed

lemma Deallocate_twice:
  assumes "pmm_inv s L" and "free_list s fs" and "f \<in> set fs"
  shows "Deallocate_Frame f s = Some (Invalid_Range, s)"
proof -
  obtain gs where gs: "bounds_ok s" "free_list s gs" "\<forall>f \<in> set gs \<union> L. frame_ok s f" using assms(1) by (rule pmm_invE)
  then have "frame_ok s f" using free_list_unique [OF assms(2) gs(2)] assms(3) by blast
  then have "Is_Ready s" "Valid_Frame s f" using gs(1) by (simp_all add: bounds_ok_def frame_ok_def Valid_Frame_def)
  then show ?thesis using assms(3) by (simp add: Deallocate_Frame_def free_list_member [OF assms(2)])
qed

lemma poke_live:
  assumes "pmm_inv s L" and "f \<in> L" and "k < Page_Size"
  shows "pmm_inv (poke (f + k) v s) L"
proof -
  obtain fs where fs: "bounds_ok s" "free_list s fs" "set fs \<inter> L = {}" "\<forall>g \<in> set fs \<union> L. frame_ok s g"
    using assms(1) by (rule pmm_invE)
  have "f + k \<notin> set fs"
  proof
    assume k: "f + k \<in> set fs"
    then have "f < f + k" using fs(3) assms(2) by (cases k) auto
    then show False using page_gap [of f "f + k"] fs(4) k assms(2,3) by (auto simp: frame_ok_def)
  qed
  with fs show ?thesis by (intro pmm_invI [OF _ _ fs(3)]) (auto simp: bounds_ok_def free_list_def frame_ok_def poke_def)
qed

text \<open>The rewind loop moves the frames below the mark to a new list and clears the others, whatever the order.\<close>

lemma rewind_loop_links:
  assumes "links m old fs" and "links m new_head gs" and "distinct (fs @ gs)" and "new_count = length gs"
    and "length fs + length gs \<le> Phys_Top"
  shows "\<exists>m' h. rewind_loop to m old new_head new_count = Some (m', h, length (filter (\<lambda>f. f < to) fs) + length gs) \<and>
    links m' h (rev (filter (\<lambda>f. f < to) fs) @ gs) \<and> (\<forall>a. a \<notin> set fs \<longrightarrow> m' a = m a)"
  using assms
proof (induction fs arbitrary: m old new_head gs new_count)
  case Nil
  then show ?case by (subst rewind_loop.simps) simp
next
  case (Cons x fs)
  let ?v = "if x < to then new_head else 0" and ?gs = "if x < to then x # gs else gs"
  have n: "wrap64 (new_count + 1) = new_count + 1" using Cons.prems(4,5) by (intro wrap64_small) simp
  have "\<exists>m' h. rewind_loop to (m(x := ?v)) (m x) (if x < to then x else new_head) (length ?gs) =
        Some (m', h, length (filter (\<lambda>f. f < to) fs) + length ?gs) \<and>
      links m' h (rev (filter (\<lambda>f. f < to) fs) @ ?gs) \<and> (\<forall>a. a \<notin> set fs \<longrightarrow> m' a = (m(x := ?v)) a)"
    using Cons.prems by (intro Cons.IH) auto
  then show ?case using Cons.prems(1,4) n by (subst rewind_loop.simps) (auto split: if_splits)
qed

lemma Rewind_spec:
  assumes "pmm_inv s L" and "Base_Frame s \<le> to" and "to \<le> Next_Frame s" and "to mod Page_Size = 0"
  shows "\<exists>s'. Rewind to s = Some (Pmm_Ok, s') \<and> Next_Frame s' = to \<and> pmm_inv s' {f \<in> L. f < to} \<and>
    (\<forall>f \<in> L. phys_mem s' f = phys_mem s f)"
proof -
  obtain fs where fs: "bounds_ok s" "free_list s fs" "set fs \<inter> L = {}" "\<forall>g \<in> set fs \<union> L. frame_ok s g" "length fs \<le> Phys_Top"
    using assms(1) by (rule pmm_invE)
  let ?fs = "rev (filter (\<lambda>f. f < to) fs)"
  obtain m h where r: "rewind_loop to (phys_mem s) (Free_List_Head s) 0 0 = Some (m, h, length ?fs)" "links m h ?fs"
      "\<forall>a. a \<notin> set fs \<longrightarrow> m a = phys_mem s a"
    using rewind_loop_links [of "phys_mem s" "Free_List_Head s" fs 0 "[]" 0 to] fs(2,5) by (auto simp: free_list_def)
  let ?s = "s\<lparr>phys_mem := m, Free_List_Head := h, Free_List_Count := length ?fs, Next_Frame := to\<rparr>"
  have "pmm_inv ?s {f \<in> L. f < to}"
  proof (rule pmm_invI)
    show "bounds_ok ?s" using fs(1) assms(2-4) by (simp add: bounds_ok_def)
    show "free_list ?s ?fs" using fs(2) r(2) by (simp add: free_list_def)
    show "set ?fs \<inter> {f \<in> L. f < to} = {}" using fs(3) by auto
    show "\<forall>f \<in> set ?fs \<union> {f \<in> L. f < to}. frame_ok ?s f" using fs(4) by (auto simp: frame_ok_def)
  qed
  moreover have "Is_Ready s" using fs(1) by (simp add: bounds_ok_def)
  moreover have "\<forall>f \<in> L. m f = phys_mem s f" using r(3) fs(3) by auto
  ultimately show ?thesis using assms(3,4) r(1) by (simp add: Rewind_def)
qed

lemma Allocate_Contiguous_ok:
  assumes "pmm_inv s L" and "pages * Page_Size \<le> Phys_Top" and "Allocate_Contiguous pages s = (st, f, s')"
  shows "if st = Pmm_Ok then pmm_inv s' (L \<union> run f pages) \<and> run f pages \<inter> L = {}
    else st = Out_Of_Memory \<and> f = 0 \<and> pmm_inv s' L"
    and "phys_mem s' = phys_mem s"
proof -
  have b: "bounds_ok s" using assms(1) by (rule pmm_invE)
  define n where "n = Skip_Reserved (Reserved s) (Next_Frame s) pages"
  note skip = bounds_skip [OF b, of pages, folded n_def]
  have "wrap64 (n + pages * Page_Size) = n + pages * Page_Size" "wrap64 (pages * Page_Size) = pages * Page_Size"
    using skip(2) assms(2) by (simp_all add: wrap64_small)
  moreover have "Is_Ready s" using b by (simp add: bounds_ok_def)
  ultimately have r: "(st, f, s') = (if n + pages * Page_Size \<le> Limit s
      then (Pmm_Ok, n, s\<lparr>Next_Frame := n + pages * Page_Size\<rparr>) else (Out_Of_Memory, 0, s\<lparr>Next_Frame := n\<rparr>))"
    using assms(3) by (auto simp: Allocate_Contiguous_def Let_def n_def [symmetric] split: if_splits)
  then show "phys_mem s' = phys_mem s" by (simp split: if_splits)
  show "if st = Pmm_Ok then pmm_inv s' (L \<union> run f pages) \<and> run f pages \<inter> L = {} else st = Out_Of_Memory \<and> f = 0 \<and> pmm_inv s' L"
    using r bump_run [OF assms(1) n_def assms(2)] pmm_inv_bump [OF assms(1) skip(1-3)] by (auto split: if_splits)
qed

lemma Align_Up_page:
  assumes "v \<le> Phys_Top"
  shows "v \<le> Align_Up v Page_Size" "Align_Up v Page_Size \<le> Phys_Top" "Align_Up v Page_Size mod Page_Size = 0"
proof -
  have "Align_Up v Page_Size = (v + 4095) div 4096 * 4096"
    using assms by (simp add: Align_Up_def wrap64_def Page_Size_def Phys_Top_def)
  moreover have "v \<le> (v + 4095) div 4096 * 4096" by linarith
  moreover have "(v + 4095) div 4096 * 4096 \<le> Phys_Top" using assms by (simp add: Phys_Top_def)
  ultimately show "v \<le> Align_Up v Page_Size" "Align_Up v Page_Size \<le> Phys_Top" "Align_Up v Page_Size mod Page_Size = 0"
    by (simp_all add: Page_Size_def)
qed

lemma Pmm_Initialize_inv:
  assumes "Pmm_Initialize first_free last_byte s = (Pmm_Ok, s')" and "0 < first_free" and "first_free \<le> Phys_Top"
    and "last_byte \<le> Phys_Top" and "Reserved s = []"
  shows "pmm_inv s' {}"
  using assms Align_Up_page [OF assms(3)]
  by (intro pmm_invI [of _ "[]"]) (auto simp: Pmm_Initialize_def Let_def bounds_ok_def free_list_def split: if_splits)

text \<open>
  A reservation keeps the invariant when, as the specification asks, the allocations have not reached the range yet: it starts
  at the bump pointer or above, or ends below the base.
\<close>

lemma Reserve_inv:
  assumes "pmm_inv s L" and "Reserve base len s = (st, s')" and "base + len \<le> Phys_Top"
    and "Next_Frame s \<le> base - base mod Page_Size \<or> Align_Up (base + len) Page_Size \<le> Base_Frame s"
  shows "pmm_inv s' L"
proof -
  obtain fs where fs: "bounds_ok s" "free_list s fs" "set fs \<inter> L = {}" "\<forall>g \<in> set fs \<union> L. frame_ok s g"
    using assms(1) by (rule pmm_invE)
  let ?r = "\<lparr>res_base = base - base mod Page_Size, res_last = Align_Up (base + len) Page_Size\<rparr>"
  have w: "wrap64 (base + len) = base + len" using assms(3) by (intro wrap64_small) simp
  have "range_ok ?r"
    using Align_Up_page [OF assms(3)] by (simp add: range_ok_def minus_mod_eq_mult_div)
  moreover have "\<not> in_range f ?r" if "frame_ok s f" for f using that assms(4) by (auto simp: in_range_def frame_ok_def)
  ultimately have "pmm_inv (s\<lparr>Reserved := Reserved s @ [?r]\<rparr>) L"
    using fs by (intro pmm_invI [OF _ _ fs(3)]) (auto simp: bounds_ok_def free_list_def frame_ok_def)
  then show ?thesis using assms(1,2) w by (auto simp: Reserve_def Let_def split: if_splits)
qed

subsection \<open>The frames the allocator can still hand out\<close>

text \<open>
  The available frames: those of the free list and those from the bump pointer to the limit that are not reserved. Every
  operation changes this set by exactly the frames it is about, so nothing is lost and nothing is freed twice.
\<close>

definition usable :: "pmm \<Rightarrow> nat \<Rightarrow> bool" where
  "usable s f \<longleftrightarrow> Next_Frame s \<le> f \<and> f mod Page_Size = 0 \<and> f + Page_Size \<le> Limit s \<and> (\<forall>r \<in> set (Reserved s). \<not> in_range f r)"

lemma usable_skip:
  assumes "pmm_inv s L" and "usable s f"
  shows "Skip_Reserved (Reserved s) (Next_Frame s) 1 \<le> f"
proof (rule ccontr)
  assume "\<not> ?thesis"
  moreover have "\<forall>r \<in> set (Reserved s). range_ok r" "Next_Frame s \<le> Phys_Top" "Next_Frame s mod Page_Size = 0"
    using assms(1) by (auto simp: pmm_inv_def bounds_ok_def)
  ultimately have "\<exists>r \<in> set (Reserved s). in_range f r"
    using assms(2) by (intro Skip_Reserved_tight) (auto simp: usable_def)
  then show False using assms(2) by (auto simp: usable_def)
qed

definition ready_frames :: "pmm \<Rightarrow> nat set" where
  "ready_frames s = {f. (\<exists>fs. free_list s fs \<and> f \<in> set fs) \<or> usable s f}"

lemma ready_frames_list:
  assumes "free_list s fs"
  shows "ready_frames s = set fs \<union> {f. usable s f}"
proof -
  have "(\<exists>gs. free_list s gs \<and> f \<in> set gs) \<longleftrightarrow> f \<in> set fs" for f
    using assms free_list_unique [OF assms] by metis
  then show ?thesis unfolding ready_frames_def by blast
qed

lemma available_not_held:
  assumes "pmm_inv s L"
  shows "ready_frames s \<inter> L = {}"
proof -
  obtain fs where fs: "free_list s fs" "set fs \<inter> L = {}" "\<forall>f \<in> set fs \<union> L. frame_ok s f"
    using assms by (rule pmm_invE)
  moreover have "\<not> usable s f" if "frame_ok s f" for f using that by (simp add: usable_def frame_ok_def)
  ultimately show ?thesis unfolding ready_frames_list [OF fs(1)] by blast
qed

lemma skip_usable:
  assumes "pmm_inv s L" and "n = Skip_Reserved (Reserved s) (Next_Frame s) 1" and "n + Page_Size \<le> Limit s"
  shows "usable s n"
proof -
  have b: "bounds_ok s" using assms(1) by (rule pmm_invE)
  note skip = bounds_skip [OF b, of 1, folded assms(2)]
  have "\<forall>r \<in> set (Reserved s). \<not> in_range n r"
    using b skip(2-4) page_overlap unfolding bounds_ok_def by metis
  then show ?thesis using assms(3) skip(1,3) by (simp add: usable_def)
qed

lemma usable_bump:
  assumes "pmm_inv s L" and "n = Skip_Reserved (Reserved s) (Next_Frame s) 1" and "n + Page_Size \<le> Limit s"
  shows "usable s f \<longleftrightarrow> f = n \<or> usable (s\<lparr>Next_Frame := n + Page_Size\<rparr>) f"
proof -
  have b: "bounds_ok s" using assms(1) by (rule pmm_invE)
  note skip = bounds_skip [OF b, of 1, folded assms(2)]
  have "n + Page_Size \<le> f" if "usable s f" "f \<noteq> n"
    using usable_skip [OF assms(1) that(1), folded assms(2)] that page_gap [OF skip(3), of f] by (simp add: usable_def)
  then show ?thesis using skip_usable [OF assms] skip(1) by (auto simp: usable_def)
qed

lemma Allocate_Frame_available:
  assumes "pmm_inv s L" and "Allocate_Frame s = (Pmm_Ok, f, s')"
  shows "f \<in> ready_frames s \<and> ready_frames s' = ready_frames s - {f}"
proof -
  obtain fs where fs: "bounds_ok s" "free_list s fs" "\<forall>f \<in> set fs \<union> L. frame_ok s f" "length fs \<le> Phys_Top"
    using assms(1) by (rule pmm_invE)
  show ?thesis
  proof (cases "Free_List_Head s = 0")
    case True
    let ?n = "Skip_Reserved (Reserved s) (Next_Frame s) 1"
    have al: "?n + Page_Size \<le> Limit s" "f = ?n" "s' = s\<lparr>Next_Frame := ?n + Page_Size\<rparr>"
      using Allocate_Frame_bump(1) [OF assms(1) True refl] assms(2) by (auto split: if_splits)
    have "fs = []" using fs(2) True by (cases fs) (auto simp: free_list_def)
    moreover have "free_list s' fs" using fs(2) al(3) by (simp add: free_list_def)
    moreover have "\<not> usable s' f" using al(2,3) by (simp add: usable_def)
    ultimately show ?thesis
      using ready_frames_list [OF fs(2)] ready_frames_list [of s' fs] usable_bump [OF assms(1) refl al(1)] al(2,3) by auto
  next
    case False
    then obtain gs where gs: "fs = Free_List_Head s # gs" using fs(2) by (cases fs) (auto simp: free_list_def)
    have al: "f = Free_List_Head s"
        "s' = poke f 0 (s\<lparr>Free_List_Head := phys_mem s f, Free_List_Count := sub64 (Free_List_Count s) 1\<rparr>)"
      using False assms(2) fs(1) by (auto simp: Allocate_Frame_def Let_def bounds_ok_def)
    then have "free_list s' gs" using fs(2,4) gs sub64_pred [of "length fs"] by (simp add: free_list_def poke_def)
    moreover have "usable s' = usable s" using al(2) by (auto simp: usable_def poke_def fun_eq_iff)
    moreover have "\<not> usable s f" "f \<notin> set gs" using fs(2,3) gs al(1) by (auto simp: usable_def frame_ok_def free_list_def)
    ultimately show ?thesis using ready_frames_list [OF fs(2)] ready_frames_list [of s' gs] gs al(1) by auto
  qed
qed

lemma Allocate_fail_available:
  assumes "pmm_inv s L" and "Allocate_Frame s = (st, f, s')" and "st \<noteq> Pmm_Ok"
  shows "ready_frames s = {} \<and> ready_frames s' = {}"
proof -
  let ?n = "Skip_Reserved (Reserved s) (Next_Frame s) 1"
  note h = Allocate_Frame_fail(5) [OF assms]
  have al: "\<not> ?n + Page_Size \<le> Limit s" "s' = s\<lparr>Next_Frame := ?n\<rparr>"
    using Allocate_Frame_bump(1) [OF assms(1) h refl] assms(2,3) by (auto split: if_splits)
  obtain fs where fs: "free_list s fs" using assms(1) by (rule pmm_invE)
  then have "fs = []" using h by (cases fs) (auto simp: free_list_def)
  then have "free_list s []" "free_list s' []" using fs al(2) by (simp_all add: free_list_def)
  moreover have "\<not> usable s g" for g
  proof
    assume g: "usable s g"
    then have "?n \<le> g" "g + Page_Size \<le> Limit s" using usable_skip [OF assms(1) g] by (simp_all add: usable_def)
    with al(1) show False by linarith
  qed
  moreover have "\<not> usable s' g" for g using al by (simp add: usable_def)
  ultimately show ?thesis using ready_frames_list by simp
qed

lemma Deallocate_available:
  assumes "pmm_inv s L" and "f \<in> L" and "Deallocate_Frame f s = Some (st, s')"
  shows "ready_frames s' = insert f (ready_frames s)"
proof -
  obtain fs where fs: "bounds_ok s" "free_list s fs" "set fs \<inter> L = {}" "\<forall>g \<in> set fs \<union> L. frame_ok s g" "length fs \<le> Phys_Top"
    using assms(1) by (rule pmm_invE)
  have f: "frame_ok s f" "f \<notin> set fs" "0 < f" using fs(3,4) assms(2) pmm_inv_live(1) [OF assms(1,2)] by auto
  have valid: "Is_Ready s" "Valid_Frame s f" using fs(1) f(1) by (simp_all add: bounds_ok_def frame_ok_def Valid_Frame_def)
  have out: "Is_In_Free_List (phys_mem s) (Free_List_Head s) f = Some False"
    using f(2) by (simp add: free_list_member [OF fs(2)])
  have w: "wrap64 (f + Page_Size) = f + Page_Size" "wrap64 (length fs + 1) = length fs + 1"
    using frame_ok_bounds(3) [OF fs(1) f(1)] fs(5) Page_le_Top Page_Size_pos(1) by (auto intro!: wrap64_small simp del: Page_Size_pos)
  show ?thesis
  proof (cases "f + Page_Size = Next_Frame s")
    case True
    then have s': "s' = s\<lparr>Next_Frame := f\<rparr>" using assms(3) valid out w by (simp add: Deallocate_Frame_def)
    have "g = f \<or> usable s g" if "usable s' g" for g
    proof (cases "f < g")
      case lt: True
      then have "f + Page_Size \<le> g" using that f(1) by (intro page_gap) (simp_all add: usable_def frame_ok_def)
      then show ?thesis using that True s' by (simp add: usable_def)
    qed (use that s' in \<open>simp add: usable_def\<close>)
    moreover have "usable s' g" if "g = f \<or> usable s g" for g
      using that f(1) True s' by (auto simp: usable_def frame_ok_def)
    moreover have "free_list s' fs" using fs(2) s' by (simp add: free_list_def)
    ultimately show ?thesis using ready_frames_list [OF fs(2)] ready_frames_list [of s' fs] by blast
  next
    case False
    then have s': "s' = (poke f (Free_List_Head s) s)\<lparr>Free_List_Head := f, Free_List_Count := wrap64 (Free_List_Count s + 1)\<rparr>"
      using assms(3) valid out w by (simp add: Deallocate_Frame_def)
    have "free_list s' (f # fs)" using fs(2) f(2,3) w(2) s' by (simp add: free_list_def poke_def)
    moreover have "usable s' = usable s" using s' by (auto simp: usable_def poke_def fun_eq_iff)
    ultimately show ?thesis using ready_frames_list [OF fs(2)] ready_frames_list [of s' "f # fs"] by auto
  qed
qed

lemma held_not_free:
  assumes "pmm_inv s L" and "f \<in> L" and "k < Page_Size" and "free_list s fs"
  shows "f + k \<notin> set fs"
proof
  assume k: "f + k \<in> set fs"
  obtain gs where gs: "free_list s gs" "set gs \<inter> L = {}" "\<forall>g \<in> set gs \<union> L. frame_ok s g"
    using assms(1) by (rule pmm_invE)
  then have k': "f + k \<in> set gs" using free_list_unique [OF assms(4)] k by blast
  then have "f < f + k" using gs(2) assms(2) by (cases k) auto
  then show False using page_gap [of f "f + k"] gs(3) k' assms(2,3) by (auto simp: frame_ok_def)
qed

lemma poke_available:
  assumes "pmm_inv s L" and "f \<in> L" and "k < Page_Size"
  shows "ready_frames (poke (f + k) v s) = ready_frames s"
proof -
  obtain fs where fs: "free_list s fs" using assms(1) by (rule pmm_invE)
  then have "free_list (poke (f + k) v s) fs"
    using held_not_free [OF assms fs] by (simp add: free_list_def poke_def)
  moreover have "usable (poke (f + k) v s) = usable s" by (auto simp: usable_def poke_def fun_eq_iff)
  ultimately show ?thesis using ready_frames_list fs by simp
qed

subsection \<open>The interface the rest of the kernel relies on\<close>

text \<open>
  A source of frames: states with a set of frames in use, which allocation extends by a fresh frame, which freeing shrinks, and
  which writing inside a frame in use leaves alone. Only a frame that changes hands may change its contents.
\<close>

definition same_frame :: "(nat \<Rightarrow> nat) \<Rightarrow> (nat \<Rightarrow> nat) \<Rightarrow> nat \<Rightarrow> bool" where
  "same_frame m m' f \<longleftrightarrow> (\<forall>k < Page_Size. m' (f + k) = m (f + k))"

lemma same_frame_refl [simp]: "same_frame m m f"
  by (simp add: same_frame_def)

lemma same_frame_trans: "same_frame m m' f \<Longrightarrow> same_frame m' m'' f \<Longrightarrow> same_frame m m'' f"
  by (simp add: same_frame_def)

lemma same_frameD: "same_frame m m' f \<Longrightarrow> k < Page_Size \<Longrightarrow> m' (f + k) = m (f + k)"
  by (simp add: same_frame_def)

lemma frames_apart:
  assumes "f mod Page_Size = 0" and "g mod Page_Size = 0" and "f \<noteq> g" and "j < Page_Size" and "k < Page_Size"
  shows "f + j \<noteq> g + k"
  using page_gap [of f g] page_gap [of g f] assms by linarith

primrec dealloc_all :: "(nat \<Rightarrow> 's \<Rightarrow> (pmm_status \<times> 's) option) \<Rightarrow> nat list \<Rightarrow> 's \<Rightarrow> 's option" where
  "dealloc_all dealloc [] s = Some s"
| "dealloc_all dealloc (f # fs) s = (case dealloc f s of None \<Rightarrow> None | Some (_, s') \<Rightarrow> dealloc_all dealloc fs s')"

locale frame_source =
  fixes inv :: "'s \<Rightarrow> nat set \<Rightarrow> bool"
    and alloc :: "'s \<Rightarrow> pmm_status \<times> nat \<times> 's"
    and dealloc :: "nat \<Rightarrow> 's \<Rightarrow> (pmm_status \<times> 's) option"
    and mem :: "'s \<Rightarrow> nat \<Rightarrow> nat"
    and store :: "nat \<Rightarrow> nat \<Rightarrow> 's \<Rightarrow> 's"
    and avail :: "'s \<Rightarrow> nat set"
  assumes live: "inv s L \<Longrightarrow> f \<in> L \<Longrightarrow> 0 < f \<and> f mod Page_Size = 0"
    and alloc_fresh: "inv s L \<Longrightarrow> alloc s = (Pmm_Ok, f, s') \<Longrightarrow>
      f \<notin> L \<and> inv s' (insert f L) \<and> (\<forall>g \<in> L. same_frame (mem s) (mem s') g)"
    and alloc_none: "inv s L \<Longrightarrow> alloc s = (st, f, s') \<Longrightarrow> st \<noteq> Pmm_Ok \<Longrightarrow>
      inv s' L \<and> (\<forall>g \<in> L. same_frame (mem s) (mem s') g)"
    and dealloc_live: "inv s L \<Longrightarrow> f \<in> L \<Longrightarrow>
      \<exists>s'. dealloc f s = Some (Pmm_Ok, s') \<and> inv s' (L - {f}) \<and> (\<forall>g \<in> L - {f}. same_frame (mem s) (mem s') g)"
    and store_live: "inv s L \<Longrightarrow> f \<in> L \<Longrightarrow> k < Page_Size \<Longrightarrow> inv (store (f + k) v s) L"
    and mem_store: "mem (store a v s) = (mem s)(a := v)"
    and alloc_avail: "inv s L \<Longrightarrow> alloc s = (Pmm_Ok, f, s') \<Longrightarrow> f \<in> avail s \<and> avail s' = avail s - {f}"
    and none_avail: "inv s L \<Longrightarrow> alloc s = (st, f, s') \<Longrightarrow> st \<noteq> Pmm_Ok \<Longrightarrow> avail s = {} \<and> avail s' = {}"
    and dealloc_avail: "inv s L \<Longrightarrow> f \<in> L \<Longrightarrow> dealloc f s = Some (st, s') \<Longrightarrow> avail s' = insert f (avail s)"
    and store_avail: "inv s L \<Longrightarrow> f \<in> L \<Longrightarrow> k < Page_Size \<Longrightarrow> avail (store (f + k) v s) = avail s"
begin

lemma store_other:
  assumes "inv s L" and "f \<in> L" and "g \<in> L" and "f \<noteq> g" and "k < Page_Size"
  shows "same_frame (mem s) (mem (store (f + k) v s)) g"
  using frames_apart [of g f _ k] live assms by (auto simp: same_frame_def mem_store)

lemma stores_live:
  assumes "inv s L" and "f \<in> L" and "\<forall>(k, v) \<in> set kvs. k < Page_Size"
  shows "inv (fold (\<lambda>(k, v). store (f + k) v) kvs s) L \<and> (\<forall>g \<in> L - {f}. same_frame (mem s) (mem (fold (\<lambda>(k, v). store (f + k) v) kvs s)) g)"
  using assms(1,3)
proof (induction kvs arbitrary: s)
  case (Cons kv kvs)
  obtain k v where kv: "kv = (k, v)" by force
  let ?s = "store (f + k) v s"
  have "inv ?s L" "\<forall>g \<in> L - {f}. same_frame (mem s) (mem ?s) g"
    using Cons.prems assms(2) kv store_live store_other by auto
  with Cons.IH [of ?s] Cons.prems(2) kv show ?case by (auto intro: same_frame_trans)
qed simp

lemma stores_avail:
  assumes "inv s L" and "f \<in> L" and "\<forall>(k, v) \<in> set kvs. k < Page_Size"
  shows "avail (fold (\<lambda>(k, v). store (f + k) v) kvs s) = avail s"
  using assms(1,3)
proof (induction kvs arbitrary: s)
  case (Cons kv kvs)
  obtain k v where kv: "kv = (k, v)" by force
  then have "inv (store (f + k) v s) L" "avail (store (f + k) v s) = avail s"
    using Cons.prems assms(2) store_live store_avail by auto
  with Cons.IH [of "store (f + k) v s"] Cons.prems(2) kv show ?case by auto
qed simp

lemma dealloc_all_live:
  assumes "inv s L" and "set fs \<subseteq> L" and "distinct fs"
  shows "\<exists>s'. dealloc_all dealloc fs s = Some s' \<and> inv s' (L - set fs) \<and> (\<forall>g \<in> L - set fs. same_frame (mem s) (mem s') g) \<and>
    avail s' = avail s \<union> set fs"
  using assms
proof (induction fs arbitrary: s L)
  case (Cons f fs)
  obtain s1 where s1: "dealloc f s = Some (Pmm_Ok, s1)" "inv s1 (L - {f})" "\<forall>g \<in> L - {f}. same_frame (mem s) (mem s1) g"
    using dealloc_live [OF Cons.prems(1), of f] Cons.prems(2) by auto
  have a1: "avail s1 = insert f (avail s)" using dealloc_avail [OF Cons.prems(1) _ s1(1)] Cons.prems(2) by simp
  obtain s2 where s2: "dealloc_all dealloc fs s1 = Some s2" "inv s2 (L - {f} - set fs)"
      "\<forall>g \<in> L - {f} - set fs. same_frame (mem s1) (mem s2) g" "avail s2 = avail s1 \<union> set fs"
    using Cons.IH [OF s1(2)] Cons.prems(2,3) by auto
  have L: "L - {f} - set fs = L - set (f # fs)" by auto
  have "\<forall>g \<in> L - set (f # fs). same_frame (mem s) (mem s2) g" using s1(3) s2(3) same_frame_trans by fastforce
  then show ?case using s1(1) s2(1,2,4) a1 L by simp
qed simp

end

interpretation pm: frame_source pmm_inv Allocate_Frame Deallocate_Frame phys_mem poke ready_frames
proof unfold_locales
  fix s s' :: pmm and L :: "nat set" and f k v st
  assume inv: "pmm_inv s L"
  show "0 < f \<and> f mod Page_Size = 0" if "f \<in> L" using pmm_inv_live [OF inv that] by simp
  show "f \<notin> L \<and> pmm_inv s' (insert f L) \<and> (\<forall>g \<in> L. same_frame (phys_mem s) (phys_mem s') g)"
    if "Allocate_Frame s = (Pmm_Ok, f, s')"
  proof -
    note a = Allocate_Frame_ok [OF inv that]
    have "g + j \<noteq> f" if "g \<in> L" "j < Page_Size" for g j
      using frames_apart [of g f j 0] pmm_inv_live(2) [OF a(2)] a(1) that by (metis Page_Size_pos(1) add_0_right insert_iff)
    with a show ?thesis by (auto simp: same_frame_def)
  qed
  show "pmm_inv s' L \<and> (\<forall>g \<in> L. same_frame (phys_mem s) (phys_mem s') g)" if "Allocate_Frame s = (st, f, s')" "st \<noteq> Pmm_Ok"
    using Allocate_Frame_fail [OF inv that] by simp
  show "\<exists>s'. Deallocate_Frame f s = Some (Pmm_Ok, s') \<and> pmm_inv s' (L - {f}) \<and>
      (\<forall>g \<in> L - {f}. same_frame (phys_mem s) (phys_mem s') g)" if f: "f \<in> L"
  proof -
    obtain s' where s': "Deallocate_Frame f s = Some (Pmm_Ok, s')" "pmm_inv s' (L - {f})" "\<forall>a. a \<noteq> f \<longrightarrow> phys_mem s' a = phys_mem s a"
      using Deallocate_live [OF inv f] by blast
    have "g + j \<noteq> f" if "g \<in> L - {f}" "j < Page_Size" for g j
      using frames_apart [of g f j 0] pmm_inv_live(2) [OF inv] f that
      by (metis Diff_iff Page_Size_pos(1) add_0_right insertCI)
    with s' show ?thesis by (auto simp: same_frame_def)
  qed
  show "pmm_inv (poke (f + k) v s) L" if "f \<in> L" "k < Page_Size" using poke_live [OF inv that] .
  show "f \<in> ready_frames s \<and> ready_frames s' = ready_frames s - {f}" if "Allocate_Frame s = (Pmm_Ok, f, s')"
    using Allocate_Frame_available [OF inv that] .
  show "ready_frames s = {} \<and> ready_frames s' = {}" if "Allocate_Frame s = (st, f, s')" "st \<noteq> Pmm_Ok"
    using Allocate_fail_available [OF inv that] .
  show "ready_frames s' = insert f (ready_frames s)" if "f \<in> L" "Deallocate_Frame f s = Some (st, s')"
    using Deallocate_available [OF inv that] .
  show "ready_frames (poke (f + k) v s) = ready_frames s" if "f \<in> L" "k < Page_Size" using poke_available [OF inv that] .
qed (simp add: poke_def)

subsection \<open>Runs of the kernel\<close>

text \<open>
  Every state the allocator can be in, with the frames its callers hold: it is initialised once, ranges are reserved before the
  allocations reach them, frames are freed by those who hold them, holders write inside their frames, and the bump pointer is
  rewound to a mark taken at the base or above.
\<close>

inductive pmm_run :: "pmm \<Rightarrow> nat set \<Rightarrow> bool" where
  boot: "Pmm_Initialize first_free last_byte s = (Pmm_Ok, s') \<Longrightarrow> 0 < first_free \<Longrightarrow> first_free \<le> Phys_Top \<Longrightarrow>
    last_byte \<le> Phys_Top \<Longrightarrow> Reserved s = [] \<Longrightarrow> pmm_run s' {}"
| reserve: "pmm_run s L \<Longrightarrow> Reserve base len s = (st, s') \<Longrightarrow> base + len \<le> Phys_Top \<Longrightarrow>
    Next_Frame s \<le> base - base mod Page_Size \<or> Align_Up (base + len) Page_Size \<le> Base_Frame s \<Longrightarrow> pmm_run s' L"
| frame: "pmm_run s L \<Longrightarrow> Allocate_Frame s = (Pmm_Ok, f, s') \<Longrightarrow> pmm_run s' (insert f L)"
| no_frame: "pmm_run s L \<Longrightarrow> Allocate_Frame s = (st, f, s') \<Longrightarrow> st \<noteq> Pmm_Ok \<Longrightarrow> pmm_run s' L"
| frames: "pmm_run s L \<Longrightarrow> pages * Page_Size \<le> Phys_Top \<Longrightarrow> Allocate_Contiguous pages s = (Pmm_Ok, f, s') \<Longrightarrow>
    pmm_run s' (L \<union> run f pages)"
| no_frames: "pmm_run s L \<Longrightarrow> pages * Page_Size \<le> Phys_Top \<Longrightarrow> Allocate_Contiguous pages s = (st, f, s') \<Longrightarrow> st \<noteq> Pmm_Ok \<Longrightarrow>
    pmm_run s' L"
| free: "pmm_run s L \<Longrightarrow> f \<in> L \<Longrightarrow> Deallocate_Frame f s = Some (st, s') \<Longrightarrow> pmm_run s' (L - {f})"
| refused: "pmm_run s L \<Longrightarrow> Deallocate_Frame f s = Some (st, s') \<Longrightarrow> st \<noteq> Pmm_Ok \<Longrightarrow> pmm_run s' L"
| use: "pmm_run s L \<Longrightarrow> f \<in> L \<Longrightarrow> k < Page_Size \<Longrightarrow> pmm_run (poke (f + k) v s) L"
| rewind: "pmm_run s L \<Longrightarrow> Base_Frame s \<le> to \<Longrightarrow> Rewind to s = Some (Pmm_Ok, s') \<Longrightarrow> pmm_run s' {f \<in> L. f < to}"

lemma Deallocate_refused: "Deallocate_Frame f s = Some (st, s') \<Longrightarrow> st \<noteq> Pmm_Ok \<Longrightarrow> s' = s"
  by (auto simp: Deallocate_Frame_def split: if_splits option.splits bool.splits)

lemma pmm_run_inv: "pmm_run s L \<Longrightarrow> pmm_inv s L"
proof (induction rule: pmm_run.induct)
  case boot
  then show ?case by (rule Pmm_Initialize_inv)
next
  case reserve
  then show ?case using Reserve_inv by blast
next
  case frame
  then show ?case using Allocate_Frame_ok(2) by blast
next
  case no_frame
  then show ?case using Allocate_Frame_fail(3) by blast
next
  case frames
  then show ?case using Allocate_Contiguous_ok(1) by fastforce
next
  case no_frames
  then show ?case using Allocate_Contiguous_ok(1) by fastforce
next
  case free
  then show ?case using Deallocate_live by fastforce
next
  case refused
  then show ?case using Deallocate_refused by blast
next
  case use
  then show ?case using poke_live by blast
next
  case (rewind s L to s')
  then have "to \<le> Next_Frame s" "to mod Page_Size = 0" by (auto simp: Rewind_def split: if_splits)
  then show ?case using Rewind_spec [of s L to] rewind by fastforce
qed

text \<open>
  Property C9: in every run of the kernel, the frame \<open>Allocate_Frame\<close> hands out is held by nobody, is page aligned, lies
  between the base and the limit and outside every reserved range, and the contents of the frames in use do not change.
\<close>

theorem allocated_frame_safe:
  assumes "pmm_run s L" and "Allocate_Frame s = (Pmm_Ok, f, s')"
  shows "f \<notin> L \<and> f mod Page_Size = 0 \<and> Base_Frame s' \<le> f \<and> f + Page_Size \<le> Limit s' \<and>
    (\<forall>r \<in> set (Reserved s'). \<not> in_range f r) \<and> (\<forall>g \<in> L. same_frame (phys_mem s) (phys_mem s') g)"
proof -
  note inv = pmm_run_inv [OF assms(1)]
  have "frame_ok s' f" using pmm_inv_live(4) Allocate_Frame_ok(2) [OF inv assms(2)] by blast
  then show ?thesis using pm.alloc_fresh [OF inv assms(2)] by (simp add: frame_ok_def)
qed

definition pmm_off :: pmm where
  "pmm_off = \<lparr>Base_Frame = 0, Next_Frame = 0, Limit = 0, Free_List_Head = 0, Free_List_Count = 0, Is_Ready = False,
     Reserved = [], phys_mem = (\<lambda>_. 0)\<rparr>"

definition pmm_demo :: pmm where
  "pmm_demo = snd (Pmm_Initialize 0x1000 0x6000 pmm_off)"

lemma pmm_demo_run: "pmm_run pmm_demo {}"
proof (rule pmm_run.boot)
  show "Pmm_Initialize 0x1000 0x6000 pmm_off = (Pmm_Ok, pmm_demo)"
    by (simp add: pmm_demo_def pmm_off_def Pmm_Initialize_def Let_def Align_Up_def wrap64_def Page_Size_def)
qed (simp_all add: pmm_off_def Phys_Top_def)

lemma pmm_demo_eq: "pmm_demo = pmm_off\<lparr>Base_Frame := 0x1000, Next_Frame := 0x1000, Limit := 0x6000, Is_Ready := True\<rparr>"
  by (simp add: pmm_demo_def pmm_off_def Pmm_Initialize_def Let_def Align_Up_def wrap64_def Page_Size_def)

lemma pmm_demo_first: "pmm_run (pmm_demo\<lparr>Next_Frame := 0x2000\<rparr>) {0x1000}"
proof -
  have "Allocate_Frame pmm_demo = (Pmm_Ok, 0x1000, pmm_demo\<lparr>Next_Frame := 0x2000\<rparr>)"
    by (simp add: Allocate_Frame_def pmm_demo_eq pmm_off_def Let_def Skip_Reserved_stop wrap64_def Page_Size_def)
  from pmm_run.frame [OF pmm_demo_run this] show ?thesis .
qed

theorem allocated_frame_safe_witness:
  "(0x2000 :: nat) \<notin> {0x1000} \<and> (0x2000 :: nat) mod Page_Size = 0 \<and>
    same_frame (phys_mem (pmm_demo\<lparr>Next_Frame := 0x2000\<rparr>)) (phys_mem (pmm_demo\<lparr>Next_Frame := 0x3000\<rparr>)) 0x1000"
proof -
  have "Allocate_Frame (pmm_demo\<lparr>Next_Frame := 0x2000\<rparr>) = (Pmm_Ok, 0x2000, pmm_demo\<lparr>Next_Frame := 0x3000\<rparr>)"
    by (simp add: Allocate_Frame_def pmm_demo_eq pmm_off_def Let_def Skip_Reserved_stop wrap64_def Page_Size_def)
  from allocated_frame_safe [OF pmm_demo_first this] show ?thesis by blast
qed

text \<open>
  Property C14: every call returns, and the allocator is complete: in every run \<open>Allocate_Frame\<close> succeeds exactly when the
  free list is not empty or some frame from the bump pointer to the limit is not reserved; freeing a held frame always succeeds
  and freeing a frame of the free list again is always refused without a change.
\<close>

theorem allocator_complete:
  assumes "pmm_run s L"
  shows "(fst (Allocate_Frame s) = Pmm_Ok) = (Free_List_Head s \<noteq> 0 \<or> (\<exists>f. usable s f)) \<and>
    (\<forall>f \<in> L. \<exists>s'. Deallocate_Frame f s = Some (Pmm_Ok, s')) \<and>
    (\<exists>fs. free_list s fs \<and> (\<forall>f \<in> set fs. Deallocate_Frame f s = Some (Invalid_Range, s)))"
proof (intro conjI)
  note inv = pmm_run_inv [OF assms]
  show "(fst (Allocate_Frame s) = Pmm_Ok) = (Free_List_Head s \<noteq> 0 \<or> (\<exists>f. usable s f))"
  proof (cases "Free_List_Head s = 0")
    case True
    let ?n = "Skip_Reserved (Reserved s) (Next_Frame s) 1"
    have "usable s ?n" if "?n + Page_Size \<le> Limit s" using skip_usable [OF inv refl that] .
    moreover have "?n + Page_Size \<le> Limit s" if "usable s f" for f
      using usable_skip [OF inv that] that by (simp add: usable_def)
    ultimately show ?thesis using True Allocate_Frame_bump(1) [OF inv True refl] by auto
  qed (use Allocate_Frame_list [OF inv] in auto)
  show "\<forall>f \<in> L. \<exists>s'. Deallocate_Frame f s = Some (Pmm_Ok, s')" using pm.dealloc_live [OF inv] by blast
  show "\<exists>fs. free_list s fs \<and> (\<forall>f \<in> set fs. Deallocate_Frame f s = Some (Invalid_Range, s))"
    using inv Deallocate_twice [OF inv] by (auto elim!: pmm_invE)
qed

theorem allocator_complete_witness: "fst (Allocate_Frame pmm_demo) = Pmm_Ok"
proof -
  have "usable pmm_demo 0x1000" by (simp add: usable_def pmm_demo_eq pmm_off_def Page_Size_def)
  then show ?thesis using allocator_complete [OF pmm_demo_run] by blast
qed

text \<open>
  Defect: a request for contiguous frames that fails still moves the bump pointer behind the reserved range it
  tried to step over. With frames 1 to 5 and frame 3 reserved, a failed request for three frames loses the free frames 1 and 2:
  they are not in use, not on the free list and not above the bump pointer.
\<close>

theorem failed_contiguous_loses_frames:
  "fst (Allocate_Contiguous 3 (snd (Reserve 0x3000 1 pmm_demo))) = Out_Of_Memory \<and>
   Free_Bytes (snd (Reserve 0x3000 1 pmm_demo)) = 0x5000 \<and>
   Free_Bytes (snd (snd (Allocate_Contiguous 3 (snd (Reserve 0x3000 1 pmm_demo))))) = 0x2000"
proof -
  have r: "Reserve 0x3000 1 pmm_demo = (Pmm_Ok, pmm_demo\<lparr>Reserved := [\<lparr>res_base = 0x3000, res_last = 0x4000\<rparr>]\<rparr>)"
    by (simp add: Reserve_def pmm_demo_eq pmm_off_def Let_def Align_Up_def wrap64_def Page_Size_def Max_Reserved_def)
  have o: "overlaps 0x1000 3 \<lparr>res_base = 0x3000, res_last = 0x4000\<rparr>" "\<not> overlaps 0x4000 3 \<lparr>res_base = 0x3000, res_last = 0x4000\<rparr>"
    by (simp_all add: overlaps_def wrap64_def Page_Size_def)
  then have "Skip_Reserved [\<lparr>res_base = 0x3000, res_last = 0x4000\<rparr>] 0x1000 3 = 0x4000"
    by (simp add: Skip_Reserved_step Skip_Reserved_stop)
  then show ?thesis unfolding r
    by (simp add: Allocate_Contiguous_def pmm_demo_eq pmm_off_def Let_def wrap64_def Page_Size_def Free_Bytes_def)
qed

end
