(* ===== verification/Kernel_Caps.thy ===== *)
theory Kernel_Caps
  imports Kernel_Frames
begin

unbundle bit_operations_syntax

text \<open>
  The kernel's capability tables, \<open>src/src/kernel/kernel-capabilities.adb\<close>: rights and their wire masks, and a table of 16384
  handles in 128 pages, each page a physical frame of 128 entries that is allocated when its first entry is written and freed
  when its last is closed. The entries live in the frames, laid out as the representation clause of \<open>Cap_Entry\<close> says, so
  that a zeroed frame is a page of \<open>Null_Cap\<close> is a lemma here and the tables of all processes share one memory.

  The abstract view of a table is a finite map from handles to entries, \<open>caps\<close>. \<open>table_ok T s X\<close> says that the
  allocator state \<open>s\<close> holds the frames of \<open>T\<close> apart from the frames \<open>X\<close> of everybody else and that the counters
  are true. Every operation keeps it, returns, and acts on the map as its specification says.
\<close>

subsection \<open>Rights and masks\<close>

datatype object_kind =
  Null_Object | Frame_Object | Address_Space_Object | Process_Object | Thread_Object | Endpoint_Object | Reply_Object |
  IRQ_Object | MMIO_Object | DMA_Object | Kernel_Object | Boot_File_Object | Memory_Object | Notification_Object | Admin_Object

record rights =
  r_read :: bool
  r_write :: bool
  r_execute :: bool
  r_map :: bool
  r_send :: bool
  r_receive :: bool
  r_wait :: bool
  r_ack :: bool
  r_transfer :: bool
  r_manage :: bool

definition No_Rights :: rights where
  "No_Rights = \<lparr>r_read = False, r_write = False, r_execute = False, r_map = False, r_send = False, r_receive = False,
     r_wait = False, r_ack = False, r_transfer = False, r_manage = False\<rparr>"

definition All_Rights :: rights where
  "All_Rights = \<lparr>r_read = True, r_write = True, r_execute = True, r_map = True, r_send = True, r_receive = True,
     r_wait = True, r_ack = True, r_transfer = True, r_manage = True\<rparr>"

definition Valid_Rights_Mask :: u64 where
  "Valid_Rights_Mask = 0x3FF"

definition To_Rights :: "u64 \<Rightarrow> rights" where
  "To_Rights msk = \<lparr>r_read = (msk AND 1 \<noteq> 0), r_write = (msk AND 2 \<noteq> 0), r_execute = (msk AND 4 \<noteq> 0),
     r_map = (msk AND 8 \<noteq> 0), r_send = (msk AND 16 \<noteq> 0), r_receive = (msk AND 32 \<noteq> 0), r_wait = (msk AND 64 \<noteq> 0),
     r_ack = (msk AND 128 \<noteq> 0), r_transfer = (msk AND 256 \<noteq> 0), r_manage = (msk AND 512 \<noteq> 0)\<rparr>"

definition To_Mask :: "rights \<Rightarrow> u64" where
  "To_Mask r =
     (let msk = 0;
          msk = if r_read r then msk OR 1 else msk;
          msk = if r_write r then msk OR 2 else msk;
          msk = if r_execute r then msk OR 4 else msk;
          msk = if r_map r then msk OR 8 else msk;
          msk = if r_send r then msk OR 16 else msk;
          msk = if r_receive r then msk OR 32 else msk;
          msk = if r_wait r then msk OR 64 else msk;
          msk = if r_ack r then msk OR 128 else msk;
          msk = if r_transfer r then msk OR 256 else msk;
          msk = if r_manage r then msk OR 512 else msk
      in msk)"

definition Has_Rights :: "rights \<Rightarrow> rights \<Rightarrow> bool" where
  "Has_Rights have need \<longleftrightarrow>
     (\<not> r_read need \<or> r_read have) \<and> (\<not> r_write need \<or> r_write have) \<and> (\<not> r_execute need \<or> r_execute have) \<and>
     (\<not> r_map need \<or> r_map have) \<and> (\<not> r_send need \<or> r_send have) \<and> (\<not> r_receive need \<or> r_receive have) \<and>
     (\<not> r_wait need \<or> r_wait have) \<and> (\<not> r_ack need \<or> r_ack have) \<and> (\<not> r_transfer need \<or> r_transfer have) \<and>
     (\<not> r_manage need \<or> r_manage have)"

text \<open>Bit \<open>i\<close> of a mask is component \<open>i\<close> of the record, in both directions.\<close>

lemma or_if: "(if b then x OR y else x) = x OR (if b then y else (0 :: u64))"
  by simp

lemma bit_pow_if: "bit (if b then (2 :: u64) ^ k else 0) n \<longleftrightarrow> b \<and> n = k \<and> k < 64"
  by (auto simp: bit_exp_iff possible_bit_word)

lemma bit_To_Mask:
  "bit (To_Mask r) n \<longleftrightarrow> (r_read r \<and> n = 0) \<or> (r_write r \<and> n = 1) \<or> (r_execute r \<and> n = 2) \<or> (r_map r \<and> n = 3) \<or>
     (r_send r \<and> n = 4) \<or> (r_receive r \<and> n = 5) \<or> (r_wait r \<and> n = 6) \<or> (r_ack r \<and> n = 7) \<or> (r_transfer r \<and> n = 8) \<or>
     (r_manage r \<and> n = 9)"
proof -
  have "To_Mask r = (if r_read r then 2 ^ 0 else 0) OR (if r_write r then 2 ^ 1 else 0) OR (if r_execute r then 2 ^ 2 else 0) OR
      (if r_map r then 2 ^ 3 else 0) OR (if r_send r then 2 ^ 4 else 0) OR (if r_receive r then 2 ^ 5 else 0) OR
      (if r_wait r then 2 ^ 6 else 0) OR (if r_ack r then 2 ^ 7 else 0) OR (if r_transfer r then 2 ^ 8 else 0) OR
      (if r_manage r then 2 ^ 9 else 0)"
    unfolding To_Mask_def Let_def or_if or.assoc by simp
  then show ?thesis by (simp only: bit_or_iff bit_pow_if) auto
qed

lemma and_pow: "(m :: u64) AND 2 ^ k \<noteq> 0 \<longleftrightarrow> bit m k"
  by (simp add: and_exp_eq_0_iff_not_bit)

lemma To_Rights_bits:
  "To_Rights m = \<lparr>r_read = bit m 0, r_write = bit m 1, r_execute = bit m 2, r_map = bit m 3, r_send = bit m 4, r_receive = bit m 5,
     r_wait = bit m 6, r_ack = bit m 7, r_transfer = bit m 8, r_manage = bit m 9\<rparr>"
  using and_pow [of m 0] and_pow [of m 1] and_pow [of m 2] and_pow [of m 3] and_pow [of m 4] and_pow [of m 5] and_pow [of m 6]
    and_pow [of m 7] and_pow [of m 8] and_pow [of m 9]
  unfolding To_Rights_def by simp

lemma bit_Valid: "bit Valid_Rights_Mask n \<longleftrightarrow> n < 10"
proof -
  have "Valid_Rights_Mask = Bit_Operations.mask 10" by (simp add: Valid_Rights_Mask_def mask_eq_exp_minus_1)
  then show ?thesis unfolding \<open>Valid_Rights_Mask = _\<close> bit_mask_iff possible_bit_word by auto
qed

lemma less_10: "(n :: nat) < 10 \<longleftrightarrow> n = 0 \<or> n = 1 \<or> n = 2 \<or> n = 3 \<or> n = 4 \<or> n = 5 \<or> n = 6 \<or> n = 7 \<or> n = 8 \<or> n = 9"
  by auto

lemma To_Rights_Mask: "To_Rights (To_Mask r) = r"
  by (simp add: To_Rights_bits bit_To_Mask)

lemma To_Mask_Rights: "To_Mask (To_Rights m) = m AND Valid_Rights_Mask"
  by (rule bit_word_eqI) (auto simp: bit_To_Mask To_Rights_bits bit_and_iff bit_Valid less_10)

lemma rights_all_bits:
  "(\<forall>n. bit (To_Mask r) n \<longrightarrow> P n) \<longleftrightarrow> (r_read r \<longrightarrow> P 0) \<and> (r_write r \<longrightarrow> P 1) \<and> (r_execute r \<longrightarrow> P 2) \<and> (r_map r \<longrightarrow> P 3) \<and>
     (r_send r \<longrightarrow> P 4) \<and> (r_receive r \<longrightarrow> P 5) \<and> (r_wait r \<longrightarrow> P 6) \<and> (r_ack r \<longrightarrow> P 7) \<and> (r_transfer r \<longrightarrow> P 8) \<and>
     (r_manage r \<longrightarrow> P 9)"
  unfolding bit_To_Mask by blast

lemma Has_Rights_bits: "Has_Rights h r \<longleftrightarrow> To_Mask h AND To_Mask r = To_Mask r"
proof -
  have b: "n < 64" if "bit (To_Mask r) n" for n using bit_imp_le_length [OF that] by simp
  have "To_Mask h AND To_Mask r = To_Mask r \<longleftrightarrow> (\<forall>n. bit (To_Mask r) n \<longrightarrow> bit (To_Mask h) n)"
    unfolding bit_eq_iff bit_and_iff by (auto simp: possible_bit_word dest: b)
  also have "\<dots> \<longleftrightarrow> Has_Rights h r"
    unfolding rights_all_bits bit_To_Mask [of h] Has_Rights_def by simp
  finally show ?thesis by simp
qed

subsection \<open>Entries in memory\<close>

record cap_entry =
  c_object :: nat
  c_badge :: nat
  c_rights :: rights
  c_valid :: bool
  c_kind :: object_kind

definition Null_Cap :: cap_entry where
  "Null_Cap = \<lparr>c_object = 0, c_badge = 0, c_rights = No_Rights, c_valid = False, c_kind = Null_Object\<rparr>"

definition Object_Kinds :: "object_kind list" where
  "Object_Kinds = [Null_Object, Frame_Object, Address_Space_Object, Process_Object, Thread_Object, Endpoint_Object, Reply_Object,
     IRQ_Object, MMIO_Object, DMA_Object, Kernel_Object, Boot_File_Object, Memory_Object, Notification_Object, Admin_Object]"

fun kind_pos :: "object_kind \<Rightarrow> nat" where
  "kind_pos Null_Object = 0"
| "kind_pos Frame_Object = 1"
| "kind_pos Address_Space_Object = 2"
| "kind_pos Process_Object = 3"
| "kind_pos Thread_Object = 4"
| "kind_pos Endpoint_Object = 5"
| "kind_pos Reply_Object = 6"
| "kind_pos IRQ_Object = 7"
| "kind_pos MMIO_Object = 8"
| "kind_pos DMA_Object = 9"
| "kind_pos Kernel_Object = 10"
| "kind_pos Boot_File_Object = 11"
| "kind_pos Memory_Object = 12"
| "kind_pos Notification_Object = 13"
| "kind_pos Admin_Object = 14"

text \<open>
  The record takes 32 bytes: the object's address, the badge, ten bytes of rights, the validity byte and the kind byte. The
  bytes of one memory word are its digits to base 256, the lowest address first. A byte that is no position of \<open>Object_Kind\<close>
  is never written by this package.
\<close>

primrec pack :: "nat list \<Rightarrow> nat" where
  "pack [] = 0"
| "pack (b # bs) = b + 256 * pack bs"

primrec unpack :: "nat \<Rightarrow> nat \<Rightarrow> nat list" where
  "unpack 0 w = []"
| "unpack (Suc n) w = w mod 256 # unpack n (w div 256)"

definition rights_bytes :: "rights \<Rightarrow> nat list" where
  "rights_bytes r = map of_bool [r_read r, r_write r, r_execute r, r_map r, r_send r, r_receive r, r_wait r, r_ack r, r_transfer r,
     r_manage r]"

definition bytes_rights :: "nat list \<Rightarrow> rights" where
  "bytes_rights bs = \<lparr>r_read = bs ! 0 \<noteq> 0, r_write = bs ! 1 \<noteq> 0, r_execute = bs ! 2 \<noteq> 0, r_map = bs ! 3 \<noteq> 0, r_send = bs ! 4 \<noteq> 0,
     r_receive = bs ! 5 \<noteq> 0, r_wait = bs ! 6 \<noteq> 0, r_ack = bs ! 7 \<noteq> 0, r_transfer = bs ! 8 \<noteq> 0, r_manage = bs ! 9 \<noteq> 0\<rparr>"

definition entry_bytes :: "cap_entry \<Rightarrow> nat list" where
  "entry_bytes e = rights_bytes (c_rights e) @ [of_bool (c_valid e), kind_pos (c_kind e)]"

definition put_entry :: "nat \<Rightarrow> cap_entry \<Rightarrow> pmm \<Rightarrow> pmm" where
  "put_entry a e = poke (a + 24) (pack (drop 8 (entry_bytes e))) \<circ> poke (a + 16) (pack (take 8 (entry_bytes e))) \<circ>
     poke (a + 8) (c_badge e) \<circ> poke a (c_object e)"

definition get_entry :: "(nat \<Rightarrow> nat) \<Rightarrow> nat \<Rightarrow> cap_entry" where
  "get_entry m a =
     (let bs = unpack 8 (m (a + 16)) @ unpack 4 (m (a + 24))
      in \<lparr>c_object = m a, c_badge = m (a + 8), c_rights = bytes_rights bs, c_valid = bs ! 10 \<noteq> 0, c_kind = Object_Kinds ! (bs ! 11)\<rparr>)"

lemma unpack_pack: "\<forall>b \<in> set bs. b < 256 \<Longrightarrow> unpack (length bs) (pack bs) = bs"
  by (induction bs) auto

lemma unpack_0: "unpack n 0 = replicate n 0"
  by (induction n) simp_all

lemma kind_pos_less: "kind_pos k < 15"
  by (cases k) auto

lemma Object_Kinds_pos: "Object_Kinds ! kind_pos k = k"
  by (cases k) (simp_all add: Object_Kinds_def)

lemma entry_bytes_small: "\<forall>b \<in> set (entry_bytes e). b < 256"
  using kind_pos_less [of "c_kind e"] by (auto simp: entry_bytes_def rights_bytes_def)

lemma length_entry_bytes: "length (entry_bytes e) = 12"
  by (simp add: entry_bytes_def rights_bytes_def)

lemma get_put_entry: "get_entry (phys_mem (put_entry a e s)) a = e"
proof -
  have "unpack 8 (pack (take 8 (entry_bytes e))) = take 8 (entry_bytes e)"
    using unpack_pack [of "take 8 (entry_bytes e)"] entry_bytes_small [of e] length_entry_bytes [of e] by (auto dest: in_set_takeD)
  moreover have "unpack 4 (pack (drop 8 (entry_bytes e))) = drop 8 (entry_bytes e)"
    using unpack_pack [of "drop 8 (entry_bytes e)"] entry_bytes_small [of e] length_entry_bytes [of e] by (auto dest: in_set_dropD)
  ultimately have "get_entry (phys_mem (put_entry a e s)) a =
      \<lparr>c_object = c_object e, c_badge = c_badge e, c_rights = bytes_rights (entry_bytes e), c_valid = entry_bytes e ! 10 \<noteq> 0,
       c_kind = Object_Kinds ! (entry_bytes e ! 11)\<rparr>"
    by (simp add: get_entry_def put_entry_def poke_def Let_def)
  then show ?thesis
    by (simp add: entry_bytes_def rights_bytes_def bytes_rights_def nth_append Object_Kinds_pos nth_Cons')
qed

text \<open>An entry occupies its own 32 bytes only, and depends on nothing but the frame it lies in.\<close>

definition entry_addr :: "nat \<Rightarrow> nat \<Rightarrow> nat" where
  "entry_addr pa slot = pa + 32 * slot"

lemma get_entry_cong: "\<forall>k \<in> {0, 8, 16, 24}. m' (a + k) = m (a + k) \<Longrightarrow> get_entry m' a = get_entry m a"
  by (simp add: get_entry_def)

lemma get_put_other:
  assumes "slot \<noteq> slot'"
  shows "get_entry (phys_mem (put_entry (entry_addr pa slot) e s)) (entry_addr pa slot') = get_entry (phys_mem s) (entry_addr pa slot')"
proof -
  have "32 * slot' + 32 \<le> 32 * slot \<or> 32 * slot + 32 \<le> 32 * slot'" using assms by linarith
  then show ?thesis by (intro get_entry_cong) (auto simp: put_entry_def poke_def entry_addr_def)
qed

lemma get_entry_frame:
  assumes "same_frame m m' pa" and "slot < 128"
  shows "get_entry m' (entry_addr pa slot) = get_entry m (entry_addr pa slot)"
  using assms same_frameD [OF assms(1)]
  by (intro get_entry_cong) (auto simp: entry_addr_def Page_Size_def add.assoc)

subsection \<open>Tables and their operations\<close>

definition Max_Caps :: nat where
  "Max_Caps = 16384"

definition Invalid_Handle :: nat where
  "Invalid_Handle = 0"

definition Caps_Per_Page :: nat where
  "Caps_Per_Page = 128"

definition Page_Count :: nat where
  "Page_Count = 128"

datatype cap_status = Cap_Ok | Invalid_Cap | Invalid_Object | Rights_Denied | Table_Full | Slot_Occupied

record cap_table =
  Root :: "nat \<Rightarrow> nat"
  Count :: "nat \<Rightarrow> nat"
  Total :: nat

definition Page_No :: "nat \<Rightarrow> nat" where
  "Page_No cap = cap div Caps_Per_Page"

definition Slot_No :: "nat \<Rightarrow> nat" where
  "Slot_No cap = cap mod Caps_Per_Page"

definition Zero_Page :: "nat \<Rightarrow> pmm \<Rightarrow> pmm" where
  "Zero_Page pa = fold (\<lambda>i. poke (pa + 8 * i) 0) [0..<512]"

definition Get :: "cap_table \<Rightarrow> pmm \<Rightarrow> nat \<Rightarrow> cap_entry" where
  "Get T s cap =
     (let p = Page_No cap in if Root T p = 0 then Null_Cap else get_entry (phys_mem s) (entry_addr (Root T p) (Slot_No cap)))"

definition Put :: "cap_table \<Rightarrow> nat \<Rightarrow> cap_entry \<Rightarrow> pmm \<Rightarrow> pmm" where
  "Put T cap e = put_entry (entry_addr (Root T (Page_No cap)) (Slot_No cap)) e"

definition Ensure_Page :: "cap_table \<Rightarrow> nat \<Rightarrow> pmm \<Rightarrow> cap_status \<times> cap_table \<times> pmm" where
  "Ensure_Page T p s =
     (if Root T p \<noteq> 0 then (Cap_Ok, T, s)
      else case Allocate_Frame s of (st, f, s') \<Rightarrow>
        if st \<noteq> Pmm_Ok then (Table_Full, T, s')
        else (Cap_Ok, T\<lparr>Root := (Root T)(p := f)\<rparr>, Zero_Page f s'))"

definition Release_Page :: "cap_table \<Rightarrow> nat \<Rightarrow> pmm \<Rightarrow> (cap_table \<times> pmm) option" where
  "Release_Page T p s =
     (case Deallocate_Frame (Root T p) s of None \<Rightarrow> None | Some (_, s') \<Rightarrow> Some (T\<lparr>Root := (Root T)(p := 0)\<rparr>, s'))"

definition Initialize_Caps :: cap_table where
  "Initialize_Caps = \<lparr>Root = (\<lambda>_. 0), Count = (\<lambda>_. 0), Total = 0\<rparr>"

text \<open>The tail \<open>Insert\<close> and \<open>Insert_At\<close> share: make sure the page is there, write the entry, count it.\<close>

definition install :: "cap_table \<Rightarrow> nat \<Rightarrow> cap_entry \<Rightarrow> pmm \<Rightarrow> cap_status \<times> cap_table \<times> pmm" where
  "install T cap e s =
     (let p = Page_No cap
      in case Ensure_Page T p s of (st, T, s) \<Rightarrow>
           if st \<noteq> Cap_Ok then (st, T, s)
           else (Cap_Ok, T\<lparr>Count := (Count T)(p := Count T p + 1), Total := Total T + 1\<rparr>, Put T cap e s))"

definition Insert ::
  "cap_table \<Rightarrow> object_kind \<Rightarrow> nat \<Rightarrow> rights \<Rightarrow> nat \<Rightarrow> pmm \<Rightarrow> cap_status \<times> nat \<times> cap_table \<times> pmm" where
  "Insert T kind obj r badge s =
     (if kind = Null_Object \<or> obj = 0 then (Invalid_Object, Invalid_Handle, T, s)
      else case find (\<lambda>h. \<not> c_valid (Get T s h)) [1..<Max_Caps] of
        None \<Rightarrow> (Table_Full, Invalid_Handle, T, s)
      | Some h \<Rightarrow>
          case install T h \<lparr>c_object = obj, c_badge = badge, c_rights = r, c_valid = True, c_kind = kind\<rparr> s of (st, T', s') \<Rightarrow>
            (st, if st = Cap_Ok then h else Invalid_Handle, T', s'))"

definition Insert_At ::
  "cap_table \<Rightarrow> nat \<Rightarrow> object_kind \<Rightarrow> nat \<Rightarrow> rights \<Rightarrow> nat \<Rightarrow> pmm \<Rightarrow> cap_status \<times> cap_table \<times> pmm" where
  "Insert_At T cap kind obj r badge s =
     (if cap = Invalid_Handle then (Invalid_Cap, T, s)
      else if kind = Null_Object \<or> obj = 0 then (Invalid_Object, T, s)
      else if Root T (Page_No cap) \<noteq> 0 \<and> c_valid (Get T s cap) then (Slot_Occupied, T, s)
      else install T cap \<lparr>c_object = obj, c_badge = badge, c_rights = r, c_valid = True, c_kind = kind\<rparr> s)"

definition Lookup :: "cap_table \<Rightarrow> nat \<Rightarrow> pmm \<Rightarrow> cap_status \<times> cap_entry" where
  "Lookup T cap s =
     (let e = Get T s cap in if cap = Invalid_Handle \<or> \<not> c_valid e then (Invalid_Cap, Null_Cap) else (Cap_Ok, e))"

definition Duplicate :: "cap_table \<Rightarrow> nat \<Rightarrow> rights \<Rightarrow> nat \<Rightarrow> pmm \<Rightarrow> cap_status \<times> nat \<times> cap_table \<times> pmm" where
  "Duplicate T src new_rights new_badge s =
     (case Lookup T src s of (st, e) \<Rightarrow>
        if st \<noteq> Cap_Ok then (st, Invalid_Handle, T, s)
        else if \<not> r_transfer (c_rights e) \<or> \<not> Has_Rights (c_rights e) new_rights then (Rights_Denied, Invalid_Handle, T, s)
        else Insert T (c_kind e) (c_object e) new_rights new_badge s)"

text \<open>
  A value \<open>None\<close> is a call that does not return: the walk of the free list runs for ever, or a counter would leave \<open>Natural\<close>
  and the range check raises.
\<close>

definition Close :: "cap_table \<Rightarrow> nat \<Rightarrow> pmm \<Rightarrow> (cap_status \<times> cap_table \<times> pmm) option" where
  "Close T cap s =
     (if cap = Invalid_Handle \<or> \<not> c_valid (Get T s cap) then Some (Invalid_Cap, T, s)
      else
        let s = Put T cap Null_Cap s; p = Page_No cap
        in if Count T p = 0 \<or> Total T = 0 then None
           else
             let T = T\<lparr>Count := (Count T)(p := Count T p - 1), Total := Total T - 1\<rparr>
             in if Count T p = 0 then
                  case Release_Page T p s of None \<Rightarrow> None | Some (T, s) \<Rightarrow> Some (Cap_Ok, T, s)
                else Some (Cap_Ok, T, s))"

primrec reset_pages :: "nat list \<Rightarrow> cap_table \<Rightarrow> pmm \<Rightarrow> (cap_table \<times> pmm) option" where
  "reset_pages [] T s = Some (T, s)"
| "reset_pages (p # ps) T s =
     (if Root T p \<noteq> 0 then case Release_Page T p s of None \<Rightarrow> None | Some (T', s') \<Rightarrow> reset_pages ps T' s'
      else reset_pages ps T s)"

definition Reset :: "cap_table \<Rightarrow> pmm \<Rightarrow> (cap_table \<times> pmm) option" where
  "Reset T s =
     (case reset_pages [0..<Page_Count] T s of None \<Rightarrow> None | Some (T, s) \<Rightarrow> Some (T\<lparr>Count := (\<lambda>_. 0), Total := 0\<rparr>, s))"

definition Used_Count :: "cap_table \<Rightarrow> nat" where
  "Used_Count T = Total T"

definition Table_Coherent :: "cap_table \<Rightarrow> bool" where
  "Table_Coherent T \<longleftrightarrow> Total T \<le> Max_Caps \<and> (\<forall>p < Page_Count. (Count T p = 0) = (Root T p = 0))"

subsection \<open>The map a table stands for, and the invariant\<close>

definition caps :: "cap_table \<Rightarrow> pmm \<Rightarrow> nat \<rightharpoonup> cap_entry" where
  "caps T s = (\<lambda>h. if h < Max_Caps \<and> c_valid (Get T s h) then Some (Get T s h) else None)"

definition used_pages :: "cap_table \<Rightarrow> nat set" where
  "used_pages T = {p. p < Page_Count \<and> Root T p \<noteq> 0}"

definition roots :: "cap_table \<Rightarrow> nat set" where
  "roots T = Root T ` used_pages T"

definition pages_ok :: "cap_table \<Rightarrow> pmm \<Rightarrow> nat set \<Rightarrow> bool" where
  "pages_ok T s X \<longleftrightarrow> pmm_inv s (roots T \<union> X) \<and> roots T \<inter> X = {} \<and> inj_on (Root T) (used_pages T)"

definition counts_ok :: "cap_table \<Rightarrow> (nat \<rightharpoonup> cap_entry) \<Rightarrow> bool" where
  "counts_ok T c \<longleftrightarrow> (\<forall>p < Page_Count. Count T p = card {h \<in> dom c. Page_No h = p} \<and> (Count T p = 0) = (Root T p = 0)) \<and>
     Total T = card (dom c)"

definition table_ok :: "cap_table \<Rightarrow> pmm \<Rightarrow> nat set \<Rightarrow> bool" where
  "table_ok T s X \<longleftrightarrow> pages_ok T s X \<and> counts_ok T (caps T s) \<and> 0 \<notin> dom (caps T s)"

definition kept :: "pmm \<Rightarrow> pmm \<Rightarrow> nat set \<Rightarrow> bool" where
  "kept s s' X \<longleftrightarrow> (\<forall>g \<in> X. same_frame (phys_mem s) (phys_mem s') g)"

lemma kept_refl [simp]: "kept s s X"
  by (simp add: kept_def)

lemma kept_trans: "kept s s' X \<Longrightarrow> kept s' s'' X \<Longrightarrow> kept s s'' X"
  unfolding kept_def using same_frame_trans by blast

lemma kept_mono: "kept s s' Y \<Longrightarrow> X \<subseteq> Y \<Longrightarrow> kept s s' X"
  unfolding kept_def by blast

lemma Page_No_less: "h < Max_Caps \<Longrightarrow> Page_No h < Page_Count"
  by (simp add: Page_No_def Max_Caps_def Caps_Per_Page_def Page_Count_def less_mult_imp_div_less)

lemma Slot_No_less [simp]: "Slot_No h < 128"
  by (simp add: Slot_No_def Caps_Per_Page_def)

lemma handle_eq: "Page_No h = Page_No h' \<Longrightarrow> Slot_No h = Slot_No h' \<Longrightarrow> h = h'"
  unfolding Page_No_def Slot_No_def by (metis div_mult_mod_eq)

lemma finite_caps: "finite (dom (caps T s))" "dom (caps T s) \<subseteq> {..<Max_Caps}"
proof -
  show d: "dom (caps T s) \<subseteq> {..<Max_Caps}" by (auto simp: caps_def split: if_splits)
  then show "finite (dom (caps T s))" using finite_subset by blast
qed

lemma caps_eqI:
  assumes "\<And>h. h < Max_Caps \<Longrightarrow> Get T' s' h = (if h = k then e else Get T s h)" and "k < Max_Caps"
  shows "caps T' s' = (caps T s)(k := if c_valid e then Some e else None)"
proof
  fix h
  show "caps T' s' h = ((caps T s)(k := if c_valid e then Some e else None)) h"
    using assms(1) [of h] assms(2) by (cases "h < Max_Caps") (auto simp: caps_def)
qed

lemma caps_cong: "(\<And>h. h < Max_Caps \<Longrightarrow> Get T' s' h = Get T s h) \<Longrightarrow> caps T' s' = caps T s"
  by (rule ext) (auto simp: caps_def)

lemma Get_kept:
  assumes "kept s s' (roots T)" and "h < Max_Caps"
  shows "Get T s' h = Get T s h"
proof (cases "Root T (Page_No h) = 0")
  case False
  then have "Root T (Page_No h) \<in> roots T" using Page_No_less [OF assms(2)] by (simp add: roots_def used_pages_def)
  then show ?thesis using assms(1) get_entry_frame by (simp add: Get_def Let_def kept_def)
qed (simp add: Get_def)

lemma Null_Cap_invalid [simp]: "\<not> c_valid Null_Cap"
  by (simp add: Null_Cap_def)

lemma Get_absent: "Root T (Page_No h) = 0 \<Longrightarrow> Get T s h = Null_Cap"
  by (simp add: Get_def)

lemma caps_kept: "kept s s' (roots T) \<Longrightarrow> caps T s' = caps T s"
  by (intro caps_cong Get_kept)

subsection \<open>Pages\<close>

lemma put_live:
  assumes "pmm_inv s L" and "f \<in> L" and "slot < 128"
  shows "pmm_inv (put_entry (entry_addr f slot) e s) L" "kept s (put_entry (entry_addr f slot) e s) (L - {f})"
proof -
  let ?k = "32 * slot"
  let ?kvs = "[(?k, c_object e), (?k + 8, c_badge e), (?k + 16, pack (take 8 (entry_bytes e))), (?k + 24, pack (drop 8 (entry_bytes e)))]"
  have "put_entry (entry_addr f slot) e s = fold (\<lambda>(k, v). poke (f + k) v) ?kvs s"
    by (simp add: put_entry_def entry_addr_def add.assoc)
  moreover have "\<forall>(k, v) \<in> set ?kvs. k < Page_Size" using assms(3) by (auto simp: Page_Size_def)
  ultimately show "pmm_inv (put_entry (entry_addr f slot) e s) L" "kept s (put_entry (entry_addr f slot) e s) (L - {f})"
    using pm.stores_live [OF assms(1,2)] unfolding kept_def by metis+
qed

lemma fold_poke_zero:
  "phys_mem (fold (\<lambda>i. poke (pa + 8 * i) 0) is s) a = (if a \<in> (\<lambda>i. pa + 8 * i) ` set is then 0 else phys_mem s a)"
  by (induction "is" arbitrary: s) (auto simp: poke_def)

lemma Zero_Page_entry:
  assumes "slot < 128"
  shows "get_entry (phys_mem (Zero_Page pa s)) (entry_addr pa slot) = Null_Cap"
proof -
  have z: "phys_mem (Zero_Page pa s) (pa + 8 * i) = 0" if "i < 512" for i
    using that by (simp add: Zero_Page_def fold_poke_zero)
  have "phys_mem (Zero_Page pa s) (entry_addr pa slot) = 0" "phys_mem (Zero_Page pa s) (entry_addr pa slot + 8) = 0"
      "phys_mem (Zero_Page pa s) (entry_addr pa slot + 16) = 0" "phys_mem (Zero_Page pa s) (entry_addr pa slot + 24) = 0"
    using z [of "4 * slot"] z [of "4 * slot + 1"] z [of "4 * slot + 2"] z [of "4 * slot + 3"] assms
    by (simp_all add: entry_addr_def algebra_simps)
  then show ?thesis
    by (simp add: get_entry_def Let_def Null_Cap_def No_Rights_def bytes_rights_def Object_Kinds_def unpack_0 nth_append)
qed

lemma Zero_Page_live:
  assumes "pmm_inv s L" and "f \<in> L"
  shows "pmm_inv (Zero_Page f s) L" "kept s (Zero_Page f s) (L - {f})"
proof -
  let ?kvs = "map (\<lambda>i. (8 * i, 0)) [0..<512]"
  have "Zero_Page f s = fold (\<lambda>(k, v). poke (f + k) v) ?kvs s" by (simp add: Zero_Page_def fold_map comp_def)
  moreover have "\<forall>(k, v) \<in> set ?kvs. k < Page_Size" by (auto simp: Page_Size_def)
  ultimately show "pmm_inv (Zero_Page f s) L" "kept s (Zero_Page f s) (L - {f})"
    using pm.stores_live [OF assms] unfolding kept_def by metis+
qed

lemma fresh_page:
  assumes "pages_ok T s X" and "p < Page_Count" and "Root T p = 0" and "Allocate_Frame s = (Pmm_Ok, f, t)"
  defines "T' \<equiv> T\<lparr>Root := (Root T)(p := f)\<rparr>"
  shows "pages_ok T' (Zero_Page f t) X" "kept s (Zero_Page f t) X" "caps T' (Zero_Page f t) = caps T s" "f \<noteq> 0"
proof -
  let ?s = "Zero_Page f t"
  have inv: "pmm_inv s (roots T \<union> X)" "roots T \<inter> X = {}" "inj_on (Root T) (used_pages T)"
    using assms(1) by (simp_all add: pages_ok_def)
  have f: "f \<notin> roots T \<union> X" "pmm_inv t (insert f (roots T \<union> X))" "kept s t (roots T \<union> X)"
    using pm.alloc_fresh [OF inv(1) assms(4)] by (auto simp: kept_def)
  show f0: "f \<noteq> 0" using pm.live [OF f(2)] by auto
  note z = Zero_Page_live [OF f(2) insertI1]
  have "kept t ?s (roots T \<union> X)" using z(2) f(1) by (rule_tac kept_mono) auto
  with f(3) have k: "kept s ?s (roots T \<union> X)" by (rule kept_trans)
  then show "kept s ?s X" by (rule kept_mono) simp
  have u: "used_pages T' = insert p (used_pages T)" "p \<notin> used_pages T"
    using f0 assms(2,3) by (auto simp: used_pages_def T'_def)
  then have r: "roots T' = insert f (roots T)" unfolding roots_def u by (auto simp: T'_def intro: image_cong)
  have "inj_on (Root T') (used_pages T')"
    unfolding u(1) using inv(3) f(1) u(2) by (auto simp: T'_def roots_def inj_on_def)
  then show "pages_ok T' ?s X" using z(1) f(1) inv(2) by (auto simp: pages_ok_def r)
  have "Get T' ?s h = Get T s h" if "h < Max_Caps" for h
  proof (cases "Page_No h = p")
    case True
    then show ?thesis using assms(3) f0 Zero_Page_entry by (simp add: Get_def T'_def)
  next
    case False
    then have "Get T' ?s h = Get T ?s h" by (simp add: Get_def Let_def T'_def)
    then show ?thesis using Get_kept [OF kept_mono [OF k] that, of T] by simp
  qed
  then show "caps T' ?s = caps T s" by (rule caps_cong)
qed

lemma Ensure_Page_ok:
  assumes "pages_ok T s X" and "p < Page_Count" and "Ensure_Page T p s = (st, T', s')"
  shows "pages_ok T' s' X \<and> kept s s' X \<and> caps T' s' = caps T s \<and> Count T' = Count T \<and> Total T' = Total T \<and>
    (if st = Cap_Ok then Root T' p \<noteq> 0 \<and> (\<forall>q. q \<noteq> p \<longrightarrow> Root T' q = Root T q) else st = Table_Full \<and> T' = T)"
proof (cases "Root T p = 0")
  case True
  obtain a f t where a: "Allocate_Frame s = (a, f, t)" by (metis prod.exhaust)
  show ?thesis
  proof (cases "a = Pmm_Ok")
    case False
    then have "pmm_inv t (roots T \<union> X)" "kept s t (roots T \<union> X)"
      using pm.alloc_none [OF _ a, of "roots T \<union> X"] assms(1) unfolding kept_def pages_ok_def by blast+
    then have "kept s t X" "caps T t = caps T s" "pages_ok T t X"
      using kept_mono caps_kept assms(1) by (auto simp: pages_ok_def)
    then show ?thesis using assms(3) True a False by (simp add: Ensure_Page_def)
  next
    case ok: True
    then show ?thesis using fresh_page [OF assms(1,2) True] assms(3) True a by (auto simp: Ensure_Page_def)
  qed
qed (use assms in \<open>auto simp: Ensure_Page_def\<close>)

lemma Put_ok:
  assumes "pages_ok T s X" and "h < Max_Caps" and "Root T (Page_No h) \<noteq> 0"
  shows "pages_ok T (Put T h e s) X" "kept s (Put T h e s) X"
    "caps T (Put T h e s) = (caps T s)(h := if c_valid e then Some e else None)"
proof -
  let ?f = "Root T (Page_No h)" and ?s = "Put T h e s"
  have p: "Page_No h \<in> used_pages T" using assms(2,3) Page_No_less by (simp add: used_pages_def)
  then have f: "?f \<in> roots T \<union> X" by (simp add: roots_def)
  have inv: "pmm_inv s (roots T \<union> X)" "roots T \<inter> X = {}" "inj_on (Root T) (used_pages T)"
    using assms(1) by (simp_all add: pages_ok_def)
  note put = put_live [OF inv(1) f Slot_No_less, of h e, folded Put_def]
  show "pages_ok T ?s X" using put(1) inv(2,3) by (simp add: pages_ok_def)
  show "kept s ?s X" using put(2) by (rule kept_mono) (use f inv(2) p in \<open>auto simp: roots_def\<close>)
  have "Get T ?s k = (if k = h then e else Get T s k)" if "k < Max_Caps" for k
  proof (cases "Page_No k = Page_No h")
    case True
    show ?thesis
    proof (cases "k = h")
      case False
      then have "Slot_No h \<noteq> Slot_No k" using True handle_eq by metis
      then show ?thesis using True False assms(3) by (simp add: Get_def Put_def Let_def get_put_other)
    qed (use assms(3) in \<open>simp add: Get_def Put_def Let_def get_put_entry\<close>)
  next
    case False
    then have "Root T (Page_No k) \<noteq> ?f" if "Root T (Page_No k) \<noteq> 0"
      using that inv(3) p Page_No_less [OF \<open>k < _\<close>] by (auto simp: inj_on_def used_pages_def)
    moreover have "Root T (Page_No k) \<in> roots T" if "Root T (Page_No k) \<noteq> 0"
      using that Page_No_less [OF \<open>k < _\<close>] by (simp add: roots_def used_pages_def)
    ultimately have "Get T ?s k = Get T s k"
      using put(2) get_entry_frame by (auto simp: Get_def Let_def kept_def)
    then show ?thesis using False by auto
  qed
  then show "caps T ?s = (caps T s)(h := if c_valid e then Some e else None)" using caps_eqI assms(2) by blast
qed

lemma Release_Page_ok:
  assumes "pages_ok T s X" and "p < Page_Count" and "Root T p \<noteq> 0"
  defines "T' \<equiv> T\<lparr>Root := (Root T)(p := 0)\<rparr>"
  shows "\<exists>s'. Release_Page T p s = Some (T', s') \<and> pages_ok T' s' X \<and> kept s s' X \<and>
    (\<forall>h < Max_Caps. Get T' s' h = (if Page_No h = p then Null_Cap else Get T s h))"
proof -
  have inv: "pmm_inv s (roots T \<union> X)" "roots T \<inter> X = {}" "inj_on (Root T) (used_pages T)"
    using assms(1) by (simp_all add: pages_ok_def)
  have p: "p \<in> used_pages T" using assms(2,3) by (simp add: used_pages_def)
  then have f: "Root T p \<in> roots T" by (simp add: roots_def)
  obtain s' where s': "Deallocate_Frame (Root T p) s = Some (Pmm_Ok, s')" "pmm_inv s' (roots T \<union> X - {Root T p})"
      "kept s s' (roots T \<union> X - {Root T p})"
    using pm.dealloc_live [OF inv(1), of "Root T p"] f by (auto simp: kept_def)
  have u: "used_pages T' = used_pages T - {p}" by (auto simp: used_pages_def T'_def)
  have r: "roots T' = roots T - {Root T p}"
    unfolding roots_def u using inv(3) p by (auto simp: T'_def inj_on_def)
  then have x: "roots T' \<union> X = roots T \<union> X - {Root T p}" using f inv(2) by auto
  have "inj_on (Root T') (used_pages T')" unfolding u using inv(3) by (auto simp: T'_def inj_on_def)
  then have "pages_ok T' s' X" using s'(2) inv(2) unfolding pages_ok_def x by (auto simp: r)
  moreover have "kept s s' (roots T' \<union> X)" using s'(3) x by simp
  moreover have "Get T' s' h = (if Page_No h = p then Null_Cap else Get T s h)" if "h < Max_Caps" for h
  proof (cases "Page_No h = p")
    case False
    then have "Get T' s h = Get T s h" by (simp add: Get_def T'_def Let_def)
    then show ?thesis using False Get_kept [OF kept_mono that] \<open>kept s s' (roots T' \<union> X)\<close> by auto
  qed (simp add: Get_def T'_def)
  ultimately show ?thesis using s'(1) kept_mono by (auto simp: Release_Page_def T'_def)
qed

subsection \<open>Every operation acts on the map\<close>

lemma counts_okI:
  assumes "\<And>p. p < Page_Count \<Longrightarrow> Count T p = card {h \<in> dom c. Page_No h = p}"
    and "\<And>p. p < Page_Count \<Longrightarrow> (Count T p = 0) = (Root T p = 0)" and "Total T = card (dom c)"
  shows "counts_ok T c"
  using assms unfolding counts_ok_def by blast

lemma pages_ok_fields: "Root T' = Root T \<Longrightarrow> pages_ok T' s X = pages_ok T s X"
  by (simp add: pages_ok_def roots_def used_pages_def)

lemma caps_fields: "Root T' = Root T \<Longrightarrow> caps T' s = caps T s"
  by (rule caps_cong) (simp add: Get_def Let_def)

lemma card_page_upd:
  assumes "finite (dom c)" and "h \<notin> dom c"
  shows "card {k \<in> dom (c(h \<mapsto> e)). Page_No k = p} = card {k \<in> dom c. Page_No k = p} + of_bool (Page_No h = p)"
proof -
  have "{k \<in> dom (c(h \<mapsto> e)). Page_No k = p} =
      (if Page_No h = p then insert h {k \<in> dom c. Page_No k = p} else {k \<in> dom c. Page_No k = p})" by auto
  moreover have "finite {k \<in> dom c. Page_No k = p}" "h \<notin> {k \<in> dom c. Page_No k = p}" using assms by auto
  ultimately show ?thesis
    by (cases "Page_No h = p") (simp_all only: if_True if_False card_insert_disjoint of_bool_eq Suc_eq_plus1 add_0_right simp_thms)
qed

lemma card_page_del:
  assumes "finite (dom c)" and "h \<in> dom c"
  shows "card {k \<in> dom (c(h := None)). Page_No k = p} + of_bool (Page_No h = p) = card {k \<in> dom c. Page_No k = p}"
proof -
  have "c(h := None, h \<mapsto> the (c h)) = c" using assms(2) by auto
  then show ?thesis using card_page_upd [of "c(h := None)" h "the (c h)" p] assms(1) by simp
qed

lemma install_ok:
  assumes "table_ok T s X" and "0 < h" and "h < Max_Caps" and "caps T s h = None" and "c_valid e"
    and "install T h e s = (st, T', s')"
  shows "table_ok T' s' X \<and> kept s s' X \<and>
    (if st = Cap_Ok then caps T' s' = (caps T s)(h \<mapsto> e) else st = Table_Full \<and> caps T' s' = caps T s)"
proof -
  let ?p = "Page_No h"
  have ok: "pages_ok T s X" "counts_ok T (caps T s)" "0 \<notin> dom (caps T s)" using assms(1) by (simp_all add: table_ok_def)
  note p = Page_No_less [OF assms(3)]
  obtain st1 T1 s1 where e: "Ensure_Page T ?p s = (st1, T1, s1)" by (metis prod.exhaust)
  note E = Ensure_Page_ok [OF ok(1) p e]
  show ?thesis
  proof (cases "st1 = Cap_Ok")
    case False
    then show ?thesis using E assms(6) e ok by (auto simp: install_def table_ok_def)
  next
    case True
    let ?s = "Put T1 h e s1" and ?T = "T1\<lparr>Count := (Count T1)(?p := Count T1 ?p + 1), Total := Total T1 + 1\<rparr>"
    have root: "Root T1 ?p \<noteq> 0" "\<forall>q. q \<noteq> ?p \<longrightarrow> Root T1 q = Root T q" using E True by simp_all
    note P = Put_ok [OF conjunct1 [OF E] assms(3) root(1), of e]
    have c: "caps ?T ?s = (caps T s)(h \<mapsto> e)" using P(3) E assms(5) caps_fields [of ?T T1] by simp
    have "counts_ok ?T (caps ?T ?s)"
      unfolding counts_ok_def c
      using ok(2) assms(4) E root card_page_upd [OF finite_caps(1), of h T s e] finite_caps(1) [of T s]
      by (auto simp: counts_ok_def domIff)
    then have "table_ok ?T ?s X"
      using P(1) pages_ok_fields [of ?T T1] ok(3) assms(2) c by (auto simp: table_ok_def)
    moreover have "kept s ?s X" using kept_trans E P(2) by blast
    ultimately show ?thesis using True assms(6) e c by (auto simp: install_def Let_def)
  qed
qed

lemma Insert_ok:
  assumes "table_ok T s X" and "Insert T kind obj r badge s = (st, h, T', s')"
  shows "table_ok T' s' X \<and> kept s s' X \<and>
    (if st = Cap_Ok then kind \<noteq> Null_Object \<and> obj \<noteq> 0 \<and> 0 < h \<and> h < Max_Caps \<and> caps T s h = None \<and> (\<forall>k. 0 < k \<and> k < h \<longrightarrow> caps T s k \<noteq> None) \<and>
       caps T' s' = (caps T s)(h \<mapsto> \<lparr>c_object = obj, c_badge = badge, c_rights = r, c_valid = True, c_kind = kind\<rparr>)
     else h = 0 \<and> caps T' s' = caps T s \<and> st = (if kind = Null_Object \<or> obj = 0 then Invalid_Object else Table_Full))"
proof (cases "kind = Null_Object \<or> obj = 0")
  case False
  let ?e = "\<lparr>c_object = obj, c_badge = badge, c_rights = r, c_valid = True, c_kind = kind\<rparr>"
  have iff: "c_valid (Get T s k) \<longleftrightarrow> caps T s k \<noteq> None" if "k < Max_Caps" for k using that by (simp add: caps_def)
  show ?thesis
  proof (cases "find (\<lambda>h. \<not> c_valid (Get T s h)) [1..<Max_Caps]")
    case None
    then show ?thesis using assms False by (auto simp: Insert_def Invalid_Handle_def)
  next
    case (Some k)
    then have k: "0 < k" "k < Max_Caps" "caps T s k = None" "\<forall>j. 0 < j \<and> j < k \<longrightarrow> caps T s j \<noteq> None"
      using find_upt_Some [OF Some] iff by auto
    obtain st1 T1 s1 where i: "install T k ?e s = (st1, T1, s1)" by (metis prod.exhaust)
    show ?thesis using install_ok [OF assms(1) k(1-3) _ i] assms(2) False Some i k
      by (auto simp: Insert_def Invalid_Handle_def split: if_splits)
  qed
qed (use assms in \<open>auto simp: Insert_def Invalid_Handle_def\<close>)

lemma Insert_At_ok:
  assumes "table_ok T s X" and "h < Max_Caps" and "Insert_At T h kind obj r badge s = (st, T', s')"
  shows "table_ok T' s' X \<and> kept s s' X \<and>
    (if st = Cap_Ok then kind \<noteq> Null_Object \<and> obj \<noteq> 0 \<and> h \<noteq> 0 \<and> caps T s h = None \<and>
       caps T' s' = (caps T s)(h \<mapsto> \<lparr>c_object = obj, c_badge = badge, c_rights = r, c_valid = True, c_kind = kind\<rparr>)
     else caps T' s' = caps T s)"
proof (cases "h = 0 \<or> kind = Null_Object \<or> obj = 0 \<or> caps T s h \<noteq> None")
  case True
  have "Root T (Page_No h) \<noteq> 0 \<and> c_valid (Get T s h) \<longleftrightarrow> caps T s h \<noteq> None"
    using assms(2) by (auto simp: caps_def Get_def Null_Cap_def Let_def)
  then have "(st, T', s') \<in> {(Invalid_Cap, T, s), (Invalid_Object, T, s), (Slot_Occupied, T, s)}"
    using True assms(3) by (auto simp: Insert_At_def Invalid_Handle_def split: if_splits)
  then show ?thesis using assms(1) by auto
next
  case False
  then have "\<not> c_valid (Get T s h)" using assms(2) by (auto simp: caps_def split: if_splits)
  then have "install T h \<lparr>c_object = obj, c_badge = badge, c_rights = r, c_valid = True, c_kind = kind\<rparr> s = (st, T', s')"
    using False assms(3) by (simp add: Insert_At_def Invalid_Handle_def)
  from install_ok [OF assms(1) _ assms(2) _ _ this] False show ?thesis by (auto split: if_splits)
qed

lemma Lookup_map:
  assumes "0 \<notin> dom (caps T s)" and "h < Max_Caps"
  shows "Lookup T h s = (case caps T s h of None \<Rightarrow> (Invalid_Cap, Null_Cap) | Some e \<Rightarrow> (Cap_Ok, e))"
  using assms by (auto simp: Lookup_def Let_def caps_def Invalid_Handle_def domIff split: if_splits)

lemma Lookup_caps:
  assumes "table_ok T s X" and "h < Max_Caps"
  shows "Lookup T h s = (case caps T s h of None \<Rightarrow> (Invalid_Cap, Null_Cap) | Some e \<Rightarrow> (Cap_Ok, e))"
  using assms by (intro Lookup_map) (simp_all add: table_ok_def)

lemma empty_page_released:
  assumes "pages_ok T s X" and "p < Page_Count" and "Root T p \<noteq> 0" and "{k \<in> dom (caps T s). Page_No k = p} = {}"
  shows "\<exists>s'. Release_Page T p s = Some (T\<lparr>Root := (Root T)(p := 0)\<rparr>, s') \<and> pages_ok (T\<lparr>Root := (Root T)(p := 0)\<rparr>) s' X \<and> kept s s' X \<and>
    caps (T\<lparr>Root := (Root T)(p := 0)\<rparr>) s' = caps T s"
proof -
  let ?T = "T\<lparr>Root := (Root T)(p := 0)\<rparr>"
  obtain s' where s': "Release_Page T p s = Some (?T, s')" "pages_ok ?T s' X" "kept s s' X"
      "\<forall>h < Max_Caps. Get ?T s' h = (if Page_No h = p then Null_Cap else Get T s h)"
    using Release_Page_ok [OF assms(1-3)] by blast
  have "caps ?T s' h = caps T s h" for h
  proof (cases "Page_No h = p")
    case True
    then have "caps T s h = None" using assms(4) by auto
    then show ?thesis using True s'(4) by (auto simp: caps_def)
  qed (use s'(4) in \<open>auto simp: caps_def\<close>)
  with s'(1-3) show ?thesis by blast
qed

lemma counts_ok_del:
  assumes "counts_ok T c" and "finite (dom c)" and "h \<in> dom c" and "Page_No h = p" and "\<forall>q. q \<noteq> p \<longrightarrow> R q = Root T q"
    and "(Count T p - 1 = 0) = (R p = 0)"
  shows "counts_ok (T\<lparr>Count := (Count T)(p := Count T p - 1), Total := Total T - 1, Root := R\<rparr>) (c(h := None))"
    (is "counts_ok ?T ?c")
proof (rule counts_okI)
  show "Total ?T = card (dom ?c)" using assms(1-3) by (auto simp: counts_ok_def dom_fun_upd)
next
  fix q assume q: "q < Page_Count"
  show "Count ?T q = card {k \<in> dom ?c. Page_No k = q}"
    using card_page_del [OF assms(2,3), of q] assms(1,4) q by (cases "q = p") (auto simp: counts_ok_def)
  have "(Count T q = 0) = (Root T q = 0)" using assms(1) q unfolding counts_ok_def by blast
  then show "(Count ?T q = 0) = (Root ?T q = 0)" using assms(5,6) by (cases "q = p") simp_all
qed

lemma Close_ok:
  assumes "table_ok T s X" and "h < Max_Caps"
  shows "\<exists>T' s'. Close T h s = Some (if caps T s h = None then Invalid_Cap else Cap_Ok, T', s') \<and> table_ok T' s' X \<and> kept s s' X \<and>
    caps T' s' = (caps T s)(h := None)"
proof (cases "caps T s h")
  case None
  then have "h = 0 \<or> \<not> c_valid (Get T s h)" using assms(2) by (auto simp: caps_def split: if_splits)
  then show ?thesis using None assms(1) by (auto simp: Close_def Invalid_Handle_def)
next
  case (Some e)
  let ?p = "Page_No h" and ?s = "Put T h Null_Cap s" and ?c = "(caps T s)(h := None)"
  let ?T = "T\<lparr>Count := (Count T)(?p := Count T ?p - 1), Total := Total T - 1\<rparr>"
  have ok: "pages_ok T s X" "counts_ok T (caps T s)" "0 \<notin> dom (caps T s)" using assms(1) by (simp_all add: table_ok_def)
  have h: "h \<noteq> 0" "c_valid (Get T s h)" "h \<in> dom (caps T s)"
    using Some ok(3) by (auto simp: caps_def domIff split: if_splits intro: gr0I)
  note p = Page_No_less [OF assms(2)] and fin = finite_caps(1) [of T s]
  have root: "Root T ?p \<noteq> 0" using h(2) Get_absent by fastforce
  have pos: "Count T ?p \<noteq> 0" "Total T \<noteq> 0" using ok(2) p root h(3) fin by (auto simp: counts_ok_def)
  have c: "caps ?T ?s = ?c" and P: "pages_ok ?T ?s X" "kept s ?s X"
    using Put_ok [OF ok(1) assms(2) root, of Null_Cap] caps_fields [of ?T T] pages_ok_fields [of ?T T] by simp_all
  note del = counts_ok_del [OF ok(2) fin h(3) refl]
  show ?thesis
  proof (cases "Count ?T ?p = 0")
    case False
    then have "counts_ok ?T ?c" using del [of "Root T"] root by simp
    then have "table_ok ?T ?s X" using P(1) ok(3) unfolding table_ok_def c by auto
    then show ?thesis using False Some h pos P c by (auto simp: Close_def Invalid_Handle_def Let_def)
  next
    case True
    let ?U = "?T\<lparr>Root := (Root T)(?p := 0)\<rparr>"
    have U: "counts_ok ?U ?c" using del [of "(Root T)(?p := 0)"] True by simp
    then have "card {k \<in> dom ?c. Page_No k = ?p} = 0" using p True by (auto simp: counts_ok_def)
    then have "{k \<in> dom (caps ?T ?s). Page_No k = ?p} = {}" using c fin by simp
    then obtain t where t: "Release_Page ?T ?p ?s = Some (?U, t)" "pages_ok ?U t X" "kept ?s t X" "caps ?U t = ?c"
      using empty_page_released [OF P(1) p] root c by auto
    have "table_ok ?U t X" using t(2) ok(3) U unfolding table_ok_def t(4) by auto
    then show ?thesis using True Some h pos t kept_trans [OF P(2) t(3)] by (auto simp: Close_def Invalid_Handle_def Let_def)
  qed
qed

lemma reset_pages_ok:
  assumes "pages_ok T s X" and "set ps \<subseteq> {..<Page_Count}" and "distinct ps"
  shows "\<exists>T' s'. reset_pages ps T s = Some (T', s') \<and> pages_ok T' s' X \<and> kept s s' X \<and>
    (\<forall>p. Root T' p = (if p \<in> set ps then 0 else Root T p))"
  using assms
proof (induction ps arbitrary: T s)
  case (Cons p ps)
  show ?case
  proof (cases "Root T p = 0")
    case True
    then show ?thesis using Cons.IH [OF Cons.prems(1)] Cons.prems(2,3) by auto
  next
    case False
    let ?T = "T\<lparr>Root := (Root T)(p := 0)\<rparr>"
    obtain t where t: "Release_Page T p s = Some (?T, t)" "pages_ok ?T t X" "kept s t X"
      using Release_Page_ok [OF Cons.prems(1) _ False] Cons.prems(2) by auto
    then show ?thesis using Cons.IH [OF t(2)] Cons.prems(2,3) False kept_trans by fastforce
  qed
qed auto

lemma Reset_ok:
  assumes "pages_ok T s X"
  shows "\<exists>T' s'. Reset T s = Some (T', s') \<and> table_ok T' s' X \<and> kept s s' X \<and> caps T' s' = Map.empty \<and> pmm_inv s' X"
proof -
  obtain T1 s' where r: "reset_pages [0..<Page_Count] T s = Some (T1, s')" "pages_ok T1 s' X" "kept s s' X"
      "\<forall>p < Page_Count. Root T1 p = 0"
    using reset_pages_ok [OF assms, of "[0..<Page_Count]"] by (auto simp: lessThan_atLeast0)
  let ?T = "T1\<lparr>Count := (\<lambda>_. 0), Total := 0\<rparr>"
  have c: "caps ?T s' = Map.empty" using r(4) Page_No_less by (auto simp: caps_def Get_absent)
  have "pages_ok ?T s' X" using r(2) pages_ok_fields [of ?T T1] by simp
  moreover have "counts_ok ?T (caps ?T s')" using r(4) unfolding c by (intro counts_okI) simp_all
  moreover have "roots ?T = {}" using r(4) by (auto simp: roots_def used_pages_def)
  ultimately show ?thesis using r(1,3) c by (auto simp: Reset_def table_ok_def pages_ok_def)
qed

lemma Duplicate_ok:
  assumes "table_ok T s X" and "src < Max_Caps" and "Duplicate T src r b s = (st, h, T', s')"
  shows "table_ok T' s' X \<and> kept s s' X \<and>
    (if st = Cap_Ok then 0 < h \<and> caps T s h = None \<and> (\<forall>k. 0 < k \<and> k < h \<longrightarrow> caps T s k \<noteq> None) \<and>
       (\<exists>e. caps T s src = Some e \<and> r_transfer (c_rights e) \<and> Has_Rights (c_rights e) r \<and>
          caps T' s' = (caps T s)(h \<mapsto> e\<lparr>c_rights := r, c_badge := b\<rparr>))
     else h = 0 \<and> caps T' s' = caps T s)"
proof (cases "caps T s src")
  case None
  then show ?thesis using assms Lookup_caps [OF assms(1,2)] by (auto simp: Duplicate_def Invalid_Handle_def)
next
  case (Some e)
  have "c_valid e" using Some by (auto simp: caps_def split: if_splits)
  then have e: "\<lparr>c_object = c_object e, c_badge = b, c_rights = r, c_valid = True, c_kind = c_kind e\<rparr> = e\<lparr>c_rights := r, c_badge := b\<rparr>"
    by simp
  show ?thesis
  proof (cases "r_transfer (c_rights e) \<and> Has_Rights (c_rights e) r")
    case True
    then have "Insert T (c_kind e) (c_object e) r b s = (st, h, T', s')"
      using assms(3) Some Lookup_caps [OF assms(1,2)] by (simp add: Duplicate_def)
    from Insert_ok [OF assms(1) this] True Some e show ?thesis by (auto split: if_splits)
  next
    case False
    then show ?thesis using assms Some Lookup_caps [OF assms(1,2)] by (auto simp: Duplicate_def Invalid_Handle_def)
  qed
qed

subsection \<open>The abstract table\<close>

text \<open>
  The calls on a table, the code that runs for each, and what a call may do to the map of handles: an insertion takes the lowest
  free handle or leaves the map alone, a duplicate needs the \<open>Transfer\<close> right and a subset of the rights of its source.
\<close>

datatype cap_op =
  Op_Insert object_kind nat rights nat | Op_Insert_At nat object_kind nat rights nat | Op_Duplicate nat rights nat |
  Op_Close nat | Op_Reset

fun cap_exec :: "cap_op \<Rightarrow> cap_table \<Rightarrow> pmm \<Rightarrow> (cap_table \<times> pmm) option" where
  "cap_exec (Op_Insert k obj r b) T s = (case Insert T k obj r b s of (_, _, T', s') \<Rightarrow> Some (T', s'))"
| "cap_exec (Op_Insert_At h k obj r b) T s = (case Insert_At T h k obj r b s of (_, T', s') \<Rightarrow> Some (T', s'))"
| "cap_exec (Op_Duplicate h r b) T s = (case Duplicate T h r b s of (_, _, T', s') \<Rightarrow> Some (T', s'))"
| "cap_exec (Op_Close h) T s = (case Close T h s of None \<Rightarrow> None | Some (_, T', s') \<Rightarrow> Some (T', s'))"
| "cap_exec Op_Reset T s = Reset T s"

fun handle_of :: "cap_op \<Rightarrow> nat" where
  "handle_of (Op_Insert_At h k obj r b) = h"
| "handle_of (Op_Duplicate h r b) = h"
| "handle_of (Op_Close h) = h"
| "handle_of _ = 0"

definition lowest_free :: "(nat \<rightharpoonup> cap_entry) \<Rightarrow> nat \<Rightarrow> bool" where
  "lowest_free c h \<longleftrightarrow> 0 < h \<and> c h = None \<and> (\<forall>k. 0 < k \<and> k < h \<longrightarrow> c k \<noteq> None)"

fun abs_step :: "cap_op \<Rightarrow> (nat \<rightharpoonup> cap_entry) \<Rightarrow> (nat \<rightharpoonup> cap_entry) \<Rightarrow> bool" where
  "abs_step (Op_Insert k obj r b) c c' \<longleftrightarrow> c' = c \<or>
     k \<noteq> Null_Object \<and> obj \<noteq> 0 \<and>
     (\<exists>h. lowest_free c h \<and> c' = c(h \<mapsto> \<lparr>c_object = obj, c_badge = b, c_rights = r, c_valid = True, c_kind = k\<rparr>))"
| "abs_step (Op_Insert_At h k obj r b) c c' \<longleftrightarrow> c' = c \<or>
     k \<noteq> Null_Object \<and> obj \<noteq> 0 \<and> h \<noteq> 0 \<and> c h = None \<and>
     c' = c(h \<mapsto> \<lparr>c_object = obj, c_badge = b, c_rights = r, c_valid = True, c_kind = k\<rparr>)"
| "abs_step (Op_Duplicate src r b) c c' \<longleftrightarrow> c' = c \<or>
     (\<exists>e h. c src = Some e \<and> r_transfer (c_rights e) \<and> Has_Rights (c_rights e) r \<and> lowest_free c h \<and>
        c' = c(h \<mapsto> e\<lparr>c_rights := r, c_badge := b\<rparr>))"
| "abs_step (Op_Close h) c c' \<longleftrightarrow> c' = c(h := None)"
| "abs_step Op_Reset c c' \<longleftrightarrow> c' = Map.empty"

lemma cap_exec_ok:
  assumes "table_ok T s X" and "handle_of op < Max_Caps"
  shows "\<exists>T' s'. cap_exec op T s = Some (T', s') \<and> table_ok T' s' X \<and> kept s s' X \<and> abs_step op (caps T s) (caps T' s')"
proof (cases op)
  case (Op_Insert k obj r b)
  obtain st h T' s' where e: "Insert T k obj r b s = (st, h, T', s')" by (metis prod.exhaust)
  show ?thesis using Insert_ok [OF assms(1) e] e Op_Insert by (auto simp: lowest_free_def split: if_splits)
next
  case (Op_Insert_At h k obj r b)
  obtain st T' s' where e: "Insert_At T h k obj r b s = (st, T', s')" by (metis prod.exhaust)
  show ?thesis using Insert_At_ok [OF assms(1) _ e] assms(2) e Op_Insert_At by (auto split: if_splits)
next
  case (Op_Duplicate src r b)
  obtain st h T' s' where e: "Duplicate T src r b s = (st, h, T', s')" by (metis prod.exhaust)
  show ?thesis using Duplicate_ok [OF assms(1) _ e] assms(2) e Op_Duplicate by (auto simp: lowest_free_def split: if_splits)
next
  case (Op_Close h)
  then show ?thesis using Close_ok [OF assms(1), of h] assms(2) by auto
next
  case Op_Reset
  then show ?thesis using Reset_ok [of T s X] assms(1) by (auto simp: table_ok_def)
qed

subsection \<open>All processes together\<close>

text \<open>
  The tables of the processes \<open>A\<close> and the frames \<open>X\<close> of the rest of the kernel share one allocator and one memory.
  \<open>tables_ok\<close>: each table is right with everything else as its surroundings. A step of one process needs only its own table,
  and gives the invariant back for all of them.
\<close>

definition others :: "nat set \<Rightarrow> (nat \<Rightarrow> cap_table) \<Rightarrow> nat set \<Rightarrow> nat \<Rightarrow> nat set" where
  "others A procs X a = X \<union> (\<Union>b \<in> A - {a}. roots (procs b))"

definition tables_ok :: "nat set \<Rightarrow> (nat \<Rightarrow> cap_table) \<Rightarrow> pmm \<Rightarrow> nat set \<Rightarrow> bool" where
  "tables_ok A procs s X \<longleftrightarrow> pmm_inv s (X \<union> (\<Union>b \<in> A. roots (procs b))) \<and> (\<forall>a \<in> A. table_ok (procs a) s (others A procs X a))"

lemma table_ok_kept:
  assumes "table_ok T s X" and "kept s s' (roots T)" and "pmm_inv s' (roots T \<union> X')" and "roots T \<inter> X' = {}"
  shows "table_ok T s' X'"
  using assms caps_kept [OF assms(2)] by (simp add: table_ok_def pages_ok_def)

lemma roots_others: "b \<in> A \<Longrightarrow> b \<noteq> a \<Longrightarrow> roots (procs b) \<subseteq> others A procs X a"
  by (auto simp: others_def)

lemma all_frames: "a \<in> A \<Longrightarrow> roots (procs a) \<union> others A procs X a = X \<union> (\<Union>b \<in> A. roots (procs b))"
  by (auto simp: others_def)

lemma tables_ok_step:
  assumes "tables_ok A procs s X" and "a \<in> A" and "table_ok T' s' (others A procs X a)" and "kept s s' (others A procs X a)"
  shows "tables_ok A (procs(a := T')) s' X" "\<forall>b \<in> A - {a}. caps (procs b) s' = caps (procs b) s"
proof -
  let ?P = "procs(a := T')"
  have o: "others A ?P X a = others A procs X a" by (simp add: others_def)
  have all: "pmm_inv s' (X \<union> (\<Union>b \<in> A. roots (?P b)))"
    using assms(3) all_frames [OF assms(2), of ?P X] o by (simp add: table_ok_def pages_ok_def)
  have k: "kept s s' (roots (procs b))" if "b \<in> A - {a}" for b
    using assms(4) roots_others [of b A a procs X] that by (auto intro: kept_mono)
  then show "\<forall>b \<in> A - {a}. caps (procs b) s' = caps (procs b) s" using caps_kept by blast
  have "table_ok (procs b) s' (others A ?P X b)" if b: "b \<in> A - {a}" for b
  proof (rule table_ok_kept)
    show "table_ok (procs b) s (others A procs X b)" using assms(1) b by (simp add: tables_ok_def)
    then have "roots (procs b) \<inter> others A procs X b = {}" by (simp add: table_ok_def pages_ok_def)
    moreover have "roots (procs b) \<inter> roots T' = {}"
      using assms(3) roots_others [of b A a procs X] b by (auto simp: table_ok_def pages_ok_def)
    moreover have "others A ?P X b \<subseteq> others A procs X b \<union> roots T'" by (auto simp: others_def split: if_splits)
    ultimately show "roots (procs b) \<inter> others A ?P X b = {}" by blast
    show "pmm_inv s' (roots (procs b) \<union> others A ?P X b)" using all all_frames [of b A ?P X] b by simp
  qed (use k b in blast)
  then show "tables_ok A ?P s' X" using all assms(3) o by (auto simp: tables_ok_def)
qed

text \<open>Runs of the kernel as the tables see them: any process calls any operation, the rest of the kernel uses the allocator.\<close>

inductive cap_run :: "nat set \<Rightarrow> (nat \<Rightarrow> cap_table) \<Rightarrow> pmm \<Rightarrow> nat set \<Rightarrow> bool" for A where
  boot: "pmm_run s X \<Longrightarrow> cap_run A (\<lambda>_. Initialize_Caps) s X"
| call: "cap_run A procs s X \<Longrightarrow> a \<in> A \<Longrightarrow> handle_of op < Max_Caps \<Longrightarrow> cap_exec op (procs a) s = Some (T', s') \<Longrightarrow>
    cap_run A (procs(a := T')) s' X"
| grab: "cap_run A procs s X \<Longrightarrow> Allocate_Frame s = (Pmm_Ok, f, s') \<Longrightarrow> cap_run A procs s' (insert f X)"
| drop: "cap_run A procs s X \<Longrightarrow> f \<in> X \<Longrightarrow> Deallocate_Frame f s = Some (st, s') \<Longrightarrow> cap_run A procs s' (X - {f})"
| poke: "cap_run A procs s X \<Longrightarrow> f \<in> X \<Longrightarrow> k < Page_Size \<Longrightarrow> cap_run A procs (poke (f + k) v s) X"

lemma tables_ok_rest:
  assumes "tables_ok A procs s X" and "pmm_inv s' (X' \<union> (\<Union>b \<in> A. roots (procs b)))" and "kept s s' (\<Union>b \<in> A. roots (procs b))"
    and "X' \<inter> (\<Union>b \<in> A. roots (procs b)) \<subseteq> X"
  shows "tables_ok A procs s' X'"
proof -
  have "table_ok (procs a) s' (others A procs X' a)" if a: "a \<in> A" for a
  proof (rule table_ok_kept)
    show t: "table_ok (procs a) s (others A procs X a)" using assms(1) a by (simp add: tables_ok_def)
    show "kept s s' (roots (procs a))" using assms(3) a by (auto intro: kept_mono)
    show "pmm_inv s' (roots (procs a) \<union> others A procs X' a)" using assms(2) all_frames [OF a] by metis
    have "roots (procs a) \<inter> others A procs X a = {}" using t by (simp add: table_ok_def pages_ok_def)
    then show "roots (procs a) \<inter> others A procs X' a = {}" using assms(4) a by (fastforce simp: others_def)
  qed
  then show ?thesis using assms(2) by (simp add: tables_ok_def)
qed

lemma tables_ok_inv: "tables_ok A procs s X \<Longrightarrow> pmm_inv s (X \<union> (\<Union>b \<in> A. roots (procs b)))"
  by (simp add: tables_ok_def)

lemma tables_ok_disjoint: "tables_ok A procs s X \<Longrightarrow> f \<in> X \<Longrightarrow> f \<notin> (\<Union>b \<in> A. roots (procs b))"
  by (fastforce simp: tables_ok_def table_ok_def pages_ok_def others_def)

lemma tables_ok_grab:
  assumes "tables_ok A procs s X" and "Allocate_Frame s = (Pmm_Ok, f, s')"
  shows "tables_ok A procs s' (insert f X)"
proof (rule tables_ok_rest [OF assms(1)])
  let ?R = "\<Union>b \<in> A. roots (procs b)"
  note a = pm.alloc_fresh [OF tables_ok_inv [OF assms(1)] assms(2)]
  show "pmm_inv s' (insert f X \<union> ?R)" using a by simp
  show "kept s s' ?R" using a by (simp add: kept_def)
  show "insert f X \<inter> ?R \<subseteq> X" using a by blast
qed

lemma tables_ok_drop:
  assumes "tables_ok A procs s X" and "f \<in> X" and "Deallocate_Frame f s = Some (st, s')"
  shows "tables_ok A procs s' (X - {f})"
proof (rule tables_ok_rest [OF assms(1)])
  let ?R = "\<Union>b \<in> A. roots (procs b)"
  have eq: "X \<union> ?R - {f} = X - {f} \<union> ?R" using tables_ok_disjoint [OF assms(1,2)] by auto
  have "pmm_inv s' (X \<union> ?R - {f})" "\<forall>g \<in> X \<union> ?R - {f}. same_frame (phys_mem s) (phys_mem s') g"
    using pm.dealloc_live [OF tables_ok_inv [OF assms(1)], of f] assms(2,3) by auto
  then show "pmm_inv s' (X - {f} \<union> ?R)" "kept s s' ?R" using eq by (simp_all add: kept_def)
qed blast

lemma tables_ok_poke:
  assumes "tables_ok A procs s X" and "f \<in> X" and "k < Page_Size"
  shows "tables_ok A procs (poke (f + k) v s) X"
proof (rule tables_ok_rest [OF assms(1)])
  let ?R = "\<Union>b \<in> A. roots (procs b)"
  note inv = tables_ok_inv [OF assms(1)]
  show "pmm_inv (poke (f + k) v s) (X \<union> ?R)" using poke_live [OF inv] assms(2,3) by blast
  show "kept s (poke (f + k) v s) ?R"
    using pm.store_other [OF inv, of f _ k v] assms(2,3) tables_ok_disjoint [OF assms(1,2)] unfolding kept_def by blast
qed blast

lemma cap_run_ok: "cap_run A procs s X \<Longrightarrow> tables_ok A procs s X"
proof (induction rule: cap_run.induct)
  case (boot s X)
  have "roots Initialize_Caps = {}" "caps Initialize_Caps s = Map.empty"
    by (auto simp: roots_def used_pages_def Initialize_Caps_def caps_def Get_absent)
  then show ?case using pmm_run_inv [OF boot]
    by (auto simp: tables_ok_def others_def table_ok_def pages_ok_def counts_ok_def used_pages_def Initialize_Caps_def)
next
  case (call procs s X a op T' s')
  have "table_ok (procs a) s (others A procs X a)" using call.IH call.hyps(2) by (simp add: tables_ok_def)
  then have "table_ok T' s' (others A procs X a)" "kept s s' (others A procs X a)"
    using cap_exec_ok [OF _ call.hyps(3)] call.hyps(4) by fastforce+
  then show ?case by (rule tables_ok_step(1) [OF call.IH call.hyps(2)])
next
  case grab
  then show ?case by (intro tables_ok_grab)
next
  case drop
  then show ?case by (intro tables_ok_drop)
next
  case poke
  then show ?case by (intro tables_ok_poke)
qed

subsection \<open>Properties\<close>

text \<open>
  Property C7: the capability tables refine a family of finite maps. In every run, a call on the table of one process returns,
  does to the map of that process what the abstract table allows, and leaves the capabilities of every other process as they
  were, although all tables live in one memory and share one allocator.
\<close>

theorem cap_tables_refine_maps:
  assumes "cap_run A procs s X" and "a \<in> A" and "handle_of op < Max_Caps"
  shows "\<exists>T' s'. cap_exec op (procs a) s = Some (T', s') \<and> abs_step op (caps (procs a) s) (caps T' s') \<and>
    (\<forall>b \<in> A - {a}. caps (procs b) s' = caps (procs b) s)"
proof -
  note ok = cap_run_ok [OF assms(1)]
  have "table_ok (procs a) s (others A procs X a)" using ok assms(2) by (simp add: tables_ok_def)
  then obtain T' s' where "cap_exec op (procs a) s = Some (T', s')" "table_ok T' s' (others A procs X a)"
      "kept s s' (others A procs X a)" "abs_step op (caps (procs a) s) (caps T' s')"
    using cap_exec_ok [OF _ assms(3)] by blast
  then show ?thesis using tables_ok_step(2) [OF ok assms(2)] by blast
qed

lemma cap_demo_run: "cap_run {0, 1} (\<lambda>_. Initialize_Caps) pmm_demo {}"
  using cap_run.boot pmm_demo_run by blast

theorem cap_tables_refine_maps_witness:
  "\<exists>T' s'. cap_exec (Op_Insert Endpoint_Object 0x8000 All_Rights 7) Initialize_Caps pmm_demo = Some (T', s')"
  using cap_tables_refine_maps [OF cap_demo_run, of 0 "Op_Insert Endpoint_Object 0x8000 All_Rights 7"]
  by (auto simp: Max_Caps_def)

text \<open>
  Property C10: the ghost predicate \<open>Table_Coherent\<close>, proved in the source for \<open>Initialize\<close> only, holds for every table
  in every run; beyond it, the total is the number of capabilities the process holds, and handle 0 never names one.
\<close>

theorem tables_coherent:
  assumes "cap_run A procs s X" and "a \<in> A"
  shows "Table_Coherent (procs a) \<and> Used_Count (procs a) = card (dom (caps (procs a) s)) \<and> Lookup (procs a) 0 s = (Invalid_Cap, Null_Cap)"
proof -
  have t: "table_ok (procs a) s (others A procs X a)" using cap_run_ok [OF assms(1)] assms(2) by (simp add: tables_ok_def)
  then have c: "counts_ok (procs a) (caps (procs a) s)" "caps (procs a) s 0 = None" by (auto simp: table_ok_def domIff)
  have "card (dom (caps (procs a) s)) \<le> Max_Caps" using finite_caps(2) [of "procs a" s] card_mono [of "{..<Max_Caps}"] by fastforce
  moreover have "\<forall>p < Page_Count. (Count (procs a) p = 0) = (Root (procs a) p = 0)" "Total (procs a) = card (dom (caps (procs a) s))"
    using c(1) unfolding counts_ok_def by blast+
  moreover have "Lookup (procs a) 0 s = (Invalid_Cap, Null_Cap)" by (simp add: Lookup_def Invalid_Handle_def)
  ultimately show ?thesis by (simp add: Table_Coherent_def Used_Count_def)
qed

theorem tables_coherent_witness: "Table_Coherent Initialize_Caps"
  using tables_coherent [OF cap_demo_run, of 0] by simp

text \<open>
  A mask of valid rights survives decoding and encoding, decoding inverts encoding on every record of rights, and
  the subset check of the decoded rights is the check that every requested bit is set in the mask of the rights held.
\<close>

theorem rights_masks:
  "To_Mask (To_Rights m) = m AND Valid_Rights_Mask \<and> To_Rights (To_Mask r) = r \<and>
   Has_Rights r (To_Rights m) = (To_Mask r AND (m AND Valid_Rights_Mask) = m AND Valid_Rights_Mask)"
  using To_Mask_Rights To_Rights_Mask Has_Rights_bits [of r "To_Rights m"] by simp

text \<open>
  Property C11: \<open>Duplicate\<close> never amplifies: every capability in the table after the call names the object of one that was there
  before, with a subset of its rights; and without the \<open>Transfer\<close> right on the source the call is refused.
\<close>

theorem duplicate_no_amplification:
  assumes "cap_run A procs s X" and "a \<in> A" and "src < Max_Caps" and "Duplicate (procs a) src r b s = (st, h, T', s')"
  shows "(\<forall>k e'. caps T' s' k = Some e' \<longrightarrow>
      (\<exists>j e. caps (procs a) s j = Some e \<and> c_kind e' = c_kind e \<and> c_object e' = c_object e \<and> Has_Rights (c_rights e) (c_rights e'))) \<and>
    (\<forall>e. caps (procs a) s src = Some e \<and> \<not> r_transfer (c_rights e) \<longrightarrow> st = Rights_Denied \<and> T' = procs a \<and> s' = s)"
proof
  have t: "table_ok (procs a) s (others A procs X a)" using cap_run_ok [OF assms(1)] assms(2) by (simp add: tables_ok_def)
  have refl: "Has_Rights q q" for q by (simp add: Has_Rights_def)
  show "\<forall>k e'. caps T' s' k = Some e' \<longrightarrow>
      (\<exists>j e. caps (procs a) s j = Some e \<and> c_kind e' = c_kind e \<and> c_object e' = c_object e \<and> Has_Rights (c_rights e) (c_rights e'))"
  proof (intro allI impI)
    fix k e'
    assume k: "caps T' s' k = Some e'"
    show "\<exists>j e. caps (procs a) s j = Some e \<and> c_kind e' = c_kind e \<and> c_object e' = c_object e \<and> Has_Rights (c_rights e) (c_rights e')"
      using Duplicate_ok [OF t assms(3,4)] k refl by (cases "k = h") (fastforce split: if_splits)+
  qed
  show "\<forall>e. caps (procs a) s src = Some e \<and> \<not> r_transfer (c_rights e) \<longrightarrow> st = Rights_Denied \<and> T' = procs a \<and> s' = s"
    using assms(4) Lookup_caps [OF t assms(3)] by (auto simp: Duplicate_def)
qed

lemma demo_insert:
  "\<exists>T' s'. Insert Initialize_Caps Endpoint_Object 0x8000 No_Rights 7 pmm_demo = (Cap_Ok, 1, T', s')"
proof -
  have "[1..<Max_Caps] = 1 # [Suc 1..<Max_Caps]" by (rule upt_conv_Cons) (simp add: Max_Caps_def)
  moreover have "\<not> c_valid (Get Initialize_Caps pmm_demo 1)" by (simp add: Get_absent Initialize_Caps_def)
  ultimately have "find (\<lambda>h. \<not> c_valid (Get Initialize_Caps pmm_demo h)) [1..<Max_Caps] = Some 1" by simp
  moreover have "Allocate_Frame pmm_demo = (Pmm_Ok, 0x1000, pmm_demo\<lparr>Next_Frame := 0x2000\<rparr>)"
    by (simp add: Allocate_Frame_def pmm_demo_eq pmm_off_def Let_def Skip_Reserved_stop wrap64_def Page_Size_def)
  ultimately show ?thesis
    by (simp add: Insert_def install_def Ensure_Page_def Initialize_Caps_def Let_def split: prod.splits)
qed

theorem duplicate_no_amplification_witness:
  "\<exists>T s. fst (Duplicate T 1 No_Rights 0 s) = Rights_Denied"
proof -
  let ?op = "Op_Insert Endpoint_Object 0x8000 No_Rights 7"
  obtain T s where i: "Insert Initialize_Caps Endpoint_Object 0x8000 No_Rights 7 pmm_demo = (Cap_Ok, 1, T, s)"
    using demo_insert by blast
  have run: "cap_run {0, 1} ((\<lambda>_. Initialize_Caps)(0 := T)) s {}"
    by (rule cap_run.call [OF cap_demo_run, of 0 ?op]) (use i in \<open>simp_all add: Max_Caps_def\<close>)
  have "table_ok Initialize_Caps pmm_demo (others {0, 1} (\<lambda>_. Initialize_Caps) {} 0)"
    using cap_run_ok [OF cap_demo_run] by (simp add: tables_ok_def)
  then have "\<exists>e. caps T s 1 = Some e \<and> \<not> r_transfer (c_rights e)"
    using Insert_ok [OF _ i] by (auto simp: No_Rights_def)
  moreover obtain st h T' s' where "Duplicate T 1 No_Rights 0 s = (st, h, T', s')" by (metis prod.exhaust)
  ultimately show ?thesis
    using duplicate_no_amplification [OF run, of 0 1 No_Rights 0 st h T' s'] by (auto simp: Max_Caps_def intro!: exI [of _ T] exI [of _ s])
qed

end
