(* ===== verification/Kernel_Grant.thy ===== *)
theory Kernel_Grant
  imports Kernel_Caps
begin

unbundle bit_operations_syntax

text \<open>
  How capabilities reach another table: the insertions of \<open>src/src/kernel/kernel-tasks.adb\<close>, which retain the object a new
  capability names, the grant list a parent passes to a spawned child (\<open>Grant_List_Caps\<close> of
  \<open>src/src/kernel/kernel-processes.adb\<close>) and the system call that mints a weaker capability (\<open>Handle_Cap_Mint\<close> of
  \<open>src/src/arch/riscv64/arch-traps.adb\<close>). The grant list is read from the parent's message buffer, a frame of the memory the
  tables live in.

  \<open>Retain_Cap\<close> dispatches on the kind to the packages of the object; the model keeps the calls it makes as a list, in order,
  with the kind and the address of the object.
\<close>

subsection \<open>Retaining insertions\<close>

type_synonym retains = "(object_kind \<times> nat) list"

definition Retain_Cap :: "cap_entry \<Rightarrow> retains \<Rightarrow> retains" where
  "Retain_Cap e l =
     (if \<not> c_valid e then l
      else case c_kind e of
        Endpoint_Object \<Rightarrow> l @ [(Endpoint_Object, c_object e)]
      | Memory_Object \<Rightarrow> l @ [(Memory_Object, c_object e)]
      | Notification_Object \<Rightarrow> l @ [(Notification_Object, c_object e)]
      | MMIO_Object \<Rightarrow> l @ [(MMIO_Object, c_object e)]
      | IRQ_Object \<Rightarrow> l @ [(IRQ_Object, c_object e)]
      | _ \<Rightarrow> l)"

definition Insert_Process_Cap ::
  "cap_table \<Rightarrow> object_kind \<Rightarrow> nat \<Rightarrow> rights \<Rightarrow> nat \<Rightarrow> pmm \<Rightarrow> retains \<Rightarrow> cap_status \<times> nat \<times> cap_table \<times> pmm \<times> retains" where
  "Insert_Process_Cap T kind obj r badge s l =
     (case Insert T kind obj r badge s of (st, h, T', s') \<Rightarrow>
        (st, h, T', s', if st = Cap_Ok
           then Retain_Cap \<lparr>c_object = obj, c_badge = badge, c_rights = r, c_valid = True, c_kind = kind\<rparr> l else l))"

definition Insert_Process_Cap_At ::
  "cap_table \<Rightarrow> nat \<Rightarrow> object_kind \<Rightarrow> nat \<Rightarrow> rights \<Rightarrow> nat \<Rightarrow> pmm \<Rightarrow> retains \<Rightarrow> cap_status \<times> cap_table \<times> pmm \<times> retains" where
  "Insert_Process_Cap_At T cap kind obj r badge s l =
     (case Insert_At T cap kind obj r badge s of (st, T', s') \<Rightarrow>
        (st, T', s', if st = Cap_Ok
           then Retain_Cap \<lparr>c_object = obj, c_badge = badge, c_rights = r, c_valid = True, c_kind = kind\<rparr> l else l))"

text \<open>A thread, as far as these calls look at it: its message buffer and the table of its process.\<close>

record tcb =
  IPC_Buffer_PA :: nat
  process :: "cap_table option"

definition Lookup_Cap :: "tcb \<Rightarrow> nat \<Rightarrow> pmm \<Rightarrow> cap_status \<times> cap_entry" where
  "Lookup_Cap t cap s = (case process t of None \<Rightarrow> (Invalid_Object, Null_Cap) | Some T \<Rightarrow> Lookup T cap s)"

subsection \<open>The grant list\<close>

definition Max_Grants :: nat where
  "Max_Grants = 32"

definition Grant_List_Offset :: nat where
  "Grant_List_Offset = 128"

definition Source_Handle :: "pmm \<Rightarrow> nat \<Rightarrow> nat \<Rightarrow> nat" where
  "Source_Handle s buf i = phys_mem s (buf + (Grant_List_Offset + 24 * i))"

definition Rights_Mask :: "pmm \<Rightarrow> nat \<Rightarrow> nat \<Rightarrow> u64" where
  "Rights_Mask s buf i = word_of_nat (phys_mem s (buf + (Grant_List_Offset + 24 * i + 8)))"

definition Grant_Badge :: "pmm \<Rightarrow> nat \<Rightarrow> nat \<Rightarrow> nat" where
  "Grant_Badge s buf i = phys_mem s (buf + (Grant_List_Offset + 24 * i + 16))"

datatype proc_status = Proc_Ok | Cap_Failed

primrec grant_loop ::
  "nat list \<Rightarrow> nat \<Rightarrow> tcb \<Rightarrow> cap_table \<Rightarrow> pmm \<Rightarrow> retains \<Rightarrow> proc_status \<times> cap_table \<times> pmm \<times> retains" where
  "grant_loop [] buf parent C s l = (Proc_Ok, C, s, l)"
| "grant_loop (i # is) buf parent C s l =
     (if Source_Handle s buf i \<ge> Max_Caps then (Cap_Failed, C, s, l)
      else case Lookup_Cap parent (Source_Handle s buf i) s of (st, e) \<Rightarrow>
        if st \<noteq> Cap_Ok \<or> c_kind e = Reply_Object \<or> Rights_Mask s buf i AND NOT Valid_Rights_Mask \<noteq> 0
        then (Cap_Failed, C, s, l)
        else
          let requested = To_Rights (Rights_Mask s buf i)
          in if \<not> Has_Rights (c_rights e) requested then (Cap_Failed, C, s, l)
             else case Insert_Process_Cap_At C (i + 1) (c_kind e) (c_object e) requested (Grant_Badge s buf i) s l of
               (st, C', s', l') \<Rightarrow>
                 if st \<noteq> Cap_Ok then (Cap_Failed, C', s', l') else grant_loop is buf parent C' s' l')"

definition Grant_List_Caps ::
  "tcb option \<Rightarrow> cap_table \<Rightarrow> nat \<Rightarrow> pmm \<Rightarrow> retains \<Rightarrow> proc_status \<times> cap_table \<times> pmm \<times> retains" where
  "Grant_List_Caps parent C n s l =
     (if n = 0 then (Proc_Ok, C, s, l)
      else if n > Max_Grants then (Cap_Failed, C, s, l)
      else case parent of
        None \<Rightarrow> (Cap_Failed, C, s, l)
      | Some t \<Rightarrow>
          if IPC_Buffer_PA t = 0 then (Cap_Failed, C, s, l)
          else grant_loop [0..<n] (IPC_Buffer_PA t) t C s l)"

subsection \<open>The mint system call\<close>

text \<open>The handler returns the new handle in register a0, or all ones; \<open>None\<close> stands for a thread that is not there.\<close>

definition mint_failed :: nat where
  "mint_failed = 2 ^ 64 - 1"

definition Handle_Cap_Mint ::
  "tcb option \<Rightarrow> nat \<Rightarrow> u64 \<Rightarrow> nat \<Rightarrow> pmm \<Rightarrow> retains \<Rightarrow> nat \<times> tcb option \<times> pmm \<times> retains" where
  "Handle_Cap_Mint current a0 rights_mask badge s l =
     (if a0 \<ge> Max_Caps \<or> current = None \<or> rights_mask AND NOT Valid_Rights_Mask \<noteq> 0 then (mint_failed, current, s, l)
      else case Lookup_Cap (the current) a0 s of (st, e) \<Rightarrow>
        if st \<noteq> Cap_Ok \<or> c_kind e = Reply_Object then (mint_failed, current, s, l)
        else
          let requested = To_Rights rights_mask
          in if \<not> Has_Rights (c_rights e) requested then (mint_failed, current, s, l)
             else case process (the current) of
               None \<Rightarrow> (mint_failed, current, s, l)
             | Some T \<Rightarrow>
                 case Insert_Process_Cap T (c_kind e) (c_object e) requested badge s l of (st, h, T', s', l') \<Rightarrow>
                   (if st \<noteq> Cap_Ok then mint_failed else h, Some ((the current)\<lparr>process := Some T'\<rparr>), s', l'))"

subsection \<open>What a grant list does\<close>

definition grant_entry :: "(nat \<rightharpoonup> cap_entry) \<Rightarrow> pmm \<Rightarrow> nat \<Rightarrow> nat \<Rightarrow> cap_entry" where
  "grant_entry c s buf i = (the (c (Source_Handle s buf i)))\<lparr>c_rights := To_Rights (Rights_Mask s buf i), c_badge := Grant_Badge s buf i\<rparr>"

definition grantable :: "(nat \<rightharpoonup> cap_entry) \<Rightarrow> pmm \<Rightarrow> nat \<Rightarrow> nat \<Rightarrow> bool" where
  "grantable c s buf i \<longleftrightarrow> Rights_Mask s buf i AND NOT Valid_Rights_Mask = 0 \<and>
     (\<exists>e. c (Source_Handle s buf i) = Some e \<and> c_kind e \<noteq> Reply_Object \<and> Has_Rights (c_rights e) (To_Rights (Rights_Mask s buf i)))"

lemma grants_kept:
  assumes "same_frame (phys_mem s) (phys_mem s') buf" and "i < Max_Grants"
  shows "Source_Handle s' buf i = Source_Handle s buf i" "Rights_Mask s' buf i = Rights_Mask s buf i"
    "Grant_Badge s' buf i = Grant_Badge s buf i"
  using assms(2) same_frameD [OF assms(1)]
  by (simp_all add: Source_Handle_def Rights_Mask_def Grant_Badge_def Grant_List_Offset_def Max_Grants_def Page_Size_def)

lemma grant_step:
  assumes "0 \<notin> dom (caps P s)" and "process t = Some P" and "table_ok C s X" and "i + 1 < Max_Caps"
    and "grant_loop (i # is) buf t C s l = (Proc_Ok, C', s', l')"
  obtains C1 s1 where "grantable (caps P s) s buf i" "table_ok C1 s1 X" "kept s s1 X"
    "caps C1 s1 = (caps C s)(i + 1 \<mapsto> grant_entry (caps P s) s buf i)"
    "grant_loop is buf t C1 s1 (Retain_Cap (grant_entry (caps P s) s buf i) l) = (Proc_Ok, C', s', l')"
proof -
  let ?h = "Source_Handle s buf i" and ?r = "To_Rights (Rights_Mask s buf i)"
  have h: "?h < Max_Caps" using assms(5) by (auto split: if_splits)
  have look: "Lookup_Cap t ?h s = (case caps P s ?h of None \<Rightarrow> (Invalid_Cap, Null_Cap) | Some e \<Rightarrow> (Cap_Ok, e))"
    using Lookup_map [OF assms(1) h] assms(2) by (simp add: Lookup_Cap_def)
  obtain e where e: "caps P s ?h = Some e" using assms(5) look by (cases "caps P s ?h") (auto split: if_splits)
  have ok: "c_kind e \<noteq> Reply_Object" "Rights_Mask s buf i AND NOT Valid_Rights_Mask = 0" "Has_Rights (c_rights e) ?r"
    using assms(5) look e h by (auto simp: Let_def split: if_splits)
  have "c_valid e" using e by (auto simp: caps_def split: if_splits)
  then have entry: "\<lparr>c_object = c_object e, c_badge = Grant_Badge s buf i, c_rights = ?r, c_valid = True, c_kind = c_kind e\<rparr> =
      grant_entry (caps P s) s buf i" using e by (simp add: grant_entry_def)
  obtain st C1 s1 where i: "Insert_At C (i + 1) (c_kind e) (c_object e) ?r (Grant_Badge s buf i) s = (st, C1, s1)"
    by (metis prod.exhaust)
  have st: "st = Cap_Ok" and rest: "grant_loop is buf t C1 s1 (Retain_Cap (grant_entry (caps P s) s buf i) l) = (Proc_Ok, C', s', l')"
    using assms(5) look e h ok i entry by (auto simp: Insert_Process_Cap_At_def Let_def split: if_splits)
  have "grantable (caps P s) s buf i" using e ok by (simp add: grantable_def)
  with Insert_At_ok [OF assms(3,4) i] st entry rest that show thesis by auto
qed

lemma grant_loop_safe:
  assumes "table_ok C s X" and "\<forall>i \<in> set is. i + 1 < Max_Caps" and "grant_loop is buf t C s l = (st, C', s', l')"
  shows "table_ok C' s' X \<and> kept s s' X"
  using assms
proof (induction "is" arbitrary: C s l)
  case (Cons i "is")
  obtain z e where e: "Lookup_Cap t (Source_Handle s buf i) s = (z, e)" by force
  obtain y C1 s1 where i: "Insert_At C (i + 1) (c_kind e) (c_object e) (To_Rights (Rights_Mask s buf i)) (Grant_Badge s buf i) s = (y, C1, s1)"
    by (metis prod.exhaust)
  have one: "table_ok C1 s1 X" "kept s s1 X" using Insert_At_ok [OF Cons.prems(1) _ i] Cons.prems(2) by simp_all
  then have "table_ok C' s' X \<and> kept s1 s' X" if "grant_loop is buf t C1 s1 k = (st, C', s', l')" for k
    using Cons.IH that Cons.prems(2) by simp
  then show ?case using Cons.prems(1,3) one e i kept_trans
    by (auto simp: Insert_Process_Cap_At_def Let_def split: if_splits)
qed simp

lemma grant_loop_ok:
  assumes "0 \<notin> dom (caps P s)" and "process t = Some P" and "table_ok C s X" and "roots P \<subseteq> X" and "buf \<in> X"
    and "distinct is" and "\<forall>i \<in> set is. i < Max_Grants" and "grant_loop is buf t C s l = (Proc_Ok, C', s', l')"
  shows "(\<forall>i \<in> set is. grantable (caps P s) s buf i) \<and>
    caps C' s' = caps C s ++ map_of (map (\<lambda>i. (i + 1, grant_entry (caps P s) s buf i)) is) \<and>
    l' = fold Retain_Cap (map (grant_entry (caps P s) s buf) is) l"
  using assms(1,3,6-8)
proof (induction "is" arbitrary: C s l)
  case (Cons i "is")
  have "i + 1 < Max_Caps" using Cons.prems(4) by (simp add: Max_Grants_def Max_Caps_def)
  then obtain C1 s1 where one: "grantable (caps P s) s buf i" "table_ok C1 s1 X" "kept s s1 X"
      "caps C1 s1 = (caps C s)(i + 1 \<mapsto> grant_entry (caps P s) s buf i)"
      "grant_loop is buf t C1 s1 (Retain_Cap (grant_entry (caps P s) s buf i) l) = (Proc_Ok, C', s', l')"
    using grant_step [OF Cons.prems(1) assms(2) Cons.prems(2) _ Cons.prems(5)] by blast
  have P: "caps P s1 = caps P s" using one(3) assms(4) by (intro caps_kept) (rule kept_mono)
  have "same_frame (phys_mem s) (phys_mem s1) buf" using one(3) assms(5) by (simp add: kept_def)
  note same = grants_kept [OF this]
  have g: "grant_entry (caps P s1) s1 buf j = grant_entry (caps P s) s buf j" "grantable (caps P s1) s1 buf j = grantable (caps P s) s buf j"
    if "j \<in> set (i # is)" for j using same [of j] that Cons.prems(4) P by (auto simp: grant_entry_def grantable_def)
  have m: "map (\<lambda>i. (i + 1, grant_entry (caps P s1) s1 buf i)) is = map (\<lambda>i. (i + 1, grant_entry (caps P s) s buf i)) is"
      "map (grant_entry (caps P s1) s1 buf) is = map (grant_entry (caps P s) s buf) is" using g(1) by simp_all
  have "(\<forall>i \<in> set is. grantable (caps P s1) s1 buf i) \<and>
      caps C' s' = caps C1 s1 ++ map_of (map (\<lambda>i. (i + 1, grant_entry (caps P s1) s1 buf i)) is) \<and>
      l' = fold Retain_Cap (map (grant_entry (caps P s1) s1 buf) is) (Retain_Cap (grant_entry (caps P s) s buf i) l)"
    using Cons.IH [OF _ one(2) _ _ one(5)] Cons.prems(1,3,4) P by simp
  note rest = this
  have "i + 1 \<notin> dom (map_of (map (\<lambda>i. (i + 1, grant_entry (caps P s) s buf i)) is))"
    using Cons.prems(3) by (auto simp: dom_map_of_conv_image_fst)
  then have upd: "(caps C s)(i + 1 \<mapsto> grant_entry (caps P s) s buf i) ++ map_of (map (\<lambda>i. (i + 1, grant_entry (caps P s) s buf i)) is) =
      caps C s ++ map_of (map (\<lambda>i. (i + 1, grant_entry (caps P s) s buf i)) (i # is))"
    by (simp only: map_add_upd_left not_False_eq_True list.map map_of.simps fst_conv snd_conv map_add_upd)
  show ?case
  proof (intro conjI)
    show "\<forall>j \<in> set (i # is). grantable (caps P s) s buf j" using rest one(1) g(2) by simp
    show "l' = fold Retain_Cap (map (grant_entry (caps P s) s buf) (i # is)) l" using rest unfolding m by simp
    show "caps C' s' = caps C s ++ map_of (map (\<lambda>i. (i + 1, grant_entry (caps P s) s buf i)) (i # is))"
      using rest unfolding m one(4) upd by blast
  qed
qed simp

subsection \<open>A grant on a small machine\<close>

text \<open>
  Process 0 holds one capability, for an administration object, with the \<open>Manage\<close> right only; frame 1 is its message buffer
  and lists that capability; the table of process 1 is empty.
\<close>

definition manage_only :: rights where
  "manage_only = No_Rights\<lparr>r_manage := True\<rparr>"

definition admin_cap :: cap_entry where
  "admin_cap = \<lparr>c_object = 0x8000, c_badge = 7, c_rights = manage_only, c_valid = True, c_kind = Admin_Object\<rparr>"

lemma poke_fields [simp]:
  "Is_Ready (poke a v s) = Is_Ready s" "Next_Frame (poke a v s) = Next_Frame s" "Limit (poke a v s) = Limit s"
  "Reserved (poke a v s) = Reserved s" "Free_List_Head (poke a v s) = Free_List_Head s"
  by (simp_all add: poke_def)

lemma Zero_Page_fields [simp]:
  "Is_Ready (Zero_Page f s) = Is_Ready s" "Next_Frame (Zero_Page f s) = Next_Frame s" "Limit (Zero_Page f s) = Limit s"
  "Reserved (Zero_Page f s) = Reserved s" "Free_List_Head (Zero_Page f s) = Free_List_Head s"
proof -
  have "Is_Ready (fold (\<lambda>i. poke (f + 8 * i) 0) is s) = Is_Ready s \<and> Next_Frame (fold (\<lambda>i. poke (f + 8 * i) 0) is s) = Next_Frame s \<and>
      Limit (fold (\<lambda>i. poke (f + 8 * i) 0) is s) = Limit s \<and> Reserved (fold (\<lambda>i. poke (f + 8 * i) 0) is s) = Reserved s \<and>
      Free_List_Head (fold (\<lambda>i. poke (f + 8 * i) 0) is s) = Free_List_Head s" for "is"
    by (induction "is" arbitrary: s) simp_all
  then show "Is_Ready (Zero_Page f s) = Is_Ready s" "Next_Frame (Zero_Page f s) = Next_Frame s" "Limit (Zero_Page f s) = Limit s"
    "Reserved (Zero_Page f s) = Reserved s" "Free_List_Head (Zero_Page f s) = Free_List_Head s"
    by (simp_all add: Zero_Page_def)
qed

definition roomy :: "pmm \<Rightarrow> bool" where
  "roomy s \<longleftrightarrow> Is_Ready s \<and> Free_List_Head s = 0 \<and> Reserved s = [] \<and> Limit s = 0x6000 \<and> Next_Frame s \<le> 0x5000"

lemma roomy_allocates: "roomy s \<Longrightarrow> Allocate_Frame s = (Pmm_Ok, Next_Frame s, s\<lparr>Next_Frame := Next_Frame s + 0x1000\<rparr>)"
  by (auto simp: roomy_def Allocate_Frame_def Let_def Skip_Reserved_stop wrap64_def Page_Size_def)

lemma roomy_poke [simp]: "roomy (poke a v s) = roomy s"
  by (simp add: roomy_def)

lemma demo_insert_admin:
  assumes "roomy s" and "Next_Frame s \<le> 0x4000"
  shows "\<exists>T' s'. Insert Initialize_Caps Admin_Object 0x8000 manage_only 7 s = (Cap_Ok, 1, T', s') \<and> roomy s'"
proof -
  have "[1..<Max_Caps] = 1 # [Suc 1..<Max_Caps]" by (rule upt_conv_Cons) (simp add: Max_Caps_def)
  moreover have "\<not> c_valid (Get Initialize_Caps s 1)" by (simp add: Get_absent Initialize_Caps_def)
  ultimately have "find (\<lambda>h. \<not> c_valid (Get Initialize_Caps s h)) [1..<Max_Caps] = Some 1" by simp
  moreover note roomy_allocates [OF assms(1)]
  ultimately show ?thesis using assms
    by (simp add: Insert_def install_def Ensure_Page_def Initialize_Caps_def Let_def Put_def put_entry_def roomy_def)
qed

lemma grant_demo:
  obtains procs s where "cap_run {0, 1} procs s {0x1000}" "caps (procs 0) s 1 = Some admin_cap" "caps (procs 1) s = Map.empty"
    "Source_Handle s 0x1000 0 = 1" "Rights_Mask s 0x1000 0 = 0x200" "Grant_Badge s 0x1000 0 = 9" "roomy s"
proof -
  let ?s0 = "pmm_demo\<lparr>Next_Frame := 0x2000\<rparr>"
  have r0: "roomy ?s0" "Next_Frame ?s0 \<le> 0x4000" by (simp_all add: roomy_def pmm_demo_eq pmm_off_def)
  have run0: "cap_run {0, 1} (\<lambda>_. Initialize_Caps) ?s0 {0x1000}" by (rule cap_run.boot [OF pmm_demo_first])
  obtain T s1 where i: "Insert Initialize_Caps Admin_Object 0x8000 manage_only 7 ?s0 = (Cap_Ok, 1, T, s1)" "roomy s1"
    using demo_insert_admin [OF r0] by blast
  let ?P = "(\<lambda>_. Initialize_Caps)(0 := T)"
  have run1: "cap_run {0, 1} ?P s1 {0x1000}"
    by (rule cap_run.call [OF run0, of 0 "Op_Insert Admin_Object 0x8000 manage_only 7"]) (use i in \<open>simp_all add: Max_Caps_def\<close>)
  have "table_ok Initialize_Caps ?s0 (others {0, 1} (\<lambda>_. Initialize_Caps) {0x1000} 0)"
    using cap_run_ok [OF run0] by (simp add: tables_ok_def)
  then have c1: "caps T s1 1 = Some admin_cap" using Insert_ok [OF _ i(1)] by (simp add: admin_cap_def)
  let ?s = "poke (0x1000 + 0x90) 9 (poke (0x1000 + 0x88) 0x200 (poke (0x1000 + 0x80) 1 s1))"
  have run: "cap_run {0, 1} ?P ?s {0x1000}"
    by (intro cap_run.poke run1) (simp_all add: Page_Size_def)
  have "0x1000 \<notin> roots T"
    using cap_run_ok [OF run1] by (auto simp: tables_ok_def table_ok_def pages_ok_def others_def)
  moreover have inv: "pmm_inv s1 ({0x1000} \<union> roots T)"
    using cap_run_ok [OF run1] by (auto simp: tables_ok_def roots_def used_pages_def Initialize_Caps_def)
  ultimately have "kept s1 ?s (roots T)"
    using pm.stores_live [OF inv, where f = "0x1000" and kvs = "[(0x80, 1), (0x88, 0x200), (0x90, 9)]"]
    by (auto simp: Page_Size_def kept_def)
  then have "caps T ?s 1 = Some admin_cap" using caps_kept c1 by metis
  moreover have "caps Initialize_Caps ?s = Map.empty" by (auto simp: caps_def Get_absent Initialize_Caps_def)
  ultimately show thesis using that [OF run] i(2)
    by (simp add: Source_Handle_def Rights_Mask_def Grant_Badge_def Grant_List_Offset_def) (simp add: poke_def)
qed

lemma Grant_List_ok:
  assumes "cap_run A procs s X" and "a \<in> A" and "c \<in> A" and "a \<noteq> c" and "buf \<in> X"
    and "Grant_List_Caps (Some \<lparr>IPC_Buffer_PA = buf, process = Some (procs a)\<rparr>) (procs c) n s l = (Proc_Ok, C', s', l')"
  shows "(\<forall>i < n. grantable (caps (procs a) s) s buf i) \<and>
    caps C' s' = caps (procs c) s ++ map_of (map (\<lambda>i. (i + 1, grant_entry (caps (procs a) s) s buf i)) [0..<n]) \<and>
    (\<forall>b \<in> A - {c}. caps (procs b) s' = caps (procs b) s) \<and>
    l' = fold Retain_Cap (map (grant_entry (caps (procs a) s) s buf) [0..<n]) l"
proof (cases "n = 0")
  case True
  then show ?thesis using assms(6) by (simp add: Grant_List_Caps_def)
next
  case False
  let ?X = "others A procs X c" and ?t = "\<lparr>IPC_Buffer_PA = buf, process = Some (procs a)\<rparr>"
  note ok = cap_run_ok [OF assms(1)]
  have C: "table_ok (procs c) s ?X" and P: "0 \<notin> dom (caps (procs a) s)"
    using ok assms(2,3) by (simp_all add: tables_ok_def table_ok_def)
  have n: "n \<le> Max_Grants" and loop: "grant_loop [0..<n] buf ?t (procs c) s l = (Proc_Ok, C', s', l')"
    using assms(6) False by (auto simp: Grant_List_Caps_def split: if_splits)
  have sub: "roots (procs a) \<subseteq> ?X" "buf \<in> ?X" using roots_others [OF assms(2,4)] assms(5) by (auto simp: others_def)
  have "table_ok C' s' ?X \<and> kept s s' ?X"
    using n by (intro grant_loop_safe [OF C _ loop]) (auto simp: Max_Grants_def Max_Caps_def)
  then have "\<forall>b \<in> A - {c}. caps (procs b) s' = caps (procs b) s" using tables_ok_step(2) [OF ok assms(3)] by blast
  moreover have "(\<forall>i \<in> set [0..<n]. grantable (caps (procs a) s) s buf i) \<and>
      caps C' s' = caps (procs c) s ++ map_of (map (\<lambda>i. (i + 1, grant_entry (caps (procs a) s) s buf i)) [0..<n]) \<and>
      l' = fold Retain_Cap (map (grant_entry (caps (procs a) s) s buf) [0..<n]) l"
    using n by (intro grant_loop_ok [OF P _ C sub _ _ loop]) auto
  ultimately show ?thesis by simp
qed

lemma demo_grant:
  assumes "caps P s 1 = Some admin_cap" and "0 \<notin> dom (caps P s)" and "Source_Handle s buf 0 = 1" and "Rights_Mask s buf 0 = 0x200"
    and "roomy s" and "Root C 0 = 0" and "buf \<noteq> 0"
  shows "\<exists>C' s' l'. Grant_List_Caps (Some \<lparr>IPC_Buffer_PA = buf, process = Some P\<rparr>) C 1 s l = (Proc_Ok, C', s', l')"
proof -
  have "Lookup P 1 s = (Cap_Ok, admin_cap)" using Lookup_map [OF assms(2), of 1] assms(1) by (simp add: Max_Caps_def)
  moreover have "Has_Rights manage_only (To_Rights 0x200)" "0x200 AND NOT Valid_Rights_Mask = 0"
    by (simp_all add: manage_only_def No_Rights_def To_Rights_def Has_Rights_def Valid_Rights_Mask_def)
  moreover have "fst (Insert_At C 1 Admin_Object 0x8000 (To_Rights 0x200) (Grant_Badge s buf 0) s) = Cap_Ok"
    using roomy_allocates [OF assms(5)] assms(6)
    by (simp add: Insert_At_def install_def Ensure_Page_def Page_No_def Caps_Per_Page_def Invalid_Handle_def)
  then obtain C' s' where "Insert_At C 1 Admin_Object 0x8000 (To_Rights 0x200) (Grant_Badge s buf 0) s = (Cap_Ok, C', s')"
    by (metis prod.collapse)
  ultimately show ?thesis using assms(3,4,7)
    by (simp add: Grant_List_Caps_def Max_Grants_def Lookup_Cap_def Max_Caps_def admin_cap_def Insert_Process_Cap_At_def Let_def)
qed

lemma demo_granted:
  obtains procs s C' s' l' where "cap_run {0, 1} procs s {0x1000}" "caps (procs 0) s 1 = Some admin_cap" "caps (procs 1) s = Map.empty"
    "Grant_List_Caps (Some \<lparr>IPC_Buffer_PA = 0x1000, process = Some (procs 0)\<rparr>) (procs 1) 1 s [] = (Proc_Ok, C', s', l')"
    "grant_entry (caps (procs 0) s) s 0x1000 0 = admin_cap\<lparr>c_badge := 9\<rparr>"
proof -
  obtain procs s where g: "cap_run {0, 1} procs s {0x1000}" "caps (procs 0) s 1 = Some admin_cap" "caps (procs 1) s = Map.empty"
    "Source_Handle s 0x1000 0 = 1" "Rights_Mask s 0x1000 0 = 0x200" "Grant_Badge s 0x1000 0 = 9" "roomy s"
    by (rule grant_demo)
  have t: "table_ok (procs i) s (others {0, 1} procs {0x1000} i)" if "i \<in> {0, 1}" for i
    using cap_run_ok [OF g(1)] that by (auto simp: tables_ok_def)
  then have "Root (procs 1) 0 = 0" "0 \<notin> dom (caps (procs 0) s)"
    using t [of 1] g(3) by (auto simp: table_ok_def counts_ok_def Page_Count_def)
  then obtain C' s' l' where "Grant_List_Caps (Some \<lparr>IPC_Buffer_PA = 0x1000, process = Some (procs 0)\<rparr>) (procs 1) 1 s [] = (Proc_Ok, C', s', l')"
    using demo_grant [OF g(2) _ g(4,5,7), of "procs 1" "[]"] by auto
  moreover have "grant_entry (caps (procs 0) s) s 0x1000 0 = admin_cap\<lparr>c_badge := 9\<rparr>"
    using g(2,4-6) by (simp add: grant_entry_def admin_cap_def manage_only_def No_Rights_def To_Rights_def)
  ultimately show thesis using that g(1-3) by blast
qed

subsection \<open>Properties\<close>

text \<open>
  Property C8: a spawn grant list gives the child exactly what it lists. In every run, when \<open>Grant_List_Caps\<close> succeeds, handle
  \<open>i + 1\<close> of the child names the object of the parent's handle in entry \<open>i\<close>, with the badge of the entry and its rights, which
  are valid and a subset of the parent's; the child's other handles, and the capabilities of every other process, are as before;
  and every object with a reference count is retained once per new capability, in order.
\<close>

theorem grants_exact:
  assumes "cap_run A procs s X" and "a \<in> A" and "c \<in> A" and "a \<noteq> c" and "buf \<in> X"
    and "Grant_List_Caps (Some \<lparr>IPC_Buffer_PA = buf, process = Some (procs a)\<rparr>) (procs c) n s l = (Proc_Ok, C', s', l')"
  shows "(\<forall>i < n. grantable (caps (procs a) s) s buf i) \<and>
    caps C' s' = caps (procs c) s ++ map_of (map (\<lambda>i. (i + 1, grant_entry (caps (procs a) s) s buf i)) [0..<n]) \<and>
    (\<forall>b \<in> A - {c}. caps (procs b) s' = caps (procs b) s) \<and>
    l' = fold Retain_Cap (map (grant_entry (caps (procs a) s) s buf) [0..<n]) l"
  using Grant_List_ok [OF assms] .

theorem grants_exact_witness:
  "\<exists>P C s C' s' l'. caps P s 1 = Some admin_cap \<and>
     Grant_List_Caps (Some \<lparr>IPC_Buffer_PA = 0x1000, process = Some P\<rparr>) C 1 s [] = (Proc_Ok, C', s', l') \<and>
     caps C' s' 1 = Some (admin_cap\<lparr>c_badge := 9\<rparr>)"
proof -
  obtain procs s C' s' l' where g: "cap_run {0, 1} procs s {0x1000}" "caps (procs 0) s 1 = Some admin_cap" "caps (procs 1) s = Map.empty"
    "Grant_List_Caps (Some \<lparr>IPC_Buffer_PA = 0x1000, process = Some (procs 0)\<rparr>) (procs 1) 1 s [] = (Proc_Ok, C', s', l')"
    "grant_entry (caps (procs 0) s) s 0x1000 0 = admin_cap\<lparr>c_badge := 9\<rparr>"
    by (rule demo_granted)
  have "caps C' s' 1 = Some (admin_cap\<lparr>c_badge := 9\<rparr>)" using grants_exact [OF g(1) _ _ _ _ g(4)] g(3,5) by simp
  then show ?thesis using g(2,4) by blast
qed

text \<open>
  Defect: a capability without the \<open>Transfer\<close> right can be handed to another process after all: the grant list
  checks that the rights asked for are a subset of the rights held, and not that the capability may be transferred. There is a run
  in which a process that holds an administration object with \<open>Manage\<close> only passes it on by spawning a child.
\<close>

theorem manage_only_redelegated:
  "\<exists>procs s C' s' l'. cap_run {0, 1} procs s {0x1000} \<and> caps (procs 0) s 1 = Some admin_cap \<and> \<not> r_transfer (c_rights admin_cap) \<and>
     caps (procs 1) s = Map.empty \<and>
     Grant_List_Caps (Some \<lparr>IPC_Buffer_PA = 0x1000, process = Some (procs 0)\<rparr>) (procs 1) 1 s [] = (Proc_Ok, C', s', l') \<and>
     caps C' s' 1 = Some (admin_cap\<lparr>c_badge := 9\<rparr>)"
proof -
  obtain procs s C' s' l' where g: "cap_run {0, 1} procs s {0x1000}" "caps (procs 0) s 1 = Some admin_cap" "caps (procs 1) s = Map.empty"
    "Grant_List_Caps (Some \<lparr>IPC_Buffer_PA = 0x1000, process = Some (procs 0)\<rparr>) (procs 1) 1 s [] = (Proc_Ok, C', s', l')"
    "grant_entry (caps (procs 0) s) s 0x1000 0 = admin_cap\<lparr>c_badge := 9\<rparr>"
    by (rule demo_granted)
  have "caps C' s' 1 = Some (admin_cap\<lparr>c_badge := 9\<rparr>)" using Grant_List_ok [OF g(1) _ _ _ _ g(4)] g(3,5) by simp
  moreover have "\<not> r_transfer (c_rights admin_cap)" by (simp add: admin_cap_def manage_only_def No_Rights_def)
  ultimately show ?thesis using g(1-4) by blast
qed

text \<open>
  Minting never amplifies. In every run, every capability a process holds after the mint system call names the object
  of one it held before, with a subset of that one's rights, and the capabilities of the other processes are as before.
\<close>

theorem mint_no_amplification:
  assumes "cap_run A procs s X" and "a \<in> A" and "t = \<lparr>IPC_Buffer_PA = buf, process = Some (procs a)\<rparr>"
    and "Handle_Cap_Mint (Some t) a0 msk badge s l = (ret, Some t', s', l')"
  shows "\<exists>T'. process t' = Some T' \<and>
    (\<forall>k e'. caps T' s' k = Some e' \<longrightarrow>
      (\<exists>j e. caps (procs a) s j = Some e \<and> c_kind e' = c_kind e \<and> c_object e' = c_object e \<and> Has_Rights (c_rights e) (c_rights e'))) \<and>
    (\<forall>b \<in> A - {a}. caps (procs b) s' = caps (procs b) s)"
proof -
  let ?e = "snd (Lookup (procs a) a0 s)" and ?r = "To_Rights msk"
  note ok = cap_run_ok [OF assms(1)]
  have T: "table_ok (procs a) s (others A procs X a)" using ok assms(2) by (simp add: tables_ok_def)
  have refl: "Has_Rights q q" for q by (simp add: Has_Rights_def)
  obtain st h T1 s1 where i: "Insert (procs a) (c_kind ?e) (c_object ?e) ?r badge s = (st, h, T1, s1)" by (metis prod.exhaust)
  consider "t' = t" "s' = s" | "a0 < Max_Caps" "fst (Lookup (procs a) a0 s) = Cap_Ok" "Has_Rights (c_rights ?e) ?r" "process t' = Some T1" "s' = s1"
    using assms(3,4) i
    by (auto simp: Handle_Cap_Mint_def Lookup_Cap_def Insert_Process_Cap_def Let_def split: if_splits prod.splits)
  then show ?thesis
  proof cases
    case 1
    then show ?thesis using assms(3) refl by auto
  next
    case 2
    then have src: "caps (procs a) s a0 = Some ?e"
      using Lookup_caps [OF T 2(1)] by (auto split: option.splits)
    have "\<forall>b \<in> A - {a}. caps (procs b) s1 = caps (procs b) s"
      using tables_ok_step(2) [OF ok assms(2)] Insert_ok [OF T i] by blast
    moreover have "\<exists>j e. caps (procs a) s j = Some e \<and> c_kind e' = c_kind e \<and> c_object e' = c_object e \<and> Has_Rights (c_rights e) (c_rights e')"
      if "caps T1 s1 k = Some e'" for k e'
      using Insert_ok [OF T i] that src 2(3) refl by (cases "k = h") (fastforce split: if_splits)+
    ultimately show ?thesis using 2(4,5) by blast
  qed
qed

theorem mint_no_amplification_witness:
  "\<exists>P s ret t' s' l'. caps P s 1 = Some admin_cap \<and>
     Handle_Cap_Mint (Some \<lparr>IPC_Buffer_PA = 0, process = Some P\<rparr>) 1 0x200 5 s [] = (ret, Some t', s', l') \<and> process t' \<noteq> None"
proof -
  obtain procs s where g: "cap_run {0, 1} procs s {0x1000}" "caps (procs 0) s 1 = Some admin_cap" by (rule grant_demo)
  let ?t = "\<lparr>IPC_Buffer_PA = 0, process = Some (procs 0)\<rparr>"
  have "fst (snd (Handle_Cap_Mint (Some ?t) 1 0x200 5 s [])) \<noteq> None"
    by (auto simp: Handle_Cap_Mint_def Let_def split: prod.splits option.splits)
  then obtain ret t' s' l' where m: "Handle_Cap_Mint (Some ?t) 1 0x200 5 s [] = (ret, Some t', s', l')"
    by (cases "Handle_Cap_Mint (Some ?t) 1 0x200 5 s []") auto
  have "process t' \<noteq> None" using mint_no_amplification [OF g(1) _ refl m] by auto
  then show ?thesis using g(2) m by blast
qed

end
