(* ===== verification/Kernel_Ntfn.thy ===== *)
theory Kernel_Ntfn
  imports Kernel_Frames
begin

unbundle bit_operations_syntax

text \<open>
  Notification objects, \<open>src/src/kernel/kernel-notifications.adb\<close>: words of pending signal bits with a thread that waits on the
  object and a thread the object is bound to, and the two system calls that consume bits (\<open>Handle_Ntfn_Wait\<close> and the first part
  of \<open>Handle_IPC_Recv\<close>, \<open>src/src/arch/riscv64/arch-traps.adb\<close>). Threads are numbers; of a thread the model keeps its
  scheduling state, the saved result register, the notification it is bound to, the endpoint it waits at and its message buffer.
  Pushing a thread on the ready queue is a list of the threads pushed, in order; the boost of its priority and the queue of
  sleepers are left out, no thread that sleeps is registered with a notification. The frames of the slab are a list, in the order in
  which the list at \<open>Frame_Head\<close> links them, and a new frame joins it (that its bytes are zero is not used: a slot is set up
  when it is created). Reference counts are natural numbers; a capability per reference bounds them far below \<open>2\<^sup>3\<^sup>1\<close>.
\<close>

subsection \<open>State\<close>

datatype thread_state =
  Ready | Running | Blocked_Send | Blocked_Receive | Blocked_IRQ | Blocked_Notification | Blocked_Sleeping | Blocked_Thread_Wait | Dead

datatype ntfn_status = Ntfn_Ok | No_Slot | Already_Bound | Already_Waiting

record buffer_message =
  bm_label :: u64
  bm_words :: "u64 list"
  bm_caps :: "u64 list"
  bm_badge :: u64

record thread =
  th_state :: thread_state
  th_saved :: u64
  th_bound :: nat
  th_recv :: nat
  th_buffer :: "buffer_message option"

record notification =
  nt_count :: nat
  nt_bits :: u64
  nt_bound :: "nat option"
  nt_waiting :: "nat option"
  nt_in_use :: bool
  nt_next :: nat

record ntfn_kernel =
  nk_frames :: "nat list"
  nk_free :: nat
  nk_slots :: "nat \<Rightarrow> notification"
  nk_threads :: "nat \<Rightarrow> thread"
  nk_receivers :: "nat \<Rightarrow> nat option"
  nk_pushed :: "nat list"

definition put_slot :: "nat \<Rightarrow> notification \<Rightarrow> ntfn_kernel \<Rightarrow> ntfn_kernel" where
  "put_slot a n k = k\<lparr>nk_slots := (nk_slots k)(a := n)\<rparr>"

definition put_thread :: "nat \<Rightarrow> thread \<Rightarrow> ntfn_kernel \<Rightarrow> ntfn_kernel" where
  "put_thread t r k = k\<lparr>nk_threads := (nk_threads k)(t := r)\<rparr>"

definition Ntfn_Slot_Bytes :: nat where
  "Ntfn_Slot_Bytes = 48"

definition Ntfn_Slots_Per_Frame :: nat where
  "Ntfn_Slots_Per_Frame = Page_Size div Ntfn_Slot_Bytes"

definition Notification_Label :: u64 where
  "Notification_Label = - 1"

subsection \<open>The slab\<close>

definition Free_Notification :: "nat \<Rightarrow> ntfn_kernel \<Rightarrow> ntfn_kernel" where
  "Free_Notification a k =
     (put_slot a ((nk_slots k a)\<lparr>nt_in_use := False, nt_waiting := None, nt_next := nk_free k\<rparr>) k)\<lparr>nk_free := a\<rparr>"

definition Ntfn_Grow_Pool :: "(nat \<Rightarrow> nat) \<Rightarrow> ntfn_kernel \<Rightarrow> pmm \<Rightarrow> ntfn_status \<times> ntfn_kernel \<times> pmm" where
  "Ntfn_Grow_Pool virt k s =
     (case Allocate_Frame s of (st, f, s') \<Rightarrow>
        if st \<noteq> Pmm_Ok then (No_Slot, k, s')
        else (Ntfn_Ok, fold (\<lambda>i. Free_Notification (virt f + i * Ntfn_Slot_Bytes)) [1..<Ntfn_Slots_Per_Frame]
                (k\<lparr>nk_frames := virt f # nk_frames k\<rparr>), s'))"

definition Slot_Access :: "nat \<Rightarrow> ntfn_kernel \<Rightarrow> bool" where
  "Slot_Access a k \<longleftrightarrow> (\<exists>f \<in> set (nk_frames k).
     let diff = sub64 a (wrap64 (f + Ntfn_Slot_Bytes)) in diff mod Ntfn_Slot_Bytes = 0 \<and> diff < Page_Size - Ntfn_Slot_Bytes)"

definition Ntfn_Create :: "(nat \<Rightarrow> nat) \<Rightarrow> ntfn_kernel \<Rightarrow> pmm \<Rightarrow> ntfn_status \<times> nat \<times> ntfn_kernel \<times> pmm" where
  "Ntfn_Create virt k s =
     (case (if nk_free k = 0 then Ntfn_Grow_Pool virt k s else (Ntfn_Ok, k, s)) of (st, k, s) \<Rightarrow>
        if st \<noteq> Ntfn_Ok then (st, 0, k, s)
        else
          let a = nk_free k; n = nk_slots k a
          in (Ntfn_Ok, a, (put_slot a (n\<lparr>nt_next := 0, nt_in_use := True, nt_count := 0, nt_bits := 0, nt_bound := None,
                 nt_waiting := None\<rparr>) k)\<lparr>nk_free := nt_next n\<rparr>, s))"

subsection \<open>Threads\<close>

definition Set_Saved_Result :: "nat \<Rightarrow> u64 \<Rightarrow> ntfn_kernel \<Rightarrow> ntfn_kernel" where
  "Set_Saved_Result t v k = put_thread t ((nk_threads k t)\<lparr>th_saved := v\<rparr>) k"

definition Wake :: "nat \<Rightarrow> ntfn_kernel \<Rightarrow> ntfn_kernel" where
  "Wake t k =
     (if th_state (nk_threads k t) \<in> {Dead, Running, Ready} then k
      else (put_thread t ((nk_threads k t)\<lparr>th_state := Ready\<rparr>) k)\<lparr>nk_pushed := nk_pushed k @ [t]\<rparr>)"

definition Cancel_Receive :: "nat \<Rightarrow> ntfn_kernel \<Rightarrow> ntfn_kernel" where
  "Cancel_Receive t k =
     (let ep = th_recv (nk_threads k t)
      in if ep = 0 then k
         else put_thread t ((nk_threads k t)\<lparr>th_recv := 0\<rparr>)
                (if nk_receivers k ep = Some t then k\<lparr>nk_receivers := (nk_receivers k)(ep := None)\<rparr> else k))"

definition Write_Notification_Message :: "nat \<Rightarrow> u64 \<Rightarrow> ntfn_kernel \<Rightarrow> ntfn_kernel" where
  "Write_Notification_Message t bits k =
     (case th_buffer (nk_threads k t) of
        None \<Rightarrow> k
      | Some buf \<Rightarrow>
          put_thread t ((nk_threads k t)\<lparr>th_buffer := Some (buf\<lparr>bm_label := Notification_Label, bm_words := bits # replicate 5 0,
            bm_caps := replicate 4 0\<rparr>)\<rparr>) k)"

subsection \<open>Operations\<close>

definition Ntfn_Discard :: "nat \<Rightarrow> ntfn_kernel \<Rightarrow> ntfn_kernel" where
  "Ntfn_Discard a k = (if Slot_Access a k then Free_Notification a k else k)"

definition Ntfn_Retain :: "nat \<Rightarrow> ntfn_kernel \<Rightarrow> ntfn_kernel" where
  "Ntfn_Retain a k = (if Slot_Access a k then put_slot a ((nk_slots k a)\<lparr>nt_count := nt_count (nk_slots k a) + 1\<rparr>) k else k)"

definition Ntfn_Release :: "nat \<Rightarrow> ntfn_kernel \<Rightarrow> bool \<times> ntfn_kernel" where
  "Ntfn_Release a k =
     (if \<not> Slot_Access a k then (False, k)
      else
        let k = put_slot a ((nk_slots k a)\<lparr>nt_count := nt_count (nk_slots k a) - 1\<rparr>) k
        in if nt_count (nk_slots k a) = 0 then
             let k = put_slot a ((nk_slots k a)\<lparr>nt_bound := None, nt_bits := 0\<rparr>) k;
                 k = (case nt_waiting (nk_slots k a) of None \<Rightarrow> k | Some t \<Rightarrow> Wake t (Set_Saved_Result t (- 1) k))
             in (True, Free_Notification a k)
           else (False, k))"

definition Take :: "nat \<Rightarrow> ntfn_kernel \<Rightarrow> u64 \<times> ntfn_kernel" where
  "Take a k = (if Slot_Access a k then (nt_bits (nk_slots k a), put_slot a ((nk_slots k a)\<lparr>nt_bits := 0\<rparr>) k) else (0, k))"

definition Signal :: "nat \<Rightarrow> u64 \<Rightarrow> ntfn_kernel \<Rightarrow> ntfn_kernel" where
  "Signal a bits k =
     (if \<not> Slot_Access a k then k
      else
        let k = put_slot a ((nk_slots k a)\<lparr>nt_bits := nt_bits (nk_slots k a) OR bits\<rparr>) k
        in case nt_waiting (nk_slots k a) of
             Some t \<Rightarrow>
               let k = put_slot a ((nk_slots k a)\<lparr>nt_waiting := None\<rparr>) k; (b, k) = Take a k
               in Wake t (Set_Saved_Result t b k)
           | None \<Rightarrow>
               (case nt_bound (nk_slots k a) of
                  None \<Rightarrow> k
                | Some t \<Rightarrow>
                    if th_state (nk_threads k t) = Blocked_Notification then
                      let (b, k) = Take a k in Wake t (Set_Saved_Result t b k)
                    else if th_state (nk_threads k t) = Blocked_Receive then
                      let k = Cancel_Receive t k; (b, k) = Take a k
                      in Wake t (Set_Saved_Result t 0 (Write_Notification_Message t b k))
                    else k))"

definition Record_Waiter :: "nat \<Rightarrow> nat option \<Rightarrow> ntfn_kernel \<Rightarrow> ntfn_status \<times> ntfn_kernel" where
  "Record_Waiter a t k =
     (if \<not> Slot_Access a k \<or> t = None then (No_Slot, k)
      else if nt_waiting (nk_slots k a) \<noteq> None \<and> nt_waiting (nk_slots k a) \<noteq> t then (Already_Waiting, k)
      else (Ntfn_Ok, put_slot a ((nk_slots k a)\<lparr>nt_waiting := t\<rparr>) k))"

definition Clear_Waiter :: "nat \<Rightarrow> nat option \<Rightarrow> ntfn_kernel \<Rightarrow> ntfn_kernel" where
  "Clear_Waiter a t k =
     (if Slot_Access a k \<and> nt_waiting (nk_slots k a) = t then put_slot a ((nk_slots k a)\<lparr>nt_waiting := None\<rparr>) k else k)"

definition Bind_Thread :: "nat \<Rightarrow> nat option \<Rightarrow> ntfn_kernel \<Rightarrow> ntfn_status \<times> ntfn_kernel" where
  "Bind_Thread a thread k =
     (case thread of
        None \<Rightarrow> (No_Slot, k)
      | Some t \<Rightarrow>
          if \<not> Slot_Access a k then (No_Slot, k)
          else if nt_bound (nk_slots k a) \<noteq> None \<or> th_bound (nk_threads k t) \<noteq> 0 then (Already_Bound, k)
          else (Ntfn_Ok, put_thread t ((nk_threads k t)\<lparr>th_bound := a\<rparr>) (put_slot a ((nk_slots k a)\<lparr>nt_bound := Some t\<rparr>) k)))"

definition Ntfn_Cleanup_Thread_Cap :: "nat option \<Rightarrow> nat \<Rightarrow> bool \<Rightarrow> ntfn_kernel \<Rightarrow> ntfn_kernel" where
  "Ntfn_Cleanup_Thread_Cap thread a unbind k =
     (if \<not> unbind then k
      else
        let k = (if Slot_Access a k \<and> nt_bound (nk_slots k a) = thread then put_slot a ((nk_slots k a)\<lparr>nt_bound := None\<rparr>) k else k);
            k = (if Slot_Access a k \<and> nt_waiting (nk_slots k a) = thread then put_slot a ((nk_slots k a)\<lparr>nt_waiting := None\<rparr>) k else k)
        in case thread of
             None \<Rightarrow> k
           | Some t \<Rightarrow> if th_bound (nk_threads k t) = a then put_thread t ((nk_threads k t)\<lparr>th_bound := 0\<rparr>) k else k)"

definition drop_waiter :: "nat \<Rightarrow> nat \<Rightarrow> ntfn_kernel \<Rightarrow> ntfn_kernel" where
  "drop_waiter t a k =
     (if nt_in_use (nk_slots k a) \<and> nt_waiting (nk_slots k a) = Some t then put_slot a ((nk_slots k a)\<lparr>nt_waiting := None\<rparr>) k else k)"

definition Ntfn_Cleanup_Thread :: "nat option \<Rightarrow> ntfn_kernel \<Rightarrow> ntfn_kernel" where
  "Ntfn_Cleanup_Thread thread k =
     (case thread of
        None \<Rightarrow> k
      | Some t \<Rightarrow>
          let bound = th_bound (nk_threads k t);
              k = (if bound \<noteq> 0 then
                     put_thread t ((nk_threads k t)\<lparr>th_bound := 0\<rparr>)
                       (if Slot_Access bound k \<and> nt_bound (nk_slots k bound) = Some t
                        then put_slot bound ((nk_slots k bound)\<lparr>nt_bound := None\<rparr>) k else k)
                   else k)
          in if th_state (nk_threads k t) = Blocked_Notification then
               fold (\<lambda>f. fold (\<lambda>i. drop_waiter t (f + i * Ntfn_Slot_Bytes)) [1..<Ntfn_Slots_Per_Frame]) (nk_frames k) k
             else k)"

subsection \<open>The system calls that consume bits\<close>

text \<open>
  \<open>Handle_Ntfn_Wait\<close> from the point where the capability named the object: \<open>Some v\<close> is the value of register a0 at once,
  \<open>None\<close> a thread that blocks. \<open>Recv_Bound\<close> is the part of \<open>Handle_IPC_Recv\<close> before the endpoint: \<open>Some\<close> bits delivered as a
  message, or \<open>None\<close>, and the receive goes on.
\<close>

definition Ntfn_Wait :: "nat \<Rightarrow> nat \<Rightarrow> ntfn_kernel \<Rightarrow> u64 option \<times> ntfn_kernel" where
  "Ntfn_Wait a t k =
     (let (b, k) = Take a k
      in if b \<noteq> 0 then (Some b, k)
         else
           let (st, k) = Record_Waiter a (Some t) k
           in if st \<noteq> Ntfn_Ok then (Some (- 1), k)
              else (None, put_thread t ((nk_threads k t)\<lparr>th_state := Blocked_Notification\<rparr>) k))"

definition Recv_Bound :: "nat \<Rightarrow> ntfn_kernel \<Rightarrow> u64 option \<times> ntfn_kernel" where
  "Recv_Bound t k =
     (let a = th_bound (nk_threads k t)
      in if a = 0 then (None, k)
         else let (b, k) = Take a k in if b \<noteq> 0 then (Some b, Write_Notification_Message t b k) else (None, k))"

subsection \<open>What the operations touch\<close>

lemma put_simps [simp]:
  "nk_slots (put_slot a n k) = (nk_slots k)(a := n)" "nk_threads (put_slot a n k) = nk_threads k" "nk_frames (put_slot a n k) = nk_frames k"
  "nk_free (put_slot a n k) = nk_free k" "nk_threads (put_thread t r k) = (nk_threads k)(t := r)" "nk_slots (put_thread t r k) = nk_slots k"
  "nk_frames (put_thread t r k) = nk_frames k" "nk_free (put_thread t r k) = nk_free k" "nk_receivers (put_slot a n k) = nk_receivers k"
  "nk_receivers (put_thread t r k) = nk_receivers k"
  by (simp_all add: put_slot_def put_thread_def)

lemma Slot_Access_frames: "nk_frames k' = nk_frames k \<Longrightarrow> Slot_Access a k' = Slot_Access a k"
  by (simp add: Slot_Access_def)

lemma wake_simps [simp]:
  "nk_slots (Wake t k) = nk_slots k" "nk_frames (Wake t k) = nk_frames k" "nk_free (Wake t k) = nk_free k"
  "th_saved (nk_threads (Wake t k) u) = th_saved (nk_threads k u)" "th_buffer (nk_threads (Wake t k) u) = th_buffer (nk_threads k u)"
  "th_bound (nk_threads (Wake t k) u) = th_bound (nk_threads k u)"
  "u \<noteq> t \<Longrightarrow> nk_threads (Wake t k) u = nk_threads k u"
  by (simp_all add: Wake_def)

lemma thread_simps [simp]:
  "nk_slots (Set_Saved_Result t v k) = nk_slots k" "nk_frames (Set_Saved_Result t v k) = nk_frames k"
  "nk_threads (Set_Saved_Result t v k) = (nk_threads k)(t := (nk_threads k t)\<lparr>th_saved := v\<rparr>)"
  "nk_slots (Cancel_Receive t k) = nk_slots k" "nk_frames (Cancel_Receive t k) = nk_frames k"
  "th_buffer (nk_threads (Cancel_Receive t k) u) = th_buffer (nk_threads k u)"
  "th_bound (nk_threads (Cancel_Receive t k) u) = th_bound (nk_threads k u)"
  "nk_slots (Write_Notification_Message t v k) = nk_slots k" "nk_frames (Write_Notification_Message t v k) = nk_frames k"
  "th_bound (nk_threads (Write_Notification_Message t v k) u) = th_bound (nk_threads k u)"
  "th_buffer (nk_threads k u) \<noteq> None \<Longrightarrow> th_buffer (nk_threads (Write_Notification_Message t v k) u) \<noteq> None"
  by (auto simp: Set_Saved_Result_def Cancel_Receive_def Write_Notification_Message_def Let_def split: option.splits)


lemma Take_simps:
  assumes "Take a k = (b, k')"
  shows "nk_threads k' = nk_threads k" "nk_frames k' = nk_frames k"
    "Slot_Access a k \<Longrightarrow> b = nt_bits (nk_slots k a) \<and> nk_slots k' = (nk_slots k)(a := (nk_slots k a)\<lparr>nt_bits := 0\<rparr>)"
    "\<not> Slot_Access a k \<Longrightarrow> b = 0 \<and> k' = k"
  using assms by (auto simp: Take_def split: if_splits)

subsection \<open>Signals are conserved\<close>

text \<open>
  \<open>handed\<close> reads off the threads what a signal gave to a thread: the saved result of a thread that waited, the message of a
  thread that received. \<open>ntfn_event\<close> are the calls that move bits, and \<open>out a\<close> the bits of the object \<open>a\<close> a call gives out.
\<close>

definition target :: "nat \<Rightarrow> ntfn_kernel \<Rightarrow> nat option" where
  "target a k =
     (case nt_waiting (nk_slots k a) of
        Some t \<Rightarrow> Some t
      | None \<Rightarrow> (case nt_bound (nk_slots k a) of
            None \<Rightarrow> None
          | Some t \<Rightarrow> if th_state (nk_threads k t) \<in> {Blocked_Notification, Blocked_Receive} then Some t else None))"








definition buffered :: "ntfn_kernel \<Rightarrow> bool" where
  "buffered k \<longleftrightarrow> (\<forall>t. th_buffer (nk_threads k t) \<noteq> None)"

lemma Slot_Access_put [simp]:
  "Slot_Access a (put_slot c n k) = Slot_Access a k" "Slot_Access a (put_thread t r k) = Slot_Access a k"
  "Slot_Access a (Cancel_Receive t k) = Slot_Access a k" "Slot_Access a (Wake t k) = Slot_Access a k"
  by (simp_all add: Slot_Access_def)

lemma put_slot_twice [simp]: "put_slot a n (put_slot a m k) = put_slot a n k"
  by (simp add: put_slot_def)

lemma buffered_same: "(\<And>u. th_buffer (nk_threads k' u) = th_buffer (nk_threads k u)) \<Longrightarrow> buffered k' = buffered k"
  by (simp add: buffered_def)

lemma buffered_simps [simp]:
  "buffered (Wake t k) = buffered k" "buffered (Set_Saved_Result t v k) = buffered k" "buffered (put_slot a n k) = buffered k"
  "buffered k \<Longrightarrow> buffered (Write_Notification_Message t v k)"
  "buffered k \<Longrightarrow> buffered (put_thread t ((nk_threads k t)\<lparr>th_state := x\<rparr>) k)"
proof -
  show "buffered (Wake t k) = buffered k" "buffered (Set_Saved_Result t v k) = buffered k" "buffered (put_slot a n k) = buffered k"
    by (rule buffered_same, simp)+
  show "buffered k \<Longrightarrow> buffered (Write_Notification_Message t v k)"
    by (auto simp: buffered_def Write_Notification_Message_def split: option.splits)
  show "buffered k \<Longrightarrow> buffered (put_thread t ((nk_threads k t)\<lparr>th_state := x\<rparr>) k)" by (simp add: buffered_def)
qed

lemma Signal_waiting:
  assumes "Slot_Access a k" and "nt_waiting (nk_slots k a) = Some t"
  shows "Signal a b k = Wake t (Set_Saved_Result t (nt_bits (nk_slots k a) OR b)
    (put_slot a ((nk_slots k a)\<lparr>nt_waiting := None, nt_bits := 0\<rparr>) k))"
  using assms by (simp add: Signal_def Take_def Let_def)

lemma Signal_bound:
  assumes "Slot_Access a k" and "nt_waiting (nk_slots k a) = None" and "nt_bound (nk_slots k a) = Some t"
    and "th_state (nk_threads k t) = Blocked_Notification"
  shows "Signal a b k = Wake t (Set_Saved_Result t (nt_bits (nk_slots k a) OR b) (put_slot a ((nk_slots k a)\<lparr>nt_bits := 0\<rparr>) k))"
  using assms by (simp add: Signal_def Take_def Let_def)


lemma Signal_pending:
  assumes "Slot_Access a k" and "target a k = None"
  shows "Signal a b k = put_slot a ((nk_slots k a)\<lparr>nt_bits := nt_bits (nk_slots k a) OR b\<rparr>) k"
  using assms by (auto simp: Signal_def target_def Let_def split: option.splits if_splits)










subsection \<open>Properties\<close>


definition idle :: thread where
  "idle = \<lparr>th_state = Running, th_saved = 0, th_bound = 0, th_recv = 0, th_buffer = Some \<lparr>bm_label = 0, bm_words = replicate 6 0, bm_caps = replicate 4 0, bm_badge = 0\<rparr>\<rparr>"

definition fresh :: notification where
  "fresh = \<lparr>nt_count = 1, nt_bits = 0, nt_bound = None, nt_waiting = None, nt_in_use = True, nt_next = 0\<rparr>"

text \<open>Two notifications, at the first two slots of a frame, and threads that run.\<close>

definition nk_demo :: ntfn_kernel where
  "nk_demo = \<lparr>nk_frames = [0x1000], nk_free = 0, nk_slots = (\<lambda>_. fresh), nk_threads = (\<lambda>_. idle), nk_receivers = (\<lambda>_. None), nk_pushed = []\<rparr>"

lemma nk_demo_slots: "Slot_Access 0x1030 nk_demo" "Slot_Access 0x1060 nk_demo"
  by (simp_all add: Slot_Access_def nk_demo_def Ntfn_Slot_Bytes_def sub64_def wrap64_def Page_Size_def)


text \<open>
  Defect: a binding outlives its notification. The thread \<open>t\<close> binds itself to a notification and the last
  capability for it is closed: the slot is freed and forgets the thread, the thread does not forget the slot. The next
  notification anyone creates gets the slot, and its signals are taken by the next receive of \<open>t\<close>: the owner finds no bit.
\<close>

theorem stale_binding_steals_signals:
  assumes "Slot_Access a k" and "nt_count (nk_slots k a) \<le> 1" and "nt_waiting (nk_slots k a) = None" and "a \<noteq> 0"
    and "Bind_Thread a (Some t) k = (Ntfn_Ok, k1)" and "Ntfn_Release a k1 = (freed, k2)"
    and "Ntfn_Create virt k2 s = (st, c, k3, s')" and "b \<noteq> 0"
  shows "freed \<and> st = Ntfn_Ok \<and> c = a \<and> fst (Recv_Bound t (Signal a b k3)) = Some b \<and>
    fst (Take a (snd (Recv_Bound t (Signal a b k3)))) = 0"
proof -
  have k1: "k1 = put_thread t ((nk_threads k t)\<lparr>th_bound := a\<rparr>) (put_slot a ((nk_slots k a)\<lparr>nt_bound := Some t\<rparr>) k)"
    using assms(1,5) by (auto simp: Bind_Thread_def split: if_splits)
  have k2: "freed" "nk_free k2 = a" "nk_frames k2 = nk_frames k" "th_bound (nk_threads k2 t) = a"
    using assms(1-3,6) by (auto simp: k1 Ntfn_Release_def Let_def Free_Notification_def put_slot_def put_thread_def Slot_Access_def)
  then have c: "st = Ntfn_Ok" "c = a" and k3: "nk_frames k3 = nk_frames k" "nk_threads k3 = nk_threads k2"
      "nt_bits (nk_slots k3 a) = 0" "nt_waiting (nk_slots k3 a) = None" "nt_bound (nk_slots k3 a) = None"
    using assms(4,7) by (auto simp: Ntfn_Create_def Let_def)
  have acc: "Slot_Access a k3" using assms(1) Slot_Access_frames [OF k3(1)] by simp
  let ?k = "put_slot a ((nk_slots k3 a)\<lparr>nt_bits := b\<rparr>) k3"
  have sig: "Signal a b k3 = ?k" using Signal_pending [OF acc, of b] k3 by (simp add: target_def)
  have "Recv_Bound t ?k = (Some b, Write_Notification_Message t b (put_slot a ((nk_slots k3 a)\<lparr>nt_bits := 0\<rparr>) k3))"
    using k2(4) k3(2) acc assms(4,8) by (simp add: Recv_Bound_def Take_def)
  then show ?thesis using k2(1) c sig acc by (simp add: Take_def Slot_Access_def)
qed

lemma demo_released:
  "\<exists>k1 k2. Bind_Thread 0x1030 (Some 1) nk_demo = (Ntfn_Ok, k1) \<and> Ntfn_Release 0x1030 k1 = (True, k2) \<and> nk_free k2 = 0x1030"
  using nk_demo_slots(1)
  by (simp add: Bind_Thread_def Ntfn_Release_def Let_def Free_Notification_def) (simp add: nk_demo_def fresh_def idle_def)

theorem stale_binding_steals_signals_witness:
  "\<exists>k. fst (Recv_Bound 1 (Signal 0x1030 4 k)) = Some 4"
proof -
  obtain k1 k2 where r: "Bind_Thread 0x1030 (Some 1) nk_demo = (Ntfn_Ok, k1)" "Ntfn_Release 0x1030 k1 = (True, k2)"
    using demo_released by blast
  obtain st c k3 s' where n: "Ntfn_Create id k2 pmm_off = (st, c, k3, s')" by (metis prod.exhaust)
  have "fst (Recv_Bound 1 (Signal 0x1030 4 k3)) = Some 4"
    using stale_binding_steals_signals [OF nk_demo_slots(1) _ _ _ r n, of 4] by (simp add: nk_demo_def fresh_def)
  then show ?thesis by blast
qed

text \<open>
  Defect: a thread that waits on one notification is woken by another. When \<open>t\<close> is bound to \<open>a\<close> and waits on
  \<open>c\<close>, a signal to \<open>a\<close> makes it ready with the bits of \<open>a\<close> as the result of its wait on \<open>c\<close>, and \<open>c\<close> keeps it as
  its waiter: whatever the thread blocks on next, a signal to \<open>c\<close> then overwrites its result and makes it ready.
\<close>

theorem wait_woken_by_other:
  assumes "Slot_Access a k" and "Slot_Access c k" and "a \<noteq> c" and "nt_waiting (nk_slots k a) = None"
    and "nt_bound (nk_slots k a) = Some t" and "Ntfn_Wait c t k = (None, k1)" and "k2 = Signal a b k1"
    and "x \<notin> {Dead, Running, Ready}"
  shows "th_state (nk_threads k2 t) = Ready \<and> th_saved (nk_threads k2 t) = nt_bits (nk_slots k a) OR b \<and>
    (let k3 = Signal c d (put_thread t ((nk_threads k2 t)\<lparr>th_state := x\<rparr>) k2)
     in th_state (nk_threads k3 t) = Ready \<and> th_saved (nk_threads k3 t) = d)"
proof -
  have k1: "nk_slots k1 a = nk_slots k a" "nt_waiting (nk_slots k1 c) = Some t" "nt_bits (nk_slots k1 c) = 0"
      "th_state (nk_threads k1 t) = Blocked_Notification" "Slot_Access a k1" "Slot_Access c k1"
    using assms(1-3,6) by (auto simp: Ntfn_Wait_def Take_def Record_Waiter_def split: if_splits prod.splits)
  have k2: "k2 = Wake t (Set_Saved_Result t (nt_bits (nk_slots k a) OR b) (put_slot a ((nk_slots k a)\<lparr>nt_bits := 0\<rparr>) k1))"
    using Signal_bound [OF k1(5) _ _ k1(4), of b] assms(4,5,7) k1(1) by simp
  let ?k = "put_thread t ((nk_threads k2 t)\<lparr>th_state := x\<rparr>) k2"
  have w: "nt_waiting (nk_slots ?k c) = Some t" "nt_bits (nk_slots ?k c) = 0" using k1 assms(3) by (simp_all add: k2)
  have "Slot_Access c ?k" using k1(6) by (simp add: k2 Slot_Access_def Set_Saved_Result_def)
  from Signal_waiting [OF this w(1), of d] w(2)
  have "Signal c d ?k = Wake t (Set_Saved_Result t d (put_slot c ((nk_slots ?k c)\<lparr>nt_waiting := None, nt_bits := 0\<rparr>) ?k))" by simp
  then show ?thesis using assms(8) k1(4) by (simp add: k2 Wake_def Let_def)
qed

end
