(* ===== verification/Kernel_Memory.thy ===== *)
theory Kernel_Memory
  imports Kernel_Caps
begin

text \<open>
  Memory objects, \<open>src/src/kernel/kernel-memory.adb\<close>: bundles of frames with a reference count, handed out from a slab that
  grows by a frame when its free list is empty. An object is a record of its own (the slab frame that holds it stays with the
  pool for ever and nothing else writes to it); the frames of the object are frames of the allocator. The calls of
  \<open>Arch.IOMMU.Unmap_DMA\<close> are kept as a list of device and frame, in order.

  \<open>Pages\<close> is a modular number, so a loop over \<open>0 .. Pages - 1\<close> with no pages runs to the top of the type: its index leaves the
  array of 256 frames and the index check raises. The outcome type tells this from a call that does not return.
\<close>

subsection \<open>State\<close>

datatype 'a outcome = Returns 'a | Raises | Diverges

datatype mem_status = Mem_Ok | No_Memory

definition Max_Pages :: nat where
  "Max_Pages = 256"

definition Max_DMA_Devices :: nat where
  "Max_DMA_Devices = 8"

definition Physmap_Base :: nat where
  "Physmap_Base = 0xFFFFFFC000000000"

definition Phys_To_Virt :: "nat \<Rightarrow> nat" where
  "Phys_To_Virt pa = wrap64 (Physmap_Base + pa)"

record memory_object =
  mo_count :: nat
  mo_pages :: nat
  mo_frames :: "nat list"
  mo_devs :: "nat list"
  mo_dma_count :: nat
  mo_next :: nat

record memory_pool =
  pool_free :: nat
  pool_slots :: "nat \<Rightarrow> memory_object"
  pool_unmaps :: "(nat \<times> nat) list"

definition set_slot :: "nat \<Rightarrow> memory_object \<Rightarrow> memory_pool \<Rightarrow> memory_pool" where
  "set_slot a m p = p\<lparr>pool_slots := (pool_slots p)(a := m)\<rparr>"

subsection \<open>The slab\<close>

definition Free_Slot :: "nat \<Rightarrow> memory_pool \<Rightarrow> memory_pool" where
  "Free_Slot a p = (set_slot a ((pool_slots p a)\<lparr>mo_next := pool_free p\<rparr>) p)\<lparr>pool_free := a\<rparr>"

text \<open>
  The record takes 2112 bytes: the count, padded to 8, the page number, 256 frames, eight 4-byte devices, the device number,
  padded, and the link; one fits in a frame.
\<close>

definition Slot_Bytes :: nat where
  "Slot_Bytes = 2112"

definition Slots_Per_Frame :: nat where
  "Slots_Per_Frame = Page_Size div Slot_Bytes"

definition Grow_Pool :: "memory_pool \<Rightarrow> pmm \<Rightarrow> mem_status \<times> memory_pool \<times> pmm" where
  "Grow_Pool p s =
     (case Allocate_Frame s of (st, f, s') \<Rightarrow>
        if st \<noteq> Pmm_Ok then (No_Memory, p, s')
        else (Mem_Ok, fold (\<lambda>i. Free_Slot (Phys_To_Virt f + i * Slot_Bytes)) [0..<Slots_Per_Frame] p, s'))"

subsection \<open>Operations\<close>

definition Unmap_All_DMA :: "bool \<Rightarrow> nat \<Rightarrow> memory_pool \<Rightarrow> memory_pool outcome" where
  "Unmap_All_DMA available a p =
     (let m = pool_slots p a
      in if \<not> available \<or> mo_dma_count m = 0 then Returns (set_slot a (m\<lparr>mo_dma_count := 0\<rparr>) p)
         else if sub64 (mo_pages m) 1 \<ge> Max_Pages then Raises
         else Returns ((set_slot a (m\<lparr>mo_dma_count := 0\<rparr>) p)\<lparr>pool_unmaps := pool_unmaps p @
           concat (map (\<lambda>d. map (\<lambda>i. (mo_devs m ! d, mo_frames m ! i)) [0..<mo_pages m]) [0..<mo_dma_count m])\<rparr>))"

function free_loop :: "nat \<Rightarrow> nat \<Rightarrow> memory_object \<Rightarrow> pmm \<Rightarrow> pmm outcome" where
  "free_loop i to m s =
     (if i > to then Returns s
      else if i \<ge> Max_Pages then Raises
      else case Deallocate_Frame (mo_frames m ! i) s of None \<Rightarrow> Diverges | Some (_, s') \<Rightarrow> free_loop (i + 1) to m s')"
  by pat_completeness auto

termination
  by (relation "measure (\<lambda>(i, to, m, s). Max_Pages - i)") auto

declare free_loop.simps [simp del]

definition Free_Frames :: "memory_object \<Rightarrow> pmm \<Rightarrow> pmm outcome" where
  "Free_Frames m s = free_loop 0 (sub64 (mo_pages m) 1) m s"

function create_loop :: "nat \<Rightarrow> nat \<Rightarrow> nat \<Rightarrow> memory_pool \<Rightarrow> pmm \<Rightarrow> (mem_status \<times> nat \<times> memory_pool \<times> pmm) outcome" where
  "create_loop i pages a p s =
     (if i \<ge> pages then Returns (Mem_Ok, a, p, s)
      else case Allocate_Frame s of (st, f, s') \<Rightarrow>
        if st \<noteq> Pmm_Ok then
          let p = set_slot a ((pool_slots p a)\<lparr>mo_pages := i\<rparr>) p
          in case Free_Frames (pool_slots p a) s' of
               Returns s'' \<Rightarrow> Returns (No_Memory, 0, Free_Slot a p, s'')
             | Raises \<Rightarrow> Raises
             | Diverges \<Rightarrow> Diverges
        else create_loop (i + 1) pages a
               (set_slot a ((pool_slots p a)\<lparr>mo_frames := (mo_frames (pool_slots p a))[i := f]\<rparr>) p) (Zero_Page f s'))"
  by pat_completeness auto

termination
  by (relation "measure (\<lambda>(i, pages, a, p, s). pages - i)") auto

declare create_loop.simps [simp del]

definition Create :: "nat \<Rightarrow> memory_pool \<Rightarrow> pmm \<Rightarrow> (mem_status \<times> nat \<times> memory_pool \<times> pmm) outcome" where
  "Create pages p s =
     (if pages = 0 \<or> pages > Max_Pages then Returns (No_Memory, 0, p, s)
      else case (if pool_free p = 0 then Grow_Pool p s else (Mem_Ok, p, s)) of (st, p, s) \<Rightarrow>
        if st \<noteq> Mem_Ok then Returns (st, 0, p, s)
        else
          let a = pool_free p; m = pool_slots p a
          in create_loop 0 pages a
               ((set_slot a (m\<lparr>mo_next := 0, mo_count := 0, mo_pages := pages, mo_frames := replicate Max_Pages 0, mo_dma_count := 0\<rparr>) p)
                  \<lparr>pool_free := mo_next m\<rparr>) s)"

text \<open>The finalizer \<open>Discard\<close> and \<open>Release\<close> share.\<close>

definition finalize :: "bool \<Rightarrow> nat \<Rightarrow> memory_pool \<Rightarrow> pmm \<Rightarrow> (memory_pool \<times> pmm) outcome" where
  "finalize available a p s =
     (case Unmap_All_DMA available a p of
        Returns p' \<Rightarrow> (case Free_Frames (pool_slots p' a) s of
            Returns s' \<Rightarrow> Returns (Free_Slot a p', s') | Raises \<Rightarrow> Raises | Diverges \<Rightarrow> Diverges)
      | Raises \<Rightarrow> Raises
      | Diverges \<Rightarrow> Diverges)"

definition Discard :: "bool \<Rightarrow> nat \<Rightarrow> memory_pool \<Rightarrow> pmm \<Rightarrow> (memory_pool \<times> pmm) outcome" where
  "Discard available a p s = (if a = 0 then Returns (p, s) else finalize available a p s)"

definition Refcount_Last :: nat where
  "Refcount_Last = 2 ^ 31 - 1"

definition Retain :: "nat \<Rightarrow> memory_pool \<Rightarrow> memory_pool outcome" where
  "Retain a p =
     (if a = 0 then Returns p
      else if mo_count (pool_slots p a) = Refcount_Last then Raises
      else Returns (set_slot a ((pool_slots p a)\<lparr>mo_count := mo_count (pool_slots p a) + 1\<rparr>) p))"

definition Release :: "bool \<Rightarrow> nat \<Rightarrow> memory_pool \<Rightarrow> pmm \<Rightarrow> (bool \<times> memory_pool \<times> pmm) outcome" where
  "Release available a p s =
     (if a = 0 \<or> mo_count (pool_slots p a) = 0 then Returns (False, p, s)
      else
        let p = set_slot a ((pool_slots p a)\<lparr>mo_count := mo_count (pool_slots p a) - 1\<rparr>) p
        in if mo_count (pool_slots p a) \<noteq> 0 then Returns (False, p, s)
           else case finalize available a p s of
             Returns (p, s) \<Rightarrow> Returns (True, p, s) | Raises \<Rightarrow> Raises | Diverges \<Rightarrow> Diverges)"

definition Page_Count_Of :: "nat \<Rightarrow> memory_pool \<Rightarrow> nat" where
  "Page_Count_Of a p = (if a = 0 then 0 else mo_pages (pool_slots p a))"

definition Frame_At :: "nat \<Rightarrow> nat \<Rightarrow> memory_pool \<Rightarrow> nat" where
  "Frame_At a i p = (if a = 0 \<or> i \<ge> mo_pages (pool_slots p a) then 0 else mo_frames (pool_slots p a) ! i)"

definition Note_DMA_Mapping :: "nat \<Rightarrow> nat \<Rightarrow> memory_pool \<Rightarrow> bool \<times> memory_pool" where
  "Note_DMA_Mapping a dev p =
     (let m = pool_slots p a
      in if a = 0 then (False, p)
         else if \<exists>d < mo_dma_count m. mo_devs m ! d = dev then (True, p)
         else if mo_dma_count m \<ge> Max_DMA_Devices then (False, p)
         else (True, set_slot a (m\<lparr>mo_devs := (mo_devs m)[mo_dma_count m := dev], mo_dma_count := mo_dma_count m + 1\<rparr>) p))"

subsection \<open>Freeing the frames of an object\<close>

lemma pool_simps [simp]:
  "pool_slots (set_slot a m p) = (pool_slots p)(a := m)" "pool_free (set_slot a m p) = pool_free p"
  "pool_free (Free_Slot a p) = a" "pool_unmaps (Free_Slot a p) = pool_unmaps p" "pool_unmaps (set_slot a m p) = pool_unmaps p"
  by (simp_all add: set_slot_def Free_Slot_def)

definition held :: "memory_object \<Rightarrow> nat list" where
  "held m = take (mo_pages m) (mo_frames m)"

definition object_ok :: "memory_object \<Rightarrow> bool" where
  "object_ok m \<longleftrightarrow> 0 < mo_pages m \<and> mo_pages m \<le> Max_Pages \<and> length (mo_frames m) = Max_Pages \<and> distinct (held m)"

lemma free_loop_all:
  assumes "i \<le> n" and "n \<le> Max_Pages" and "0 < n" and "length (mo_frames m) = Max_Pages"
  shows "free_loop i (n - 1) m s =
    (case dealloc_all Deallocate_Frame (drop i (take n (mo_frames m))) s of None \<Rightarrow> Diverges | Some s' \<Rightarrow> Returns s')"
  using assms(1)
proof (induction "n - i" arbitrary: i s)
  case 0
  then show ?case using assms by (subst free_loop.simps) simp
next
  case (Suc k)
  then have i: "i < n" "i < Max_Pages" using assms(2) by simp_all
  have d: "drop i (take n (mo_frames m)) = mo_frames m ! i # drop (i + 1) (take n (mo_frames m))"
    using i assms(2,4) by (simp add: Cons_nth_drop_Suc [symmetric])
  have "free_loop (i + 1) (n - 1) m t =
      (case dealloc_all Deallocate_Frame (drop (i + 1) (take n (mo_frames m))) t of None \<Rightarrow> Diverges | Some s' \<Rightarrow> Returns s')" for t
    using Suc i by (intro Suc.hyps) simp_all
  then show ?case unfolding d using i by (subst free_loop.simps) (auto split: option.splits)
qed

lemma Free_Frames_live:
  assumes "object_ok m" and "pmm_inv s L" and "set (held m) \<subseteq> L"
  shows "\<exists>s'. Free_Frames m s = Returns s' \<and> pmm_inv s' (L - set (held m)) \<and> kept s s' (L - set (held m)) \<and>
    ready_frames s' = ready_frames s \<union> set (held m)"
proof -
  have m: "0 < mo_pages m" "mo_pages m \<le> Max_Pages" "length (mo_frames m) = Max_Pages" "distinct (held m)"
    using assms(1) by (simp_all add: object_ok_def)
  then have "sub64 (mo_pages m) 1 = mo_pages m - 1" by (intro sub64_pred) (simp_all add: Max_Pages_def Phys_Top_def)
  then show ?thesis
    using pm.dealloc_all_live [OF assms(2,3) m(4)] free_loop_all [of 0 "mo_pages m" m s] m(1-3)
    by (auto simp: Free_Frames_def held_def kept_def)
qed

lemma Deallocate_null: "pmm_inv s L \<Longrightarrow> Deallocate_Frame 0 s = Some (Invalid_Range, s)"
  by (auto simp: pmm_inv_def bounds_ok_def Deallocate_Frame_def Valid_Frame_def)

lemma free_loop_nulls:
  assumes "pmm_inv s L" and "mo_frames m = replicate Max_Pages 0" and "i \<le> Max_Pages" and "Max_Pages \<le> to"
  shows "free_loop i to m s = Raises"
  using assms(3)
proof (induction "Max_Pages - i" arbitrary: i)
  case 0
  then show ?case using assms(4) by (subst free_loop.simps) simp
next
  case (Suc k)
  then have "i < Max_Pages" "free_loop (i + 1) to m s = Raises" by simp_all
  then show ?case using assms(2,4) Deallocate_null [OF assms(1)] by (subst free_loop.simps) simp
qed

lemma Free_Frames_none:
  assumes "pmm_inv s L" and "mo_frames m = replicate Max_Pages 0" and "mo_pages m = 0"
  shows "Free_Frames m s = Raises"
proof -
  have "Max_Pages \<le> sub64 0 1" by (simp add: sub64_def wrap64_def Max_Pages_def)
  then show ?thesis using free_loop_nulls [OF assms(1,2)] assms(3) by (simp add: Free_Frames_def)
qed

subsection \<open>Creating an object\<close>

definition zeroed :: "pmm \<Rightarrow> nat \<Rightarrow> bool" where
  "zeroed s f \<longleftrightarrow> (\<forall>k < 512. phys_mem s (f + 8 * k) = 0)"

lemma zeroed_Zero_Page: "zeroed (Zero_Page f s) f"
  by (auto simp: zeroed_def Zero_Page_def fold_poke_zero)

lemma zeroed_kept: "zeroed s f \<Longrightarrow> kept s s' F \<Longrightarrow> f \<in> F \<Longrightarrow> zeroed s' f"
  unfolding zeroed_def kept_def using same_frameD [of "phys_mem s" "phys_mem s'" f] by (simp add: Page_Size_def)

lemma Zero_Page_available:
  assumes "pmm_inv s L" and "f \<in> L"
  shows "ready_frames (Zero_Page f s) = ready_frames s"
proof -
  let ?kvs = "map (\<lambda>i. (8 * i, 0)) [0..<512]"
  have "Zero_Page f s = fold (\<lambda>(k, v). poke (f + k) v) ?kvs s" by (simp add: Zero_Page_def fold_map comp_def)
  moreover have "\<forall>(k, v) \<in> set ?kvs. k < Page_Size" by (auto simp: Page_Size_def)
  ultimately show ?thesis using pm.stores_avail [OF assms] by metis
qed

text \<open>
  What a call of \<open>Create\<close> leaves when \<open>L\<close> are the frames in use: a new object of fresh, distinct, zeroed frames, which are exactly
  the frames that are no longer available, or nothing at all, with exactly the same frames available as before; it raises exactly
  when \<open>first\<close>, that is, when not even the first frame was there.
\<close>

fun created :: "nat set \<Rightarrow> nat \<Rightarrow> bool \<Rightarrow> pmm \<Rightarrow> (mem_status \<times> nat \<times> memory_pool \<times> pmm) outcome \<Rightarrow> bool" where
  "created L pages first s (Returns (Mem_Ok, a, p, s')) \<longleftrightarrow> \<not> first \<and>
     (let m = pool_slots p a
      in object_ok m \<and> mo_pages m = pages \<and> mo_count m = 0 \<and> set (held m) \<inter> L = {} \<and> pmm_inv s' (L \<union> set (held m)) \<and>
         kept s s' L \<and> (\<forall>f \<in> set (held m). zeroed s' f) \<and>
         set (held m) \<subseteq> ready_frames s \<and> ready_frames s' = ready_frames s - set (held m))"
| "created L pages first s (Returns (No_Memory, a, p, s')) \<longleftrightarrow> \<not> first \<and> a = 0 \<and> pmm_inv s' L \<and> kept s s' L \<and>
     ready_frames s' = ready_frames s"
| "created L pages first s Raises \<longleftrightarrow> first"
| "created L pages first s Diverges \<longleftrightarrow> False"

definition growing :: "nat set \<Rightarrow> nat set \<Rightarrow> nat \<Rightarrow> nat list \<Rightarrow> memory_object \<Rightarrow> pmm \<Rightarrow> bool" where
  "growing L A pages fs m s \<longleftrightarrow> mo_pages m = pages \<and> mo_count m = 0 \<and> mo_frames m = fs @ replicate (Max_Pages - length fs) 0 \<and>
     distinct fs \<and> set fs \<inter> L = {} \<and> pmm_inv s (L \<union> set fs) \<and> (\<forall>f \<in> set fs. zeroed s f) \<and>
     set fs \<subseteq> A \<and> ready_frames s = A - set fs"

lemma growing_step:
  assumes "growing L A pages fs m s" and "Allocate_Frame s = (Pmm_Ok, f, s')" and "length fs < Max_Pages"
  shows "growing L A pages (fs @ [f]) (m\<lparr>mo_frames := (mo_frames m)[length fs := f]\<rparr>) (Zero_Page f s')" "kept s (Zero_Page f s') L"
proof -
  have g: "mo_frames m = fs @ replicate (Max_Pages - length fs) 0" "distinct fs" "set fs \<inter> L = {}" "pmm_inv s (L \<union> set fs)"
      "\<forall>g \<in> set fs. zeroed s g" "set fs \<subseteq> A" "ready_frames s = A - set fs" using assms(1) by (simp_all add: growing_def)
  have f: "f \<notin> L \<union> set fs" "pmm_inv s' (insert f (L \<union> set fs))" "kept s s' (L \<union> set fs)"
    using pm.alloc_fresh [OF g(4) assms(2)] by (auto simp: kept_def)
  note z = Zero_Page_live [OF f(2) insertI1]
  have av: "f \<in> ready_frames s" "ready_frames (Zero_Page f s') = ready_frames s - {f}"
    using pm.alloc_avail [OF g(4) assms(2)] Zero_Page_available [OF f(2) insertI1] by simp_all
  have k: "kept s (Zero_Page f s') (L \<union> set fs)"
    using f(3) kept_mono [OF z(2)] f(1) kept_trans by (metis Diff_insert_absorb order_refl)
  then show "kept s (Zero_Page f s') L" by (rule kept_mono) simp
  have "replicate (Max_Pages - length fs) 0 = 0 # replicate (Max_Pages - Suc (length fs)) (0 :: nat)"
    using assms(3) by (metis Suc_diff_Suc replicate_Suc)
  then have "(mo_frames m)[length fs := f] = (fs @ [f]) @ replicate (Max_Pages - length (fs @ [f])) 0"
    unfolding g(1) by (simp add: list_update_append)
  moreover have "\<forall>g \<in> set (fs @ [f]). zeroed (Zero_Page f s') g"
    using g(5) zeroed_kept [OF _ k] zeroed_Zero_Page by auto
  moreover have "L \<union> set (fs @ [f]) = insert f (L \<union> set fs)" by auto
  moreover have "set (fs @ [f]) \<subseteq> A" "ready_frames (Zero_Page f s') = A - set (fs @ [f])" using g(6,7) av by auto
  ultimately show "growing L A pages (fs @ [f]) (m\<lparr>mo_frames := (mo_frames m)[length fs := f]\<rparr>) (Zero_Page f s')"
    using assms(1) f(1) z(1) unfolding growing_def by auto
qed

lemma growing_rollback:
  assumes "growing L A pages fs m s" and "length fs \<le> Max_Pages" and "pmm_inv s' (L \<union> set fs)" and "ready_frames s' = ready_frames s"
  shows "if fs = [] then Free_Frames (m\<lparr>mo_pages := length fs\<rparr>) s' = Raises
    else \<exists>t. Free_Frames (m\<lparr>mo_pages := length fs\<rparr>) s' = Returns t \<and> pmm_inv t L \<and> kept s' t L \<and> ready_frames t = A"
proof (cases "fs = []")
  case True
  then show ?thesis using assms Free_Frames_none [OF assms(3)] by (simp add: growing_def)
next
  case False
  have h: "held (m\<lparr>mo_pages := length fs\<rparr>) = fs" using assms(1) by (simp add: held_def growing_def)
  have o: "object_ok (m\<lparr>mo_pages := length fs\<rparr>)" using assms(1,2) False h by (auto simp: object_ok_def growing_def)
  have "L \<union> set fs - set fs = L" "ready_frames s' \<union> set fs = A" using assms(1,4) by (auto simp: growing_def)
  then show ?thesis using Free_Frames_live [OF o assms(3)] h False by simp
qed

lemma create_loop_created:
  assumes "growing L (ready_frames s0) pages fs (pool_slots p a) s" and "kept s0 s L" and "length fs \<le> pages" and "0 < pages" and "pages \<le> Max_Pages"
  shows "created L pages (fs = [] \<and> fst (Allocate_Frame s) \<noteq> Pmm_Ok) s0 (create_loop (length fs) pages a p s)"
  using assms(1-3)
proof (induction "pages - length fs" arbitrary: fs p s)
  case 0
  then have len: "length fs = pages" by simp
  then have "held (pool_slots p a) = fs" using 0(2) by (simp add: held_def growing_def)
  then show ?case using 0(2,3) len assms(4,5) by (subst create_loop.simps) (auto simp: growing_def object_ok_def Let_def)
next
  case (Suc k)
  have len: "length fs < pages" "length fs < Max_Pages" using Suc.hyps(2) assms(5) by simp_all
  obtain st f t where a: "Allocate_Frame s = (st, f, t)" by (metis prod.exhaust)
  show ?case
  proof (cases "st = Pmm_Ok")
    case True
    let ?p = "set_slot a ((pool_slots p a)\<lparr>mo_frames := (mo_frames (pool_slots p a))[length fs := f]\<rparr>) p"
    note g = growing_step [OF Suc.prems(1) a [unfolded True] len(2)]
    have "created L pages (fs @ [f] = [] \<and> fst (Allocate_Frame (Zero_Page f t)) \<noteq> Pmm_Ok) s0
        (create_loop (length (fs @ [f])) pages a ?p (Zero_Page f t))"
      using g Suc.hyps(2) Suc.prems(2) len kept_trans by (intro Suc.hyps(1)) auto
    then show ?thesis using len a True by (subst create_loop.simps) simp
  next
    case False
    have inv: "pmm_inv s (L \<union> set fs)" using Suc.prems(1) by (simp add: growing_def)
    have t: "pmm_inv t (L \<union> set fs)" "kept s t L" "ready_frames t = ready_frames s"
      using pm.alloc_none [OF inv a False] pm.none_avail [OF inv a False] by (auto simp: kept_def)
    show ?thesis using growing_rollback [OF Suc.prems(1) _ t(1,3)] len a False kept_trans [OF kept_trans [OF Suc.prems(2) t(2)]]
      by (subst create_loop.simps) (auto split: if_splits)
  qed
qed

lemma Create_created:
  assumes "pmm_inv s L" and "0 < pages" and "pages \<le> Max_Pages" and "pool_free p \<noteq> 0"
  shows "created L pages (fst (Allocate_Frame s) \<noteq> Pmm_Ok) s (Create pages p s)"
proof -
  let ?a = "pool_free p"
  let ?m = "(pool_slots p ?a)\<lparr>mo_next := 0, mo_count := 0, mo_pages := pages, mo_frames := replicate Max_Pages 0, mo_dma_count := 0\<rparr>"
  let ?p = "(set_slot ?a ?m p)\<lparr>pool_free := mo_next (pool_slots p ?a)\<rparr>"
  have "growing L (ready_frames s) pages [] (pool_slots ?p ?a) s" using assms(1) by (simp add: growing_def)
  from create_loop_created [OF this kept_refl _ assms(2,3)]
  show ?thesis using assms(2-4) by (simp add: Create_def Let_def)
qed

lemma Create_grows:
  assumes "0 < pages" and "pages \<le> Max_Pages" and "pool_free p = 0" and "Grow_Pool p s = (Mem_Ok, p', s')" and "pool_free p' \<noteq> 0"
  shows "Create pages p s = Create pages p' s'"
  using assms by (simp add: Create_def)

lemma Grow_Pool_ok:
  assumes "Allocate_Frame s = (Pmm_Ok, f, s')" and "f < 2 ^ 38"
  shows "\<exists>p'. Grow_Pool p s = (Mem_Ok, p', s') \<and> pool_free p' = Phys_To_Virt f \<and> Phys_To_Virt f \<noteq> 0"
proof -
  have one: "[0..<Slots_Per_Frame] = [0]" by (simp add: Slots_Per_Frame_def Slot_Bytes_def Page_Size_def)
  have "Phys_To_Virt f \<noteq> 0" using assms(2) by (simp add: Phys_To_Virt_def Physmap_Base_def wrap64_def)
  then show ?thesis using assms(1) unfolding Grow_Pool_def one by simp
qed

subsection \<open>Properties\<close>

text \<open>
  Property C12: what \<open>Create\<close> does, in every run and whether or not the slab has to grow first. A request of 1 to 256 pages either
  gives an object of that many fresh, distinct, zeroed frames with no reference yet, and then the frames the allocator can hand out
  are exactly those it could before less the frames of the object; or the frames run out, it reports \<open>No_Memory\<close> and exactly the same
  frames are available as before. A slab that has to grow takes one more frame, or fails without any loss. The contents of the frames
  in use do not change. One case is different: when not even the first frame is there, the rollback counts from 0 to the modular
  number \<open>0 - 1\<close>, leaves the array of frames and raises. The memory ends below 2 to the 38, so that the physmap reaches it.
\<close>

theorem create_outcomes:
  assumes "pmm_run s L" and "0 < pages" and "pages \<le> Max_Pages" and "Limit s \<le> 2 ^ 38"
  shows "if pool_free p \<noteq> 0 then created L pages (fst (Allocate_Frame s) \<noteq> Pmm_Ok) s (Create pages p s)
    else case Allocate_Frame s of (st, f, s') \<Rightarrow>
      if st = Pmm_Ok then f \<in> ready_frames s \<and> ready_frames s' = ready_frames s - {f} \<and>
        created (insert f L) pages (fst (Allocate_Frame s') \<noteq> Pmm_Ok) s' (Create pages p s)
      else Create pages p s = Returns (No_Memory, 0, p, s') \<and> ready_frames s' = ready_frames s"
proof (cases "pool_free p = 0")
  case True
  note inv = pmm_run_inv [OF assms(1)]
  obtain st f s' where a: "Allocate_Frame s = (st, f, s')" by (metis prod.exhaust)
  show ?thesis
  proof (cases "st = Pmm_Ok")
    case ok: True
    have inv': "pmm_inv s' (insert f L)" using pm.alloc_fresh [OF inv] a ok by blast
    have "Limit s' = Limit s" using a by (auto simp: Allocate_Frame_def Let_def poke_def split: if_splits)
    then have "f < 2 ^ 38" using pmm_inv_live(4) [OF inv', of f] assms(4) by (simp add: frame_ok_def Page_Size_def)
    then obtain p' where p': "Grow_Pool p s = (Mem_Ok, p', s')" "pool_free p' \<noteq> 0"
      using Grow_Pool_ok [OF a [unfolded ok]] by metis
    then show ?thesis using Create_created [OF inv' assms(2,3) p'(2)] Create_grows [OF assms(2,3) True p']
        pm.alloc_avail [OF inv a [unfolded ok]] True a ok by simp
  next
    case False
    then show ?thesis using True a assms(2,3) pm.none_avail [OF inv a] by (simp add: Create_def Grow_Pool_def)
  qed
qed (use Create_created [OF pmm_run_inv [OF assms(1)] assms(2,3)] in simp)

definition pool_demo :: memory_pool where
  "pool_demo = \<lparr>pool_free = 0x9000, pool_slots = (\<lambda>_. \<lparr>mo_count = 0, mo_pages = 0, mo_frames = [], mo_devs = replicate 8 0,
     mo_dma_count = 0, mo_next = 0\<rparr>), pool_unmaps = []\<rparr>"

definition pmm_full :: pmm where
  "pmm_full = pmm_demo\<lparr>Next_Frame := 0x6000\<rparr>"

lemma pmm_full_run: "pmm_run pmm_full (run 0x1000 5)"
proof -
  have "Allocate_Contiguous 5 pmm_demo = (Pmm_Ok, 0x1000, pmm_full)"
    by (simp add: Allocate_Contiguous_def pmm_full_def pmm_demo_eq pmm_off_def Let_def Skip_Reserved_stop wrap64_def Page_Size_def)
  from pmm_run.frames [OF pmm_demo_run _ this] show ?thesis by (simp add: Page_Size_def Phys_Top_def)
qed

theorem create_outcomes_witness: "Create 1 pool_demo pmm_full = Raises"
proof -
  have "created (run 0x1000 5) 1 (fst (Allocate_Frame pmm_full) \<noteq> Pmm_Ok) pmm_full (Create 1 pool_demo pmm_full)"
    using create_outcomes [OF pmm_full_run, of 1 pool_demo] by (simp add: Max_Pages_def pool_demo_def pmm_full_def pmm_demo_eq)
  moreover have "fst (Allocate_Frame pmm_full) \<noteq> Pmm_Ok"
    by (simp add: Allocate_Frame_def pmm_full_def pmm_demo_eq pmm_off_def Let_def Skip_Reserved_stop wrap64_def Page_Size_def)
  ultimately show ?thesis
    by (cases "Create 1 pool_demo pmm_full" rule: outcome.exhaust) (auto elim: created.elims)
qed

text \<open>
  Property C13: the frames of an object go back to the allocator when, and only when, its last reference is released: then the
  available frames are exactly those there were and the frames of the object, none of which was available before, every frame is
  unmapped from every device recorded (when there is an IOMMU), the slot is the next one to be used and the contents of no other
  frame in use change. An earlier release only lowers the count, and one that finds no reference changes nothing.
\<close>

theorem release_returns_frames:
  assumes "pmm_run s L" and "a \<noteq> 0" and "m = pool_slots p a" and "object_ok m" and "set (held m) \<subseteq> L"
  shows "if mo_count m = 0 then Release avail a p s = Returns (False, p, s)
    else if mo_count m \<noteq> 1 then \<exists>p'. Release avail a p s = Returns (False, p', s) \<and> pool_slots p' a = m\<lparr>mo_count := mo_count m - 1\<rparr>
    else \<exists>p' s'. Release avail a p s = Returns (True, p', s') \<and> pmm_inv s' (L - set (held m)) \<and> kept s s' (L - set (held m)) \<and>
      set (held m) \<inter> ready_frames s = {} \<and> ready_frames s' = ready_frames s \<union> set (held m) \<and> pool_free p' = a \<and>
      pool_unmaps p' = pool_unmaps p @ (if avail then
        concat (map (\<lambda>d. map (\<lambda>i. (mo_devs m ! d, held m ! i)) [0..<mo_pages m]) [0..<mo_dma_count m]) else [])"
proof (cases "mo_count m = 1")
  case True
  let ?m = "m\<lparr>mo_count := 0, mo_dma_count := 0\<rparr>"
  have m: "0 < mo_pages m" "mo_pages m \<le> Max_Pages" using assms(4) by (simp_all add: object_ok_def)
  then have small: "sub64 (mo_pages m) 1 < Max_Pages" using sub64_pred [of "mo_pages m"] by (simp add: Max_Pages_def Phys_Top_def)
  have h: "held ?m = held m" "object_ok ?m" using assms(4) by (simp_all add: held_def object_ok_def)
  obtain s' where s': "Free_Frames ?m s = Returns s'" "pmm_inv s' (L - set (held m))" "kept s s' (L - set (held m))"
      "ready_frames s' = ready_frames s \<union> set (held m)"
    using Free_Frames_live [OF h(2) pmm_run_inv [OF assms(1)]] assms(5) h(1) by auto
  have out: "set (held m) \<inter> ready_frames s = {}" using available_not_held [OF pmm_run_inv [OF assms(1)]] assms(5) by auto
  have "held m ! i = mo_frames m ! i" if "i < mo_pages m" for i using that by (simp add: held_def)
  then have un: "map (\<lambda>i. (d, held m ! i)) [0..<mo_pages m] = map (\<lambda>i. (d, mo_frames m ! i)) [0..<mo_pages m]" for d by simp
  show ?thesis using assms(2,3) True s' small out
    by (auto simp: Release_def finalize_def Unmap_All_DMA_def Let_def un [unfolded assms(3)])
qed (use assms in \<open>auto simp: Release_def Let_def\<close>)

definition object_demo :: memory_object where
  "object_demo = \<lparr>mo_count = 1, mo_pages = 1, mo_frames = 0x1000 # replicate 255 0, mo_devs = replicate 8 3, mo_dma_count = 1, mo_next = 0\<rparr>"

theorem release_returns_frames_witness:
  "\<exists>p s'. Release True 0x9000 (set_slot 0x9000 object_demo pool_demo) (pmm_demo\<lparr>Next_Frame := 0x2000\<rparr>) = Returns (True, p, s') \<and>
     ready_frames s' = insert 0x1000 (ready_frames (pmm_demo\<lparr>Next_Frame := 0x2000\<rparr>)) \<and> pool_unmaps p = [(3, 0x1000)]"
proof -
  have o: "object_ok object_demo" "held object_demo = [0x1000]"
    by (simp_all add: object_ok_def object_demo_def held_def Max_Pages_def)
  show ?thesis
    using release_returns_frames [OF pmm_demo_first _ _ o(1), where a = "0x9000" and p = "set_slot 0x9000 object_demo pool_demo" and avail = True] o(2)
    by (simp add: object_demo_def pool_demo_def) blast
qed

end
