(* ===== verification/Kernel_Endpoint.thy ===== *)
theory Kernel_Endpoint
  imports Kernel_Ntfn Kernel_Memory
begin

text \<open>
  The queues of an endpoint, \<open>src/src/kernel/kernel-ipc.adb\<close>: callers that wait for a receiver, linked through their thread
  control blocks, and copies of messages sent without waiting, in slots of a slab. Modelled are the operations on both queues, the
  failing of an endpoint and the removal of a thread, with what they write of threads. Threads, slots and endpoints are
  addresses, and 0 is null. The loops that follow links are partial functions, where \<open>None\<close> is a walk around a cycle that never
  ends; the walk that looks for a lost tail is bounded by the code itself.

  The boost of a woken thread and the queue of sleepers are left out, as in \<open>Kernel_Ntfn\<close>. Delivering a message with its
  capabilities into the buffer of a receiver is not part of this theory. Here stand the definitions and the caller queues;
  \<open>Kernel_Messages\<close> has the copies, the failing of endpoints, and the properties.
\<close>

subsection \<open>State\<close>

record ep_thread =
  et_state :: thread_state
  et_saved :: u64
  et_awaiting :: bool
  et_next :: nat
  et_on :: nat
  et_recv :: nat

record queued_send =
  qs_label :: u64
  qs_words :: "u64 list"
  qs_badge :: u64
  qs_next :: nat
  qs_in_use :: bool
  qs_next_free :: nat

record endpoint =
  ep_head :: nat
  ep_tail :: nat
  ep_receiver :: nat
  ep_send_head :: nat
  ep_send_tail :: nat
  ep_failed :: bool

record ipc =
  ip_threads :: "nat \<Rightarrow> ep_thread"
  ip_sends :: "nat \<Rightarrow> queued_send"
  ip_endpoints :: "nat \<Rightarrow> endpoint"
  ip_send_free :: nat
  ip_pushed :: "nat list"

definition set_thread :: "nat \<Rightarrow> ep_thread \<Rightarrow> ipc \<Rightarrow> ipc" where
  "set_thread t r k = k\<lparr>ip_threads := (ip_threads k)(t := r)\<rparr>"

definition set_send :: "nat \<Rightarrow> queued_send \<Rightarrow> ipc \<Rightarrow> ipc" where
  "set_send x q k = k\<lparr>ip_sends := (ip_sends k)(x := q)\<rparr>"

definition set_endpoint :: "nat \<Rightarrow> endpoint \<Rightarrow> ipc \<Rightarrow> ipc" where
  "set_endpoint a e k = k\<lparr>ip_endpoints := (ip_endpoints k)(a := e)\<rparr>"

definition Max_Queue_Walk :: nat where
  "Max_Queue_Walk = 512"

definition Result_Endpoint_Gone :: u64 where
  "Result_Endpoint_Gone = 3"

subsection \<open>Threads\<close>

definition Is_Dead :: "nat \<Rightarrow> ipc \<Rightarrow> bool" where
  "Is_Dead t k \<longleftrightarrow> t = 0 \<or> et_state (ip_threads k t) = Dead"

text \<open>\<open>Kernel.Scheduler.Wake\<close> on the threads of this model.\<close>

definition Wake_Blocked :: "nat \<Rightarrow> ipc \<Rightarrow> ipc" where
  "Wake_Blocked t k =
     (if et_state (ip_threads k t) \<in> {Dead, Running, Ready} then k
      else (set_thread t ((ip_threads k t)\<lparr>et_state := Ready\<rparr>) k)\<lparr>ip_pushed := ip_pushed k @ [t]\<rparr>)"

definition Wake_With_Result :: "nat \<Rightarrow> u64 \<Rightarrow> ipc \<Rightarrow> ipc" where
  "Wake_With_Result t v k =
     (if Is_Dead t k then k
      else if et_state (ip_threads k t) \<notin>
          {Blocked_Send, Blocked_Receive, Blocked_IRQ, Blocked_Notification, Blocked_Sleeping, Blocked_Thread_Wait} then k
      else Wake_Blocked t (set_thread t ((ip_threads k t)\<lparr>et_saved := v, et_awaiting := False\<rparr>) k))"

subsection \<open>The caller queue\<close>

primrec tail_walk :: "nat \<Rightarrow> nat \<Rightarrow> nat \<Rightarrow> ipc \<Rightarrow> nat" where
  "tail_walk 0 a scan k = 0"
| "tail_walk (Suc n) a scan k =
     (if scan = 0 \<or> et_on (ip_threads k scan) \<noteq> a then 0
      else if et_next (ip_threads k scan) = 0 then scan
      else tail_walk n a (et_next (ip_threads k scan)) k)"

definition tail_suspicious :: "nat \<Rightarrow> ipc \<Rightarrow> bool" where
  "tail_suspicious a k \<longleftrightarrow>
     (let tail = ep_tail (ip_endpoints k a)
      in (tail = 0 \<and> ep_head (ip_endpoints k a) \<noteq> 0) \<or>
         (tail \<noteq> 0 \<and> (et_on (ip_threads k tail) \<noteq> a \<or> et_next (ip_threads k tail) \<noteq> 0)))"

definition Enqueue_Caller :: "nat \<Rightarrow> nat \<Rightarrow> ipc \<Rightarrow> ipc" where
  "Enqueue_Caller a t k =
     (let k = set_thread t ((ip_threads k t)\<lparr>et_next := 0, et_on := a\<rparr>) k;
          bad = tail_suspicious a k; e = ip_endpoints k a;
          tail = (if bad then tail_walk Max_Queue_Walk a (ep_head e) k else ep_tail e);
          k = (if bad \<and> tail = 0 then set_endpoint a (e\<lparr>ep_head := 0\<rparr>) k else k);
          k = (if tail = 0 then set_endpoint a ((ip_endpoints k a)\<lparr>ep_head := t\<rparr>) k
               else set_thread tail ((ip_threads k tail)\<lparr>et_next := t\<rparr>) k)
      in set_endpoint a ((ip_endpoints k a)\<lparr>ep_tail := t\<rparr>) k)"

text \<open>One turn of the loop of \<open>Dequeue_Caller\<close>: the head, which is not null, leaves the queue.\<close>

definition pop_head :: "nat \<Rightarrow> ipc \<Rightarrow> ipc" where
  "pop_head a k =
     (let t = ep_head (ip_endpoints k a);
          k = set_endpoint a ((ip_endpoints k a)\<lparr>ep_head := et_next (ip_threads k t)\<rparr>) k;
          k = (if ep_head (ip_endpoints k a) = 0 then set_endpoint a ((ip_endpoints k a)\<lparr>ep_tail := 0\<rparr>) k else k)
      in set_thread t ((ip_threads k t)\<lparr>et_next := 0, et_on := 0\<rparr>) k)"

partial_function (option) Dequeue_Caller :: "nat \<Rightarrow> ipc \<Rightarrow> (nat \<times> ipc) option" where
  "Dequeue_Caller a k =
     (let t = ep_head (ip_endpoints k a)
      in if t = 0 then Some (0, k)
         else let k = pop_head a k in if \<not> Is_Dead t k then Some (t, k) else Dequeue_Caller a k)"

partial_function (option) unlink_loop :: "nat \<Rightarrow> nat \<Rightarrow> nat \<Rightarrow> nat \<Rightarrow> ipc \<Rightarrow> ipc option" where
  "unlink_loop a t previous scan k =
     (if scan = 0 then Some k
      else if scan = t then
        let next = et_next (ip_threads k t);
            k = (if previous = 0 then set_endpoint a ((ip_endpoints k a)\<lparr>ep_head := next\<rparr>) k
                 else set_thread previous ((ip_threads k previous)\<lparr>et_next := next\<rparr>) k);
            k = (if ep_tail (ip_endpoints k a) = t then set_endpoint a ((ip_endpoints k a)\<lparr>ep_tail := previous\<rparr>) k else k)
        in Some (set_thread t ((ip_threads k t)\<lparr>et_next := 0, et_on := 0\<rparr>) k)
      else unlink_loop a t scan (et_next (ip_threads k scan)) k)"

definition Ep_Cleanup_Thread_Cap :: "nat \<Rightarrow> nat \<Rightarrow> ipc \<Rightarrow> ipc option" where
  "Ep_Cleanup_Thread_Cap t a k =
     (if t = 0 \<or> a = 0 then Some k
      else
        let k = (if ep_receiver (ip_endpoints k a) = t then set_endpoint a ((ip_endpoints k a)\<lparr>ep_receiver := 0\<rparr>) k else k);
            k = set_thread t ((ip_threads k t)\<lparr>et_recv := 0\<rparr>) k
        in unlink_loop a t 0 (ep_head (ip_endpoints k a)) k)"

subsection \<open>Queued sends\<close>

definition Free_Queued_Send :: "nat \<Rightarrow> ipc \<Rightarrow> ipc" where
  "Free_Queued_Send x k =
     (set_send x ((ip_sends k x)\<lparr>qs_in_use := False, qs_next := 0, qs_next_free := ip_send_free k\<rparr>) k)\<lparr>ip_send_free := x\<rparr>"

text \<open>The record takes 88 bytes (label, six words, badge, link, flag padded to 8, free link), rounded up to 96.\<close>

definition Send_Slot_Bytes :: nat where
  "Send_Slot_Bytes = 96"

definition Grow_Send_Pool :: "ipc \<Rightarrow> pmm \<Rightarrow> ipc \<times> pmm" where
  "Grow_Send_Pool k s =
     (case Allocate_Frame s of (st, f, s') \<Rightarrow>
        if st \<noteq> Pmm_Ok then (k, s')
        else (fold (\<lambda>i. Free_Queued_Send (Phys_To_Virt f + i * Send_Slot_Bytes)) [0..<Page_Size div Send_Slot_Bytes] k, s'))"

definition Alloc_Queued_Send :: "ipc \<Rightarrow> pmm \<Rightarrow> nat \<times> ipc \<times> pmm" where
  "Alloc_Queued_Send k s =
     (case (if ip_send_free k = 0 then Grow_Send_Pool k s else (k, s)) of (k, s) \<Rightarrow>
        let x = ip_send_free k
        in if x = 0 then (0, k, s)
           else (x, (set_send x ((ip_sends k x)\<lparr>qs_next_free := 0, qs_in_use := True, qs_next := 0\<rparr>) k)
                      \<lparr>ip_send_free := qs_next_free (ip_sends k x)\<rparr>, s))"

definition Queue_Send_Copy :: "buffer_message \<Rightarrow> u64 \<Rightarrow> ipc \<Rightarrow> pmm \<Rightarrow> nat \<times> ipc \<times> pmm" where
  "Queue_Send_Copy buf badge k s =
     (case Alloc_Queued_Send k s of (x, k, s) \<Rightarrow>
        if x = 0 then (0, k, s)
        else (x, set_send x ((ip_sends k x)\<lparr>qs_label := bm_label buf, qs_words := bm_words buf, qs_badge := badge\<rparr>) k, s))"

text \<open>
  The part of \<open>Send\<close> for an endpoint nobody receives at: the message is queued as a copy, or, when it carries capabilities or
  there is no slot, the result is False and the sender goes on to the caller queue.
\<close>

definition Send_Queued :: "nat \<Rightarrow> buffer_message \<Rightarrow> u64 \<Rightarrow> ipc \<Rightarrow> pmm \<Rightarrow> bool \<times> ipc \<times> pmm" where
  "Send_Queued a buf badge k s =
     (if \<exists>c \<in> set (bm_caps buf). c \<noteq> 0 then (False, k, s)
      else case Queue_Send_Copy buf badge k s of (x, k, s) \<Rightarrow>
        if x = 0 then (False, k, s)
        else
          let e = ip_endpoints k a;
              k = (if ep_send_tail e = 0 then set_endpoint a (e\<lparr>ep_send_head := x\<rparr>) k
                   else set_send (ep_send_tail e) ((ip_sends k (ep_send_tail e))\<lparr>qs_next := x\<rparr>) k)
          in (True, set_endpoint a ((ip_endpoints k a)\<lparr>ep_send_tail := x\<rparr>) k, s))"

text \<open>The part of \<open>Receive\<close> that drains a copy into the buffer of the receiver; \<open>None\<close> when there is none.\<close>

definition Receive_Queued :: "nat \<Rightarrow> buffer_message \<Rightarrow> ipc \<Rightarrow> (buffer_message \<times> ipc) option" where
  "Receive_Queued a buf k =
     (let e = ip_endpoints k a; x = ep_send_head e; q = ip_sends k x
      in if x = 0 then None
         else
           let e = e\<lparr>ep_send_head := qs_next q\<rparr>;
               e = (if ep_send_head e = 0 then e\<lparr>ep_send_tail := 0\<rparr> else e)
           in Some (buf\<lparr>bm_label := qs_label q, bm_words := qs_words q, bm_badge := qs_badge q, bm_caps := replicate 4 0\<rparr>,
                Free_Queued_Send x (set_endpoint a e k)))"

subsection \<open>Failing an endpoint\<close>

partial_function (option) fail_callers :: "nat \<Rightarrow> ipc \<Rightarrow> ipc option" where
  "fail_callers a k =
     (let t = ep_head (ip_endpoints k a)
      in if t = 0 then Some k
         else
           let k = set_endpoint a ((ip_endpoints k a)\<lparr>ep_head := et_next (ip_threads k t)\<rparr>) k;
               k = set_thread t ((ip_threads k t)\<lparr>et_next := 0, et_on := 0\<rparr>) k
           in fail_callers a (Wake_With_Result t Result_Endpoint_Gone k))"

partial_function (option) fail_sends :: "nat \<Rightarrow> ipc \<Rightarrow> ipc option" where
  "fail_sends x k = (if x = 0 then Some k else let next = qs_next (ip_sends k x) in fail_sends next (Free_Queued_Send x k))"

definition Fail_Endpoint :: "nat \<Rightarrow> ipc \<Rightarrow> ipc option" where
  "Fail_Endpoint a k =
     (if a = 0 \<or> ep_failed (ip_endpoints k a) then Some k
      else case fail_callers a (set_endpoint a ((ip_endpoints k a)\<lparr>ep_failed := True\<rparr>) k) of
        None \<Rightarrow> None
      | Some k \<Rightarrow>
          let k = set_endpoint a ((ip_endpoints k a)\<lparr>ep_tail := 0\<rparr>) k
          in case fail_sends (ep_send_head (ip_endpoints k a)) k of
            None \<Rightarrow> None
          | Some k \<Rightarrow>
              let k = set_endpoint a ((ip_endpoints k a)\<lparr>ep_send_head := 0, ep_send_tail := 0\<rparr>) k;
                  k = Wake_With_Result (ep_receiver (ip_endpoints k a)) Result_Endpoint_Gone k
              in Some (set_endpoint a ((ip_endpoints k a)\<lparr>ep_receiver := 0\<rparr>) k))"

subsection \<open>Links\<close>

lemma links_null [simp]: "links m 0 xs \<longleftrightarrow> xs = []"
  by (cases xs) auto

lemma links_head: "links m h xs \<Longrightarrow> h \<noteq> 0 \<Longrightarrow> xs = h # tl xs \<and> links m (m h) (tl xs)"
  by (cases xs) auto

lemma links_zero: "links m h xs \<Longrightarrow> 0 \<notin> set xs"
  by (induction xs arbitrary: h) auto

lemma links_last: "links m h xs \<Longrightarrow> xs \<noteq> [] \<Longrightarrow> m (last xs) = 0"
  by (induction xs arbitrary: h) (auto split: if_splits)

lemma links_end: "links m h xs \<Longrightarrow> x \<in> set xs \<Longrightarrow> m x = 0 \<Longrightarrow> x = last xs"
proof (induction xs arbitrary: h)
  case (Cons y xs)
  then show ?case by (cases "x = y") (auto split: if_splits)
qed simp

lemma links_snoc:
  assumes "links m h xs" and "distinct xs" and "xs \<noteq> []" and "y \<notin> set xs" and "y \<noteq> 0" and "m y = 0"
  shows "links (m(last xs := y)) h (xs @ [y])"
  using assms
proof (induction xs arbitrary: h)
  case (Cons x xs)
  show ?case
  proof (cases "xs = []")
    case False
    then have "links (m(last xs := y)) (m x) (xs @ [y])" using Cons.prems by (intro Cons.IH) auto
    moreover have "x \<noteq> last xs" using False Cons.prems(2) by auto
    ultimately show ?thesis using False Cons.prems(1) by (simp add: fun_upd_def)
  qed (use Cons.prems in auto)
qed simp

lemma links_delete:
  assumes "links m h (ps @ t # qs)" and "distinct (ps @ t # qs)" and "ps \<noteq> []"
  shows "links (m(last ps := m t)) h (ps @ qs)"
  using assms
proof (induction ps arbitrary: h)
  case (Cons x ps)
  show ?case
  proof (cases "ps = []")
    case False
    then have "links (m(last ps := m t)) (m x) (ps @ qs)" using Cons.prems by (intro Cons.IH) auto
    moreover have "x \<noteq> last ps" using False Cons.prems(2) by auto
    ultimately show ?thesis using False Cons.prems(1) by (simp add: fun_upd_def)
  qed (use Cons.prems in auto)
qed simp

subsection \<open>The caller queues are lists\<close>

text \<open>
  \<open>queue_ok k Q\<close>: the links of every endpoint spell the list \<open>Q\<close> gives for it, and a thread says it is queued at an endpoint
  exactly when it is in that list. \<open>tail_ok\<close>: the stored tail is the last of the list.
\<close>

definition queue_ok :: "ipc \<Rightarrow> (nat \<Rightarrow> nat list) \<Rightarrow> bool" where
  "queue_ok k Q \<longleftrightarrow>
     (\<forall>a. a \<noteq> 0 \<longrightarrow> links (\<lambda>t. et_next (ip_threads k t)) (ep_head (ip_endpoints k a)) (Q a) \<and> distinct (Q a) \<and>
        (\<forall>t \<in> set (Q a). et_on (ip_threads k t) = a)) \<and>
     (\<forall>t. et_on (ip_threads k t) \<noteq> 0 \<longrightarrow> t \<in> set (Q (et_on (ip_threads k t))))"

definition tail_ok :: "ipc \<Rightarrow> nat list \<Rightarrow> nat \<Rightarrow> bool" where
  "tail_ok k xs a \<longleftrightarrow> ep_tail (ip_endpoints k a) = (if xs = [] then 0 else last xs)"

lemma set_simps [simp]:
  "ip_threads (set_thread t r k) = (ip_threads k)(t := r)" "ip_endpoints (set_thread t r k) = ip_endpoints k"
  "ip_sends (set_thread t r k) = ip_sends k" "ip_send_free (set_thread t r k) = ip_send_free k"
  "ip_threads (set_endpoint a e k) = ip_threads k" "ip_endpoints (set_endpoint a e k) = (ip_endpoints k)(a := e)"
  "ip_sends (set_endpoint a e k) = ip_sends k" "ip_send_free (set_endpoint a e k) = ip_send_free k"
  "ip_threads (set_send x q k) = ip_threads k" "ip_endpoints (set_send x q k) = ip_endpoints k"
  "ip_sends (set_send x q k) = (ip_sends k)(x := q)" "ip_send_free (set_send x q k) = ip_send_free k"
  by (simp_all add: set_thread_def set_endpoint_def set_send_def)

lemma queue_okD:
  assumes "queue_ok k Q" and "a \<noteq> 0"
  shows "links (\<lambda>t. et_next (ip_threads k t)) (ep_head (ip_endpoints k a)) (Q a)" and "distinct (Q a)"
    and "t \<in> set (Q a) \<longleftrightarrow> et_on (ip_threads k t) = a" and "0 \<notin> set (Q a)" and "ep_head (ip_endpoints k a) = 0 \<longleftrightarrow> Q a = []"
proof -
  show l: "links (\<lambda>t. et_next (ip_threads k t)) (ep_head (ip_endpoints k a)) (Q a)" "distinct (Q a)"
    using assms by (simp_all add: queue_ok_def)
  show "t \<in> set (Q a) \<longleftrightarrow> et_on (ip_threads k t) = a" using assms unfolding queue_ok_def by metis
  show "0 \<notin> set (Q a)" using links_zero [OF l(1)] .
  show "ep_head (ip_endpoints k a) = 0 \<longleftrightarrow> Q a = []" using l(1) by (cases "Q a") auto
qed

lemma queue_ok_disjoint:
  assumes "queue_ok k Q" and "a \<noteq> 0" and "b \<noteq> 0" and "a \<noteq> b" and "t \<in> set (Q a)"
  shows "t \<notin> set (Q b)"
  using queue_okD(3) [OF assms(1,2)] queue_okD(3) [OF assms(1,3)] assms(4,5) by auto

text \<open>
  A step that changes one endpoint: the other lists are left alone when their threads keep their links, and threads move only in
  and out of the list of this endpoint.
\<close>

lemma queue_ok_step:
  assumes "queue_ok k Q" and "a \<noteq> 0"
    and "links (\<lambda>t. et_next (ip_threads k' t)) (ep_head (ip_endpoints k' a)) xs" and "distinct xs"
    and "\<And>b. b \<noteq> a \<Longrightarrow> ep_head (ip_endpoints k' b) = ep_head (ip_endpoints k b)"
    and "\<And>t. et_on (ip_threads k t) \<notin> {0, a} \<Longrightarrow> et_next (ip_threads k' t) = et_next (ip_threads k t) \<and> et_on (ip_threads k' t) = et_on (ip_threads k t)"
    and "\<And>t. et_on (ip_threads k t) \<in> {0, a} \<Longrightarrow> et_on (ip_threads k' t) = (if t \<in> set xs then a else 0)"
    and "set xs \<subseteq> {t. et_on (ip_threads k t) \<in> {0, a}}"
  shows "queue_ok k' (Q(a := xs))"
proof -
  let ?n = "\<lambda>t. et_next (ip_threads k t)" and ?m = "\<lambda>t. et_next (ip_threads k' t)"
  have here: "et_on (ip_threads k' t) = a" if "t \<in> set xs" for t
  proof -
    have "et_on (ip_threads k t) \<in> {0, a}" using assms(8) that by blast
    from assms(7) [OF this] that show ?thesis by simp
  qed
  have there: "links ?m (ep_head (ip_endpoints k' b)) (Q b) \<and> (\<forall>t \<in> set (Q b). et_on (ip_threads k' t) = b)"
    if b: "b \<noteq> 0" "b \<noteq> a" for b
  proof -
    have at: "et_on (ip_threads k t) = b" if "t \<in> set (Q b)" for t using queue_okD(3) [OF assms(1) b(1)] that by blast
    have s: "?m t = ?n t \<and> et_on (ip_threads k' t) = b" if "t \<in> set (Q b)" for t
      using assms(6) [of t] at [OF that] b by simp
    have "links ?m (ep_head (ip_endpoints k b)) (Q b) = links ?n (ep_head (ip_endpoints k b)) (Q b)"
      by (rule links_cong) (use s in blast)
    with queue_okD(1) [OF assms(1) b(1)] s assms(5) [OF b(2)] show ?thesis by simp
  qed
  have listed: "t \<in> set ((Q(a := xs)) (et_on (ip_threads k' t)))" if "et_on (ip_threads k' t) \<noteq> 0" for t
  proof (cases "et_on (ip_threads k t) \<in> {0, a}")
    case True
    from assms(7) [OF this] that have "t \<in> set xs" "et_on (ip_threads k' t) = a" by (auto split: if_splits)
    then show ?thesis by simp
  next
    case False
    then have "et_on (ip_threads k t) \<noteq> 0" "et_on (ip_threads k' t) = et_on (ip_threads k t)" using assms(6) [OF False] by auto
    with False queue_okD(3) [OF assms(1) this(1), of t] show ?thesis by simp
  qed
  have "distinct (Q b)" if "b \<noteq> 0" for b using queue_okD(2) [OF assms(1) that] .
  then show ?thesis using here there listed assms(3,4) unfolding queue_ok_def by simp
qed

lemma tail_walk_links:
  assumes "links (\<lambda>t. et_next (ip_threads k t)) h xs" and "\<forall>t \<in> set xs. et_on (ip_threads k t) = a" and "length xs \<le> n"
  shows "tail_walk n a h k = (if xs = [] then 0 else last xs)"
  using assms
proof (induction xs arbitrary: h n)
  case Nil
  then show ?case by (cases n) auto
next
  case (Cons x xs)
  then obtain n' where "n = Suc n'" by (cases n) auto
  with Cons.prems Cons.IH [of "et_next (ip_threads k x)" n'] show ?case by (cases "xs = []") auto
qed

text \<open>
  The tail the enqueue uses is the last of the list: either the stored one is, or it is found by the walk. A stored tail that is
  stale must not be the caller itself.
\<close>

definition tail_fixable :: "ipc \<Rightarrow> nat list \<Rightarrow> nat \<Rightarrow> nat \<Rightarrow> bool" where
  "tail_fixable k xs a t \<longleftrightarrow> tail_ok k xs a \<or> (ep_tail (ip_endpoints k a) \<noteq> t \<and> length xs \<le> Max_Queue_Walk)"

lemma Enqueue_Caller_eq:
  assumes "queue_ok k Q" and "a \<noteq> 0" and "et_on (ip_threads k t) = 0" and "tail_fixable k (Q a) a t"
  shows "Enqueue_Caller a t k =
    (let k1 = set_thread t ((ip_threads k t)\<lparr>et_next := 0, et_on := a\<rparr>) k; e = ip_endpoints k a; u = last (Q a)
     in if Q a = [] then set_endpoint a (e\<lparr>ep_head := t, ep_tail := t\<rparr>) k1
        else set_endpoint a (e\<lparr>ep_tail := t\<rparr>) (set_thread u ((ip_threads k u)\<lparr>et_next := t\<rparr>) k1))"
proof -
  let ?k = "set_thread t ((ip_threads k t)\<lparr>et_next := 0, et_on := a\<rparr>) k" and ?e = "ip_endpoints k a"
  let ?u = "if Q a = [] then 0 else last (Q a)"
  let ?bad = "tail_suspicious a ?k"
  note D = queue_okD [OF assms(1,2)]
  have t: "t \<notin> set (Q a)" using D(3) [of t] assms(2,3) by simp
  have l: "links (\<lambda>x. et_next (ip_threads ?k x)) (ep_head ?e) (Q a)"
    using D(1) t by (subst links_cong [where m = "\<lambda>x. et_next (ip_threads k x)"]) auto
  have on: "\<forall>x \<in> set (Q a). et_on (ip_threads ?k x) = a" using D(3) by auto
  have u: "et_on (ip_threads ?k (last (Q a))) = a" "et_next (ip_threads ?k (last (Q a))) = 0" "last (Q a) \<noteq> t" "last (Q a) \<noteq> 0"
    if "Q a \<noteq> []"
  proof -
    have m: "last (Q a) \<in> set (Q a)" using that by simp
    then show "et_on (ip_threads ?k (last (Q a))) = a" using on by blast
    show "et_next (ip_threads ?k (last (Q a))) = 0" by (rule links_last [OF l that])
    show "last (Q a) \<noteq> t" "last (Q a) \<noteq> 0" using m t D(4) by metis+
  qed
  have tail: "(if ?bad then tail_walk Max_Queue_Walk a (ep_head ?e) ?k else ep_tail ?e) = ?u"
  proof (cases "tail_ok k (Q a) a")
    case True
    then have v: "ep_tail ?e = ?u" by (simp add: tail_ok_def)
    moreover have "\<not> ?bad" using v u D(5) by (cases "Q a = []") (auto simp: tail_suspicious_def Let_def)
    ultimately show ?thesis by simp
  next
    case False
    then have f: "ep_tail ?e \<noteq> t" "length (Q a) \<le> Max_Queue_Walk" using assms(4) by (simp_all add: tail_fixable_def)
    have "ep_tail ?e = ?u" if "\<not> ?bad"
    proof (cases "ep_tail ?e = 0")
      case True
      with that D(5) show ?thesis by (auto simp: tail_suspicious_def Let_def)
    next
      case False
      with that f(1) have "et_on (ip_threads k (ep_tail ?e)) = a" "et_next (ip_threads k (ep_tail ?e)) = 0" by (auto simp: tail_suspicious_def Let_def)
      then have "ep_tail ?e \<in> set (Q a)" "ep_tail ?e = last (Q a)" using D(3) links_end [OF D(1)] by auto
      then show ?thesis by auto
    qed
    with tail_walk_links [OF l on f(2)] show ?thesis by simp
  qed
  show ?thesis unfolding Enqueue_Caller_def Let_def set_simps tail using u by (cases "Q a = []") (auto simp: set_endpoint_def)
qed

lemma Enqueue_Caller_ok:
  assumes "queue_ok k Q" and "a \<noteq> 0" and "t \<noteq> 0" and "et_on (ip_threads k t) = 0" and "tail_fixable k (Q a) a t"
  shows "queue_ok (Enqueue_Caller a t k) (Q(a := Q a @ [t]))" and "tail_ok (Enqueue_Caller a t k) (Q a @ [t]) a"
    and "b \<noteq> a \<Longrightarrow> ip_endpoints (Enqueue_Caller a t k) b = ip_endpoints k b"
    and "ep_failed (ip_endpoints (Enqueue_Caller a t k) a) = ep_failed (ip_endpoints k a)"
    and "et_state (ip_threads (Enqueue_Caller a t k) x) = et_state (ip_threads k x)"
proof -
  note eq = Enqueue_Caller_eq [OF assms(1,2,4,5)] and D = queue_okD [OF assms(1,2)]
  have t: "t \<notin> set (Q a)" using D(3) [of t] assms(2,4) by simp
  show "tail_ok (Enqueue_Caller a t k) (Q a @ [t]) a" "b \<noteq> a \<Longrightarrow> ip_endpoints (Enqueue_Caller a t k) b = ip_endpoints k b"
    "ep_failed (ip_endpoints (Enqueue_Caller a t k) a) = ep_failed (ip_endpoints k a)"
    "et_state (ip_threads (Enqueue_Caller a t k) x) = et_state (ip_threads k x)"
    by (simp_all add: eq Let_def tail_ok_def)
  show "queue_ok (Enqueue_Caller a t k) (Q(a := Q a @ [t]))"
  proof (rule queue_ok_step [OF assms(1,2)])
    let ?k = "Enqueue_Caller a t k" and ?u = "last (Q a)"
    have u: "et_on (ip_threads k ?u) = a" "?u \<noteq> t" if "Q a \<noteq> []" using D(3) t last_in_set [OF that] by metis+
    show "links (\<lambda>x. et_next (ip_threads ?k x)) (ep_head (ip_endpoints ?k a)) (Q a @ [t])"
    proof (cases "Q a = []")
      case False
      have "links ((\<lambda>x. if x = t then 0 else et_next (ip_threads k x))(?u := t)) (ep_head (ip_endpoints k a)) (Q a @ [t])"
        by (rule links_snoc) (use D(1,2) t assms(3) False in simp_all)
      moreover have "(\<lambda>x. et_next (ip_threads ?k x)) = (\<lambda>x. if x = t then 0 else et_next (ip_threads k x))(?u := t)"
        using False u [OF False] by (auto simp: eq Let_def fun_eq_iff)
      moreover have "ep_head (ip_endpoints ?k a) = ep_head (ip_endpoints k a)" using False by (simp add: eq Let_def)
      ultimately show ?thesis by simp
    qed (use assms(3) in \<open>simp add: eq Let_def\<close>)
    show "distinct (Q a @ [t])" using D(2) t by simp
    show "ep_head (ip_endpoints ?k b) = ep_head (ip_endpoints k b)" if "b \<noteq> a" for b using that by (simp add: eq Let_def)
    show "et_next (ip_threads ?k x) = et_next (ip_threads k x) \<and> et_on (ip_threads ?k x) = et_on (ip_threads k x)"
      if "et_on (ip_threads k x) \<notin> {0, a}" for x
      using that u assms(4) by (cases "Q a = []") (auto simp: eq Let_def)
    show "et_on (ip_threads ?k x) = (if x \<in> set (Q a @ [t]) then a else 0)" if "et_on (ip_threads k x) \<in> {0, a}" for x
      using that u assms(2) D(3) [of x] by (cases "Q a = []") (auto simp: eq Let_def)
    show "set (Q a @ [t]) \<subseteq> {x. et_on (ip_threads k x) \<in> {0, a}}" using D(3) assms(4) by auto
  qed
qed

text \<open>What a step leaves alone: the other endpoints, and of this one the failed mark.\<close>

definition same_rest :: "nat \<Rightarrow> ipc \<Rightarrow> ipc \<Rightarrow> bool" where
  "same_rest a k k' \<longleftrightarrow> (\<forall>b. b \<noteq> a \<longrightarrow> ip_endpoints k' b = ip_endpoints k b) \<and>
     ep_failed (ip_endpoints k' a) = ep_failed (ip_endpoints k a) \<and>
     ep_send_head (ip_endpoints k' a) = ep_send_head (ip_endpoints k a) \<and>
     ep_send_tail (ip_endpoints k' a) = ep_send_tail (ip_endpoints k a) \<and> ip_sends k' = ip_sends k \<and> ip_send_free k' = ip_send_free k"

lemma same_rest_trans: "same_rest a k k' \<Longrightarrow> same_rest a k' k'' \<Longrightarrow> same_rest a k k''"
  by (auto simp: same_rest_def)

lemma pop_head_ok:
  assumes "queue_ok k Q" and "a \<noteq> 0" and "Q a = t # xs"
  shows "queue_ok (pop_head a k) (Q(a := xs))" and "tail_ok k (Q a) a \<Longrightarrow> tail_ok (pop_head a k) xs a"
    and "same_rest a k (pop_head a k)" and "et_state (ip_threads (pop_head a k) x) = et_state (ip_threads k x)"
proof -
  note D = queue_okD [OF assms(1,2), unfolded assms(3)]
  let ?n = "et_next (ip_threads k t)" and ?k = "pop_head a k"
  have h: "ep_head (ip_endpoints k a) = t" and l: "links (\<lambda>x. et_next (ip_threads k x)) ?n xs" using D(1) by auto
  have n: "?n = 0 \<longleftrightarrow> xs = []" using l by (cases xs) auto
  have E: "ep_head (ip_endpoints ?k a) = ?n" "ep_tail (ip_endpoints ?k a) = (if xs = [] then 0 else ep_tail (ip_endpoints k a))"
    "ip_threads ?k = (ip_threads k)(t := (ip_threads k t)\<lparr>et_next := 0, et_on := 0\<rparr>)"
    using n by (simp_all add: pop_head_def Let_def h)
  show r: "same_rest a k ?k" by (simp add: pop_head_def Let_def same_rest_def)
  show "et_state (ip_threads ?k x) = et_state (ip_threads k x)" by (simp add: E)
  show "tail_ok k (Q a) a \<Longrightarrow> tail_ok ?k xs a" by (simp add: tail_ok_def E assms(3))
  show "queue_ok ?k (Q(a := xs))"
  proof (rule queue_ok_step [OF assms(1,2)])
    show "links (\<lambda>x. et_next (ip_threads ?k x)) (ep_head (ip_endpoints ?k a)) xs"
      using l D(2) by (subst links_cong [where m = "\<lambda>x. et_next (ip_threads k x)"]) (auto simp: E)
    show "distinct xs" using D(2) by simp
    show "ep_head (ip_endpoints ?k b) = ep_head (ip_endpoints k b)" if "b \<noteq> a" for b using r that by (simp add: same_rest_def)
    show "et_next (ip_threads ?k x) = et_next (ip_threads k x) \<and> et_on (ip_threads ?k x) = et_on (ip_threads k x)"
      if "et_on (ip_threads k x) \<notin> {0, a}" for x using that D(3) [of t] by (auto simp: E)
    show "et_on (ip_threads ?k x) = (if x \<in> set xs then a else 0)" if "et_on (ip_threads k x) \<in> {0, a}" for x
      using that D(2) D(3) [of x] assms(2) by (auto simp: E)
    show "set xs \<subseteq> {x. et_on (ip_threads k x) \<in> {0, a}}" using D(3) by auto
  qed
qed

lemma Dequeue_Caller_ok:
  assumes "queue_ok k Q" and "a \<noteq> 0" and "tail_ok k (Q a) a"
  shows "\<exists>k'. Dequeue_Caller a k = Some (case dropWhile (\<lambda>t. Is_Dead t k) (Q a) of [] \<Rightarrow> 0 | t # _ \<Rightarrow> t, k') \<and>
    queue_ok k' (Q(a := tl (dropWhile (\<lambda>t. Is_Dead t k) (Q a)))) \<and> tail_ok k' (tl (dropWhile (\<lambda>t. Is_Dead t k) (Q a))) a \<and>
    same_rest a k k' \<and> (\<forall>x. et_state (ip_threads k' x) = et_state (ip_threads k x))"
  using assms
proof (induction "Q a" arbitrary: k Q)
  case Nil
  from Nil.hyps [symmetric] queue_okD(5) [OF Nil.prems(1,2)] have "Dequeue_Caller a k = Some (0, k)"
    by (simp add: Dequeue_Caller.simps)
  with Nil show ?case by (auto simp: same_rest_def fun_upd_idem)
next
  case (Cons t xs)
  let ?k = "pop_head a k"
  note q = Cons.hyps(2) [symmetric]
  note p = pop_head_ok [OF Cons.prems(1,2) q] and D = queue_okD [OF Cons.prems(1,2), unfolded q]
  have h: "ep_head (ip_endpoints k a) = t" "t \<noteq> 0" using D(1) by auto
  have dead: "Is_Dead x ?k = Is_Dead x k" for x using p(4) by (simp add: Is_Dead_def)
  have step: "Dequeue_Caller a k = (if \<not> Is_Dead t k then Some (t, ?k) else Dequeue_Caller a ?k)"
    using h dead by (subst Dequeue_Caller.simps) (simp add: Let_def)
  show ?case
  proof (cases "Is_Dead t k")
    case False
    then show ?thesis using step p Cons.prems(3) q by simp
  next
    case True
    have "tail_ok ?k ((Q(a := xs)) a) a" using p(2) Cons.prems(3) by simp
    from Cons.hyps(1) [of "Q(a := xs)" ?k, OF _ p(1) Cons.prems(2) this] same_rest_trans [OF p(3)] p(4) step True q dead
    show ?thesis by fastforce
  qed
qed

lemma unlink_loop_absent:
  assumes "links (\<lambda>x. et_next (ip_threads k x)) scan xs" and "t \<notin> set xs"
  shows "unlink_loop a t previous scan k = Some k"
  using assms
proof (induction xs arbitrary: previous scan)
  case Nil
  then show ?case by (simp add: unlink_loop.simps)
next
  case (Cons x xs)
  then show ?case by (subst unlink_loop.simps) auto
qed

lemma unlink_loop_found:
  assumes "links (\<lambda>x. et_next (ip_threads k x)) scan (ps @ t # qs)" and "t \<notin> set ps"
  shows "unlink_loop a t previous scan k = unlink_loop a t (if ps = [] then previous else last ps) t k"
  using assms
proof (induction ps arbitrary: previous scan)
  case (Cons x ps)
  then show ?case by (subst unlink_loop.simps) auto
qed simp

lemma queue_ok_cong:
  assumes "queue_ok k Q" and "\<And>x. et_next (ip_threads k' x) = et_next (ip_threads k x)" and "\<And>x. et_on (ip_threads k' x) = et_on (ip_threads k x)"
    and "\<And>b. ep_head (ip_endpoints k' b) = ep_head (ip_endpoints k b)"
  shows "queue_ok k' Q"
proof -
  have "(\<lambda>x. et_next (ip_threads k' x)) = (\<lambda>x. et_next (ip_threads k x))" using assms(2) by (rule ext)
  then show ?thesis using assms(1) unfolding queue_ok_def assms(3,4) by (simp only:)
qed

lemma unlink_ok:
  assumes "queue_ok k Q" and "a \<noteq> 0" and "tail_ok k (Q a) a" and "Q a = ps @ t # qs"
    and "unlink_loop a t (if ps = [] then 0 else last ps) t k = Some k'"
  shows "queue_ok k' (Q(a := ps @ qs))" and "tail_ok k' (ps @ qs) a" and "same_rest a k k'"
    and "et_state (ip_threads k' x) = et_state (ip_threads k x)"
proof -
  let ?p = "last ps" and ?n = "et_next (ip_threads k t)"
  note D = queue_okD [OF assms(1,2), unfolded assms(4)]
  have t: "t \<noteq> 0" "t \<notin> set ps" "et_on (ip_threads k t) = a" using D by auto
  have p: "?p \<noteq> 0" "?p \<noteq> t" "et_on (ip_threads k ?p) = a" if "ps \<noteq> []"
  proof -
    have m: "?p \<in> set (ps @ t # qs)" "?p \<in> set ps" using that by simp_all
    then show "?p \<noteq> 0" "?p \<noteq> t" "et_on (ip_threads k ?p) = a" using D(3) [of ?p] D(4) t(2) by metis+
  qed
  have T: "ip_threads k' = (if ps = [] then ip_threads k else (ip_threads k)(?p := (ip_threads k ?p)\<lparr>et_next := ?n\<rparr>))
      (t := (ip_threads k t)\<lparr>et_next := 0, et_on := 0\<rparr>)"
    and E: "ep_head (ip_endpoints k' a) = (if ps = [] then ?n else ep_head (ip_endpoints k a))"
      "ep_tail (ip_endpoints k' a) = (if ep_tail (ip_endpoints k a) = t then (if ps = [] then 0 else ?p) else ep_tail (ip_endpoints k a))"
    and r: "same_rest a k k'"
    using assms(5) t p by (auto simp: unlink_loop.simps [of a t _ t] Let_def same_rest_def split: if_splits)
  show "same_rest a k k'" by (rule r)
  show "et_state (ip_threads k' x) = et_state (ip_threads k x)" by (simp add: T)
  have "t = last (Q a) \<longleftrightarrow> qs = []" using D(2) assms(4) by (cases "qs = []") auto
  then show "tail_ok k' (ps @ qs) a" using assms(3,4) by (auto simp: tail_ok_def E)
  show "queue_ok k' (Q(a := ps @ qs))"
  proof (rule queue_ok_step [OF assms(1,2)])
    show "links (\<lambda>x. et_next (ip_threads k' x)) (ep_head (ip_endpoints k' a)) (ps @ qs)"
    proof (cases "ps = []")
      case True
      then show ?thesis using D(1,2) by (subst links_cong [where m = "\<lambda>x. et_next (ip_threads k x)"]) (auto simp: T E)
    next
      case False
      have "links ((\<lambda>x. et_next (ip_threads k x))(?p := ?n)) (ep_head (ip_endpoints k a)) (ps @ qs)"
        by (rule links_delete) (use D(1,2) False in auto)
      then show ?thesis using False D(2)
        by (subst links_cong [where m = "(\<lambda>x. et_next (ip_threads k x))(?p := ?n)"]) (auto simp: T E)
    qed
    show "distinct (ps @ qs)" using D(2) by simp
    show "ep_head (ip_endpoints k' b) = ep_head (ip_endpoints k b)" if "b \<noteq> a" for b using r that by (simp add: same_rest_def)
    show "et_next (ip_threads k' x) = et_next (ip_threads k x) \<and> et_on (ip_threads k' x) = et_on (ip_threads k x)"
      if "et_on (ip_threads k x) \<notin> {0, a}" for x using that t(3) p(3) by (auto simp: T)
    show "et_on (ip_threads k' x) = (if x \<in> set (ps @ qs) then a else 0)" if "et_on (ip_threads k x) \<in> {0, a}" for x
      using that D(2) D(3) [of x] assms(2) p(3) by (auto simp: T)
    show "set (ps @ qs) \<subseteq> {x. et_on (ip_threads k x) \<in> {0, a}}" using D(3) by auto
  qed
qed

lemma Ep_Cleanup_ok:
  assumes "queue_ok k Q" and "a \<noteq> 0" and "t \<noteq> 0" and "tail_ok k (Q a) a"
  shows "\<exists>k'. Ep_Cleanup_Thread_Cap t a k = Some k' \<and> queue_ok k' (Q(a := remove1 t (Q a))) \<and> tail_ok k' (remove1 t (Q a)) a \<and>
    same_rest a k k' \<and> (\<forall>x. et_state (ip_threads k' x) = et_state (ip_threads k x))"
proof -
  define k1 where "k1 = (let k = (if ep_receiver (ip_endpoints k a) = t then set_endpoint a ((ip_endpoints k a)\<lparr>ep_receiver := 0\<rparr>) k else k)
    in set_thread t ((ip_threads k t)\<lparr>et_recv := 0\<rparr>) k)"
  have run: "Ep_Cleanup_Thread_Cap t a k = unlink_loop a t 0 (ep_head (ip_endpoints k1 a)) k1"
    using assms(2,3) by (simp add: Ep_Cleanup_Thread_Cap_def k1_def Let_def)
  have q: "queue_ok k1 Q" by (rule queue_ok_cong [OF assms(1)]) (simp_all add: k1_def Let_def)
  have r: "same_rest a k k1" "\<And>x. et_state (ip_threads k1 x) = et_state (ip_threads k x)" and tl: "tail_ok k1 (Q a) a"
    using assms(4) by (simp_all add: k1_def Let_def same_rest_def tail_ok_def)
  note D = queue_okD [OF q assms(2)]
  show ?thesis
  proof (cases "t \<in> set (Q a)")
    case False
    then show ?thesis using run unlink_loop_absent [OF D(1)] q tl r by (simp add: remove1_idem)
  next
    case True
    then obtain ps qs where s: "Q a = ps @ t # qs" "t \<notin> set ps" by (meson split_list_first)
    have run': "Ep_Cleanup_Thread_Cap t a k = unlink_loop a t (if ps = [] then 0 else last ps) t k1"
      using run unlink_loop_found [OF D(1) [unfolded s(1)] s(2)] by simp
    obtain k' where k': "unlink_loop a t (if ps = [] then 0 else last ps) t k1 = Some k'"
      using assms(3) by (subst (asm) unlink_loop.simps) (simp add: Let_def)
    have "remove1 t (Q a) = ps @ qs" using s by (simp add: remove1_append)
    with unlink_ok [OF q assms(2) tl s(1) k'] run' k' r same_rest_trans [OF r(1)] show ?thesis by simp
  qed
qed

text \<open>Waking: a blocked thread becomes ready with the given result, any other thread is left alone.\<close>

definition woken :: "u64 \<Rightarrow> ep_thread \<Rightarrow> ep_thread" where
  "woken v r = (if et_state r \<in> {Dead, Running, Ready} then r else r\<lparr>et_saved := v, et_awaiting := False, et_state := Ready\<rparr>)"

lemma Wake_With_Result_simps [simp]:
  "t \<noteq> 0 \<Longrightarrow> ip_threads (Wake_With_Result t v k) = (ip_threads k)(t := woken v (ip_threads k t))"
  "ip_threads (Wake_With_Result 0 v k) = ip_threads k"
  "ip_endpoints (Wake_With_Result t v k) = ip_endpoints k" "ip_sends (Wake_With_Result t v k) = ip_sends k"
  "ip_send_free (Wake_With_Result t v k) = ip_send_free k"
proof -
  show "t \<noteq> 0 \<Longrightarrow> ip_threads (Wake_With_Result t v k) = (ip_threads k)(t := woken v (ip_threads k t))"
    by (cases "et_state (ip_threads k t)") (simp_all add: Wake_With_Result_def Is_Dead_def Wake_Blocked_def woken_def)
  show "ip_threads (Wake_With_Result 0 v k) = ip_threads k" by (simp add: Wake_With_Result_def Is_Dead_def)
  show "ip_endpoints (Wake_With_Result t v k) = ip_endpoints k" "ip_sends (Wake_With_Result t v k) = ip_sends k"
    "ip_send_free (Wake_With_Result t v k) = ip_send_free k"
    by (simp_all add: Wake_With_Result_def Wake_Blocked_def)
qed

lemma woken_simps [simp]: "et_next (woken v r) = et_next r" "et_on (woken v r) = et_on r"
  by (simp_all add: woken_def)

lemma fail_callers_ok:
  assumes "queue_ok k Q" and "a \<noteq> 0"
  shows "\<exists>k'. fail_callers a k = Some k' \<and> queue_ok k' (Q(a := [])) \<and>
    (\<forall>t. ip_threads k' t = (if t \<in> set (Q a) then woken Result_Endpoint_Gone ((ip_threads k t)\<lparr>et_next := 0, et_on := 0\<rparr>) else ip_threads k t)) \<and>
    ip_endpoints k' = (ip_endpoints k)(a := (ip_endpoints k a)\<lparr>ep_head := 0\<rparr>) \<and> ip_sends k' = ip_sends k \<and> ip_send_free k' = ip_send_free k"
  using assms
proof (induction "Q a" arbitrary: k Q)
  case Nil
  note q = Nil.hyps [symmetric]
  have h: "ep_head (ip_endpoints k a) = 0" using q queue_okD(5) [OF Nil.prems] by simp
  then have "(ip_endpoints k a)\<lparr>ep_head := 0\<rparr> = ip_endpoints k a" by simp
  then show ?case using h q Nil.prems by (simp add: fail_callers.simps fun_upd_idem)
next
  case (Cons t xs)
  note q = Cons.hyps(2) [symmetric]
  note p = pop_head_ok [OF Cons.prems q] and D = queue_okD [OF Cons.prems, unfolded q]
  have h: "ep_head (ip_endpoints k a) = t" "t \<noteq> 0" "t \<notin> set xs" using D(1,2) by auto
  define k1 where "k1 = (let k = set_endpoint a ((ip_endpoints k a)\<lparr>ep_head := et_next (ip_threads k t)\<rparr>) k;
    k = set_thread t ((ip_threads k t)\<lparr>et_next := 0, et_on := 0\<rparr>) k in Wake_With_Result t Result_Endpoint_Gone k)"
  have step: "fail_callers a k = fail_callers a k1"
    using h by (subst fail_callers.simps) (simp add: k1_def Let_def)
  have T: "ip_threads k1 = (ip_threads k)(t := woken Result_Endpoint_Gone ((ip_threads k t)\<lparr>et_next := 0, et_on := 0\<rparr>))"
    and E: "ip_endpoints k1 = (ip_endpoints k)(a := (ip_endpoints k a)\<lparr>ep_head := et_next (ip_threads k t)\<rparr>)"
    and S: "ip_sends k1 = ip_sends k" "ip_send_free k1 = ip_send_free k"
    using h(2) by (simp_all add: k1_def Let_def)
  have "queue_ok k1 (Q(a := xs))"
    by (rule queue_ok_cong [OF p(1)]) (simp_all add: T E pop_head_def Let_def h)
  from Cons.hyps(1) [OF _ this Cons.prems(2)] show ?case using step h q by (auto simp: T E S)
qed

end
