(* ===== verification/Kernel_Messages.thy ===== *)
theory Kernel_Messages
  imports Kernel_Endpoint
begin

text \<open>
  The copies of messages queued at endpoints, the failing of an endpoint, and what runs of all operations of \<open>Kernel_Endpoint\<close> do:
  the linked queues refine lists.
\<close>

subsection \<open>The queued copies are lists\<close>

text \<open>
  \<open>sends_ok k S F\<close>: the free slots are linked as the list \<open>F\<close>, the copies of every endpoint as the list \<open>S\<close> gives, with the stored
  tail as its last, and no slot is in two lists.
\<close>

definition sends_ok :: "ipc \<Rightarrow> (nat \<Rightarrow> nat list) \<Rightarrow> nat list \<Rightarrow> bool" where
  "sends_ok k S F \<longleftrightarrow> links (\<lambda>x. qs_next_free (ip_sends k x)) (ip_send_free k) F \<and> distinct F \<and>
     (\<forall>a. a \<noteq> 0 \<longrightarrow> links (\<lambda>x. qs_next (ip_sends k x)) (ep_send_head (ip_endpoints k a)) (S a) \<and> distinct (S a) \<and>
        ep_send_tail (ip_endpoints k a) = (if S a = [] then 0 else last (S a)) \<and> set (S a) \<inter> set F = {} \<and>
        (\<forall>b. b \<noteq> 0 \<longrightarrow> b \<noteq> a \<longrightarrow> set (S a) \<inter> set (S b) = {}))"

lemma sends_okD:
  assumes "sends_ok k S F" and "a \<noteq> 0"
  shows "links (\<lambda>x. qs_next_free (ip_sends k x)) (ip_send_free k) F" and "distinct F"
    and "links (\<lambda>x. qs_next (ip_sends k x)) (ep_send_head (ip_endpoints k a)) (S a)" and "distinct (S a)"
    and "ep_send_tail (ip_endpoints k a) = (if S a = [] then 0 else last (S a))" and "set (S a) \<inter> set F = {}"
    and "b \<noteq> 0 \<Longrightarrow> b \<noteq> a \<Longrightarrow> set (S a) \<inter> set (S b) = {}"
  using assms by (simp_all add: sends_ok_def)

lemma sends_ok_cong:
  assumes "sends_ok k S F" and "ip_sends k' = ip_sends k" and "ip_send_free k' = ip_send_free k"
    and "\<And>a. ep_send_head (ip_endpoints k' a) = ep_send_head (ip_endpoints k a)"
    and "\<And>a. ep_send_tail (ip_endpoints k' a) = ep_send_tail (ip_endpoints k a)"
  shows "sends_ok k' S F"
  using assms(1) unfolding sends_ok_def assms(2-5) .

text \<open>A step on the copies of one endpoint.\<close>

lemma sends_ok_step:
  assumes "sends_ok k S F" and "a \<noteq> 0"
    and "links (\<lambda>x. qs_next_free (ip_sends k' x)) (ip_send_free k') G" and "distinct G"
    and "links (\<lambda>x. qs_next (ip_sends k' x)) (ep_send_head (ip_endpoints k' a)) xs" and "distinct xs"
    and "ep_send_tail (ip_endpoints k' a) = (if xs = [] then 0 else last xs)" and "set xs \<inter> set G = {}"
    and "set xs \<union> set G = set (S a) \<union> set F"
    and "\<And>b x. b \<noteq> 0 \<Longrightarrow> b \<noteq> a \<Longrightarrow> x \<in> set (S b) \<Longrightarrow> qs_next (ip_sends k' x) = qs_next (ip_sends k x)"
    and "\<And>b. b \<noteq> a \<Longrightarrow> ep_send_head (ip_endpoints k' b) = ep_send_head (ip_endpoints k b) \<and>
      ep_send_tail (ip_endpoints k' b) = ep_send_tail (ip_endpoints k b)"
  shows "sends_ok k' (S(a := xs)) G"
proof -
  let ?n = "\<lambda>x. qs_next (ip_sends k x)" and ?m = "\<lambda>x. qs_next (ip_sends k' x)"
  have there: "links ?m (ep_send_head (ip_endpoints k' b)) (S b) \<and> set (S b) \<inter> set G = {} \<and> set xs \<inter> set (S b) = {}"
    if b: "b \<noteq> 0" "b \<noteq> a" for b
  proof -
    note D = sends_okD [OF assms(1) b(1)]
    have "links ?m (ep_send_head (ip_endpoints k b)) (S b) = links ?n (ep_send_head (ip_endpoints k b)) (S b)"
      by (rule links_cong) (use assms(10) [OF b] in blast)
    then have "links ?m (ep_send_head (ip_endpoints k' b)) (S b)" using D(3) assms(11) [OF b(2)] by simp
    moreover have "set (S b) \<inter> (set xs \<union> set G) = {}" unfolding assms(9) using D(6) D(7) [OF assms(2)] b by blast
    ultimately show ?thesis by blast
  qed
  show ?thesis
    unfolding sends_ok_def
  proof (intro conjI allI impI)
    show "links (\<lambda>x. qs_next_free (ip_sends k' x)) (ip_send_free k') G" "distinct G" by (rule assms(3,4))+
  next
    fix c :: nat assume c: "c \<noteq> 0"
    note D = sends_okD [OF assms(1) c]
    show "links ?m (ep_send_head (ip_endpoints k' c)) ((S(a := xs)) c)" using assms(5) there [OF c] by (cases "c = a") simp_all
    show "distinct ((S(a := xs)) c)" using assms(6) D(4) by simp
    show "ep_send_tail (ip_endpoints k' c) = (if (S(a := xs)) c = [] then 0 else last ((S(a := xs)) c))"
      using assms(7) assms(11) [of c] D(5) by (cases "c = a") simp_all
    show "set ((S(a := xs)) c) \<inter> set G = {}" using assms(8) there [OF c] by (cases "c = a") simp_all
    show "set ((S(a := xs)) c) \<inter> set ((S(a := xs)) b) = {}" if "b \<noteq> 0" "b \<noteq> c" for b
    proof (cases "c = a")
      case True
      then show ?thesis using there [OF that(1)] that by simp
    next
      case False
      then show ?thesis using there [OF c] D(7) [OF that] by (cases "b = a") (simp_all add: Int_commute)
    qed
  qed
qed

lemma Free_Queued_Send_simps [simp]:
  "ip_threads (Free_Queued_Send x k) = ip_threads k" "ip_endpoints (Free_Queued_Send x k) = ip_endpoints k"
  "ip_send_free (Free_Queued_Send x k) = x"
  "ip_sends (Free_Queued_Send x k) = (ip_sends k)(x := (ip_sends k x)\<lparr>qs_in_use := False, qs_next := 0, qs_next_free := ip_send_free k\<rparr>)"
  by (simp_all add: Free_Queued_Send_def)

lemma fold_free_ok:
  assumes "links (\<lambda>x. qs_next_free (ip_sends k x)) (ip_send_free k) F" and "distinct (ys @ F)" and "0 \<notin> set ys"
  shows "links (\<lambda>x. qs_next_free (ip_sends (fold Free_Queued_Send ys k) x)) (ip_send_free (fold Free_Queued_Send ys k)) (rev ys @ F)"
    and "x \<notin> set ys \<Longrightarrow> ip_sends (fold Free_Queued_Send ys k) x = ip_sends k x"
    and "ip_threads (fold Free_Queued_Send ys k) = ip_threads k" and "ip_endpoints (fold Free_Queued_Send ys k) = ip_endpoints k"
proof -
  show "links (\<lambda>x. qs_next_free (ip_sends (fold Free_Queued_Send ys k) x)) (ip_send_free (fold Free_Queued_Send ys k)) (rev ys @ F)"
    using assms
  proof (induction ys arbitrary: k F)
    case (Cons y ys)
    have "links (\<lambda>x. qs_next_free (ip_sends (Free_Queued_Send y k) x)) (ip_send_free k) F"
      using Cons.prems by (subst links_cong [where m = "\<lambda>x. qs_next_free (ip_sends k x)"]) auto
    then have "links (\<lambda>x. qs_next_free (ip_sends (Free_Queued_Send y k) x)) (ip_send_free (Free_Queued_Send y k)) (y # F)"
      using Cons.prems(3) by simp
    from Cons.IH [OF this] Cons.prems show ?case by simp
  qed simp
  show "x \<notin> set ys \<Longrightarrow> ip_sends (fold Free_Queued_Send ys k) x = ip_sends k x"
    by (induction ys arbitrary: k) simp_all
  show "ip_threads (fold Free_Queued_Send ys k) = ip_threads k" "ip_endpoints (fold Free_Queued_Send ys k) = ip_endpoints k"
    by (induction ys arbitrary: k) simp_all
qed

lemma fail_sends_fold:
  assumes "links (\<lambda>x. qs_next (ip_sends k x)) h xs" and "distinct xs"
  shows "fail_sends h k = Some (fold Free_Queued_Send xs k)"
  using assms
proof (induction xs arbitrary: h k)
  case Nil
  then show ?case by (simp add: fail_sends.simps)
next
  case (Cons x xs)
  have "links (\<lambda>y. qs_next (ip_sends (Free_Queued_Send x k) y)) (qs_next (ip_sends k x)) xs"
    using Cons.prems by (subst links_cong [where m = "\<lambda>y. qs_next (ip_sends k y)"]) auto
  from Cons.IH [OF this] Cons.prems show ?case by (subst fail_sends.simps) (simp add: Let_def)
qed

text \<open>The slots of a frame of the pool. Physical memory lies in the window of \<open>2\<^sup>3\<^sup>8\<close> bytes the kernel maps.\<close>

definition Physmap_Bytes :: nat where
  "Physmap_Bytes = 2 ^ 38"

definition frame_slots :: "nat \<Rightarrow> nat list" where
  "frame_slots f = map (\<lambda>i. Phys_To_Virt f + i * Send_Slot_Bytes) [0..<Page_Size div Send_Slot_Bytes]"

lemma Phys_To_Virt_window: "f < Physmap_Bytes \<Longrightarrow> Phys_To_Virt f = Physmap_Base + f"
  by (simp add: Phys_To_Virt_def wrap64_def Physmap_Base_def Physmap_Bytes_def)

lemma frame_slots_in:
  assumes "f < Physmap_Bytes" and "x \<in> set (frame_slots f)"
  shows "\<exists>j < Page_Size. x = Physmap_Base + f + j"
proof -
  obtain i where i: "i < Page_Size div Send_Slot_Bytes" "x = Physmap_Base + f + i * Send_Slot_Bytes"
    using assms(2) by (auto simp: frame_slots_def Phys_To_Virt_window [OF assms(1)])
  from i(1) have "i * Send_Slot_Bytes < Page_Size" by (simp add: Send_Slot_Bytes_def Page_Size_def)
  with i(2) show ?thesis by blast
qed

lemma frame_slots_ok:
  assumes "f < Physmap_Bytes"
  shows "distinct (frame_slots f)" and "0 \<notin> set (frame_slots f)" and "frame_slots f \<noteq> []"
proof -
  show "distinct (frame_slots f)" by (simp add: frame_slots_def distinct_map inj_on_def Send_Slot_Bytes_def)
  show "0 \<notin> set (frame_slots f)" using frame_slots_in [OF assms, of 0] by (auto simp: Physmap_Base_def)
  show "frame_slots f \<noteq> []" by (simp add: frame_slots_def Page_Size_def Send_Slot_Bytes_def)
qed

lemma frame_slots_apart:
  assumes "f < Physmap_Bytes" and "g < Physmap_Bytes" and "f \<noteq> g" and "f mod Page_Size = 0" and "g mod Page_Size = 0"
  shows "set (frame_slots f) \<inter> set (frame_slots g) = {}"
proof (rule ccontr)
  assume "set (frame_slots f) \<inter> set (frame_slots g) \<noteq> {}"
  then obtain x where "x \<in> set (frame_slots f)" "x \<in> set (frame_slots g)" by blast
  then obtain i j where ij: "i < Page_Size" "j < Page_Size" "x = Physmap_Base + f + i" "x = Physmap_Base + g + j"
    using frame_slots_in [OF assms(1)] frame_slots_in [OF assms(2)] by blast
  then have "f + i = g + j" by linarith
  with frames_apart [OF assms(4,5,3) ij(1,2)] show False by blast
qed

lemma sends_ok_more:
  assumes "sends_ok k S F" and "distinct (ys @ F)" and "0 \<notin> set ys" and "\<And>a. a \<noteq> 0 \<Longrightarrow> set (S a) \<inter> set ys = {}"
  shows "sends_ok (fold Free_Queued_Send ys k) S (rev ys @ F)"
proof -
  let ?k = "fold Free_Queued_Send ys k"
  have "links (\<lambda>x. qs_next_free (ip_sends k x)) (ip_send_free k) F" using assms(1) by (simp add: sends_ok_def)
  note f = fold_free_ok [OF this assms(2,3)]
  have "links (\<lambda>x. qs_next (ip_sends ?k x)) (ep_send_head (ip_endpoints k a)) (S a)" if "a \<noteq> 0" for a
  proof -
    have "qs_next (ip_sends ?k x) = qs_next (ip_sends k x)" if "x \<in> set (S a)" for x
      using f(2) assms(4) [OF \<open>a \<noteq> 0\<close>] that by (metis IntI empty_iff)
    then show ?thesis using sends_okD(3) [OF assms(1) that] by (subst links_cong [where m = "\<lambda>x. qs_next (ip_sends k x)"]) auto
  qed
  moreover have "set (S a) \<inter> set (rev ys @ F) = {}" if "a \<noteq> 0" for a
    using sends_okD(6) [OF assms(1) that] assms(4) [OF that] by auto
  ultimately show ?thesis using f(1) assms(1,2) unfolding sends_ok_def f(4) by (simp add: distinct_append Int_commute)
qed

text \<open>
  \<open>pool_ok X k s S F\<close>: the slots of all lists lie in frames the pool holds, apart from the frames \<open>X\<close> others hold, and memory ends
  inside the window.
\<close>

definition pool_ok :: "nat set \<Rightarrow> ipc \<Rightarrow> pmm \<Rightarrow> (nat \<Rightarrow> nat list) \<Rightarrow> nat list \<Rightarrow> bool" where
  "pool_ok X k s S F \<longleftrightarrow> sends_ok k S F \<and> Limit s \<le> Physmap_Bytes \<and>
     (\<exists>P. pmm_inv s (X \<union> P) \<and> X \<inter> P = {} \<and> (\<forall>a x. x \<in> set F \<or> a \<noteq> 0 \<and> x \<in> set (S a) \<longrightarrow> (\<exists>f \<in> P. x \<in> set (frame_slots f))))"

lemma pool_ok_sends: "pool_ok X k s S F \<Longrightarrow> sends_ok k S F"
  by (simp add: pool_ok_def)

lemma pool_ok_step:
  assumes "pool_ok X k s S F" and "sends_ok k' S' F'"
    and "\<And>a x. x \<in> set F' \<or> a \<noteq> 0 \<and> x \<in> set (S' a) \<Longrightarrow> x \<in> set F \<or> (\<exists>b. b \<noteq> 0 \<and> x \<in> set (S b))"
  shows "pool_ok X k' s S' F'"
proof -
  obtain P where P: "pmm_inv s (X \<union> P)" "X \<inter> P = {}" "\<And>a x. x \<in> set F \<or> a \<noteq> 0 \<and> x \<in> set (S a) \<Longrightarrow> \<exists>f \<in> P. x \<in> set (frame_slots f)"
    using assms(1) unfolding pool_ok_def by blast
  have "\<exists>f \<in> P. x \<in> set (frame_slots f)" if "x \<in> set F' \<or> a \<noteq> 0 \<and> x \<in> set (S' a)" for a x
    using assms(3) [OF that] P(3) by blast
  then show ?thesis using assms(1,2) P(1,2) unfolding pool_ok_def by blast
qed

lemma Allocate_Frame_Limit: "Allocate_Frame s = (st, f, s') \<Longrightarrow> Limit s' = Limit s"
  by (auto simp: Allocate_Frame_def Let_def poke_def split: if_splits)

text \<open>A frame the allocator hands out has slots of its own.\<close>

lemma new_frame_slots:
  assumes "pool_ok X k s S F" and "Allocate_Frame s = (Pmm_Ok, f, s')"
  shows "f < Physmap_Bytes" and "a \<noteq> 0 \<Longrightarrow> set (S a) \<inter> set (frame_slots f) = {}"
    and "sends_ok k' S' (rev (frame_slots f)) \<Longrightarrow> S' = S \<Longrightarrow> pool_ok X k' s' S' (rev (frame_slots f))"
proof -
  obtain P where P: "pmm_inv s (X \<union> P)" "X \<inter> P = {}" "\<And>a x. a \<noteq> 0 \<Longrightarrow> x \<in> set (S a) \<Longrightarrow> \<exists>f \<in> P. x \<in> set (frame_slots f)"
    and lim: "Limit s' \<le> Physmap_Bytes"
    using assms(1) Allocate_Frame_Limit [OF assms(2)] unfolding pool_ok_def by auto
  note a = pm.alloc_fresh [OF P(1) assms(2)]
  have win: "g < Physmap_Bytes" "g mod Page_Size = 0" if "g \<in> insert f (X \<union> P)" for g
    using pmm_inv_live(2,4) [OF a [THEN conjunct2, THEN conjunct1] that] lim by (auto simp: Page_Size_def frame_ok_def)
  then show "f < Physmap_Bytes" by blast
  show "set (S a) \<inter> set (frame_slots f) = {}" if "a \<noteq> 0" for a
  proof -
    have "x \<notin> set (frame_slots f)" if x: "x \<in> set (S a)" for x
    proof -
      obtain g where g: "g \<in> P" "x \<in> set (frame_slots g)" using P(3) [OF \<open>a \<noteq> 0\<close> x] by blast
      then have "set (frame_slots g) \<inter> set (frame_slots f) = {}" using a win [of g] win [of f] by (intro frame_slots_apart) auto
      then show ?thesis using g(2) by blast
    qed
    then show ?thesis by blast
  qed
  have "pmm_inv s' (X \<union> insert f P)" "X \<inter> insert f P = {}" using a P(2) by auto
  then show "sends_ok k' S' (rev (frame_slots f)) \<Longrightarrow> S' = S \<Longrightarrow> pool_ok X k' s' S' (rev (frame_slots f))"
    using lim P(3) unfolding pool_ok_def by (intro conjI exI [of _ "insert f P"]) auto
qed

lemma Grow_Send_Pool_ok:
  assumes "pool_ok X k s S []" and "Grow_Send_Pool k s = (k', s')"
  obtains F where "pool_ok X k' s' S F" and "fst (Allocate_Frame s) = Pmm_Ok \<Longrightarrow> F \<noteq> []" and "ip_threads k' = ip_threads k"
    and "ip_endpoints k' = ip_endpoints k" and "\<And>a x. a \<noteq> 0 \<Longrightarrow> x \<in> set (S a) \<Longrightarrow> ip_sends k' x = ip_sends k x"
proof -
  obtain st f s1 where al: "Allocate_Frame s = (st, f, s1)" by (metis prod.exhaust)
  show thesis
  proof (cases "st = Pmm_Ok")
    case False
    then have k': "k' = k" "s' = s1" using assms(2) al by (simp_all add: Grow_Send_Pool_def)
    obtain P where "pmm_inv s (X \<union> P)" "X \<inter> P = {}" "\<forall>a x. a \<noteq> 0 \<and> x \<in> set (S a) \<longrightarrow> (\<exists>f \<in> P. x \<in> set (frame_slots f))"
      using assms(1) unfolding pool_ok_def by auto
    with pm.alloc_none [OF _ al False] assms(1) Allocate_Frame_Limit [OF al] k' have "pool_ok X k' s' S []"
      unfolding pool_ok_def by auto
    then show thesis using k' False al by (intro that [of "[]"]) auto
  next
    case True
    note n = new_frame_slots [OF assms(1) al [unfolded True]] and so = pool_ok_sends [OF assms(1)]
    note slots = frame_slots_ok [OF n(1)]
    have k': "k' = fold Free_Queued_Send (frame_slots f) k" "s' = s1"
      using assms(2) al True by (simp_all add: Grow_Send_Pool_def frame_slots_def fold_map comp_def)
    have "links (\<lambda>x. qs_next_free (ip_sends k x)) (ip_send_free k) []" "distinct (frame_slots f @ [])"
      using so slots(1) by (simp_all add: sends_ok_def)
    note f = fold_free_ok(2-4) [OF this slots(2), folded k'(1)]
    have "sends_ok k' S (rev (frame_slots f))"
      using sends_ok_more [OF so, of "frame_slots f"] slots n(2) unfolding k'(1) by simp
    then have "pool_ok X k' s' S (rev (frame_slots f))" using n(3) k'(2) by blast
    moreover have "ip_sends k' x = ip_sends k x" if "a \<noteq> 0" "x \<in> set (S a)" for a x using f(1) n(2) [OF that(1)] that(2) by blast
    ultimately show thesis using f(2,3) slots(3) by (intro that [of "rev (frame_slots f)"]) auto
  qed
qed

text \<open>The message in a slot: label, words and badge.\<close>

definition copies :: "ipc \<Rightarrow> nat list \<Rightarrow> (u64 \<times> u64 list \<times> u64) list" where
  "copies k xs = map (\<lambda>x. (qs_label (ip_sends k x), qs_words (ip_sends k x), qs_badge (ip_sends k x))) xs"

lemma copies_cong: "(\<And>x. x \<in> set xs \<Longrightarrow> ip_sends k' x = ip_sends k x) \<Longrightarrow> copies k' xs = copies k xs"
  by (simp add: copies_def)

lemma Queue_Send_Copy_cases:
  assumes "pool_ok X k s S F" and "Queue_Send_Copy buf badge k s = (x, k2, s')"
  obtains k1 G where "pool_ok X k1 s' S G" and "ip_threads k1 = ip_threads k" and "ip_endpoints k1 = ip_endpoints k"
    and "\<forall>a y. a \<noteq> 0 \<longrightarrow> y \<in> set (S a) \<longrightarrow> ip_sends k1 y = ip_sends k y"
    and "G = [] \<longrightarrow> x = 0 \<and> k2 = k1 \<and> fst (Allocate_Frame s) \<noteq> Pmm_Ok"
    and "G \<noteq> [] \<longrightarrow> x = hd G \<and> k2 = (set_send x ((ip_sends k1 x)\<lparr>qs_next_free := 0, qs_in_use := True, qs_next := 0,
      qs_label := bm_label buf, qs_words := bm_words buf, qs_badge := badge\<rparr>) k1)\<lparr>ip_send_free := qs_next_free (ip_sends k1 x)\<rparr>"
proof -
  obtain k1 where g: "(if ip_send_free k = 0 then Grow_Send_Pool k s else (k, s)) = (k1, s')"
    using assms(2) by (auto simp: Queue_Send_Copy_def Alloc_Queued_Send_def Let_def split: prod.splits if_splits)
  obtain G where G: "pool_ok X k1 s' S G" "ip_threads k1 = ip_threads k" "ip_endpoints k1 = ip_endpoints k"
    "\<And>a y. a \<noteq> 0 \<Longrightarrow> y \<in> set (S a) \<Longrightarrow> ip_sends k1 y = ip_sends k y" "G = [] \<Longrightarrow> fst (Allocate_Frame s) \<noteq> Pmm_Ok"
  proof (cases "ip_send_free k = 0")
    case True
    then have "F = []" using assms(1) by (simp add: pool_ok_def sends_ok_def)
    then have "pool_ok X k s S []" "Grow_Send_Pool k s = (k1, s')" using assms(1) g True by simp_all
    then show thesis by (rule Grow_Send_Pool_ok) (rule that, assumption+, blast)
  next
    case False
    then have "F \<noteq> []" using assms(1) by (auto simp: pool_ok_def sends_ok_def)
    with assms(1) g False that [of F] show thesis by simp
  qed
  have l: "links (\<lambda>x. qs_next_free (ip_sends k1 x)) (ip_send_free k1) G" using G(1) by (simp add: pool_ok_def sends_ok_def)
  have run: "Queue_Send_Copy buf badge k s = (if ip_send_free k1 = 0 then (0, k1, s')
    else let x = ip_send_free k1 in (x, (set_send x ((ip_sends k1 x)\<lparr>qs_next_free := 0, qs_in_use := True, qs_next := 0,
      qs_label := bm_label buf, qs_words := bm_words buf, qs_badge := badge\<rparr>) k1)\<lparr>ip_send_free := qs_next_free (ip_sends k1 x)\<rparr>, s'))"
    by (simp add: Queue_Send_Copy_def Alloc_Queued_Send_def g Let_def set_send_def)
  have "ip_send_free k1 = hd G \<and> hd G \<noteq> 0" if "G \<noteq> []" using l that by (cases G) auto
  then show thesis using run assms(2) l G by (intro that [of k1 G]) (auto simp: Let_def)
qed

text \<open>The slot \<open>x\<close>, filled with \<open>q\<close>, leaves the free list and becomes the last copy of the endpoint.\<close>

definition append_slot :: "nat \<Rightarrow> nat \<Rightarrow> queued_send \<Rightarrow> ipc \<Rightarrow> ipc" where
  "append_slot a x q k =
     (let k = (set_send x q k)\<lparr>ip_send_free := qs_next_free (ip_sends k x)\<rparr>; e = ip_endpoints k a;
          k = (if ep_send_tail e = 0 then set_endpoint a (e\<lparr>ep_send_head := x\<rparr>) k
               else set_send (ep_send_tail e) ((ip_sends k (ep_send_tail e))\<lparr>qs_next := x\<rparr>) k)
      in set_endpoint a ((ip_endpoints k a)\<lparr>ep_send_tail := x\<rparr>) k)"

lemma append_slot_ok:
  assumes "pool_ok X k s S (x # F)" and "a \<noteq> 0" and "qs_next q = 0"
  shows "pool_ok X (append_slot a x q k) s (S(a := S a @ [x])) F" and "ip_threads (append_slot a x q k) = ip_threads k"
    and "(ip_endpoints (append_slot a x q k) c)\<lparr>ep_send_head := 0, ep_send_tail := 0\<rparr> = (ip_endpoints k c)\<lparr>ep_send_head := 0, ep_send_tail := 0\<rparr>"
    and "c \<noteq> 0 \<Longrightarrow> copies (append_slot a x q k) ((S(a := S a @ [x])) c) =
      copies k (S c) @ (if c = a then [(qs_label q, qs_words q, qs_badge q)] else [])"
proof -
  let ?k = "append_slot a x q k" and ?u = "last (S a)" and ?n = "\<lambda>z. if z = x then 0 else qs_next (ip_sends k z)"
  note so = pool_ok_sends [OF assms(1)]
  note D = sends_okD [OF so assms(2)]
  have fresh: "x \<noteq> 0" "x \<notin> set F" "distinct F" and apart: "\<And>c. c \<noteq> 0 \<Longrightarrow> x \<notin> set (S c)"
    using D(1,2) sends_okD(6) [OF so] by auto
  have u: "?u \<noteq> 0" "?u \<noteq> x" "?u \<in> set (S a)" if "S a \<noteq> []"
    using last_in_set [OF that] links_zero [OF D(3)] apart [OF assms(2)] by metis+
  have tail: "ep_send_tail (ip_endpoints k a) = 0 \<longleftrightarrow> S a = []" using D(5) u by auto
  have N: "ip_sends ?k z = (if z = x then q else if S a \<noteq> [] \<and> z = ?u then (ip_sends k z)\<lparr>qs_next := x\<rparr> else ip_sends k z)" for z
    using u D(5) tail by (auto simp: append_slot_def Let_def)
  have E: "ep_send_head (ip_endpoints ?k a) = (if S a = [] then x else ep_send_head (ip_endpoints k a))"
      "ep_send_tail (ip_endpoints ?k a) = x" "ip_send_free ?k = qs_next_free (ip_sends k x)"
      "\<And>c. c \<noteq> a \<Longrightarrow> ip_endpoints ?k c = ip_endpoints k c"
    using tail by (auto simp: append_slot_def Let_def)
  show "ip_threads ?k = ip_threads k"
    "(ip_endpoints ?k c)\<lparr>ep_send_head := 0, ep_send_tail := 0\<rparr> = (ip_endpoints k c)\<lparr>ep_send_head := 0, ep_send_tail := 0\<rparr>"
    by (auto simp: append_slot_def Let_def)
  have l: "links (\<lambda>z. qs_next (ip_sends ?k z)) (ep_send_head (ip_endpoints ?k a)) (S a @ [x])"
  proof (cases "S a = []")
    case False
    have "links ?n (ep_send_head (ip_endpoints k a)) (S a)"
      using D(3) apart [OF assms(2)] by (subst links_cong [where m = "\<lambda>z. qs_next (ip_sends k z)"]) auto
    then have "links (?n(?u := x)) (ep_send_head (ip_endpoints k a)) (S a @ [x])"
      using D(4) apart [OF assms(2)] fresh(1) False by (intro links_snoc) simp_all
    moreover have "(\<lambda>z. qs_next (ip_sends ?k z)) = ?n(?u := x)" using False u assms(3) by (auto simp: N fun_eq_iff)
    ultimately show ?thesis using False by (simp add: E)
  qed (use fresh assms(3) in \<open>simp add: E N\<close>)
  have "sends_ok ?k (S(a := S a @ [x])) F"
  proof (rule sends_ok_step [OF so assms(2) _ fresh(3) l])
    show "links (\<lambda>z. qs_next_free (ip_sends ?k z)) (ip_send_free ?k) F"
      using D(1) fresh(2) by (subst links_cong [where m = "\<lambda>z. qs_next_free (ip_sends k z)"]) (auto simp: N E)
    show "distinct (S a @ [x])" "set (S a @ [x]) \<inter> set F = {}" "set (S a @ [x]) \<union> set F = set (S a) \<union> set (x # F)"
      using D(4,6) apart [OF assms(2)] fresh(2) by auto
    show "ep_send_tail (ip_endpoints ?k a) = (if S a @ [x] = [] then 0 else last (S a @ [x]))" by (simp add: E)
    show "qs_next (ip_sends ?k z) = qs_next (ip_sends k z)" if "b \<noteq> 0" "b \<noteq> a" "z \<in> set (S b)" for b z
    proof -
      have "z \<noteq> x" "S a \<noteq> [] \<Longrightarrow> z \<noteq> ?u" using apart [OF that(1)] D(7) [OF that(1,2)] u(3) that(3) by blast+
      then show ?thesis by (auto simp: N)
    qed
    show "ep_send_head (ip_endpoints ?k b) = ep_send_head (ip_endpoints k b) \<and>
        ep_send_tail (ip_endpoints ?k b) = ep_send_tail (ip_endpoints k b)" if "b \<noteq> a" for b using that by (simp add: E)
  qed
  then show "pool_ok X ?k s (S(a := S a @ [x])) F"
    by (rule pool_ok_step [OF assms(1)]) (use assms(2) in \<open>auto split: if_splits\<close>)
  show "copies ?k ((S(a := S a @ [x])) c) = copies k (S c) @ (if c = a then [(qs_label q, qs_words q, qs_badge q)] else [])" if "c \<noteq> 0"
    using apart [OF that] by (auto simp: copies_def N)
qed

lemma Send_Queued_ok:
  assumes "pool_ok X k s S F" and "a \<noteq> 0" and "Send_Queued a buf badge k s = (b, k', s')"
  obtains S' F' where "pool_ok X k' s' S' F'" and "ip_threads k' = ip_threads k"
    and "\<And>c. (ip_endpoints k' c)\<lparr>ep_send_head := 0, ep_send_tail := 0\<rparr> = (ip_endpoints k c)\<lparr>ep_send_head := 0, ep_send_tail := 0\<rparr>"
    and "\<And>c. c \<noteq> 0 \<Longrightarrow> copies k' (S' c) = copies k (S c) @ (if b \<and> c = a then [(bm_label buf, bm_words buf, badge)] else [])"
    and "(\<exists>c \<in> set (bm_caps buf). c \<noteq> 0) \<Longrightarrow> \<not> b" and "\<not> b \<Longrightarrow> (\<exists>c \<in> set (bm_caps buf). c \<noteq> 0) \<or> fst (Allocate_Frame s) \<noteq> Pmm_Ok"
proof (cases "\<exists>c \<in> set (bm_caps buf). c \<noteq> 0")
  case True
  then show thesis using assms by (intro that [of S F]) (auto simp: Send_Queued_def)
next
  case False
  obtain x k2 s2 where q: "Queue_Send_Copy buf badge k s = (x, k2, s2)" by (metis prod.exhaust)
  obtain k1 G where G: "pool_ok X k1 s2 S G" "ip_threads k1 = ip_threads k" "ip_endpoints k1 = ip_endpoints k"
    "\<forall>a y. a \<noteq> 0 \<longrightarrow> y \<in> set (S a) \<longrightarrow> ip_sends k1 y = ip_sends k y" "G = [] \<longrightarrow> x = 0 \<and> k2 = k1 \<and> fst (Allocate_Frame s) \<noteq> Pmm_Ok"
    "G \<noteq> [] \<longrightarrow> x = hd G \<and> k2 = (set_send x ((ip_sends k1 x)\<lparr>qs_next_free := 0, qs_in_use := True, qs_next := 0,
      qs_label := bm_label buf, qs_words := bm_words buf, qs_badge := badge\<rparr>) k1)\<lparr>ip_send_free := qs_next_free (ip_sends k1 x)\<rparr>"
    using Queue_Send_Copy_cases [OF assms(1) q] by blast
  have old: "copies k1 (S c) = copies k (S c)" if "c \<noteq> 0" for c by (rule copies_cong) (use G(4) that in blast)
  show thesis
  proof (cases G)
    case Nil
    then have "b = False" "k' = k1" "s' = s2" using assms(3) False q G(5) by (auto simp: Send_Queued_def)
    then show thesis using G(1-3,5) old Nil by (intro that [of S G]) auto
  next
    case (Cons y F')
    let ?q = "(ip_sends k1 x)\<lparr>qs_next_free := 0, qs_in_use := True, qs_next := 0, qs_label := bm_label buf, qs_words := bm_words buf, qs_badge := badge\<rparr>"
    have p: "pool_ok X k1 s2 S (x # F')" and k2: "k2 = (set_send x ?q k1)\<lparr>ip_send_free := qs_next_free (ip_sends k1 x)\<rparr>"
      using G(1,6) Cons by auto
    note ap = append_slot_ok [OF p assms(2), of ?q, simplified]
    have "x \<noteq> 0" using pool_ok_sends [OF p] by (auto simp: sends_ok_def)
    then have "b = True" "s' = s2" "k' = append_slot a x ?q k1"
      using assms(3) False q by (auto simp: Send_Queued_def Let_def k2 append_slot_def)
    then show thesis using ap G(2,3) old False by (intro that [of "S(a := S a @ [x])" F']) auto
  qed
qed

lemma Receive_Queued_ok:
  assumes "pool_ok X k s S F" and "a \<noteq> 0"
  shows "S a = [] \<Longrightarrow> Receive_Queued a buf k = None"
    and "S a = x # xs \<Longrightarrow> \<exists>k'. Receive_Queued a buf k = Some (buf\<lparr>bm_label := qs_label (ip_sends k x), bm_words := qs_words (ip_sends k x),
        bm_badge := qs_badge (ip_sends k x), bm_caps := replicate 4 0\<rparr>, k') \<and> pool_ok X k' s (S(a := xs)) (x # F) \<and> ip_threads k' = ip_threads k \<and>
      (\<forall>c. (ip_endpoints k' c)\<lparr>ep_send_head := 0, ep_send_tail := 0\<rparr> = (ip_endpoints k c)\<lparr>ep_send_head := 0, ep_send_tail := 0\<rparr>) \<and>
      (\<forall>c. c \<noteq> 0 \<longrightarrow> copies k' ((S(a := xs)) c) = copies k ((S(a := xs)) c))"
proof -
  note so = pool_ok_sends [OF assms(1)]
  note D = sends_okD [OF so assms(2)]
  show "S a = [] \<Longrightarrow> Receive_Queued a buf k = None" using D(3) by (simp add: Receive_Queued_def)
  assume a: "S a = x # xs"
  note D = D [unfolded a]
  have h: "ep_send_head (ip_endpoints k a) = x" "x \<noteq> 0" and n: "qs_next (ip_sends k x) = 0 \<longleftrightarrow> xs = []"
    using D(3) by (auto dest: links_head)
  define e where "e = (ip_endpoints k a)\<lparr>ep_send_head := qs_next (ip_sends k x), ep_send_tail := (if xs = [] then 0 else ep_send_tail (ip_endpoints k a))\<rparr>"
  let ?k = "Free_Queued_Send x (set_endpoint a e k)"
  have run: "Receive_Queued a buf k = Some (buf\<lparr>bm_label := qs_label (ip_sends k x), bm_words := qs_words (ip_sends k x),
      bm_badge := qs_badge (ip_sends k x), bm_caps := replicate 4 0\<rparr>, ?k)"
    using h n by (simp add: Receive_Queued_def Let_def e_def)
  have apart: "x \<notin> set ((S(a := xs)) c)" if "c \<noteq> 0" for c using D(4) D(7) [OF that] by auto
  have "sends_ok ?k (S(a := xs)) (x # F)"
  proof (rule sends_ok_step [OF so assms(2)])
    show "links (\<lambda>z. qs_next_free (ip_sends ?k z)) (ip_send_free ?k) (x # F)"
    proof -
      have "x \<notin> set F" using D(6) by simp
      then have "links (\<lambda>z. qs_next_free (ip_sends ?k z)) (ip_send_free k) F"
        using D(1) by (subst links_cong [where m = "\<lambda>z. qs_next_free (ip_sends k z)"]) auto
      then show ?thesis using h(2) by simp
    qed
    show "distinct (x # F)" "distinct xs" "set xs \<inter> set (x # F) = {}" "set xs \<union> set (x # F) = set (S a) \<union> set F"
      using D(2,4,6) a by auto
    show "links (\<lambda>z. qs_next (ip_sends ?k z)) (ep_send_head (ip_endpoints ?k a)) xs"
      using D(3,4) by (subst links_cong [where m = "\<lambda>z. qs_next (ip_sends k z)"]) (auto simp: e_def)
    show "ep_send_tail (ip_endpoints ?k a) = (if xs = [] then 0 else last xs)" using D(5) by (simp add: e_def)
    show "qs_next (ip_sends ?k z) = qs_next (ip_sends k z)" if "b \<noteq> 0" "b \<noteq> a" "z \<in> set (S b)" for b z
      using apart [OF that(1)] that(2,3) by auto
    show "ep_send_head (ip_endpoints ?k b) = ep_send_head (ip_endpoints k b) \<and>
        ep_send_tail (ip_endpoints ?k b) = ep_send_tail (ip_endpoints k b)" if "b \<noteq> a" for b using that by simp
  qed
  then have "pool_ok X ?k s (S(a := xs)) (x # F)"
    by (rule pool_ok_step [OF assms(1)]) (use assms(2) a in \<open>auto split: if_splits\<close>)
  moreover have "copies ?k ((S(a := xs)) c) = copies k ((S(a := xs)) c)" if "c \<noteq> 0" for c
    by (rule copies_cong) (use apart [OF that] in auto)
  ultimately show "\<exists>k'. Receive_Queued a buf k = Some (buf\<lparr>bm_label := qs_label (ip_sends k x), bm_words := qs_words (ip_sends k x),
        bm_badge := qs_badge (ip_sends k x), bm_caps := replicate 4 0\<rparr>, k') \<and> pool_ok X k' s (S(a := xs)) (x # F) \<and> ip_threads k' = ip_threads k \<and>
      (\<forall>c. (ip_endpoints k' c)\<lparr>ep_send_head := 0, ep_send_tail := 0\<rparr> = (ip_endpoints k c)\<lparr>ep_send_head := 0, ep_send_tail := 0\<rparr>) \<and>
      (\<forall>c. c \<noteq> 0 \<longrightarrow> copies k' ((S(a := xs)) c) = copies k ((S(a := xs)) c))"
    unfolding run by (intro exI [of _ ?k]) (simp add: e_def)
qed

subsection \<open>Failing an endpoint empties it\<close>

lemma woken_state:
  "et_state (woken v r) = (if et_state r \<in> {Dead, Running, Ready} then et_state r else Ready)"
  "et_saved (woken v r) = (if et_state r \<in> {Dead, Running, Ready} then et_saved r else v)"
  by (simp_all add: woken_def)

lemma sends_ok_drop:
  assumes "pool_ok X k s S F" and "a \<noteq> 0"
    and "k' = (let k = fold Free_Queued_Send (S a) k in set_endpoint a ((ip_endpoints k a)\<lparr>ep_send_head := 0, ep_send_tail := 0\<rparr>) k)"
  shows "pool_ok X k' s (S(a := [])) (rev (S a) @ F)" and "c \<noteq> 0 \<Longrightarrow> copies k' ((S(a := [])) c) = (if c = a then [] else copies k (S c))"
proof -
  note so = pool_ok_sends [OF assms(1)]
  note D = sends_okD [OF so assms(2)]
  have "distinct (S a @ F)" "0 \<notin> set (S a)" using D(2,4,6) links_zero [OF D(3)] by auto
  note f = fold_free_ok [OF D(1) this]
  have N: "ip_sends k' x = ip_sends k x" if "x \<notin> set (S a)" for x using f(2) [OF that] assms(3) by (simp add: Let_def)
  have "sends_ok k' (S(a := [])) (rev (S a) @ F)"
  proof (rule sends_ok_step [OF so assms(2)])
    show "links (\<lambda>z. qs_next_free (ip_sends k' z)) (ip_send_free k') (rev (S a) @ F)" using f(1) assms(3) by (simp add: Let_def)
    show "distinct (rev (S a) @ F)" "set [] \<union> set (rev (S a) @ F) = set (S a) \<union> set F" using D(2,4,6) by auto
    show "qs_next (ip_sends k' z) = qs_next (ip_sends k z)" if "b \<noteq> 0" "b \<noteq> a" "z \<in> set (S b)" for b z
    proof -
      have "z \<notin> set (S a)" using D(7) [OF that(1,2)] that(3) by blast
      then show ?thesis by (simp add: N)
    qed
    show "ep_send_head (ip_endpoints k' b) = ep_send_head (ip_endpoints k b) \<and>
        ep_send_tail (ip_endpoints k' b) = ep_send_tail (ip_endpoints k b)" if "b \<noteq> a" for b
      using that f(4) assms(3) by (simp add: Let_def)
  qed (simp_all add: assms(3) Let_def)
  then show "pool_ok X k' s (S(a := [])) (rev (S a) @ F)"
    by (rule pool_ok_step [OF assms(1)]) (use assms(2) in \<open>auto split: if_splits\<close>)
  show "copies k' ((S(a := [])) c) = (if c = a then [] else copies k (S c))" if "c \<noteq> 0"
  proof (cases "c = a")
    case False
    have "copies k' (S c) = copies k (S c)" by (rule copies_cong) (use N D(7) [OF that False] in blast)
    then show ?thesis using False by simp
  qed (simp add: copies_def)
qed

text \<open>The state after the callers are gone and the stored tail is reset.\<close>

lemma fail_callers_stage:
  assumes "queue_ok k Q" and "pool_ok X k s S F" and "a \<noteq> 0"
  obtains k2 where "fail_callers a (set_endpoint a ((ip_endpoints k a)\<lparr>ep_failed := True\<rparr>) k) = Some k2"
    and "queue_ok k2 (Q(a := []))"
    and "\<forall>t. ip_threads k2 t = (if t \<in> set (Q a) then woken Result_Endpoint_Gone ((ip_threads k t)\<lparr>et_next := 0, et_on := 0\<rparr>) else ip_threads k t)"
    and "ip_endpoints k2 = (ip_endpoints k)(a := (ip_endpoints k a)\<lparr>ep_failed := True, ep_head := 0\<rparr>)"
    and "pool_ok X (set_endpoint a ((ip_endpoints k2 a)\<lparr>ep_tail := 0\<rparr>) k2) s S F" and "\<forall>xs. copies k2 xs = copies k xs"
proof -
  let ?k1 = "set_endpoint a ((ip_endpoints k a)\<lparr>ep_failed := True\<rparr>) k"
  have "queue_ok ?k1 Q" by (rule queue_ok_cong [OF assms(1)]) simp_all
  from fail_callers_ok [OF this assms(3)] obtain k2 where k2: "fail_callers a ?k1 = Some k2" "queue_ok k2 (Q(a := []))"
      "\<forall>t. ip_threads k2 t = (if t \<in> set (Q a) then woken Result_Endpoint_Gone ((ip_threads k t)\<lparr>et_next := 0, et_on := 0\<rparr>) else ip_threads k t)"
      "ip_endpoints k2 = (ip_endpoints k)(a := (ip_endpoints k a)\<lparr>ep_failed := True, ep_head := 0\<rparr>)"
      "ip_sends k2 = ip_sends k" "ip_send_free k2 = ip_send_free k"
    by auto
  let ?k3 = "set_endpoint a ((ip_endpoints k2 a)\<lparr>ep_tail := 0\<rparr>) k2"
  have "sends_ok ?k3 S F" by (rule sends_ok_cong [OF pool_ok_sends [OF assms(2)]]) (simp_all add: k2(4-6))
  then have "pool_ok X ?k3 s S F" by (rule pool_ok_step [OF assms(2)]) blast
  with k2 show thesis by (intro that [of k2]) (simp_all add: copies_def)
qed

lemma fail_sends_stage:
  assumes "pool_ok X k s S F" and "a \<noteq> 0"
  shows "fail_sends (ep_send_head (ip_endpoints k a)) k = Some (fold Free_Queued_Send (S a) k)"
    and "ip_threads (fold Free_Queued_Send (S a) k) = ip_threads k" and "ip_endpoints (fold Free_Queued_Send (S a) k) = ip_endpoints k"
proof -
  note D = sends_okD [OF pool_ok_sends [OF assms(1)] assms(2)]
  show "fail_sends (ep_send_head (ip_endpoints k a)) k = Some (fold Free_Queued_Send (S a) k)" by (rule fail_sends_fold [OF D(3,4)])
  have "distinct (S a @ F)" "0 \<notin> set (S a)" using D(2,4,6) links_zero [OF D(3)] by auto
  from fold_free_ok(3,4) [OF D(1) this]
  show "ip_threads (fold Free_Queued_Send (S a) k) = ip_threads k" "ip_endpoints (fold Free_Queued_Send (S a) k) = ip_endpoints k" .
qed

lemma Fail_Endpoint_ok:
  assumes "queue_ok k Q" and "pool_ok X k s S F" and "a \<noteq> 0" and "\<not> ep_failed (ip_endpoints k a)"
  obtains k' where "Fail_Endpoint a k = Some k'" and "queue_ok k' (Q(a := []))" and "tail_ok k' [] a"
    and "pool_ok X k' s (S(a := [])) (rev (S a) @ F)" and "\<forall>c. c \<noteq> 0 \<longrightarrow> copies k' ((S(a := [])) c) = (if c = a then [] else copies k (S c))"
    and "\<forall>b. b \<noteq> a \<longrightarrow> ip_endpoints k' b = ip_endpoints k b" and "ep_failed (ip_endpoints k' a)" and "ep_receiver (ip_endpoints k' a) = 0"
    and "\<forall>t. et_state (ip_threads k' t) = et_state (ip_threads k t) \<and> et_saved (ip_threads k' t) = et_saved (ip_threads k t) \<or>
      et_state (ip_threads k' t) = Ready \<and> et_saved (ip_threads k' t) = Result_Endpoint_Gone"
    and "\<forall>t. t \<in> set (Q a) \<or> t = ep_receiver (ip_endpoints k a) \<and> t \<noteq> 0 \<longrightarrow> et_state (ip_threads k' t) \<in> {Dead, Running, Ready}"
proof -
  obtain k2 where k2: "fail_callers a (set_endpoint a ((ip_endpoints k a)\<lparr>ep_failed := True\<rparr>) k) = Some k2" "queue_ok k2 (Q(a := []))"
      "\<forall>t. ip_threads k2 t = (if t \<in> set (Q a) then woken Result_Endpoint_Gone ((ip_threads k t)\<lparr>et_next := 0, et_on := 0\<rparr>) else ip_threads k t)"
      "ip_endpoints k2 = (ip_endpoints k)(a := (ip_endpoints k a)\<lparr>ep_failed := True, ep_head := 0\<rparr>)"
      "pool_ok X (set_endpoint a ((ip_endpoints k2 a)\<lparr>ep_tail := 0\<rparr>) k2) s S F" "\<forall>xs. copies k2 xs = copies k xs"
    using fail_callers_stage [OF assms(1-3)] by blast
  let ?k3 = "set_endpoint a ((ip_endpoints k2 a)\<lparr>ep_tail := 0\<rparr>) k2" and ?r = "ep_receiver (ip_endpoints k a)"
  note f = fail_sends_stage [OF k2(5) assms(3)]
  define k5 where "k5 = (let k = fold Free_Queued_Send (S a) ?k3 in set_endpoint a ((ip_endpoints k a)\<lparr>ep_send_head := 0, ep_send_tail := 0\<rparr>) k)"
  note d = sends_ok_drop [OF k2(5) assms(3) k5_def]
  have E5: "ip_endpoints k5 = (ip_endpoints k)(a := (ip_endpoints k a)\<lparr>ep_failed := True, ep_head := 0, ep_tail := 0, ep_send_head := 0, ep_send_tail := 0\<rparr>)"
    and T5: "ip_threads k5 = ip_threads k2"
    using f(2,3) k2(4) by (simp_all add: k5_def Let_def)
  define k7 where "k7 = (let k = Wake_With_Result ?r Result_Endpoint_Gone k5 in set_endpoint a ((ip_endpoints k a)\<lparr>ep_receiver := 0\<rparr>) k)"
  have E7: "ip_endpoints k7 = (ip_endpoints k5)(a := (ip_endpoints k5 a)\<lparr>ep_receiver := 0\<rparr>)" and S7: "ip_sends k7 = ip_sends k5" "ip_send_free k7 = ip_send_free k5"
    by (simp_all add: k7_def Let_def)
  have T7: "ip_threads k7 t = (if t = ?r \<and> t \<noteq> 0 then woken Result_Endpoint_Gone (ip_threads k2 t) else ip_threads k2 t)" for t
    by (cases "?r = 0") (auto simp: k7_def Let_def T5)
  show thesis
  proof (rule that)
    show "Fail_Endpoint a k = Some k7"
      using assms(3,4) k2(1,4) f(1,3) by (simp add: Fail_Endpoint_def k5_def k7_def Let_def)
    show "queue_ok k7 (Q(a := []))" by (rule queue_ok_cong [OF k2(2)]) (simp_all add: T7 E7 E5 k2(4))
    show "tail_ok k7 [] a" "\<forall>b. b \<noteq> a \<longrightarrow> ip_endpoints k7 b = ip_endpoints k b" "ep_failed (ip_endpoints k7 a)" "ep_receiver (ip_endpoints k7 a) = 0"
      by (simp_all add: tail_ok_def E7 E5)
    have "sends_ok k7 (S(a := [])) (rev (S a) @ F)" by (rule sends_ok_cong [OF pool_ok_sends [OF d(1)]]) (simp_all add: S7 E7)
    then show "pool_ok X k7 s (S(a := [])) (rev (S a) @ F)" by (rule pool_ok_step [OF d(1)]) blast
    have "copies k7 xs = copies k5 xs" "copies ?k3 xs = copies k xs" for xs using k2(6) by (simp_all add: copies_def S7)
    then show "\<forall>c. c \<noteq> 0 \<longrightarrow> copies k7 ((S(a := [])) c) = (if c = a then [] else copies k (S c))" using d(2) by simp
    show "\<forall>t. et_state (ip_threads k7 t) = et_state (ip_threads k t) \<and> et_saved (ip_threads k7 t) = et_saved (ip_threads k t) \<or>
      et_state (ip_threads k7 t) = Ready \<and> et_saved (ip_threads k7 t) = Result_Endpoint_Gone"
      "\<forall>t. t \<in> set (Q a) \<or> t = ?r \<and> t \<noteq> 0 \<longrightarrow> et_state (ip_threads k7 t) \<in> {Dead, Running, Ready}"
      by (auto simp: T7 k2(3) woken_state)
  qed
qed

subsection \<open>Runs\<close>

text \<open>
  The calls, with what the code makes sure of before it makes them: a thread that is queued is blocked and makes no call, and an
  endpoint that failed takes neither callers nor copies. \<open>Op_State\<close> is a change of the state of a thread by another part of the
  kernel. Between the calls other parts take and give back frames.
\<close>

datatype ep_op =
  Op_Enqueue nat nat | Op_Dequeue nat | Op_Cleanup nat nat | Op_Fail nat | Op_Send nat buffer_message u64 | Op_Receive nat buffer_message |
  Op_State nat thread_state

datatype ep_result = Res_Done | Res_Thread nat | Res_Sent bool | Res_Message "buffer_message option"

fun ep_admissible :: "ep_op \<Rightarrow> ipc \<Rightarrow> bool" where
  "ep_admissible (Op_Enqueue a t) k \<longleftrightarrow> a \<noteq> 0 \<and> t \<noteq> 0 \<and> et_on (ip_threads k t) = 0 \<and> \<not> ep_failed (ip_endpoints k a)"
| "ep_admissible (Op_Dequeue a) k \<longleftrightarrow> a \<noteq> 0"
| "ep_admissible (Op_Cleanup t a) k \<longleftrightarrow> a \<noteq> 0 \<and> t \<noteq> 0"
| "ep_admissible (Op_Fail a) k \<longleftrightarrow> a \<noteq> 0"
| "ep_admissible (Op_Send a buf badge) k \<longleftrightarrow> a \<noteq> 0 \<and> \<not> ep_failed (ip_endpoints k a)"
| "ep_admissible (Op_Receive a buf) k \<longleftrightarrow> a \<noteq> 0"
| "ep_admissible (Op_State t x) k \<longleftrightarrow> True"

fun ep_exec :: "ep_op \<Rightarrow> ipc \<Rightarrow> pmm \<Rightarrow> (ep_result \<times> ipc \<times> pmm) option" where
  "ep_exec (Op_Enqueue a t) k s = Some (Res_Done, Enqueue_Caller a t k, s)"
| "ep_exec (Op_Dequeue a) k s = (case Dequeue_Caller a k of None \<Rightarrow> None | Some (t, k) \<Rightarrow> Some (Res_Thread t, k, s))"
| "ep_exec (Op_Cleanup t a) k s = (case Ep_Cleanup_Thread_Cap t a k of None \<Rightarrow> None | Some k \<Rightarrow> Some (Res_Done, k, s))"
| "ep_exec (Op_Fail a) k s = (case Fail_Endpoint a k of None \<Rightarrow> None | Some k \<Rightarrow> Some (Res_Done, k, s))"
| "ep_exec (Op_Send a buf badge) k s = (case Send_Queued a buf badge k s of (b, k, s) \<Rightarrow> Some (Res_Sent b, k, s))"
| "ep_exec (Op_Receive a buf) k s = (case Receive_Queued a buf k of None \<Rightarrow> Some (Res_Message None, k, s) | Some (m, k) \<Rightarrow> Some (Res_Message (Some m), k, s))"
| "ep_exec (Op_State t x) k s = Some (Res_Done, set_thread t ((ip_threads k t)\<lparr>et_state := x\<rparr>) k, s)"

text \<open>
  The specification: for every endpoint a list of callers and a list of messages. A caller that died is passed over. \<open>full\<close> says
  that the allocator has no frame left.
\<close>

type_synonym ep_abs = "(nat \<Rightarrow> nat list) \<times> (nat \<Rightarrow> (u64 \<times> u64 list \<times> u64) list)"

fun abs_next :: "(nat \<Rightarrow> bool) \<Rightarrow> ep_op \<Rightarrow> ep_result \<Rightarrow> ep_abs \<Rightarrow> ep_abs" where
  "abs_next dead (Op_Enqueue a t) r (Q, M) = (Q(a := Q a @ [t]), M)"
| "abs_next dead (Op_Dequeue a) r (Q, M) = (Q(a := tl (dropWhile dead (Q a))), M)"
| "abs_next dead (Op_Cleanup t a) r (Q, M) = (Q(a := remove1 t (Q a)), M)"
| "abs_next dead (Op_Fail a) r (Q, M) = (Q(a := []), M(a := []))"
| "abs_next dead (Op_Send a buf badge) r (Q, M) =
     (Q, if r = Res_Sent True then M(a := M a @ [(bm_label buf, bm_words buf, badge)]) else M)"
| "abs_next dead (Op_Receive a buf) r (Q, M) = (Q, M(a := tl (M a)))"
| "abs_next dead (Op_State t x) r (Q, M) = (Q, M)"

fun abs_result :: "(nat \<Rightarrow> bool) \<Rightarrow> bool \<Rightarrow> ep_op \<Rightarrow> ep_abs \<Rightarrow> ep_result \<Rightarrow> bool" where
  "abs_result dead full (Op_Dequeue a) (Q, M) r \<longleftrightarrow> r = Res_Thread (case dropWhile dead (Q a) of [] \<Rightarrow> 0 | t # _ \<Rightarrow> t)"
| "abs_result dead full (Op_Send a buf badge) (Q, M) r \<longleftrightarrow>
     (let caps = (\<exists>c \<in> set (bm_caps buf). c \<noteq> 0) in r = Res_Sent True \<and> \<not> caps \<or> r = Res_Sent False \<and> (caps \<or> full))"
| "abs_result dead full (Op_Receive a buf) (Q, M) r \<longleftrightarrow> r = Res_Message (case M a of [] \<Rightarrow> None
     | (l, w, b) # _ \<Rightarrow> Some (buf\<lparr>bm_label := l, bm_words := w, bm_badge := b, bm_caps := replicate 4 0\<rparr>))"
| "abs_result dead full _ (Q, M) r \<longleftrightarrow> r = Res_Done"

text \<open>\<open>represents\<close>: the linked lists of the kernel are the lists of the specification, with their stored tails.\<close>

definition represents :: "ipc \<Rightarrow> ep_abs \<Rightarrow> bool" where
  "represents k A \<longleftrightarrow> queue_ok k (fst A) \<and> (\<forall>a. a \<noteq> 0 \<longrightarrow> tail_ok k (fst A a) a) \<and>
     (\<exists>S F. sends_ok k S F \<and> (\<forall>a. a \<noteq> 0 \<longrightarrow> snd A a = copies k (S a)))"

inductive ep_run :: "nat set \<Rightarrow> ipc \<Rightarrow> pmm \<Rightarrow> ep_abs \<Rightarrow> bool" where
  boot: "pmm_run s X \<Longrightarrow> Limit s \<le> Physmap_Bytes \<Longrightarrow> \<forall>t. et_on (ip_threads k t) = 0 \<Longrightarrow>
    \<forall>a. ep_head (ip_endpoints k a) = 0 \<and> ep_tail (ip_endpoints k a) = 0 \<and> ep_send_head (ip_endpoints k a) = 0 \<and>
      ep_send_tail (ip_endpoints k a) = 0 \<Longrightarrow> ip_send_free k = 0 \<Longrightarrow> ep_run X k s (\<lambda>_. [], \<lambda>_. [])"
| call: "ep_run X k s A \<Longrightarrow> ep_admissible op k \<Longrightarrow> ep_exec op k s = Some (r, k', s') \<Longrightarrow>
    ep_run X k' s' (abs_next (\<lambda>t. Is_Dead t k) op r A)"
| grab: "ep_run X k s A \<Longrightarrow> Allocate_Frame s = (Pmm_Ok, f, s') \<Longrightarrow> ep_run (insert f X) k s' A"
| drop: "ep_run X k s A \<Longrightarrow> f \<in> X \<Longrightarrow> Deallocate_Frame f s = Some (st, s') \<Longrightarrow> ep_run (X - {f}) k s' A"

definition ep_inv :: "nat set \<Rightarrow> ipc \<Rightarrow> pmm \<Rightarrow> ep_abs \<Rightarrow> bool" where
  "ep_inv X k s A \<longleftrightarrow> queue_ok k (fst A) \<and>
     (\<forall>a. a \<noteq> 0 \<longrightarrow> tail_ok k (fst A a) a \<and> (ep_failed (ip_endpoints k a) \<longrightarrow> fst A a = [] \<and> snd A a = [])) \<and>
     (\<exists>S F. pool_ok X k s S F \<and> (\<forall>a. a \<noteq> 0 \<longrightarrow> snd A a = copies k (S a)))"

lemma ep_inv_represents: "ep_inv X k s A \<Longrightarrow> represents k A"
  unfolding ep_inv_def represents_def by (metis pool_ok_sends)

lemma Enqueue_same_rest:
  assumes "queue_ok k Q" and "a \<noteq> 0" and "et_on (ip_threads k t) = 0" and "tail_fixable k (Q a) a t"
  shows "same_rest a k (Enqueue_Caller a t k)"
  by (simp add: Enqueue_Caller_eq [OF assms] Let_def same_rest_def)

lemma ep_inv_queue:
  assumes "ep_inv X k s (Q, M)" and "a \<noteq> 0" and "queue_ok k' (Q(a := xs))" and "tail_ok k' xs a" and "same_rest a k k'"
    and "ep_failed (ip_endpoints k a) \<longrightarrow> xs = []"
  shows "ep_inv X k' s (Q(a := xs), M)"
proof -
  obtain S F where p: "pool_ok X k s S F" "\<forall>a. a \<noteq> 0 \<longrightarrow> M a = copies k (S a)" using assms(1) by (auto simp: ep_inv_def)
  have e: "ep_send_head (ip_endpoints k' b) = ep_send_head (ip_endpoints k b)" "ep_send_tail (ip_endpoints k' b) = ep_send_tail (ip_endpoints k b)"
      "ep_failed (ip_endpoints k' b) = ep_failed (ip_endpoints k b)" "b \<noteq> a \<Longrightarrow> tail_ok k' ys b = tail_ok k ys b" for b ys
    using assms(5) by (cases "b = a"; simp add: same_rest_def tail_ok_def)+
  have s: "ip_sends k' = ip_sends k" "ip_send_free k' = ip_send_free k" using assms(5) by (simp_all add: same_rest_def)
  have "sends_ok k' S F" by (rule sends_ok_cong [OF pool_ok_sends [OF p(1)]]) (simp_all add: e s)
  then have "pool_ok X k' s S F" by (rule pool_ok_step [OF p(1)]) blast
  moreover have "\<forall>a. a \<noteq> 0 \<longrightarrow> M a = copies k' (S a)" using p(2) s by (simp add: copies_def)
  moreover have "\<forall>b. b \<noteq> 0 \<longrightarrow> tail_ok k' ((Q(a := xs)) b) b \<and> (ep_failed (ip_endpoints k' b) \<longrightarrow> (Q(a := xs)) b = [] \<and> M b = [])"
    using assms(1,4,6) e(3,4) by (auto simp: ep_inv_def)
  ultimately show ?thesis using assms(3) unfolding ep_inv_def by auto
qed

lemma ep_inv_sends:
  assumes "ep_inv X k s (Q, M)" and "pool_ok X k' s' S' F'" and "ip_threads k' = ip_threads k"
    and "\<And>c. (ip_endpoints k' c)\<lparr>ep_send_head := 0, ep_send_tail := 0\<rparr> = (ip_endpoints k c)\<lparr>ep_send_head := 0, ep_send_tail := 0\<rparr>"
    and "\<And>c. c \<noteq> 0 \<Longrightarrow> M' c = copies k' (S' c)" and "\<And>c. c \<noteq> 0 \<Longrightarrow> ep_failed (ip_endpoints k c) \<Longrightarrow> M c = [] \<Longrightarrow> M' c = []"
  shows "ep_inv X k' s' (Q, M')"
proof -
  have e: "ep_head (ip_endpoints k' c) = ep_head (ip_endpoints k c)" "ep_tail (ip_endpoints k' c) = ep_tail (ip_endpoints k c)"
      "ep_failed (ip_endpoints k' c) = ep_failed (ip_endpoints k c)" for c
    using arg_cong [OF assms(4), of ep_head c] arg_cong [OF assms(4), of ep_tail c] arg_cong [OF assms(4), of ep_failed c] by simp_all
  have "queue_ok k Q" using assms(1) by (simp add: ep_inv_def)
  then have "queue_ok k' Q" by (rule queue_ok_cong) (simp_all add: assms(3) e)
  moreover have "tail_ok k' ys c = tail_ok k ys c" for ys c by (simp add: tail_ok_def e)
  ultimately show ?thesis using assms(1,2,5,6) e(3) unfolding ep_inv_def by fastforce
qed

lemma ep_send_ok:
  assumes "ep_inv X k s (Q, M)" and "a \<noteq> 0" and "\<not> ep_failed (ip_endpoints k a)" and "Send_Queued a buf badge k s = (b, k', s')"
  shows "ep_inv X k' s' (abs_next dead (Op_Send a buf badge) (Res_Sent b) (Q, M))"
    and "abs_result dead (fst (Allocate_Frame s) \<noteq> Pmm_Ok) (Op_Send a buf badge) (Q, M) (Res_Sent b)"
proof -
  obtain S F where p: "pool_ok X k s S F" "\<forall>a. a \<noteq> 0 \<longrightarrow> M a = copies k (S a)" using assms(1) by (auto simp: ep_inv_def)
  note ok = Send_Queued_ok [OF p(1) assms(2,4)]
  show "ep_inv X k' s' (abs_next dead (Op_Send a buf badge) (Res_Sent b) (Q, M))"
  proof (rule ok)
    fix S' F' assume h: "pool_ok X k' s' S' F'" "ip_threads k' = ip_threads k"
      "\<And>c. (ip_endpoints k' c)\<lparr>ep_send_head := 0, ep_send_tail := 0\<rparr> = (ip_endpoints k c)\<lparr>ep_send_head := 0, ep_send_tail := 0\<rparr>"
      "\<And>c. c \<noteq> 0 \<Longrightarrow> copies k' (S' c) = copies k (S c) @ (if b \<and> c = a then [(bm_label buf, bm_words buf, badge)] else [])"
    have "ep_inv X k' s' (Q, if b then M(a := M a @ [(bm_label buf, bm_words buf, badge)]) else M)"
      by (rule ep_inv_sends [OF assms(1) h(1-3)]) (use h(4) p(2) assms(3) in auto)
    then show ?thesis by simp
  qed
  show "abs_result dead (fst (Allocate_Frame s) \<noteq> Pmm_Ok) (Op_Send a buf badge) (Q, M) (Res_Sent b)"
    by (rule ok) (auto simp: Let_def)
qed

lemma ep_receive_ok:
  assumes "ep_inv X k s (Q, M)" and "a \<noteq> 0"
  shows "\<exists>r k'. ep_exec (Op_Receive a buf) k s = Some (r, k', s) \<and> abs_result dead full (Op_Receive a buf) (Q, M) r \<and>
    ep_inv X k' s (abs_next dead (Op_Receive a buf) r (Q, M))"
proof -
  obtain S F where p: "pool_ok X k s S F" "\<forall>a. a \<noteq> 0 \<longrightarrow> M a = copies k (S a)" using assms(1) by (auto simp: ep_inv_def)
  note ok = Receive_Queued_ok [OF p(1) assms(2)]
  show ?thesis
  proof (cases "S a")
    case Nil
    then have "M a = []" using p(2) assms(2) by (simp add: copies_def)
    then have "M(a := tl (M a)) = M" by (simp add: fun_upd_idem)
    then show ?thesis using ok(1) [OF Nil] \<open>M a = []\<close> assms(1) by simp
  next
    case (Cons x xs)
    then have m: "M a = (qs_label (ip_sends k x), qs_words (ip_sends k x), qs_badge (ip_sends k x)) # copies k xs"
      using p(2) assms(2) by (simp add: copies_def)
    obtain k' where k': "Receive_Queued a buf k = Some (buf\<lparr>bm_label := qs_label (ip_sends k x), bm_words := qs_words (ip_sends k x),
        bm_badge := qs_badge (ip_sends k x), bm_caps := replicate 4 0\<rparr>, k')" "pool_ok X k' s (S(a := xs)) (x # F)" "ip_threads k' = ip_threads k"
      "\<And>c. (ip_endpoints k' c)\<lparr>ep_send_head := 0, ep_send_tail := 0\<rparr> = (ip_endpoints k c)\<lparr>ep_send_head := 0, ep_send_tail := 0\<rparr>"
      "\<And>c. c \<noteq> 0 \<Longrightarrow> copies k' ((S(a := xs)) c) = copies k ((S(a := xs)) c)"
      using ok(2) [OF Cons, of buf] by blast
    have "ep_inv X k' s (Q, M(a := tl (M a)))"
      by (rule ep_inv_sends [OF assms(1) k'(2-4)]) (use k'(5) p(2) m in auto)
    then show ?thesis using k'(1) m by simp
  qed
qed

lemma ep_fail_ok:
  assumes "ep_inv X k s (Q, M)" and "a \<noteq> 0"
  shows "\<exists>k'. Fail_Endpoint a k = Some k' \<and> ep_inv X k' s (Q(a := []), M(a := [])) \<and> ep_failed (ip_endpoints k' a)"
proof (cases "ep_failed (ip_endpoints k a)")
  case True
  then have "Q a = []" "M a = []" using assms by (auto simp: ep_inv_def)
  then have "Q(a := []) = Q" "M(a := []) = M" by (simp_all add: fun_upd_idem)
  then show ?thesis using True assms by (simp add: Fail_Endpoint_def)
next
  case False
  obtain S F where p: "pool_ok X k s S F" "\<forall>a. a \<noteq> 0 \<longrightarrow> M a = copies k (S a)" and q: "queue_ok k Q"
    using assms(1) by (auto simp: ep_inv_def)
  obtain k' where k': "Fail_Endpoint a k = Some k'" "queue_ok k' (Q(a := []))" "tail_ok k' [] a" "pool_ok X k' s (S(a := [])) (rev (S a) @ F)"
      "\<forall>c. c \<noteq> 0 \<longrightarrow> copies k' ((S(a := [])) c) = (if c = a then [] else copies k (S c))"
      "\<forall>b. b \<noteq> a \<longrightarrow> ip_endpoints k' b = ip_endpoints k b" "ep_failed (ip_endpoints k' a)"
    by (rule Fail_Endpoint_ok [OF q p(1) assms(2) False]) (rule that, assumption+)
  have "\<forall>b. b \<noteq> 0 \<longrightarrow> tail_ok k' ((Q(a := [])) b) b \<and> (ep_failed (ip_endpoints k' b) \<longrightarrow> (Q(a := [])) b = [] \<and> (M(a := [])) b = [])"
    using assms(1) k'(3,6) by (auto simp: ep_inv_def tail_ok_def)
  moreover have "\<forall>c. c \<noteq> 0 \<longrightarrow> (M(a := [])) c = copies k' ((S(a := [])) c)" using p(2) k'(5) by simp
  ultimately have "ep_inv X k' s (Q(a := []), M(a := []))" using k'(2,4) unfolding ep_inv_def by auto
  then show ?thesis using k'(1,7) by blast
qed

text \<open>\<open>simulated\<close>: the call returns, its result is one the specification allows, and it does to the lists what the specification says.\<close>

definition simulated :: "nat set \<Rightarrow> ipc \<Rightarrow> pmm \<Rightarrow> ep_op \<Rightarrow> ep_abs \<Rightarrow> bool" where
  "simulated X k s op A \<longleftrightarrow> (\<exists>r k' s'. ep_exec op k s = Some (r, k', s') \<and>
     abs_result (\<lambda>t. Is_Dead t k) (fst (Allocate_Frame s) \<noteq> Pmm_Ok) op A r \<and> ep_inv X k' s' (abs_next (\<lambda>t. Is_Dead t k) op r A))"

lemma simulatedI:
  assumes "ep_exec op k s = Some (r, k', s')" and "abs_result (\<lambda>t. Is_Dead t k) (fst (Allocate_Frame s) \<noteq> Pmm_Ok) op A r"
    and "ep_inv X k' s' (abs_next (\<lambda>t. Is_Dead t k) op r A)"
  shows "simulated X k s op A"
  using assms unfolding simulated_def by blast

lemma enqueue_simulated:
  assumes "ep_inv X k s (Q, M)" and "ep_admissible (Op_Enqueue a x) k"
  shows "simulated X k s (Op_Enqueue a x) (Q, M)"
proof (rule simulatedI)
  have q: "queue_ok k Q" and h: "a \<noteq> 0" "x \<noteq> 0" "et_on (ip_threads k x) = 0" "\<not> ep_failed (ip_endpoints k a)" "tail_fixable k (Q a) a x"
    using assms by (auto simp: ep_inv_def tail_fixable_def)
  have "ep_inv X (Enqueue_Caller a x k) s (Q(a := Q a @ [x]), M)"
    by (rule ep_inv_queue [OF assms(1) h(1) Enqueue_Caller_ok(1,2) [OF q h(1-3,5)] Enqueue_same_rest [OF q h(1,3,5)]]) (use h(4) in blast)
  then show "ep_inv X (Enqueue_Caller a x k) s (abs_next (\<lambda>t. Is_Dead t k) (Op_Enqueue a x) Res_Done (Q, M))" by simp
qed simp_all

lemma dequeue_simulated:
  assumes "ep_inv X k s (Q, M)" and "a \<noteq> 0"
  shows "simulated X k s (Op_Dequeue a) (Q, M)"
proof -
  let ?xs = "dropWhile (\<lambda>t. Is_Dead t k) (Q a)"
  have q: "queue_ok k Q" "tail_ok k (Q a) a" "ep_failed (ip_endpoints k a) \<longrightarrow> Q a = []" using assms by (auto simp: ep_inv_def)
  obtain k' where k': "Dequeue_Caller a k = Some (case ?xs of [] \<Rightarrow> 0 | t # _ \<Rightarrow> t, k')" "queue_ok k' (Q(a := tl ?xs))"
      "tail_ok k' (tl ?xs) a" "same_rest a k k'"
    using Dequeue_Caller_ok [OF q(1) assms(2) q(2)] by blast
  have "ep_inv X k' s (Q(a := tl ?xs), M)"
    by (rule ep_inv_queue [OF assms(1,2) k'(2-4)]) (use q(3) in auto)
  with k'(1) show ?thesis by (intro simulatedI [where k' = k' and s' = s]) simp_all
qed

lemma cleanup_simulated:
  assumes "ep_inv X k s (Q, M)" and "a \<noteq> 0" and "x \<noteq> 0"
  shows "simulated X k s (Op_Cleanup x a) (Q, M)"
proof -
  have q: "queue_ok k Q" "tail_ok k (Q a) a" "ep_failed (ip_endpoints k a) \<longrightarrow> Q a = []" using assms by (auto simp: ep_inv_def)
  obtain k' where k': "Ep_Cleanup_Thread_Cap x a k = Some k'" "queue_ok k' (Q(a := remove1 x (Q a)))" "tail_ok k' (remove1 x (Q a)) a" "same_rest a k k'"
    using Ep_Cleanup_ok [OF q(1) assms(2,3) q(2)] by blast
  have "ep_inv X k' s (Q(a := remove1 x (Q a)), M)"
    by (rule ep_inv_queue [OF assms(1,2) k'(2-4)]) (use q(3) in auto)
  with k'(1) show ?thesis by (intro simulatedI [where r = Res_Done and k' = k' and s' = s]) simp_all
qed

lemma state_simulated:
  assumes "ep_inv X k s (Q, M)"
  shows "simulated X k s (Op_State x y) (Q, M)"
proof (rule simulatedI)
  let ?k = "set_thread x ((ip_threads k x)\<lparr>et_state := y\<rparr>) k"
  have "queue_ok k Q" using assms by (simp add: ep_inv_def)
  then have q: "queue_ok ?k Q" by (rule queue_ok_cong) simp_all
  obtain S F where p: "pool_ok X k s S F" "\<forall>a. a \<noteq> 0 \<longrightarrow> M a = copies k (S a)" using assms by (auto simp: ep_inv_def)
  have "sends_ok ?k S F" by (rule sends_ok_cong [OF pool_ok_sends [OF p(1)]]) simp_all
  then have "pool_ok X ?k s S F" by (rule pool_ok_step [OF p(1)]) blast
  moreover have "\<forall>a. a \<noteq> 0 \<longrightarrow> M a = copies ?k (S a)" using p(2) by (simp add: copies_def)
  ultimately have "ep_inv X ?k s (Q, M)" using assms q unfolding ep_inv_def tail_ok_def by auto
  then show "ep_inv X ?k s (abs_next (\<lambda>t. Is_Dead t k) (Op_State x y) Res_Done (Q, M))" by simp
qed simp_all

lemma ep_step_ok:
  assumes "ep_inv X k s A" and "ep_admissible op k"
  shows "simulated X k s op A"
proof -
  obtain Q M where A: "A = (Q, M)" by force
  note inv = assms(1) [unfolded A]
  show ?thesis
  proof (cases op)
    case (Op_Fail a)
    then obtain k' where "Fail_Endpoint a k = Some k'" "ep_inv X k' s (Q(a := []), M(a := []))"
      using ep_fail_ok [OF inv, of a] assms(2) by auto
    then show ?thesis unfolding Op_Fail A by (intro simulatedI [where r = Res_Done and k' = k' and s' = s]) simp_all
  next
    case (Op_Send a buf badge)
    obtain b k' s' where s: "Send_Queued a buf badge k s = (b, k', s')" by (metis prod.exhaust)
    from Op_Send assms(2) have "a \<noteq> 0" "\<not> ep_failed (ip_endpoints k a)" by simp_all
    note ok = ep_send_ok [OF inv this s]
    show ?thesis unfolding Op_Send A by (rule simulatedI [OF _ ok(2,1)]) (simp add: s)
  next
    case (Op_Receive a buf)
    then have "a \<noteq> 0" using assms(2) by simp
    from ep_receive_ok [OF inv this] show ?thesis unfolding Op_Receive A simulated_def by blast
  qed (use assms(2) enqueue_simulated [OF inv] dequeue_simulated [OF inv] cleanup_simulated [OF inv] state_simulated [OF inv] A in auto)
qed

lemma pool_ok_frames:
  assumes "pool_ok X k s S F" and "Limit s' = Limit s"
    and "\<And>P. pmm_inv s (X \<union> P) \<Longrightarrow> X \<inter> P = {} \<Longrightarrow> pmm_inv s' (Y \<union> P) \<and> Y \<inter> P = {}"
  shows "pool_ok Y k s' S F"
proof -
  obtain P where P: "pmm_inv s (X \<union> P)" "X \<inter> P = {}" "\<forall>a x. x \<in> set F \<or> a \<noteq> 0 \<and> x \<in> set (S a) \<longrightarrow> (\<exists>f \<in> P. x \<in> set (frame_slots f))"
    using assms(1) unfolding pool_ok_def by blast
  with assms(1,2) assms(3) [OF P(1,2)] show ?thesis unfolding pool_ok_def by auto
qed

lemma ep_inv_frames:
  assumes "ep_inv X k s A" and "Limit s' = Limit s"
    and "\<And>P. pmm_inv s (X \<union> P) \<Longrightarrow> X \<inter> P = {} \<Longrightarrow> pmm_inv s' (Y \<union> P) \<and> Y \<inter> P = {}"
  shows "ep_inv Y k s' A"
  using assms(1) pool_ok_frames [OF _ assms(2,3)] unfolding ep_inv_def by blast

lemma Deallocate_Frame_Limit: "Deallocate_Frame f s = Some (st, s') \<Longrightarrow> Limit s' = Limit s"
  by (auto simp: Deallocate_Frame_def Let_def poke_def split: if_splits option.splits bool.splits)

lemma ep_run_inv: "ep_run X k s A \<Longrightarrow> ep_inv X k s A"
proof (induction rule: ep_run.induct)
  case (boot s X k)
  have "queue_ok k (\<lambda>_. [])" "sends_ok k (\<lambda>_. []) []" using boot by (simp_all add: queue_ok_def sends_ok_def)
  moreover from this(2) have "pool_ok X k s (\<lambda>_. []) []" using boot(2) pmm_run_inv [OF boot(1)]
    unfolding pool_ok_def by (intro conjI exI [of _ "{}"]) auto
  ultimately show ?case using boot by (auto simp: ep_inv_def tail_ok_def copies_def)
next
  case (call X k s A op r k' s')
  from ep_step_ok [OF call.IH call.hyps(2)] call.hyps(3) show ?case by (auto simp: simulated_def)
next
  case (grab X k s A f s')
  show ?case
  proof (rule ep_inv_frames [OF grab.IH Allocate_Frame_Limit [OF grab.hyps(2)]])
    fix P assume "pmm_inv s (X \<union> P)" "X \<inter> P = {}"
    with pm.alloc_fresh [OF this(1) grab.hyps(2)] show "pmm_inv s' (insert f X \<union> P) \<and> insert f X \<inter> P = {}" by auto
  qed
next
  case (drop X k s A f st s')
  show ?case
  proof (rule ep_inv_frames [OF drop.IH Deallocate_Frame_Limit [OF drop.hyps(3)]])
    fix P assume P: "pmm_inv s (X \<union> P)" "X \<inter> P = {}"
    then have "X \<union> P - {f} = X - {f} \<union> P" using drop.hyps(2) by auto
    then show "pmm_inv s' (X - {f} \<union> P) \<and> (X - {f}) \<inter> P = {}"
      using pm.dealloc_live [OF P(1), of f] drop.hyps(2,3) P(2) by auto
  qed
qed

subsection \<open>Properties\<close>

text \<open>
  Property C15: the queues of endpoints refine lists. In every run, whatever parts of the kernel take and free frames in between, the
  links through thread control blocks and slots spell, for every endpoint, a list of callers and a list of messages, and the stored
  tails are their last elements. Every call returns; a caller is taken in the order of arrival and dead ones are passed over,
  removing a thread takes out that thread only, a message sent is received once, unchanged and in order, sending is refused only
  for a message with capabilities or when memory is exhausted, and failing an endpoint empties both lists.
\<close>

theorem endpoint_queues_refine:
  assumes "ep_run X k s A" and "ep_admissible op k"
  shows "represents k A \<and> (\<exists>r k' s'. ep_exec op k s = Some (r, k', s') \<and>
    abs_result (\<lambda>t. Is_Dead t k) (fst (Allocate_Frame s) \<noteq> Pmm_Ok) op A r \<and> represents k' (abs_next (\<lambda>t. Is_Dead t k) op r A))"
proof -
  note inv = ep_run_inv [OF assms(1)]
  obtain r k' s' where "ep_exec op k s = Some (r, k', s')" "abs_result (\<lambda>t. Is_Dead t k) (fst (Allocate_Frame s) \<noteq> Pmm_Ok) op A r"
      "ep_inv X k' s' (abs_next (\<lambda>t. Is_Dead t k) op r A)"
    using ep_step_ok [OF inv assms(2)] unfolding simulated_def by blast
  then show ?thesis using ep_inv_represents [OF inv] ep_inv_represents by blast
qed

definition ep_demo :: ipc where
  "ep_demo = \<lparr>ip_threads = (\<lambda>_. \<lparr>et_state = Blocked_Send, et_saved = 0, et_awaiting = False, et_next = 0, et_on = 0, et_recv = 0\<rparr>),
     ip_sends = (\<lambda>_. \<lparr>qs_label = 0, qs_words = [], qs_badge = 0, qs_next = 0, qs_in_use = False, qs_next_free = 0\<rparr>),
     ip_endpoints = (\<lambda>_. \<lparr>ep_head = 0, ep_tail = 0, ep_receiver = 0, ep_send_head = 0, ep_send_tail = 0, ep_failed = False\<rparr>),
     ip_send_free = 0, ip_pushed = []\<rparr>"

lemma ep_demo_run: "ep_run {} ep_demo pmm_demo (\<lambda>_. [], \<lambda>_. [])"
  by (rule ep_run.boot [OF pmm_demo_run]) (simp_all add: ep_demo_def pmm_demo_eq pmm_off_def Physmap_Bytes_def)

theorem endpoint_queues_refine_witness:
  "represents (Enqueue_Caller 5 7 ep_demo) ((\<lambda>_. [])(5 := [7]), \<lambda>_. [])"
proof -
  have "ep_admissible (Op_Enqueue 5 7) ep_demo" by (simp add: ep_demo_def)
  from endpoint_queues_refine [OF ep_demo_run this] show ?thesis by simp
qed

text \<open>
  Property C16: no thread stays behind at an endpoint that fails. In every run the call returns, the endpoint has neither callers nor
  copies nor a receiver, every thread that was queued or registered as the receiver is dead or able to run, and each thread the
  call woke finds the result \<open>Result_Endpoint_Gone\<close>; no other thread changes its state or its result.
\<close>

theorem failed_endpoint_strands_nobody:
  assumes "ep_run X k s A" and "a \<noteq> 0" and "\<not> ep_failed (ip_endpoints k a)"
  shows "\<exists>k'. Fail_Endpoint a k = Some k' \<and>
    ep_head (ip_endpoints k' a) = 0 \<and> ep_send_head (ip_endpoints k' a) = 0 \<and> ep_receiver (ip_endpoints k' a) = 0 \<and>
    (\<forall>t. t \<in> set (fst A a) \<or> t = ep_receiver (ip_endpoints k a) \<and> t \<noteq> 0 \<longrightarrow> et_state (ip_threads k' t) \<in> {Dead, Running, Ready}) \<and>
    (\<forall>t. et_state (ip_threads k' t) = et_state (ip_threads k t) \<and> et_saved (ip_threads k' t) = et_saved (ip_threads k t) \<or>
      et_state (ip_threads k' t) = Ready \<and> et_saved (ip_threads k' t) = Result_Endpoint_Gone)"
proof -
  obtain S F where p: "pool_ok X k s S F" and q: "queue_ok k (fst A)" using ep_run_inv [OF assms(1)] by (auto simp: ep_inv_def)
  show ?thesis
  proof (rule Fail_Endpoint_ok [OF q p assms(2,3)], goal_cases)
    case (1 k')
    have "ep_head (ip_endpoints k' a) = 0" using queue_okD(5) [OF 1(2) assms(2)] by simp
    moreover have "ep_send_head (ip_endpoints k' a) = 0" using sends_okD(3) [OF pool_ok_sends [OF 1(4)] assms(2)] by simp
    ultimately show ?case using 1(1,8-10) by blast
  qed
qed

theorem failed_endpoint_strands_nobody_witness:
  "\<exists>k'. Fail_Endpoint 5 (Enqueue_Caller 5 7 ep_demo) = Some k' \<and> et_state (ip_threads k' 7) = Ready"
proof -
  have "ep_admissible (Op_Enqueue 5 7) ep_demo" by (simp add: ep_demo_def)
  from ep_run.call [OF ep_demo_run this, of Res_Done "Enqueue_Caller 5 7 ep_demo" pmm_demo]
  have run: "ep_run {} (Enqueue_Caller 5 7 ep_demo) pmm_demo ((\<lambda>_. [])(5 := [7]), \<lambda>_. [])" by simp
  have "\<not> ep_failed (ip_endpoints (Enqueue_Caller 5 7 ep_demo) 5)" and s: "et_state (ip_threads (Enqueue_Caller 5 7 ep_demo) 7) = Blocked_Send"
    by (simp_all add: ep_demo_def Enqueue_Caller_def tail_suspicious_def Let_def set_thread_def set_endpoint_def)
  have "(5 :: nat) \<noteq> 0" by simp
  from failed_endpoint_strands_nobody [OF run this \<open>\<not> ep_failed _\<close>] obtain k' where k': "Fail_Endpoint 5 (Enqueue_Caller 5 7 ep_demo) = Some k'"
    "\<forall>t. t \<in> {7} \<longrightarrow> et_state (ip_threads k' t) \<in> {Dead, Running, Ready}"
    "\<forall>t. et_state (ip_threads k' t) = et_state (ip_threads (Enqueue_Caller 5 7 ep_demo) t) \<or> et_state (ip_threads k' t) = Ready"
    by auto
  then show ?thesis using s k'(2) [rule_format, of 7] k'(3) [rule_format, of 7] by auto
qed

text \<open>
  The enqueue mends a stored tail that is stale, by a walk from the head (\<open>Enqueue_Caller_ok\<close> under \<open>tail_fixable\<close>), but not
  when the stale tail is the caller itself: its own fields are reset before the tail is looked at, so the tail passes for a good one.
  The caller is then linked behind itself, an empty queue keeps an empty head, and no receive finds the caller.
\<close>

theorem stale_own_tail_loses_caller:
  assumes "a \<noteq> 0" and "t \<noteq> 0" and "ep_tail (ip_endpoints k a) = t" and "ep_head (ip_endpoints k a) = 0"
  shows "et_on (ip_threads (Enqueue_Caller a t k) t) = a \<and> et_next (ip_threads (Enqueue_Caller a t k) t) = t \<and>
    Dequeue_Caller a (Enqueue_Caller a t k) = Some (0, Enqueue_Caller a t k)"
  using assms by (simp add: Enqueue_Caller_def tail_suspicious_def Let_def Dequeue_Caller.simps)

end
