(* ===== verification/Spec2Isabelle.thy ===== *)
theory Spec2Isabelle
  imports Sock_Safety Netdb Rt_Clock Ft_Shim Aknet_Tcp Raise_Gcc Gnat_Time Gnat_Env Kernel_Grant Kernel_Messages
begin

text \<open>
  A verification library for the C code of Aegir, the system call layer under its C library, and the memory and capability core
  of its kernel.

  \<^bold>\<open>The program.\<close> Aegir is an operating system written in Ada; its user space contains C where Ada
  has to meet a C interface. Five parts of that C code carry logic of their own, one package of Ada code is the
  layer they stand on, and the objects that layer asks the kernel for are kept by a few packages of the kernel:

  \<^item> the socket layer of the Ada runtime (\<^verbatim>\<open>gnat-rts/gnat_user/aegir_gsocket.c\<close>): BSD sockets,
    \<open>select\<close>, \<open>poll\<close>, signalling descriptors and the name service for \<open>GNAT.Sockets\<close>, on top of a
    bridge of Ada subprograms (\<open>aknet_sock_*\<close>) that talks to the network server;
  \<^item> the adapter between the network server and lwIP (\<^verbatim>\<open>lwip/port/aknet_glue.c\<close>): the interface
    driver, the queue of packets the machine sends to itself, and the UDP, raw, ARP, DNS, DHCP and
    TCP entry points and callbacks;
  \<^item> the FreeType shim (\<^verbatim>\<open>freetype/port/ftaegir.c\<close>) and the clock, sleep and exit glue
    (\<^verbatim>\<open>aegir_rtclock.c\<close>, \<^verbatim>\<open>aegir_nanosleep.c\<close>, \<^verbatim>\<open>aegir_glue.c\<close>, \<^verbatim>\<open>sys_arch.c\<close>);
  \<^item> the exception personality of the GNAT runtime (\<^verbatim>\<open>gnat/raise-gcc.c\<close>, \<^verbatim>\<open>gnat/unwind-pe.h\<close>), which the
    unwinder calls for every frame and which reads the tables the compiler writes;
  \<^item> the host interface of that runtime (\<^verbatim>\<open>gnat_full/adaint.c\<close>, \<^verbatim>\<open>env.c\<close>, \<^verbatim>\<open>argv.c\<close>, \<^verbatim>\<open>cstreams.c\<close>,
    \<^verbatim>\<open>sysdep.c\<close>, \<^verbatim>\<open>mkdir.c\<close>, \<^verbatim>\<open>errno.c\<close>, \<^verbatim>\<open>cal.c\<close>, \<^verbatim>\<open>targext.c\<close>) as it is configured for Aegir: files, paths, directories,
    the environment, processes, time and streams;
  \<^item> the system call layer (\<^verbatim>\<open>rts/aegir/aegir_user-gloss.adb\<close>), which implements the calls of that interface and of
    the C library as requests to the file server, with the part of the file protocol's client it uses
    (\<^verbatim>\<open>aegir_user-files.adb\<close>) and the growing tables behind its descriptors (\<^verbatim>\<open>aegir_user-tables.adb\<close>);
  \<^item> the kernel's memory and capabilities (\<^verbatim>\<open>src/kernel/kernel-physical_memory.adb\<close>, \<^verbatim>\<open>kernel-capabilities.adb\<close>,
    \<^verbatim>\<open>kernel-memory.adb\<close>, \<^verbatim>\<open>kernel-notifications.adb\<close>, of \<^verbatim>\<open>kernel-ipc.adb\<close> the queues, and of
    \<^verbatim>\<open>kernel-processes.adb\<close> and \<^verbatim>\<open>arch-traps.adb\<close> the grant list of a spawned process, the mint call and the calls that
    consume signals): physical frames, the capability tables that live in them, memory objects made of them,
    notifications and the queues of endpoints.

  \<^bold>\<open>How it is modelled.\<close> Every C function is a definition of the same name (without leading
  underscores), with the state it changes passed in and out, and every Ada subprogram one of its own name. Code outside
  these sources (the Ada bridge, lwIP, FreeType, libgcc, the allocator, the C library, the file server) is a record of
  functions and is an argument of the definitions that call it; what a theorem needs of it is a named predicate (a \<^emph>\<open>contract\<close>), and the
  witness of the theorem instantiates it. Machine integers are words where the code relies on their
  width. A loop that may wait forever is a \<open>partial_function\<close> into \<open>option\<close>, where \<open>None\<close> stands for
  a call that never returns (or, where a theory says so, for a call of \<open>abort\<close> or an invalid access);
  no fuel is used anywhere. Theorems that a call returns are stated as such.

  \<^bold>\<open>The theories.\<close>

  \<^item> \<open>Aegir_Prelude\<close>: word types, C conversions, shared lemmas and the \<open>codec\<close> interface.
  \<^item> \<open>Net_Bytes\<close>, \<open>Fd_Set\<close>: byte order and the 256-bit descriptor sets; the sets implement the
    \<open>bit_set\<close> interface, and the iterator enumerates a set in descending order.
  \<^item> \<open>Sock_Table\<close>: the descriptor table \<open>ak_fds\<close> (an instance of \<open>slot_table\<close>), the bridge record, the
    error words; \<open>Net_Sim\<close> is a small concrete bridge for the witnesses.
  \<^item> \<open>Sock_Calls\<close>, \<open>Sock_Opts\<close>: the calls from \<open>socket\<close> to \<open>sendmsg\<close> on every branch; the option
    array is an instance of \<open>bounded_map\<close>.
  \<^item> \<open>Sock_IO\<close>: the receive and send workers; order and completeness of a stream, return of a
    blocking receive, and the defect of a receive of length 0.
  \<^item> \<open>Sock_Wait\<close>: \<open>select\<close> and \<open>poll\<close>; soundness of their results, return of \<open>poll\<close> with a timeout, for a clock
    that never turns back and calls of any duration (\<open>clock_ok\<close>), and the
    defect of \<open>select\<close>, which clears the caller's sets in its first scan.
  \<^item> \<open>Sock_Signal\<close>: signalling pairs as counters, and the defect of a reused slot.
  \<^item> \<open>Sock_Safety\<close>: the calls as an inductive step relation and the invariant that the handles open
    at the bridge are exactly those of the live descriptors and those that \<^verbatim>\<open>__gnat_close_signalling_fd\<close>, called on a
    socket, has abandoned (a defect).
  \<^item> \<open>Inet_Text\<close>, \<open>Netdb\<close>: the dotted parser against its grammar, \<open>inet_ntop\<close> and \<open>inet_pton\<close>, hosts,
    services and \<open>getaddrinfo\<close> with an explicit heap and an allocator that may fail at any call.
  \<^item> \<open>Aknet_Queue\<close>, \<open>Aknet_Inet\<close>, \<open>Aknet_Tcp\<close>: the lwIP adapter; the hairpin queue is an instance of
    \<open>bounded_fifo\<close>, the list of listeners of \<open>scoped_table\<close>.
  \<^item> \<open>Rt_Clock\<close>, \<open>Ft_Shim\<close>: the clock and sleep glue, the FreeType shim.
  \<^item> \<open>Unwind_Pe\<close>: LEB128 and encoded pointers; both readers implement the \<open>byte_reader\<close> interface, they
    invert the standard encoders on every 64-bit value.
  \<^item> \<open>Raise_Tables\<close>, \<open>Raise_Gcc\<close>: the region description, the call-site search, the matching of choices,
    the chains of action records and the personality routine. The searches are equal to reference
    searches on the abstract tables, the search phase answers exactly what the contents of the
    language-specific data say, and the cleanup phase installs exactly the landing pad and filter they give.
  \<^item> \<open>Gnat_Files\<close>, \<open>Gnat_Paths\<close>: the attribute cache (an instance of \<open>lazy_cache\<close>: cached and uncached
    queries agree), permissions, absolute paths, the search for a file along a path against a
    reference, directory streams, the environment and the arguments; and two defects of the path
    search, a buffer that is one byte short for the empty path and the split of volume names.
  \<^item> \<open>Aegir_Tables\<close>: chunked tables that grow without moving their elements; however several of them grow, their
    elements stay apart and in place.
  \<^item> \<open>Gloss_Files\<close>, \<open>Gloss_Table\<close>, \<open>Gloss_Spec\<close>: the file half of the system call layer. \<open>Gloss_Files\<close> holds the
    definitions; \<open>Gloss_Table\<close> the type invariant of the layer's state over its calls as an inductive step relation and the
    choice of descriptors; \<open>Gloss_Spec\<close> what writing, seeking and reading do to a plain file at a server that may fail any
    request (\<open>plain_open\<close>, \<open>plain_read\<close>, \<open>plain_write\<close>), and the cases where the layer
    departs from what its callers are told (appending, the first relative name, empty reads, negative descriptors).
  \<^item> \<open>Gloss_Sys\<close>: the heap break, the argument vector, the synthesized clock, process exit, the alias names and the calls
    that are not implemented.
  \<^item> \<open>Gnat_Os\<close>, \<open>Gnat_Time\<close>, \<open>Gnat_Streams\<close>: the rest of the runtime's host interface over records of the C library's calls. The
    time of a file is exact or refused, measured on the Gregorian calendar; \<open>gmtime\<close>, \<open>localtime\<close> and \<open>mktime\<close> are
    parameters.
  \<^item> \<open>Gnat_Gloss\<close>, \<open>Gnat_Env\<close>: the composition of both. The system call layer is the instance of the POSIX record; the
    environment is a map as long as its stores succeed (\<open>env_store\<close> is the interface, which the layer implements at every
    \<open>env_server\<close>), a walk lists a
    directory, creating a new file never touches an existing one while the server answers the open (and
    loses it when the server is not ready, a defect), the lock is never taken, and the name recorded for an
    opened file is not its name in most cases.
  \<^item> \<open>Kernel_Frames\<close>: the frame allocator as bytes of physical memory, with its free list linked through the free frames. The
    interface \<open>frame_source\<close> states what its clients rely on, and the allocator is its instance: a frame handed out is nobody
    else's, usable and zero, and allocation fails only when no usable frame is left.
  \<^item> \<open>Kernel_Caps\<close>, \<open>Kernel_Grant\<close>: the capability tables of all processes, laid out entry by entry in frames of that allocator.
    They refine one finite map per process and never disturb each other; duplicating, granting and minting never
    amplify rights.
  \<^item> \<open>Kernel_Memory\<close>: memory objects; creation succeeds with fresh frames or leaves exactly the frames available that were
    (\<open>ready_frames\<close>), except for the defect of its rollback when there is no first frame, and the last release makes exactly the
    frames of the object available again.
  \<^item> \<open>Kernel_Ntfn\<close>: notifications; signals are neither lost nor invented nor delivered twice, and the two defects of bound threads.
  \<^item> \<open>Kernel_Endpoint\<close>, \<open>Kernel_Messages\<close>: the queues of endpoints, linked through thread control blocks and through the slots of a
    slab. They refine lists of callers and of messages, and an endpoint that fails strands nobody.

  \<^bold>\<open>Bounds.\<close> The exception tables are taken at the encoding the compiler emits (unsigned LEB128 for call
  sites, any fixed-size encoding for types) and below the end of the address space; the readers
  themselves are modelled for every encoding. Counters and clocks are words and may wrap; a theorem
  that needs one not to wrap says so. An access outside a buffer is the result \<open>None\<close> where the code
  can make one (\<open>Netdb\<close>, \<open>Gnat_Paths\<close>, \<open>Gnat_Streams\<close>). In the system call layer offsets and sizes are natural numbers
  with the reduction modulo \<open>2\<^sup>6\<^sup>4\<close> written out; theorems about files assume contents below that size. In the kernel
  physical addresses are natural numbers, reduced modulo \<open>2\<^sup>6\<^sup>4\<close> where the code adds or subtracts, and memory ends below the
  56-bit limit \<open>Phys_Top\<close> of the platform, so that no frame address wraps; tables have 16384 handles, a grant list 32
  entries and a memory object 256 pages, as in the code, and the slots of messages lie in the window of \<open>2\<^sup>3\<^sup>8\<close> bytes the kernel
  maps. The loops over them are bounded by those numbers or by the
  addresses that are left.

  \<^bold>\<open>Not modelled.\<close> The rest of the kernel (scheduling, the transfer of messages and their capabilities, page tables, interrupts, devices, booting), the servers
  and drivers, the desktop and the Ada run-time library are Ada or assembly and not part of this development; the file
  server appears as a record of functions with contracts. Of a thread the kernel theories keep what notifications and endpoint
  queues touch, and the kernel runs under one lock, so its operations are taken one after another. Of the C sources, the branches for other
  hosts and other unwinders are compiled out, the remaining functions of \<^verbatim>\<open>adaint.c\<close> (\<^verbatim>\<open>__gnat_tmp_name\<close>,
  \<^verbatim>\<open>__gnat_os_exit\<close>) call the C library once each, and the headers hold declarations and build options. The stdio of the
  C library is a parameter: its buffering lies between \<^verbatim>\<open>cstreams.c\<close> and the layer.
  Concurrency is not modelled in user space: each of these components runs on one thread (the adapter on the network
  server's service thread, a socket layer in one task of its program).

  \<^bold>\<open>What could follow.\<close> Message transfer and reply capabilities over \<open>Kernel_Caps\<close> and \<open>Kernel_Messages\<close>; the ring of frames that
  libgcc's unwinder walks, to compose the personality routine over a whole stack; the file server behind the contracts
  of \<open>Gloss_Spec\<close> and \<open>Gnat_Env\<close>.
\<close>

end
